(* ===== verification/Go_Prelude.thy ===== *)
theory Go_Prelude
  imports Main "HOL-Library.Sublist" "HOL-Library.List_Lexorder" "HOL-Library.Char_ord"
    "HOL-Library.Multiset"
begin

text \<open>
  The prelude of the development: what every component shares.

  \<^item> Fallible Go functions \<open>func f(..) (T, error)\<close> return a sum, \<open>Inl e\<close> for a non-nil
    error and \<open>Inr x\<close> for a result with a nil error; \<open>bind_res\<close> is the
    \<^verbatim>\<open>if err != nil { return .., err }\<close> chain and \<open>mapM_res\<close> the loop over a slice that
    returns at the first error.
  \<^item> Go strings are byte sequences, here \<open>string\<close> (a list of 8-bit characters). The functions
    of package \<^verbatim>\<open>strings\<close> the source calls are defined on them, and \<open><\<close>, \<open>\<le>\<close> on strings
    are Go's bytewise order.
  \<^item> 64-bit integers are \<open>int\<close> with the wrap-around written out (\<open>wrap64\<close>).
  \<^item> A locale for the one sorting idiom of the source: a slice filled from a map in no
    particular order and then sorted with a comparator on keys that are unique.
\<close>

section \<open>Named collections\<close>

named_theorems res_simps \<open>equations for results that may be errors\<close>
named_theorems go_string \<open>definitions of the functions of package strings\<close>

section \<open>Results\<close>

definition bind_res :: "'e + 'a \<Rightarrow> ('a \<Rightarrow> 'e + 'b) \<Rightarrow> 'e + 'b" where
  "bind_res x f = (case x of Inl e \<Rightarrow> Inl e | Inr y \<Rightarrow> f y)"

lemma bind_res_simps [simp, res_simps]:
  "bind_res (Inl e) f = Inl e"
  "bind_res (Inr y) f = f y"
  by (simp_all add: bind_res_def)

lemma bind_res_cong [fundef_cong]:
  "x = x' \<Longrightarrow> (\<And>y. x' = Inr y \<Longrightarrow> f y = g y) \<Longrightarrow> bind_res x f = bind_res x' g"
  by (auto simp: bind_res_def split: sum.splits)

lemma bind_res_Inr_iff: "bind_res x f = Inr z \<longleftrightarrow> (\<exists>y. x = Inr y \<and> f y = Inr z)"
  by (auto simp: bind_res_def split: sum.splits)

lemma bind_res_Inl_iff:
  "bind_res x f = Inl e \<longleftrightarrow> x = Inl e \<or> (\<exists>y. x = Inr y \<and> f y = Inl e)"
  by (auto simp: bind_res_def split: sum.splits)

lemma bind_res_neq_Inl:
  "x \<noteq> Inl e \<Longrightarrow> (\<And>y. x = Inr y \<Longrightarrow> f y \<noteq> Inl e) \<Longrightarrow> bind_res x f \<noteq> Inl e"
  by (cases x) auto

lemma bind_res_split [split]:
  "P (bind_res x f) \<longleftrightarrow> (\<forall>e. x = Inl e \<longrightarrow> P (Inl e)) \<and> (\<forall>y. x = Inr y \<longrightarrow> P (f y))"
  by (cases x) auto

fun mapM_res :: "('a \<Rightarrow> 'e + 'b) \<Rightarrow> 'a list \<Rightarrow> 'e + 'b list" where
  "mapM_res f [] = Inr []"
| "mapM_res f (x # xs) = bind_res (f x) (\<lambda>y. bind_res (mapM_res f xs) (\<lambda>ys. Inr (y # ys)))"

lemma mapM_res_cong [fundef_cong]:
  "xs = ys \<Longrightarrow> (\<And>x. x \<in> set ys \<Longrightarrow> f x = g x) \<Longrightarrow> mapM_res f xs = mapM_res g ys"
  by (induction xs arbitrary: ys) (auto intro!: bind_res_cong)

lemma mapM_res_Inr_iff:
  "mapM_res f xs = Inr ys \<longleftrightarrow> list_all2 (\<lambda>x y. f x = Inr y) xs ys"
  by (induction xs arbitrary: ys) (auto simp: bind_res_Inr_iff list_all2_Cons1)

lemma mapM_res_Inr_length: "mapM_res f xs = Inr ys \<Longrightarrow> length ys = length xs"
  by (simp add: mapM_res_Inr_iff list_all2_lengthD)

lemma mapM_res_Inr_set:
  "mapM_res f xs = Inr ys \<Longrightarrow> y \<in> set ys \<Longrightarrow> \<exists>x \<in> set xs. f x = Inr y"
  by (fastforce simp: mapM_res_Inr_iff list_all2_conv_all_nth in_set_conv_nth)

lemma mapM_res_all_Inr:
  "(\<And>x. x \<in> set xs \<Longrightarrow> f x = Inr (g x)) \<Longrightarrow> mapM_res f xs = Inr (map g xs)"
  by (induction xs) auto

lemma mapM_res_Inl:
  "mapM_res f xs = Inl e \<Longrightarrow> \<exists>x \<in> set xs. f x = Inl e"
  by (induction xs) (auto simp: bind_res_Inl_iff)

section \<open>Package strings on byte strings\<close>

definition HasPrefix :: "string \<Rightarrow> string \<Rightarrow> bool" where
  [go_string]: "HasPrefix s p = prefix p s"

definition HasSuffix :: "string \<Rightarrow> string \<Rightarrow> bool" where
  [go_string]: "HasSuffix s p = suffix p s"

definition Contains :: "string \<Rightarrow> string \<Rightarrow> bool" where
  [go_string]: "Contains s p = sublist p s"

text \<open>\<open>strings.Trim\<close> with a cut set of one byte.\<close>

definition Trim :: "string \<Rightarrow> char \<Rightarrow> string" where
  [go_string]: "Trim s c = rev (dropWhile (\<lambda>x. x = c) (rev (dropWhile (\<lambda>x. x = c) s)))"

text \<open>\<open>strings.Join\<close>; it is also used on lists of tokens.\<close>

fun Join :: "'a list list \<Rightarrow> 'a list \<Rightarrow> 'a list" where
  "Join [] sep = []"
| "Join [x] sep = x"
| "Join (x # y # ys) sep = x @ sep @ Join (y # ys) sep"

text \<open>\<open>strings.ReplaceAll\<close> with an \<open>old\<close> of one byte.\<close>

definition ReplaceAll :: "string \<Rightarrow> char \<Rightarrow> string \<Rightarrow> string" where
  [go_string]: "ReplaceAll s old new = concat (map (\<lambda>c. if c = old then new else [c]) s)"

lemma Trim_id: "s = [] \<or> (hd s \<noteq> c \<and> last s \<noteq> c) \<Longrightarrow> Trim s c = s"
proof -
  assume s: "s = [] \<or> (hd s \<noteq> c \<and> last s \<noteq> c)"
  then have "dropWhile (\<lambda>x. x = c) s = s" and "dropWhile (\<lambda>x. x = c) (rev s) = rev s"
    by (auto simp: dropWhile_eq_self_iff hd_rev)
  then show ?thesis by (simp add: Trim_def)
qed

lemma Join_append:
  "xs \<noteq> [] \<Longrightarrow> ys \<noteq> [] \<Longrightarrow> Join (xs @ ys) sep = Join xs sep @ sep @ Join ys sep"
proof (induction xs sep rule: Join.induct)
  case (2 x sep)
  then show ?case by (cases ys) auto
qed auto

lemma Join_Cons: "ys \<noteq> [] \<Longrightarrow> Join (x # ys) sep = x @ sep @ Join ys sep"
  by (cases ys) auto

section \<open>Integers\<close>

text \<open>Two's complement wrap-around of a 64-bit signed result.\<close>

definition wrap64 :: "int \<Rightarrow> int" where
  "wrap64 x = (x + 2 ^ 63) mod 2 ^ 64 - 2 ^ 63"

definition in_int64 :: "int \<Rightarrow> bool" where
  "in_int64 x \<longleftrightarrow> - (2 ^ 63) \<le> x \<and> x < 2 ^ 63"

lemma wrap64_id [simp]: "in_int64 x \<Longrightarrow> wrap64 x = x"
  by (simp add: wrap64_def in_int64_def)

lemma wrap64_range: "in_int64 (wrap64 x)"
proof -
  have "0 \<le> (x + 2 ^ 63) mod 2 ^ 64" and "(x + 2 ^ 63) mod 2 ^ 64 < (2 ^ 64 :: int)"
    by simp_all
  then show ?thesis by (simp add: wrap64_def in_int64_def)
qed

text \<open>Decimal digits, as \<open>strconv.Itoa\<close>, \<open>strconv.FormatInt(x, 10)\<close> and \<^verbatim>\<open>%d\<close> print them.\<close>

definition digit_char :: "int \<Rightarrow> char" where
  "digit_char d = char_of (48 + nat d)"

function dec_digits :: "int \<Rightarrow> string" where
  "dec_digits n =
    (if n < 10 then [digit_char (max 0 n)] else dec_digits (n div 10) @ [digit_char (n mod 10)])"
  by pat_completeness auto
termination
  by (relation "measure nat") auto

declare dec_digits.simps [simp del]

definition Itoa :: "int \<Rightarrow> string" where
  "Itoa x = (if x < 0 then CHR ''-'' # dec_digits (- x) else dec_digits x)"

lemma dec_digits_nonempty [simp]: "dec_digits n \<noteq> []"
  by (subst dec_digits.simps) simp

section \<open>Sorting a slice that was filled from a map\<close>

text \<open>
  Go ranges over a map in an unspecified order. \<open>RuleCache.Rebuild\<close>, \<open>Manager.List\<close> and
  \<open>Stats.TopRules\<close> each collect the entries of a map and sort them by a key on which no two
  entries agree. The locale takes that key as its parameter; its conclusion is that the slice
  does not depend on the order of the range.
\<close>

locale sorted_range =
  fixes key :: "'a \<Rightarrow> 'k::linorder"
    and entries :: "'a set"
  assumes key_inj: "inj_on key entries"
begin

lemma order_irrelevant:
  assumes "set xs = entries" "distinct xs" "set ys = entries" "distinct ys"
  shows "sort_key key xs = sort_key key ys"
proof -
  have "inj_on key (set (sort_key key xs))"
    using key_inj assms by simp
  moreover have "mset (sort_key key ys) = mset (sort_key key xs)"
    using assms set_eq_iff_mset_eq_distinct [of ys xs] by simp
  moreover have "sorted (map key (sort_key key ys))" by simp
  moreover have "map key (sort_key key xs) = map key (sort_key key ys)"
    using calculation(2,3)
    by (metis mset_map properties_for_sort sorted_sort_key)
  ultimately show ?thesis
    by (metis inj_on_map_eq_map mset_eq_setD Un_absorb)
qed

lemma strictly_sorted:
  assumes "set xs = entries" "distinct xs"
  shows "sorted_wrt (\<lambda>a b. key a < key b) (sort_key key xs)"
proof -
  have "distinct (map key (sort_key key xs))"
    using key_inj assms by (simp add: distinct_map)
  then have "sorted_wrt (<) (map key (sort_key key xs))"
    by (metis sorted_sort_key strict_sorted_iff)
  then show ?thesis by (simp add: sorted_wrt_map)
qed

end

text \<open>Two slices that are strictly sorted by a key and hold the same elements are the same slice.\<close>

lemma strict_key_distinct:
  "sorted_wrt (\<lambda>p q. key p < (key q :: 'k::linorder)) xs \<Longrightarrow> distinct (map key xs)"
  by (simp add: strict_sorted_iff flip: sorted_wrt_map)

lemma strict_key_unique:
  fixes key :: "'a \<Rightarrow> 'k::linorder"
  assumes "sorted_wrt (\<lambda>p q. key p < key q) xs" "sorted_wrt (\<lambda>p q. key p < key q) ys"
    and "set xs = set ys"
  shows "xs = ys"
proof -
  have "sorted_wrt (<) (map key xs)" "sorted_wrt (<) (map key ys)"
    using assms(1,2) by (simp_all add: sorted_wrt_map)
  then have "map key xs = map key ys"
    using assms(3) by (intro strict_sorted_equal) auto
  moreover have "inj_on key (set xs \<union> set ys)"
    using strict_key_distinct [OF assms(1)] assms(3) by (simp add: distinct_map)
  ultimately show ?thesis by (rule map_inj_on)
qed

end
