(* ===== verification/Go_Float.thy ===== *)
theory Go_Float
  imports Go_Prelude
begin

text \<open>
  Go's float64 (IEEE 754 binary64), as far as the source uses it: the comparisons, the
  conversion of integers, \<open>strconv.ParseFloat(s, 64)\<close> and
  \<open>strconv.FormatFloat(x, 'f', -1, 64)\<close>.

  A finite number is \<open>Fin s m e\<close>, the value \<open>(-1)^s * m * 2^e\<close> with \<open>0 \<le> m < 2^53\<close> and
  \<open>-1074 \<le> e \<le> 971\<close>; \<open>round64\<close> rounds a fraction to the nearest such number, ties to even,
  and gives an infinity beyond the largest one. \<open>ParseFloat\<close> follows the syntax of the Go
  library (sign, decimal or hexadecimal mantissa with underscores, exponent, \<open>inf\<close>,
  \<open>infinity\<close>, \<open>nan\<close>); \<open>FormatFloat\<close> prints the shortest decimal that lies in the rounding
  interval of the number, the nearest one if there are two.
\<close>

datatype float64 = NaN | Inf bool | Fin bool int int

section \<open>Comparison\<close>

text \<open>Signed mantissas at the smaller of the two exponents.\<close>

definition align :: "bool \<Rightarrow> int \<Rightarrow> int \<Rightarrow> int \<Rightarrow> int" where
  "align s m e e' = (if s then - m else m) * 2 ^ nat (e - e')"

fun f64_lt :: "float64 \<Rightarrow> float64 \<Rightarrow> bool" where
  "f64_lt (Fin s m e) (Fin s' m' e') = (align s m e (min e e') < align s' m' e' (min e e'))"
| "f64_lt (Inf s) (Inf s') = (s \<and> \<not> s')"
| "f64_lt (Inf s) (Fin _ _ _) = s"
| "f64_lt (Fin _ _ _) (Inf s) = (\<not> s)"
| "f64_lt _ _ = False"

fun f64_eq :: "float64 \<Rightarrow> float64 \<Rightarrow> bool" where
  "f64_eq (Fin s m e) (Fin s' m' e') = (align s m e (min e e') = align s' m' e' (min e e'))"
| "f64_eq (Inf s) (Inf s') = (s = s')"
| "f64_eq _ _ = False"

definition f64_le :: "float64 \<Rightarrow> float64 \<Rightarrow> bool" where
  "f64_le a b \<longleftrightarrow> f64_lt a b \<or> f64_eq a b"

section \<open>Rounding\<close>

function bitlen :: "int \<Rightarrow> int" where
  "bitlen n = (if n \<le> 0 then 0 else 1 + bitlen (n div 2))"
  by pat_completeness auto
termination
  by (relation "measure nat") auto

declare bitlen.simps [simp del]

definition round_half_even :: "int \<Rightarrow> int \<Rightarrow> int" where
  "round_half_even a b =
    (let d = a div b; r = a mod b in
     if 2 * r < b then d else if b < 2 * r then d + 1 else if even d then d else d + 1)"

text \<open>The fraction \<open>p / q\<close> in units of \<open>2^e\<close>, as a pair numerator and denominator.\<close>

definition scale2 :: "int \<Rightarrow> int \<Rightarrow> int \<Rightarrow> int \<times> int" where
  "scale2 p q e = (p * 2 ^ nat (- e), q * 2 ^ nat e)"

text \<open>The exponent at which \<open>p / q\<close> has a mantissa of 53 bits, or -1074 for a subnormal.\<close>

definition exponent64 :: "int \<Rightarrow> int \<Rightarrow> int" where
  "exponent64 p q =
    (let e = bitlen p - bitlen q - 53; (a, b) = scale2 p q e
     in max (-1074) (if 2 ^ 53 * b \<le> a then e + 1 else e))"

definition round64 :: "bool \<Rightarrow> int \<Rightarrow> int \<Rightarrow> float64" where
  "round64 s p q =
    (if p = 0 then Fin s 0 0
     else
       let e = exponent64 p q; (a, b) = scale2 p q e; m = round_half_even a b;
         (m', e') = (if m = 2 ^ 53 then (2 ^ 52, e + 1) else (m, e))
       in if 971 < e' then Inf s else Fin s m' e')"

definition float64_of_int :: "int \<Rightarrow> float64" where
  "float64_of_int x = round64 (x < 0) \<bar>x\<bar> 1"

section \<open>Parsing\<close>

datatype num_error = ErrSyntax | ErrRange

definition lower_byte :: "char \<Rightarrow> int" where
  "lower_byte c = (let b = of_char c in if 65 \<le> b \<and> b \<le> 90 then b + 32 else b)"

definition is_dec :: "char \<Rightarrow> bool" where
  "is_dec c \<longleftrightarrow> 48 \<le> (of_char c :: int) \<and> (of_char c :: int) \<le> 57"

definition is_hex :: "char \<Rightarrow> bool" where
  "is_hex c \<longleftrightarrow> is_dec c \<or> (97 \<le> lower_byte c \<and> lower_byte c \<le> 102)"

definition digit_val :: "char \<Rightarrow> int" where
  "digit_val c = (if is_dec c then of_char c - 48 else lower_byte c - 87)"

text \<open>
  The digits of the mantissa: the digits read so far as one integer, how many of them follow
  the point, whether a point, a digit and an underscore were seen, and the rest.
\<close>

record mant =
  m_val :: int
  m_frac :: int
  m_dot :: bool
  m_digits :: bool
  m_under :: bool

fun read_mant :: "bool \<Rightarrow> mant \<Rightarrow> string \<Rightarrow> mant \<times> string" where
  "read_mant hex m [] = (m, [])"
| "read_mant hex m (c # cs) =
    (if c = CHR ''_'' then read_mant hex (m\<lparr>m_under := True\<rparr>) cs
     else if c = CHR ''.'' then
       if m_dot m then (m, c # cs) else read_mant hex (m\<lparr>m_dot := True\<rparr>) cs
     else if (if hex then is_hex c else is_dec c) then
       read_mant hex
         (m\<lparr>m_val := m_val m * (if hex then 16 else 10) + digit_val c,
            m_frac := m_frac m + (if m_dot m then 1 else 0),
            m_digits := True\<rparr>) cs
     else (m, c # cs))"

text \<open>The digits of an exponent; the value is no longer extended once it has reached 10000.\<close>

fun read_exp :: "int \<Rightarrow> bool \<Rightarrow> string \<Rightarrow> int \<times> bool \<times> string" where
  "read_exp e u [] = (e, u, [])"
| "read_exp e u (c # cs) =
    (if c = CHR ''_'' then read_exp e True cs
     else if is_dec c then read_exp (if e < 10000 then e * 10 + digit_val c else e) u cs
     else (e, u, c # cs))"

text \<open>Where underscores may stand: between digits, or between a base prefix and a digit.\<close>

fun under_loop :: "bool \<Rightarrow> char \<Rightarrow> string \<Rightarrow> bool" where
  "under_loop hex i [] = (i \<noteq> CHR ''_'')"
| "under_loop hex i (c # cs) =
    (if is_dec c \<or> (hex \<and> is_hex c) then under_loop hex CHR ''0'' cs
     else if c = CHR ''_'' then if i = CHR ''0'' then under_loop hex CHR ''_'' cs else False
     else if i = CHR ''_'' then False
     else under_loop hex CHR ''!'' cs)"

definition drop_sign :: "string \<Rightarrow> bool \<times> string" where
  "drop_sign s =
    (case s of
       c # cs \<Rightarrow>
         if c = CHR ''+'' then (False, cs) else if c = CHR ''-'' then (True, cs) else (False, s)
     | [] \<Rightarrow> (False, []))"

definition underscoreOK :: "string \<Rightarrow> bool" where
  "underscoreOK s =
    (let t = snd (drop_sign s) in
     case t of
       z # x # cs \<Rightarrow>
         if z = CHR ''0'' \<and> (lower_byte x = 98 \<or> lower_byte x = 111 \<or> lower_byte x = 120)
         then under_loop (lower_byte x = 120) CHR ''0'' cs
         else under_loop False CHR ''^'' t
     | _ \<Rightarrow> under_loop False CHR ''^'' t)"

definition fold_case_eq :: "string \<Rightarrow> string \<Rightarrow> bool" where
  "fold_case_eq s t \<longleftrightarrow> map lower_byte s = map lower_byte t"

text \<open>\<open>special\<close>, on whole strings: an optional sign with \<open>inf\<close> or \<open>infinity\<close>, or \<open>nan\<close>.\<close>

definition parse_special :: "string \<Rightarrow> float64 option" where
  "parse_special s =
    (let (neg, t) = drop_sign s in
     if fold_case_eq t ''inf'' \<or> fold_case_eq t ''infinity'' then Some (Inf neg)
     else if fold_case_eq s ''nan'' then Some NaN
     else None)"

definition scale_pow :: "int \<Rightarrow> int \<Rightarrow> int \<Rightarrow> int \<times> int" where
  "scale_pow m base e = (m * base ^ nat e, base ^ nat (- e))"

text \<open>\<open>readFloat\<close> on a whole string: sign, numerator and denominator.\<close>

definition read_float :: "string \<Rightarrow> (bool \<times> int \<times> int) option" where
  "read_float s =
    (let (neg, t) = drop_sign s;
         hex = (case t of z # x # _ # _ \<Rightarrow> z = CHR ''0'' \<and> lower_byte x = 120 | _ \<Rightarrow> False);
         (m, u) = read_mant hex
           \<lparr>m_val = 0, m_frac = 0, m_dot = False, m_digits = False, m_under = False\<rparr>
           (if hex then drop 2 t else t)
     in if \<not> m_digits m then None
        else case u of
          [] \<Rightarrow>
            if hex \<or> (m_under m \<and> \<not> underscoreOK s) then None
            else let (p, q) = scale_pow (m_val m) 10 (- m_frac m) in Some (neg, p, q)
        | c # cs \<Rightarrow>
            if lower_byte c \<noteq> (if hex then 112 else 101) then None
            else let (eneg, v) = drop_sign cs in
              (case v of
                 [] \<Rightarrow> None
               | d # _ \<Rightarrow>
                   if \<not> is_dec d then None
                   else let (e, un, rest) = read_exp 0 False v; x = (if eneg then - e else e) in
                     if rest \<noteq> [] \<or> ((m_under m \<or> un) \<and> \<not> underscoreOK s) then None
                     else let (p, q) =
                         (if hex then scale_pow (m_val m) 2 (x - 4 * m_frac m)
                          else scale_pow (m_val m) 10 (x - m_frac m))
                       in Some (neg, p, q)))"

definition ParseFloat :: "string \<Rightarrow> num_error + float64" where
  "ParseFloat s =
    (case parse_special s of
       Some f \<Rightarrow> Inr f
     | None \<Rightarrow>
         (case read_float s of
            None \<Rightarrow> Inl ErrSyntax
          | Some (neg, p, q) \<Rightarrow>
              (case round64 neg p q of Inf _ \<Rightarrow> Inl ErrRange | f \<Rightarrow> Inr f)))"

section \<open>Printing\<close>

text \<open>
  The rounding interval of \<open>m * 2^e\<close> in quarter units: half a unit above, half a unit below,
  and only a quarter below a power of two that is not the smallest normal number. The ends
  belong to the interval when the mantissa is even.
\<close>

definition lower4 :: "int \<Rightarrow> int \<Rightarrow> int" where
  "lower4 m e = (if m = 2 ^ 52 \<and> -1074 < e then 4 * m - 1 else 4 * m - 2)"

definition upper4 :: "int \<Rightarrow> int" where
  "upper4 m = 4 * m + 2"

text \<open>Is \<open>d * 10^p\<close> at or above the lower end, at or below the upper end?\<close>

definition dec_in_lower :: "int \<Rightarrow> int \<Rightarrow> int \<Rightarrow> int \<Rightarrow> bool" where
  "dec_in_lower m e d p =
    (let l = lower4 m e * 2 ^ nat (e - 2) * 10 ^ nat (- p);
         x = d * 10 ^ nat p * 2 ^ nat (2 - e)
     in l < x \<or> (even m \<and> l = x))"

definition dec_in_upper :: "int \<Rightarrow> int \<Rightarrow> int \<Rightarrow> int \<Rightarrow> bool" where
  "dec_in_upper m e d p =
    (let u = upper4 m * 2 ^ nat (e - 2) * 10 ^ nat (- p);
         x = d * 10 ^ nat p * 2 ^ nat (2 - e)
     in x < u \<or> (even m \<and> u = x))"

text \<open>
  The largest unit \<open>10^p\<close> of which a multiple next to the number lies in the interval, with
  the multiple: the one below, the one above, or the nearer of the two (ties to even).
\<close>

function shortest :: "int \<Rightarrow> int \<Rightarrow> int \<Rightarrow> int \<times> int" where
  "shortest m e p =
    (let a = m * 2 ^ nat e * 10 ^ nat (- p); b = 2 ^ nat (- e) * 10 ^ nat p; d = a div b;
         down = dec_in_lower m e d p; up = dec_in_upper m e (d + 1) p
     in if down \<and> up then (round_half_even a b, p)
        else if down then (d, p)
        else if up then (d + 1, p)
        else if p \<le> -1074 then (d, p)
        else shortest m e (p - 1))"
  by pat_completeness auto
termination
  by (relation "measure (\<lambda>(m, e, p). nat (p + 1074))") auto

declare shortest.simps [simp del]

text \<open>
  A power of ten above the number, to start the search from: \<open>m * 2^e < 2^(bitlen m + e)\<close> and
  \<open>0.30 < log 10 2 < 0.31\<close>.
\<close>

definition top_pow10 :: "int \<Rightarrow> int \<Rightarrow> int" where
  "top_pow10 m e = (let k = bitlen m + e in k * (if k < 0 then 30 else 31) div 100 + 2)"

definition zeros :: "int \<Rightarrow> string" where
  "zeros n = replicate (nat n) CHR ''0''"

text \<open>\<open>d * 10^p\<close> without an exponent: \<open>%f\<close> with as many decimals as there are digits.\<close>

definition fmt_dec :: "int \<Rightarrow> int \<Rightarrow> string" where
  "fmt_dec d p =
    (let ds = dec_digits d in
     if 0 \<le> p then ds @ zeros p
     else
       let padded = zeros (1 - p - int (length ds)) @ ds; n = length padded - nat (- p)
       in take n padded @ ''.'' @ drop n padded)"

fun FormatFloat :: "float64 \<Rightarrow> string" where
  "FormatFloat NaN = ''NaN''"
| "FormatFloat (Inf s) = (if s then ''-Inf'' else ''+Inf'')"
| "FormatFloat (Fin s m e) =
    (if s then ''-'' else '''') @
    (if m = 0 then ''0'' else let (d, p) = shortest m e (top_pow10 m e) in fmt_dec d p)"

end
