(* ===== verification/Go_Value.thy ===== *)
theory Go_Value
  imports Go_Float "HOL-Library.Word"
begin

text \<open>
  Dynamically typed values: Go's \<open>any\<close>, as the rows \<open>map[string]any\<close> and the decoded JSON
  documents of the source hold them. One constructor per dynamic type a type switch of the
  source names, \<open>AOther\<close> for every other type. A float32 is kept as the float64 it converts to,
  which is exact.
\<close>

datatype any =
    ANil
  | ABool bool
  | AString string
  | AInt "64 word" | AInt8 "8 word" | AInt16 "16 word" | AInt32 "32 word" | AInt64 "64 word"
  | AUint "64 word" | AUint8 "8 word" | AUint16 "16 word" | AUint32 "32 word" | AUint64 "64 word"
  | AFloat32 float64 | AFloat64 float64
  | AJsonNumber string
  | ASlice "any list"
  | AMap "(string \<times> any) list"
  | AOther

text \<open>A row of the wide table, Go's \<open>map[string]any\<close>; reading a missing key gives nil.\<close>

type_synonym row = "string \<rightharpoonup> any"

definition row_get :: "row \<Rightarrow> string \<Rightarrow> any" where
  "row_get r f = (case r f of None \<Rightarrow> ANil | Some v \<Rightarrow> v)"

text \<open>The numeric value of a dynamic value of one of Go's number types, and no other.\<close>

fun any_num :: "any \<Rightarrow> float64 option" where
  "any_num (AInt x) = Some (float64_of_int (sint x))"
| "any_num (AInt8 x) = Some (float64_of_int (sint x))"
| "any_num (AInt16 x) = Some (float64_of_int (sint x))"
| "any_num (AInt32 x) = Some (float64_of_int (sint x))"
| "any_num (AInt64 x) = Some (float64_of_int (sint x))"
| "any_num (AUint x) = Some (float64_of_int (uint x))"
| "any_num (AUint8 x) = Some (float64_of_int (uint x))"
| "any_num (AUint16 x) = Some (float64_of_int (uint x))"
| "any_num (AUint32 x) = Some (float64_of_int (uint x))"
| "any_num (AUint64 x) = Some (float64_of_int (uint x))"
| "any_num (AFloat32 x) = Some x"
| "any_num (AFloat64 x) = Some x"
| "any_num _ = None"

definition FormatBool :: "bool \<Rightarrow> string" where
  "FormatBool b = (if b then ''true'' else ''false'')"

lemma FormatBool_inj [simp]: "FormatBool a = FormatBool b \<longleftrightarrow> a = b"
  by (auto simp: FormatBool_def)

end
