(* ===== verification/VM_Machine.thy ===== *)
theory VM_Machine
  imports Go_Value Go_Prelude
begin

text \<open>
  The stack machine of package \<^verbatim>\<open>vm\<close>: its values (\<^verbatim>\<open>pkg/vm/value.go\<close>), its instructions and
  programs (\<^verbatim>\<open>pkg/vm/opcode.go\<close>) and the interpreter \<open>Eval\<close> (\<^verbatim>\<open>pkg/vm/vm.go\<close>).

  The array \<open>st\<close> with the stack pointer \<open>sp\<close> is the list of its first \<open>sp\<close> elements, the top first:
  the elements above \<open>sp\<close> are never read again. An operand that indexes a constant pool out of
  range makes Go panic, so one instruction either panics, returns from \<open>Eval\<close> (always with
  \<open>false\<close>) or continues with a new stack.
\<close>

section \<open>Values\<close>

datatype vkind = kUndef | kNum | kStr | kBool

record vm_Value =
  v_s :: string
  v_n :: float64
  v_k :: vkind
  v_b :: bool

definition undef :: vm_Value where
  "undef = \<lparr>v_s = [], v_n = Fin False 0 0, v_k = kUndef, v_b = False\<rparr>"

definition numV :: "float64 \<Rightarrow> vm_Value" where
  "numV f = undef\<lparr>v_k := kNum, v_n := f\<rparr>"

definition strV :: "string \<Rightarrow> vm_Value" where
  "strV s = undef\<lparr>v_k := kStr, v_s := s\<rparr>"

definition boolV :: "bool \<Rightarrow> vm_Value" where
  "boolV b = undef\<lparr>v_k := kBool, v_b := b\<rparr>"

definition toValue :: "any \<Rightarrow> vm_Value" where
  "toValue raw =
    (case raw of
       ANil \<Rightarrow> undef
     | ABool x \<Rightarrow> boolV x
     | AString x \<Rightarrow> strV x
     | _ \<Rightarrow> (case any_num raw of Some f \<Rightarrow> numV f | None \<Rightarrow> undef))"

definition vm_asString :: "vm_Value \<Rightarrow> string" where
  "vm_asString v =
    (case v_k v of
       kStr \<Rightarrow> v_s v
     | kNum \<Rightarrow> FormatFloat (v_n v)
     | kBool \<Rightarrow> (if v_b v then ''true'' else ''false'')
     | kUndef \<Rightarrow> '''')"

definition vm_eq :: "vm_Value \<Rightarrow> vm_Value \<Rightarrow> bool" where
  "vm_eq a b =
    (if v_k a = kNum \<and> v_k b = kNum then f64_eq (v_n a) (v_n b)
     else if v_k a = kBool \<and> v_k b = kBool then v_b a = v_b b
     else vm_asString a = vm_asString b)"

lemma vm_Value_simps [simp]:
  "v_k undef = kUndef" "v_b undef = False"
  "v_k (numV f) = kNum" "v_n (numV f) = f" "v_b (numV f) = False"
  "v_k (strV s) = kStr" "v_s (strV s) = s" "v_b (strV s) = False"
  "v_k (boolV b) = kBool" "v_b (boolV b) = b"
  by (simp_all add: undef_def numV_def strV_def boolV_def)

lemma boolV_inj [simp]: "boolV a = boolV b \<longleftrightarrow> a = b"
  by (auto dest: arg_cong [where f = v_b])

lemma asString_simps [simp]:
  "vm_asString (numV f) = FormatFloat f" "vm_asString (strV s) = s"
  "vm_asString (boolV b) = FormatBool b" "vm_asString undef = ''''"
  by (simp_all add: vm_asString_def FormatBool_def)

section \<open>Instructions and programs\<close>

datatype OpCode =
    OpLoadField | OpConstNum | OpConstStr
  | OpEq | OpNe | OpGt | OpGe | OpLt | OpLe
  | OpBetween | OpIn
  | OpLikePrefix | OpLikeSuffix | OpLikeContains | OpLikeEq
  | OpIsNull | OpIsNotNull
  | OpAnd | OpOr | OpNot

record Instr =
  Op :: OpCode
  A :: "32 word"

record Program =
  Source :: string
  Code :: "Instr list"
  Nums :: "float64 list"
  Strs :: "string list"
  Fields :: "string list"
  Sets :: "string set list"

definition instr :: "OpCode \<Rightarrow> 32 word \<Rightarrow> Instr" where
  "instr op a = \<lparr>Op = op, A = a\<rparr>"

lemma instr_simps [simp]: "Op (instr op a) = op" "A (instr op a) = a"
  by (simp_all add: instr_def)

definition Len :: "Program \<Rightarrow> nat" where
  "Len p = length (Code p)"

text \<open>Indexing a slice with an \<open>int32\<close>: a panic (\<open>None\<close>) when the index is negative or too large.\<close>

definition at32 :: "'a list \<Rightarrow> 32 word \<Rightarrow> 'a option" where
  "at32 xs a = (if 0 \<le> sint a \<and> sint a < int (length xs) then Some (xs ! nat (sint a)) else None)"

section \<open>The interpreter\<close>

definition stackMax :: nat where
  "stackMax = 256"

definition load :: "Program \<Rightarrow> Instr \<Rightarrow> row \<Rightarrow> vm_Value option" where
  "load p ins r =
    (case Op ins of
       OpConstNum \<Rightarrow> map_option numV (at32 (Nums p) (A ins))
     | OpConstStr \<Rightarrow> map_option strV (at32 (Strs p) (A ins))
     | _ \<Rightarrow> map_option (\<lambda>f. case r f of Some raw \<Rightarrow> toValue raw | None \<Rightarrow> undef)
             (at32 (Fields p) (A ins)))"

definition vm_compare :: "vm_Value \<Rightarrow> vm_Value \<Rightarrow> OpCode \<Rightarrow> bool" where
  "vm_compare a b op =
    (if v_k a = kUndef \<or> v_k b = kUndef then False
     else case op of
       OpEq \<Rightarrow> vm_eq a b
     | OpNe \<Rightarrow> \<not> vm_eq a b
     | _ \<Rightarrow>
       if v_k a = kNum \<and> v_k b = kNum \<and> op \<in> {OpGt, OpGe, OpLt, OpLe}
       then (case op of
           OpGt \<Rightarrow> f64_lt (v_n b) (v_n a)
         | OpGe \<Rightarrow> f64_le (v_n b) (v_n a)
         | OpLt \<Rightarrow> f64_lt (v_n a) (v_n b)
         | _ \<Rightarrow> f64_le (v_n a) (v_n b))
       else let as = vm_asString a; bs = vm_asString b in
         (case op of
           OpGt \<Rightarrow> bs < as
         | OpGe \<Rightarrow> bs \<le> as
         | OpLt \<Rightarrow> as < bs
         | OpLe \<Rightarrow> as \<le> bs
         | _ \<Rightarrow> False))"

definition binaryOp :: "OpCode \<Rightarrow> vm_Value \<Rightarrow> vm_Value \<Rightarrow> bool" where
  "binaryOp op a b =
    (case op of
       OpAnd \<Rightarrow> v_b a \<and> v_b b
     | OpOr \<Rightarrow> v_b a \<or> v_b b
     | _ \<Rightarrow> vm_compare a b op)"

text \<open>
  \<open>unaryOp\<close>: the index of a LIKE operand is evaluated only when \<open>x\<close> is defined (\<^verbatim>\<open>&&\<close>
  short-circuits), the index of an IN operand always.
\<close>

definition like_with ::
  "(string \<Rightarrow> string \<Rightarrow> bool) \<Rightarrow> Program \<Rightarrow> Instr \<Rightarrow> vm_Value \<Rightarrow> bool option" where
  "like_with test p ins x =
    (if v_k x = kUndef then Some False
     else map_option (test (vm_asString x)) (at32 (Strs p) (A ins)))"

definition unaryOp :: "Program \<Rightarrow> Instr \<Rightarrow> vm_Value \<Rightarrow> bool option" where
  "unaryOp p ins x =
    (case Op ins of
       OpIn \<Rightarrow> map_option (\<lambda>m. vm_asString x \<in> m \<and> v_k x \<noteq> kUndef) (at32 (Sets p) (A ins))
     | OpLikePrefix \<Rightarrow> like_with HasPrefix p ins x
     | OpLikeSuffix \<Rightarrow> like_with HasSuffix p ins x
     | OpLikeContains \<Rightarrow> like_with Contains p ins x
     | OpLikeEq \<Rightarrow> like_with (=) p ins x
     | OpIsNull \<Rightarrow> Some (v_k x = kUndef)
     | OpIsNotNull \<Rightarrow> Some (v_k x \<noteq> kUndef)
     | OpNot \<Rightarrow> Some (v_k x = kBool \<and> \<not> v_b x)
     | _ \<Rightarrow> Some False)"

datatype vm_step = Panic | ReturnFalse | Continue "vm_Value list"

definition eval_step :: "Program \<Rightarrow> row \<Rightarrow> Instr \<Rightarrow> vm_Value list \<Rightarrow> vm_step" where
  "eval_step p r ins st =
    (if Op ins \<in> {OpLoadField, OpConstNum, OpConstStr} then
       (if stackMax \<le> length st then ReturnFalse
        else case load p ins r of None \<Rightarrow> Panic | Some v \<Rightarrow> Continue (v # st))
     else if Op ins = OpBetween then
       (case st of
          hi # lo # x # st' \<Rightarrow>
            Continue (boolV (v_k x = kNum \<and> v_k lo = kNum \<and> v_k hi = kNum \<and>
              f64_le (v_n lo) (v_n x) \<and> f64_le (v_n x) (v_n hi)) # st')
        | _ \<Rightarrow> ReturnFalse)
     else if Op ins \<in> {OpEq, OpNe, OpGt, OpGe, OpLt, OpLe, OpAnd, OpOr} then
       (case st of
          b # a # st' \<Rightarrow> Continue (boolV (binaryOp (Op ins) a b) # st')
        | _ \<Rightarrow> ReturnFalse)
     else
       (case st of
          x # st' \<Rightarrow>
            (case unaryOp p ins x of None \<Rightarrow> Panic | Some b \<Rightarrow> Continue (boolV b # st'))
        | _ \<Rightarrow> ReturnFalse))"

text \<open>The loop over the instructions, from a given stack.\<close>

fun exec :: "Program \<Rightarrow> row \<Rightarrow> Instr list \<Rightarrow> vm_Value list \<Rightarrow> vm_step" where
  "exec p r [] st = Continue st"
| "exec p r (ins # code) st =
    (case eval_step p r ins st of
       Panic \<Rightarrow> Panic
     | ReturnFalse \<Rightarrow> ReturnFalse
     | Continue st' \<Rightarrow> exec p r code st')"

text \<open>\<open>Eval\<close>; \<open>None\<close> is a panic.\<close>

definition Eval :: "Program \<Rightarrow> row \<Rightarrow> bool option" where
  "Eval p r =
    (case exec p r (Code p) [] of
       Panic \<Rightarrow> None
     | ReturnFalse \<Rightarrow> Some False
     | Continue [v] \<Rightarrow> Some (v_k v = kBool \<and> v_b v)
     | Continue _ \<Rightarrow> Some False)"

section \<open>Running code in pieces\<close>

definition bind_step :: "vm_step \<Rightarrow> (vm_Value list \<Rightarrow> vm_step) \<Rightarrow> vm_step" where
  "bind_step x f = (case x of Panic \<Rightarrow> Panic | ReturnFalse \<Rightarrow> ReturnFalse | Continue st \<Rightarrow> f st)"

lemma bind_step_simps [simp]:
  "bind_step Panic f = Panic" "bind_step ReturnFalse f = ReturnFalse"
  "bind_step (Continue st) f = f st"
  by (simp_all add: bind_step_def)

lemma exec_append: "exec p r (c @ d) st = bind_step (exec p r c st) (exec p r d)"
  by (induction c arbitrary: st) (simp_all split: vm_step.splits)

lemma at32_prefix: "at32 xs a = Some v \<Longrightarrow> prefix xs ys \<Longrightarrow> at32 ys a = Some v"
  by (auto simp: at32_def prefix_def nth_append split: if_splits)

lemma at32_last:
  assumes "length xs < 2 ^ 31"
  shows "at32 (xs @ [v]) (word_of_int (int (length xs))) = Some v"
proof -
  have "sint (word_of_int (int (length xs)) :: 32 word) = int (length xs)"
    using assms by (subst sint_sbintrunc') (simp add: signed_take_bit_int_eq_self)
  then show ?thesis by (simp add: at32_def)
qed

text \<open>A program cannot grow the stack past its bound, whatever its instructions are.\<close>

lemma eval_step_bounded:
  "eval_step p r ins st = Continue st' \<Longrightarrow> length st \<le> stackMax \<Longrightarrow> length st' \<le> stackMax"
  by (auto simp: eval_step_def split: if_splits option.splits list.splits)

lemma exec_bounded:
  "exec p r code st = Continue st' \<Longrightarrow> length st \<le> stackMax \<Longrightarrow> length st' \<le> stackMax"
  by (induction code arbitrary: st) (auto split: vm_step.splits dest: eval_step_bounded)

end
