(* ===== verification/IR_Ast.thy ===== *)
theory IR_Ast
  imports Go_Prelude
begin

text \<open>
  The unified intermediate representation of \<^verbatim>\<open>pkg/ir/ast.go\<close>: the struct \<open>Value\<close> as a record,
  the interface \<open>Node\<close> with its seven implementations as a datatype. The structural notions the
  other components share are here too: the fields a node reads, and well-formedness (the
  shape every front-end promises: a logic node has one of the two operators and at least two
  arguments, a comparison one of the seven operators).
\<close>

record Value =
  Str :: string
  Num :: string
  IsString :: bool

datatype Node =
    Logic string "Node list"
  | Compare string string Value
  | Between string Value Value
  | In string "Value list" bool
  | Like string string bool
  | IsNull string bool
  | NotNode Node

text \<open>The two composite literals of the source, \<open>Value{Num: t}\<close> and \<open>Value{IsString: true, Str: t}\<close>.\<close>

definition NumValue :: "string \<Rightarrow> Value" where
  "NumValue t = \<lparr>Str = [], Num = t, IsString = False\<rparr>"

definition StrValue :: "string \<Rightarrow> Value" where
  "StrValue t = \<lparr>Str = t, Num = [], IsString = True\<rparr>"

lemma Value_simps [simp]:
  "IsString (NumValue t) = False" "Num (NumValue t) = t" "Str (NumValue t) = []"
  "IsString (StrValue t) = True" "Str (StrValue t) = t" "Num (StrValue t) = []"
  "NumValue t = NumValue u \<longleftrightarrow> t = u" "StrValue t = StrValue u \<longleftrightarrow> t = u"
  "NumValue t \<noteq> StrValue u" "StrValue u \<noteq> NumValue t"
  by (auto simp: NumValue_def StrValue_def)

definition cmp_ops :: "string list" where
  "cmp_ops = [''='', ''=='', ''!='', ''>'', ''>='', ''<'', ''<='']"

fun wf_node :: "Node \<Rightarrow> bool" where
  "wf_node (Logic op args) =
    ((op = ''AND'' \<or> op = ''OR'') \<and> 2 \<le> length args \<and> list_all wf_node args)"
| "wf_node (Compare f op v) = List.member cmp_ops op"
| "wf_node (NotNode n) = wf_node n"
| "wf_node _ = True"

fun is_logic :: "Node \<Rightarrow> bool" where
  "is_logic (Logic _ _) = True"
| "is_logic _ = False"

fun node_fields :: "Node \<Rightarrow> string set" where
  "node_fields (Logic op args) = (\<Union>a \<in> set args. node_fields a)"
| "node_fields (Compare f op v) = {f}"
| "node_fields (Between f lo hi) = {f}"
| "node_fields (In f vs neg) = {f}"
| "node_fields (Like f p neg) = {f}"
| "node_fields (IsNull f neg) = {f}"
| "node_fields (NotNode n) = node_fields n"

end
