(* ===== verification/Go_Unicode.thy ===== *)
theory Go_Unicode
  imports Go_Prelude
begin

text \<open>
  Runes and UTF-8, as the lexer of the rule language uses them: \<open>[]rune(s)\<close> and \<open>string(rs)\<close>
  (\<open>runes_of\<close>, \<open>string_of_runes\<close>), and \<open>unicode.IsLetter\<close>, \<open>unicode.IsDigit\<close> and
  \<open>unicode.IsSpace\<close>. A rune is an \<open>int\<close> (Go's int32 code point). A byte that does not start a
  well-formed sequence decodes to U+FFFD and one byte is consumed; a rune that is no Unicode
  scalar value is encoded as U+FFFD. The range tables are the categories L and Nd and the
  property White\_Space of Unicode 15.0, the version of package \<^verbatim>\<open>unicode\<close>.
\<close>

type_synonym rune = int

section \<open>Character classes\<close>

definition in_ranges :: "(int \<times> int) list \<Rightarrow> int \<Rightarrow> bool" where
  "in_ranges rs r = list_ex (\<lambda>(a, b). a \<le> r \<and> r \<le> b) rs"

definition letter_ranges :: "(int \<times> int) list" where
  "letter_ranges = [
    (170, 170), (181, 181), (186, 186), (192, 214), (216, 246), (248, 705), (710, 721),
    (736, 740), (748, 748), (750, 750), (880, 884), (886, 887), (890, 893), (895, 895),
    (902, 902), (904, 906), (908, 908), (910, 929), (931, 1013), (1015, 1153), (1162, 1327),
    (1329, 1366), (1369, 1369), (1376, 1416), (1488, 1514), (1519, 1522), (1568, 1610),
    (1646, 1647), (1649, 1747), (1749, 1749), (1765, 1766), (1774, 1775), (1786, 1788),
    (1791, 1791), (1808, 1808), (1810, 1839), (1869, 1957), (1969, 1969), (1994, 2026),
    (2036, 2037), (2042, 2042), (2048, 2069), (2074, 2074), (2084, 2084), (2088, 2088),
    (2112, 2136), (2144, 2154), (2160, 2183), (2185, 2190), (2208, 2249), (2308, 2361),
    (2365, 2365), (2384, 2384), (2392, 2401), (2417, 2432), (2437, 2444), (2447, 2448),
    (2451, 2472), (2474, 2480), (2482, 2482), (2486, 2489), (2493, 2493), (2510, 2510),
    (2524, 2525), (2527, 2529), (2544, 2545), (2556, 2556), (2565, 2570), (2575, 2576),
    (2579, 2600), (2602, 2608), (2610, 2611), (2613, 2614), (2616, 2617), (2649, 2652),
    (2654, 2654), (2674, 2676), (2693, 2701), (2703, 2705), (2707, 2728), (2730, 2736),
    (2738, 2739), (2741, 2745), (2749, 2749), (2768, 2768), (2784, 2785), (2809, 2809),
    (2821, 2828), (2831, 2832), (2835, 2856), (2858, 2864), (2866, 2867), (2869, 2873),
    (2877, 2877), (2908, 2909), (2911, 2913), (2929, 2929), (2947, 2947), (2949, 2954),
    (2958, 2960), (2962, 2965), (2969, 2970), (2972, 2972), (2974, 2975), (2979, 2980),
    (2984, 2986), (2990, 3001), (3024, 3024), (3077, 3084), (3086, 3088), (3090, 3112),
    (3114, 3129), (3133, 3133), (3160, 3162), (3165, 3165), (3168, 3169), (3200, 3200),
    (3205, 3212), (3214, 3216), (3218, 3240), (3242, 3251), (3253, 3257), (3261, 3261),
    (3293, 3294), (3296, 3297), (3313, 3314), (3332, 3340), (3342, 3344), (3346, 3386),
    (3389, 3389), (3406, 3406), (3412, 3414), (3423, 3425), (3450, 3455), (3461, 3478),
    (3482, 3505), (3507, 3515), (3517, 3517), (3520, 3526), (3585, 3632), (3634, 3635),
    (3648, 3654), (3713, 3714), (3716, 3716), (3718, 3722), (3724, 3747), (3749, 3749),
    (3751, 3760), (3762, 3763), (3773, 3773), (3776, 3780), (3782, 3782), (3804, 3807),
    (3840, 3840), (3904, 3911), (3913, 3948), (3976, 3980), (4096, 4138), (4159, 4159),
    (4176, 4181), (4186, 4189), (4193, 4193), (4197, 4198), (4206, 4208), (4213, 4225),
    (4238, 4238), (4256, 4293), (4295, 4295), (4301, 4301), (4304, 4346), (4348, 4680),
    (4682, 4685), (4688, 4694), (4696, 4696), (4698, 4701), (4704, 4744), (4746, 4749),
    (4752, 4784), (4786, 4789), (4792, 4798), (4800, 4800), (4802, 4805), (4808, 4822),
    (4824, 4880), (4882, 4885), (4888, 4954), (4992, 5007), (5024, 5109), (5112, 5117),
    (5121, 5740), (5743, 5759), (5761, 5786), (5792, 5866), (5873, 5880), (5888, 5905),
    (5919, 5937), (5952, 5969), (5984, 5996), (5998, 6000), (6016, 6067), (6103, 6103),
    (6108, 6108), (6176, 6264), (6272, 6276), (6279, 6312), (6314, 6314), (6320, 6389),
    (6400, 6430), (6480, 6509), (6512, 6516), (6528, 6571), (6576, 6601), (6656, 6678),
    (6688, 6740), (6823, 6823), (6917, 6963), (6981, 6988), (7043, 7072), (7086, 7087),
    (7098, 7141), (7168, 7203), (7245, 7247), (7258, 7293), (7296, 7304), (7312, 7354),
    (7357, 7359), (7401, 7404), (7406, 7411), (7413, 7414), (7418, 7418), (7424, 7615),
    (7680, 7957), (7960, 7965), (7968, 8005), (8008, 8013), (8016, 8023), (8025, 8025),
    (8027, 8027), (8029, 8029), (8031, 8061), (8064, 8116), (8118, 8124), (8126, 8126),
    (8130, 8132), (8134, 8140), (8144, 8147), (8150, 8155), (8160, 8172), (8178, 8180),
    (8182, 8188), (8305, 8305), (8319, 8319), (8336, 8348), (8450, 8450), (8455, 8455),
    (8458, 8467), (8469, 8469), (8473, 8477), (8484, 8484), (8486, 8486), (8488, 8488),
    (8490, 8493), (8495, 8505), (8508, 8511), (8517, 8521), (8526, 8526), (8579, 8580),
    (11264, 11492), (11499, 11502), (11506, 11507), (11520, 11557), (11559, 11559),
    (11565, 11565), (11568, 11623), (11631, 11631), (11648, 11670), (11680, 11686),
    (11688, 11694), (11696, 11702), (11704, 11710), (11712, 11718), (11720, 11726),
    (11728, 11734), (11736, 11742), (11823, 11823), (12293, 12294), (12337, 12341),
    (12347, 12348), (12353, 12438), (12445, 12447), (12449, 12538), (12540, 12543),
    (12549, 12591), (12593, 12686), (12704, 12735), (12784, 12799), (13312, 19903),
    (19968, 42124), (42192, 42237), (42240, 42508), (42512, 42527), (42538, 42539),
    (42560, 42606), (42623, 42653), (42656, 42725), (42775, 42783), (42786, 42888),
    (42891, 42954), (42960, 42961), (42963, 42963), (42965, 42969), (42994, 43009),
    (43011, 43013), (43015, 43018), (43020, 43042), (43072, 43123), (43138, 43187),
    (43250, 43255), (43259, 43259), (43261, 43262), (43274, 43301), (43312, 43334),
    (43360, 43388), (43396, 43442), (43471, 43471), (43488, 43492), (43494, 43503),
    (43514, 43518), (43520, 43560), (43584, 43586), (43588, 43595), (43616, 43638),
    (43642, 43642), (43646, 43695), (43697, 43697), (43701, 43702), (43705, 43709),
    (43712, 43712), (43714, 43714), (43739, 43741), (43744, 43754), (43762, 43764),
    (43777, 43782), (43785, 43790), (43793, 43798), (43808, 43814), (43816, 43822),
    (43824, 43866), (43868, 43881), (43888, 44002), (44032, 55203), (55216, 55238),
    (55243, 55291), (63744, 64109), (64112, 64217), (64256, 64262), (64275, 64279),
    (64285, 64285), (64287, 64296), (64298, 64310), (64312, 64316), (64318, 64318),
    (64320, 64321), (64323, 64324), (64326, 64433), (64467, 64829), (64848, 64911),
    (64914, 64967), (65008, 65019), (65136, 65140), (65142, 65276), (65313, 65338),
    (65345, 65370), (65382, 65470), (65474, 65479), (65482, 65487), (65490, 65495),
    (65498, 65500), (65536, 65547), (65549, 65574), (65576, 65594), (65596, 65597),
    (65599, 65613), (65616, 65629), (65664, 65786), (66176, 66204), (66208, 66256),
    (66304, 66335), (66349, 66368), (66370, 66377), (66384, 66421), (66432, 66461),
    (66464, 66499), (66504, 66511), (66560, 66717), (66736, 66771), (66776, 66811),
    (66816, 66855), (66864, 66915), (66928, 66938), (66940, 66954), (66956, 66962),
    (66964, 66965), (66967, 66977), (66979, 66993), (66995, 67001), (67003, 67004),
    (67072, 67382), (67392, 67413), (67424, 67431), (67456, 67461), (67463, 67504),
    (67506, 67514), (67584, 67589), (67592, 67592), (67594, 67637), (67639, 67640),
    (67644, 67644), (67647, 67669), (67680, 67702), (67712, 67742), (67808, 67826),
    (67828, 67829), (67840, 67861), (67872, 67897), (67968, 68023), (68030, 68031),
    (68096, 68096), (68112, 68115), (68117, 68119), (68121, 68149), (68192, 68220),
    (68224, 68252), (68288, 68295), (68297, 68324), (68352, 68405), (68416, 68437),
    (68448, 68466), (68480, 68497), (68608, 68680), (68736, 68786), (68800, 68850),
    (68864, 68899), (69248, 69289), (69296, 69297), (69376, 69404), (69415, 69415),
    (69424, 69445), (69488, 69505), (69552, 69572), (69600, 69622), (69635, 69687),
    (69745, 69746), (69749, 69749), (69763, 69807), (69840, 69864), (69891, 69926),
    (69956, 69956), (69959, 69959), (69968, 70002), (70006, 70006), (70019, 70066),
    (70081, 70084), (70106, 70106), (70108, 70108), (70144, 70161), (70163, 70187),
    (70207, 70208), (70272, 70278), (70280, 70280), (70282, 70285), (70287, 70301),
    (70303, 70312), (70320, 70366), (70405, 70412), (70415, 70416), (70419, 70440),
    (70442, 70448), (70450, 70451), (70453, 70457), (70461, 70461), (70480, 70480),
    (70493, 70497), (70656, 70708), (70727, 70730), (70751, 70753), (70784, 70831),
    (70852, 70853), (70855, 70855), (71040, 71086), (71128, 71131), (71168, 71215),
    (71236, 71236), (71296, 71338), (71352, 71352), (71424, 71450), (71488, 71494),
    (71680, 71723), (71840, 71903), (71935, 71942), (71945, 71945), (71948, 71955),
    (71957, 71958), (71960, 71983), (71999, 71999), (72001, 72001), (72096, 72103),
    (72106, 72144), (72161, 72161), (72163, 72163), (72192, 72192), (72203, 72242),
    (72250, 72250), (72272, 72272), (72284, 72329), (72349, 72349), (72368, 72440),
    (72704, 72712), (72714, 72750), (72768, 72768), (72818, 72847), (72960, 72966),
    (72968, 72969), (72971, 73008), (73030, 73030), (73056, 73061), (73063, 73064),
    (73066, 73097), (73112, 73112), (73440, 73458), (73474, 73474), (73476, 73488),
    (73490, 73523), (73648, 73648), (73728, 74649), (74880, 75075), (77712, 77808),
    (77824, 78895), (78913, 78918), (82944, 83526), (92160, 92728), (92736, 92766),
    (92784, 92862), (92880, 92909), (92928, 92975), (92992, 92995), (93027, 93047),
    (93053, 93071), (93760, 93823), (93952, 94026), (94032, 94032), (94099, 94111),
    (94176, 94177), (94179, 94179), (94208, 100343), (100352, 101589), (101632, 101640),
    (110576, 110579), (110581, 110587), (110589, 110590), (110592, 110882), (110898, 110898),
    (110928, 110930), (110933, 110933), (110948, 110951), (110960, 111355), (113664, 113770),
    (113776, 113788), (113792, 113800), (113808, 113817), (119808, 119892), (119894, 119964),
    (119966, 119967), (119970, 119970), (119973, 119974), (119977, 119980), (119982, 119993),
    (119995, 119995), (119997, 120003), (120005, 120069), (120071, 120074), (120077, 120084),
    (120086, 120092), (120094, 120121), (120123, 120126), (120128, 120132), (120134, 120134),
    (120138, 120144), (120146, 120485), (120488, 120512), (120514, 120538), (120540, 120570),
    (120572, 120596), (120598, 120628), (120630, 120654), (120656, 120686), (120688, 120712),
    (120714, 120744), (120746, 120770), (120772, 120779), (122624, 122654), (122661, 122666),
    (122928, 122989), (123136, 123180), (123191, 123197), (123214, 123214), (123536, 123565),
    (123584, 123627), (124112, 124139), (124896, 124902), (124904, 124907), (124909, 124910),
    (124912, 124926), (124928, 125124), (125184, 125251), (125259, 125259), (126464, 126467),
    (126469, 126495), (126497, 126498), (126500, 126500), (126503, 126503), (126505, 126514),
    (126516, 126519), (126521, 126521), (126523, 126523), (126530, 126530), (126535, 126535),
    (126537, 126537), (126539, 126539), (126541, 126543), (126545, 126546), (126548, 126548),
    (126551, 126551), (126553, 126553), (126555, 126555), (126557, 126557), (126559, 126559),
    (126561, 126562), (126564, 126564), (126567, 126570), (126572, 126578), (126580, 126583),
    (126585, 126588), (126590, 126590), (126592, 126601), (126603, 126619), (126625, 126627),
    (126629, 126633), (126635, 126651), (131072, 173791), (173824, 177977), (177984, 178205),
    (178208, 183969), (183984, 191456), (194560, 195101), (196608, 201546), (201552, 205743)]"

definition digit_ranges :: "(int \<times> int) list" where
  "digit_ranges = [
    (1632, 1641), (1776, 1785), (1984, 1993), (2406, 2415), (2534, 2543), (2662, 2671),
    (2790, 2799), (2918, 2927), (3046, 3055), (3174, 3183), (3302, 3311), (3430, 3439),
    (3558, 3567), (3664, 3673), (3792, 3801), (3872, 3881), (4160, 4169), (4240, 4249),
    (6112, 6121), (6160, 6169), (6470, 6479), (6608, 6617), (6784, 6793), (6800, 6809),
    (6992, 7001), (7088, 7097), (7232, 7241), (7248, 7257), (42528, 42537), (43216, 43225),
    (43264, 43273), (43472, 43481), (43504, 43513), (43600, 43609), (44016, 44025),
    (65296, 65305), (66720, 66729), (68912, 68921), (69734, 69743), (69872, 69881),
    (69942, 69951), (70096, 70105), (70384, 70393), (70736, 70745), (70864, 70873),
    (71248, 71257), (71360, 71369), (71472, 71481), (71904, 71913), (72016, 72025),
    (72784, 72793), (73040, 73049), (73120, 73129), (73552, 73561), (92768, 92777),
    (92864, 92873), (93008, 93017), (120782, 120831), (123200, 123209), (123632, 123641),
    (124144, 124153), (125264, 125273), (130032, 130041)]"

definition space_ranges :: "(int \<times> int) list" where
  "space_ranges = [
    (133, 133), (160, 160), (5760, 5760), (8192, 8202), (8232, 8233), (8239, 8239),
    (8287, 8287), (12288, 12288)]"

text \<open>As in package \<^verbatim>\<open>unicode\<close>, ASCII is decided first, the tables hold the rest.\<close>

definition IsLetter :: "rune \<Rightarrow> bool" where
  "IsLetter r =
    (if r < 128 then (65 \<le> r \<and> r \<le> 90) \<or> (97 \<le> r \<and> r \<le> 122) else in_ranges letter_ranges r)"

definition IsDigit :: "rune \<Rightarrow> bool" where
  "IsDigit r = (if r < 128 then 48 \<le> r \<and> r \<le> 57 else in_ranges digit_ranges r)"

definition IsSpace :: "rune \<Rightarrow> bool" where
  "IsSpace r = (if r < 128 then (9 \<le> r \<and> r \<le> 13) \<or> r = 32 else in_ranges space_ranges r)"

section \<open>UTF-8\<close>

definition cont_byte :: "int \<Rightarrow> bool" where
  "cont_byte b \<longleftrightarrow> 128 \<le> b \<and> b \<le> 191"

definition rune_error :: rune where
  "rune_error = 65533"

text \<open>The range of the second byte of a three- or four-byte sequence, by its first byte.\<close>

definition second_lo :: "int \<Rightarrow> int" where
  "second_lo b0 = (if b0 = 224 then 160 else if b0 = 240 then 144 else 128)"

definition second_hi :: "int \<Rightarrow> int" where
  "second_hi b0 = (if b0 = 237 then 159 else if b0 = 244 then 143 else 191)"

text \<open>One step of \<open>utf8.DecodeRune\<close>: the rune and how many bytes it takes.\<close>

definition decode_rune :: "int \<Rightarrow> int list \<Rightarrow> rune \<times> nat" where
  "decode_rune b0 bs =
    (if b0 < 128 then (b0, 1)
     else if 194 \<le> b0 \<and> b0 \<le> 223 then
       (case bs of
          b1 # _ \<Rightarrow> if cont_byte b1 then ((b0 - 192) * 64 + (b1 - 128), 2) else (rune_error, 1)
        | _ \<Rightarrow> (rune_error, 1))
     else if 224 \<le> b0 \<and> b0 \<le> 239 then
       (case bs of
          b1 # b2 # _ \<Rightarrow>
            if second_lo b0 \<le> b1 \<and> b1 \<le> second_hi b0 \<and> cont_byte b2
            then ((b0 - 224) * 4096 + (b1 - 128) * 64 + (b2 - 128), 3) else (rune_error, 1)
        | _ \<Rightarrow> (rune_error, 1))
     else if 240 \<le> b0 \<and> b0 \<le> 244 then
       (case bs of
          b1 # b2 # b3 # _ \<Rightarrow>
            if second_lo b0 \<le> b1 \<and> b1 \<le> second_hi b0 \<and> cont_byte b2 \<and> cont_byte b3
            then ((b0 - 240) * 262144 + (b1 - 128) * 4096 + (b2 - 128) * 64 + (b3 - 128), 4)
            else (rune_error, 1)
        | _ \<Rightarrow> (rune_error, 1))
     else (rune_error, 1))"

lemma decode_rune_width: "0 < snd (decode_rune b0 bs)"
  by (simp add: decode_rune_def split: list.split)

function decode_bytes :: "int list \<Rightarrow> rune list" where
  "decode_bytes [] = []"
| "decode_bytes (b0 # bs) =
    (let (r, w) = decode_rune b0 bs in r # decode_bytes (drop (w - 1) bs))"
  by pat_completeness auto
termination
  by (relation "measure length") auto

definition is_scalar :: "rune \<Rightarrow> bool" where
  "is_scalar r \<longleftrightarrow> (0 \<le> r \<and> r < 55296) \<or> (57343 < r \<and> r \<le> 1114111)"

text \<open>\<open>utf8.AppendRune\<close>.\<close>

definition encode_scalar :: "rune \<Rightarrow> int list" where
  "encode_scalar r =
    (if r < 128 then [r]
     else if r < 2048 then [192 + r div 64, 128 + r mod 64]
     else if r < 65536 then [224 + r div 4096, 128 + r div 64 mod 64, 128 + r mod 64]
     else [240 + r div 262144, 128 + r div 4096 mod 64, 128 + r div 64 mod 64, 128 + r mod 64])"

definition encode_rune :: "rune \<Rightarrow> int list" where
  "encode_rune r = encode_scalar (if is_scalar r then r else rune_error)"

definition runes_of :: "string \<Rightarrow> rune list" where
  "runes_of s = decode_bytes (map of_char s)"

definition string_of_runes :: "rune list \<Rightarrow> string" where
  "string_of_runes rs = map char_of (concat (map encode_rune rs))"

section \<open>Decoding inverts encoding\<close>

declare decode_bytes.simps(2) [simp del]

lemma is_scalar_rune_error [simp]: "is_scalar rune_error"
  by (simp add: is_scalar_def rune_error_def)

lemma decode_rune_scalar:
  assumes "0 \<le> b0"
  shows "is_scalar (fst (decode_rune b0 bs))"
proof -
  have 3: "is_scalar ((b0 - 224) * 4096 + (b1 - 128) * 64 + (b2 - 128))"
    if "224 \<le> b0" "b0 \<le> 239" "second_lo b0 \<le> b1" "b1 \<le> second_hi b0" "cont_byte b2" for b1 b2
    using that
    by (cases "b0 = 224"; cases "b0 = 237")
      (auto simp: is_scalar_def second_lo_def second_hi_def cont_byte_def split: if_splits)
  have 4: "is_scalar ((b0 - 240) * 262144 + (b1 - 128) * 4096 + (b2 - 128) * 64 + (b3 - 128))"
    if "240 \<le> b0" "b0 \<le> 244" "second_lo b0 \<le> b1" "b1 \<le> second_hi b0" "cont_byte b2" "cont_byte b3"
    for b1 b2 b3
    using that
    by (cases "b0 = 240"; cases "b0 = 244")
      (auto simp: is_scalar_def second_lo_def second_hi_def cont_byte_def split: if_splits)
  have 2: "is_scalar ((b0 - 192) * 64 + (b1 - 128))"
    if "194 \<le> b0" "b0 \<le> 223" "cont_byte b1" for b1
    using that by (auto simp: is_scalar_def cont_byte_def)
  have 1: "b0 < 128 \<Longrightarrow> is_scalar b0"
    using assms by (simp add: is_scalar_def)
  show ?thesis
    using 1 2 3 4 by (simp add: decode_rune_def split: list.split)
qed

lemma decode_bytes_scalar:
  "\<forall>b \<in> set bs. 0 \<le> b \<Longrightarrow> \<forall>r \<in> set (decode_bytes bs). is_scalar r"
proof (induction bs rule: decode_bytes.induct)
  case (2 b0 bs)
  obtain r w where rw: "decode_rune b0 bs = (r, w)" by fastforce
  have "\<forall>b \<in> set (drop (w - 1) bs). 0 \<le> b"
    using "2.prems" by (auto dest: in_set_dropD)
  then have "\<forall>r \<in> set (decode_bytes (drop (w - 1) bs)). is_scalar r"
    using "2.IH" [OF rw [symmetric] refl] by simp
  moreover have "is_scalar r"
    using decode_rune_scalar [of b0 bs] "2.prems" rw by simp
  ultimately show ?case by (simp add: decode_bytes.simps(2) rw)
qed simp

lemma of_char_nonneg [simp]: "0 \<le> (of_char c :: int)"
  by (metis of_nat_0_le_iff of_nat_of_char)

lemma runes_of_scalar: "r \<in> set (runes_of s) \<Longrightarrow> is_scalar r"
  using decode_bytes_scalar [of "map of_char s"] by (auto simp: runes_of_def)

text \<open>The four base-64 digits of a rune, so that the rest is linear arithmetic.\<close>

lemma base64_digits:
  fixes r :: int
  obtains q x p y k z where "r = 64 * q + x" "0 \<le> x" "x < 64" "q = 64 * p + y" "0 \<le> y" "y < 64"
    "p = 64 * k + z" "0 \<le> z" "z < 64" "r div 64 = q" "r mod 64 = x" "q mod 64 = y" "r div 4096 = p"
    "p mod 64 = z" "r div 262144 = k"
proof (rule that)
  show "r = 64 * (r div 64) + r mod 64" and "r div 64 = 64 * (r div 64 div 64) + r div 64 mod 64"
    and "r div 64 div 64 = 64 * (r div 64 div 64 div 64) + r div 64 div 64 mod 64"
    by (simp_all only: mult_div_mod_eq)
  show "r div 4096 = r div 64 div 64"
    using zdiv_zmult2_eq [of 64 r 64] by simp
  show "r div 262144 = r div 64 div 64 div 64"
    using zdiv_zmult2_eq [of 64 r 4096] zdiv_zmult2_eq [of 4096 r 64] zdiv_zmult2_eq [of 64 r 64]
    by simp
qed (rule refl | simp only: pos_mod_sign pos_mod_bound zero_less_numeral)+

lemma decode_encode_scalar:
  assumes "is_scalar r"
  obtains b0 bs where "encode_scalar r = b0 # bs"
    and "\<And>rest. decode_rune b0 (bs @ rest) = (r, Suc (length bs))"
proof -
  obtain q x p y k z where dig: "r = 64 * q + x" "0 \<le> x" "x < 64" "q = 64 * p + y" "0 \<le> y" "y < 64"
    "p = 64 * k + z" "0 \<le> z" "z < 64"
    and defs: "r div 64 = q" "r mod 64 = x" "q mod 64 = y" "r div 4096 = p" "p mod 64 = z"
      "r div 262144 = k"
    by (rule base64_digits)
  have cont: "cont_byte (128 + x)" "cont_byte (128 + y)"
    using dig by (simp_all add: cont_byte_def)
  consider (1) "r < 128" | (2) "128 \<le> r" "r < 2048" | (3) "2048 \<le> r" "r < 65536"
    | (4) "65536 \<le> r" by linarith
  then show thesis
  proof cases
    case 1
    then show ?thesis
      by (intro that [of r "[]"]) (simp_all add: encode_scalar_def decode_rune_def)
  next
    case 2
    then have e: "encode_scalar r = [192 + q, 128 + x]"
      by (simp add: encode_scalar_def defs)
    from 2 have b: "2 \<le> q" "q < 32" using dig by linarith+
    show ?thesis
      by (rule that [OF e]) (use b cont dig in \<open>simp add: decode_rune_def\<close>)
  next
    case 3
    then have e: "encode_scalar r = [224 + p, 128 + y, 128 + x]"
      by (simp add: encode_scalar_def defs)
    from 3 have b: "0 \<le> p" "p < 16" using dig by linarith+
    have d: "second_lo (224 + p) \<le> 128 + y"
      using 3 dig by (simp add: second_lo_def)
    have h: "128 + y \<le> second_hi (224 + p)"
      using assms 3 dig unfolding is_scalar_def second_hi_def by simp linarith
    show ?thesis
      by (rule that [OF e]) (use b cont d h dig in \<open>simp add: decode_rune_def\<close>)
  next
    case 4
    then have e: "encode_scalar r = [240 + k, 128 + z, 128 + y, 128 + x]"
      by (simp add: encode_scalar_def defs)
    have u: "r \<le> 1114111" using assms by (auto simp: is_scalar_def)
    from 4 u have b: "0 \<le> k" "k < 5" using dig by linarith+
    have d: "second_lo (240 + k) \<le> 128 + z"
      using 4 dig by (simp add: second_lo_def)
    have h: "128 + z \<le> second_hi (240 + k)"
      using u b dig by (simp add: second_hi_def)
    show ?thesis
      by (rule that [OF e]) (use b cont d h dig in \<open>simp add: decode_rune_def\<close>)
  qed
qed

lemma decode_bytes_encode:
  assumes "\<forall>r \<in> set rs. is_scalar r"
  shows "decode_bytes (concat (map encode_rune rs) @ bs) = rs @ decode_bytes bs"
  using assms
proof (induction rs)
  case (Cons r rs)
  obtain b0 cs where e: "encode_scalar r = b0 # cs"
    and d: "\<And>rest. decode_rune b0 (cs @ rest) = (r, Suc (length cs))"
    using decode_encode_scalar [of r] Cons.prems by auto
  show ?case
    using Cons e by (simp add: encode_rune_def decode_bytes.simps(2) d)
qed simp

lemma encode_rune_bytes: "b \<in> set (encode_rune r) \<Longrightarrow> 0 \<le> b \<and> b < 256"
proof -
  have "0 \<le> b \<and> b < 256" if "is_scalar q" "b \<in> set (encode_scalar q)" for q
    using that by (auto simp: encode_scalar_def is_scalar_def split: if_splits)
  from this [of r] this [of rune_error] show "b \<in> set (encode_rune r) \<Longrightarrow> 0 \<le> b \<and> b < 256"
    by (simp add: encode_rune_def split: if_splits)
qed

lemma of_char_string_of_runes:
  "map of_char (string_of_runes rs) = concat (map encode_rune rs)"
  by (auto simp: string_of_runes_def intro!: map_idI dest!: encode_rune_bytes)

lemma runes_of_append:
  "\<forall>r \<in> set rs. is_scalar r \<Longrightarrow> runes_of (string_of_runes rs @ s) = rs @ runes_of s"
  by (simp add: runes_of_def of_char_string_of_runes decode_bytes_encode)

lemma runes_of_string_of_runes [simp]:
  "\<forall>r \<in> set rs. is_scalar r \<Longrightarrow> runes_of (string_of_runes rs) = rs"
  using runes_of_append [of rs "[]"] by (simp add: runes_of_def)

section \<open>Well-formed UTF-8 strings\<close>

definition utf8 :: "string \<Rightarrow> bool" where
  "utf8 s \<longleftrightarrow> string_of_runes (runes_of s) = s"

lemma string_of_runes_append: "string_of_runes (a @ b) = string_of_runes a @ string_of_runes b"
  by (simp add: string_of_runes_def)

lemma utf8_string_of_runes [simp]: "\<forall>r \<in> set rs. is_scalar r \<Longrightarrow> utf8 (string_of_runes rs)"
  by (simp add: utf8_def)

lemma utf8_runes_of_append: "utf8 a \<Longrightarrow> runes_of (a @ b) = runes_of a @ runes_of b"
  using runes_of_append [of "runes_of a" b] runes_of_scalar [of _ a] by (simp add: utf8_def)

lemma utf8_append: "utf8 a \<Longrightarrow> utf8 b \<Longrightarrow> utf8 (a @ b)"
  by (simp add: utf8_def utf8_runes_of_append string_of_runes_append)

lemma utf8_inj: "utf8 a \<Longrightarrow> utf8 b \<Longrightarrow> runes_of a = runes_of b \<Longrightarrow> a = b"
  by (metis utf8_def)

definition ascii :: "string \<Rightarrow> bool" where
  "ascii s \<longleftrightarrow> (\<forall>c \<in> set s. of_char c < (128::int))"

lemma string_of_runes_ascii: "ascii s \<Longrightarrow> string_of_runes (map of_char s) = s"
  by (induction s)
    (auto simp: string_of_runes_def ascii_def encode_rune_def encode_scalar_def is_scalar_def)

lemma runes_of_ascii: "ascii s \<Longrightarrow> runes_of s = map of_char s"
  using runes_of_string_of_runes [of "map of_char s"] string_of_runes_ascii [of s]
  by (force simp: ascii_def is_scalar_def)

lemma ascii_utf8: "ascii s \<Longrightarrow> utf8 s"
  by (simp add: utf8_def runes_of_ascii string_of_runes_ascii)

lemma ascii_simps [simp]:
  "ascii []" "ascii (a @ b) \<longleftrightarrow> ascii a \<and> ascii b"
  "ascii (c # s) \<longleftrightarrow> of_char c < (128::int) \<and> ascii s"
  by (auto simp: ascii_def)

end
