(* ===== verification/IR_Lexer.thy ===== *)
theory IR_Lexer
  imports IR_Ast Go_Unicode
begin

text \<open>
  The lexer of the rule language, \<^verbatim>\<open>pkg/ir/lexer.go\<close>. The struct \<open>lexer\<close> holds the runes of the
  rule and a cursor; the model keeps the cursor and the runes from the cursor on
  (\<open>src[pos:]\<close>), which is all the methods look at. Every method that moves the cursor returns
  the new lexer; an error return is \<open>Inl\<close>. \<open>lexAll\<close> is total: each call of \<open>lexer_next\<close> (the method \<open>next\<close>) that does
  not return the end-of-input token moves the cursor forward.
\<close>

section \<open>Tokens\<close>

datatype tokenKind =
    tEOF | tIdent | tNumber | tString | tOp | tLParen | tRParen | tComma | tAnd | tOr | tBetween
  | tIn | tLike | tIs | tNot | tNull

record token =
  Text :: string
  Kind :: tokenKind
  Pos :: nat

record lexer =
  rest :: "rune list"
  pos :: nat

datatype lex_error =
    UnexpectedChar rune nat
  | UnterminatedString nat
  | UnexpectedBang nat
  | BadOperator nat

definition mk_token :: "tokenKind \<Rightarrow> string \<Rightarrow> nat \<Rightarrow> token" where
  "mk_token k t p = \<lparr>Text = t, Kind = k, Pos = p\<rparr>"

lemma mk_token_sel [simp]:
  "Kind (mk_token k t p) = k" "Text (mk_token k t p) = t" "Pos (mk_token k t p) = p"
  by (simp_all add: mk_token_def)

section \<open>The lexer\<close>

definition newLexer :: "string \<Rightarrow> lexer" where
  "newLexer s = \<lparr>rest = runes_of s, pos = 0\<rparr>"

text \<open>The rune one past the cursor, 0 at the end of the input.\<close>

definition peekNext :: "lexer \<Rightarrow> rune" where
  "peekNext l = (case rest l of _ # r # _ \<Rightarrow> r | _ \<Rightarrow> 0)"

definition skip :: "nat \<Rightarrow> lexer \<Rightarrow> lexer" where
  "skip n l = \<lparr>rest = drop n (rest l), pos = pos l + n\<rparr>"

definition isIdentStart :: "rune \<Rightarrow> bool" where
  "isIdentStart r \<longleftrightarrow> r = 95 \<or> IsLetter r"

definition isIdentPart :: "rune \<Rightarrow> bool" where
  "isIdentPart r \<longleftrightarrow> r = 95 \<or> IsLetter r \<or> IsDigit r"

definition upper :: "string \<Rightarrow> string" where
  "upper s = string_of_runes (map (\<lambda>r. if 97 \<le> r \<and> r \<le> 122 then r - 32 else r) (runes_of s))"

text \<open>
  The loop of \<open>lexString\<close> after the opening quote: \<open>sb\<close> is what was collected, \<open>n\<close> how many
  runes were read; \<open>None\<close> is the unterminated string.
\<close>

fun lexString_loop :: "rune \<Rightarrow> rune list \<Rightarrow> nat \<Rightarrow> rune list \<Rightarrow> (rune list \<times> nat) option" where
  "lexString_loop quote sb n [] = None"
| "lexString_loop quote sb n (c # d # cs) =
    (if c = 92 then lexString_loop quote (sb @ [d]) (n + 2) cs
     else if c = quote then Some (sb, n + 1)
     else lexString_loop quote (sb @ [c]) (n + 1) (d # cs))"
| "lexString_loop quote sb n [c] =
    (if c = quote then Some (sb, n + 1) else lexString_loop quote (sb @ [c]) (n + 1) [])"

definition lexString :: "rune \<Rightarrow> lexer \<Rightarrow> lex_error + token \<times> lexer" where
  "lexString quote l =
    (let start = pos l in
     case lexString_loop quote [] 1 (tl (rest l)) of
       None \<Rightarrow> Inl (UnterminatedString start)
     | Some (sb, n) \<Rightarrow> Inr (mk_token tString (string_of_runes sb) start, skip n l))"

definition lexOp :: "lexer \<Rightarrow> lex_error + token \<times> lexer" where
  "lexOp l =
    (let start = pos l; r = hd (rest l) in
     if r = 61 then
       if peekNext l = 61 then Inr (mk_token tOp ''=='' start, skip 2 l)
       else Inr (mk_token tOp ''='' start, skip 1 l)
     else if r = 33 then
       if peekNext l = 61 then Inr (mk_token tOp ''!='' start, skip 2 l)
       else Inl (UnexpectedBang start)
     else if r = 62 then
       if peekNext l = 61 then Inr (mk_token tOp ''>='' start, skip 2 l)
       else Inr (mk_token tOp ''>'' start, skip 1 l)
     else if r = 60 then
       if peekNext l = 61 then Inr (mk_token tOp ''<='' start, skip 2 l)
       else if peekNext l = 62 then Inr (mk_token tOp ''!='' start, skip 2 l)
       else Inr (mk_token tOp ''<'' start, skip 1 l)
     else Inl (BadOperator start))"

definition lexNumber :: "lexer \<Rightarrow> lex_error + token \<times> lexer" where
  "lexNumber l =
    (let start = pos l; ds = takeWhile (\<lambda>c. IsDigit c \<or> c = 46) (rest l)
     in Inr (mk_token tNumber (string_of_runes ds) start, skip (length ds) l))"

definition keyword_kind :: "string \<Rightarrow> tokenKind" where
  "keyword_kind u =
    (if u = ''AND'' then tAnd else if u = ''OR'' then tOr else if u = ''BETWEEN'' then tBetween
     else if u = ''IN'' then tIn else if u = ''LIKE'' then tLike else if u = ''IS'' then tIs
     else if u = ''NOT'' then tNot else if u = ''NULL'' then tNull else tIdent)"

definition lexIdent :: "lexer \<Rightarrow> lex_error + token \<times> lexer" where
  "lexIdent l =
    (let start = pos l; cs = takeWhile isIdentPart (rest l); text = string_of_runes cs
     in Inr (mk_token (keyword_kind (upper text)) text start, skip (length cs) l))"

definition skip_space :: "lexer \<Rightarrow> lexer" where
  "skip_space l = skip (length (takeWhile IsSpace (rest l))) l"

definition lexer_next :: "lexer \<Rightarrow> lex_error + token \<times> lexer" where
  "lexer_next l0 =
    (let l = skip_space l0 in
     case rest l of
       [] \<Rightarrow> Inr (mk_token tEOF [] (pos l), l)
     | r # _ \<Rightarrow>
         if r = 40 then Inr (mk_token tLParen ''('' (pos l), skip 1 l)
         else if r = 41 then Inr (mk_token tRParen '')'' (pos l), skip 1 l)
         else if r = 44 then Inr (mk_token tComma '','' (pos l), skip 1 l)
         else if r = 39 \<or> r = 34 then lexString r l
         else if r = 61 \<or> r = 33 \<or> r = 62 \<or> r = 60 then lexOp l
         else if IsDigit r then lexNumber l
         else if isIdentStart r then lexIdent l
         else Inl (UnexpectedChar r (pos l)))"

section \<open>Every token but the last moves the cursor\<close>

lemma rest_skip [simp]: "rest (skip n l) = drop n (rest l)"
  by (simp add: skip_def)

lemma rest_skip_space [simp]: "rest (skip_space l) = dropWhile IsSpace (rest l)"
  by (simp add: skip_space_def dropWhile_eq_drop)

lemma lexString_loop_reads: "lexString_loop q sb n cs = Some (sb', n') \<Longrightarrow> n < n'"
  by (induction q sb n cs rule: lexString_loop.induct) (auto split: if_splits)

lemma lexer_next_consumes:
  assumes "lexer_next l = Inr (t, l')" and "Kind t \<noteq> tEOF"
  shows "length (rest l') < length (rest l)"
proof -
  obtain r rs where r: "rest (skip_space l) = r # rs"
    using assms by (auto simp: lexer_next_def Let_def split: list.splits)
  have le: "length (r # rs) \<le> length (rest l)"
    using length_dropWhile_le [of IsSpace "rest l"] r by simp
  have "length (rest l') < length (r # rs)"
  proof -
    have ident: "isIdentStart r \<Longrightarrow> isIdentPart r"
      by (auto simp: isIdentStart_def isIdentPart_def)
    show ?thesis
      using assms r ident
      by (auto simp: lexer_next_def Let_def lexString_def lexOp_def lexNumber_def lexIdent_def
          dest: lexString_loop_reads split: if_splits option.splits)
  qed
  with le show ?thesis by simp
qed

function lexAll_loop :: "lexer \<Rightarrow> lex_error + token list" where
  "lexAll_loop l =
    bind_res (lexer_next l) (\<lambda>(t, l').
      if Kind t = tEOF then Inr [t] else bind_res (lexAll_loop l') (\<lambda>ts. Inr (t # ts)))"
  by pat_completeness auto
termination
  by (relation "measure (\<lambda>l. length (rest l))") (auto dest: lexer_next_consumes)

declare lexAll_loop.simps [simp del]

definition lexAll :: "string \<Rightarrow> lex_error + token list" where
  "lexAll s = lexAll_loop (newLexer s)"

section \<open>What the tokens carry\<close>

text \<open>
  A text that is lexed as one identifier, one number or one operator. The first rune of an
  identifier or a number is tested for white space and for a digit before the others, in the
  order of the switch in \<open>next\<close>.
\<close>

definition ident_runes :: "rune list \<Rightarrow> bool" where
  "ident_runes rs \<longleftrightarrow>
    rs \<noteq> [] \<and> isIdentStart (hd rs) \<and> \<not> IsSpace (hd rs) \<and> \<not> IsDigit (hd rs) \<and>
    list_all isIdentPart rs"

definition lex_ident :: "string \<Rightarrow> bool" where
  "lex_ident t \<longleftrightarrow> utf8 t \<and> ident_runes (runes_of t) \<and> keyword_kind (upper t) = tIdent"

definition lex_number :: "string \<Rightarrow> bool" where
  "lex_number t \<longleftrightarrow>
    (let rs = runes_of t in
     utf8 t \<and> rs \<noteq> [] \<and> IsDigit (hd rs) \<and> \<not> IsSpace (hd rs) \<and>
     list_all (\<lambda>c. IsDigit c \<or> c = 46) rs)"

definition good_token :: "token \<Rightarrow> bool" where
  "good_token t =
    (case Kind t of
       tOp \<Rightarrow> List.member cmp_ops (Text t)
     | tIdent \<Rightarrow> lex_ident (Text t)
     | tNumber \<Rightarrow> lex_number (Text t)
     | tString \<Rightarrow> utf8 (Text t)
     | _ \<Rightarrow> True)"

definition scalars :: "rune list \<Rightarrow> bool" where
  "scalars rs \<longleftrightarrow> (\<forall>r \<in> set rs. is_scalar r)"

lemma scalars_simps [simp]:
  "scalars []" "scalars (r # rs) \<longleftrightarrow> is_scalar r \<and> scalars rs"
  "scalars (rs @ ss) \<longleftrightarrow> scalars rs \<and> scalars ss"
  by (auto simp: scalars_def)

lemma scalars_runes_of [simp]: "scalars (runes_of s)"
  by (simp add: scalars_def runes_of_scalar)

lemma scalars_drop [simp]: "scalars rs \<Longrightarrow> scalars (drop n rs)"
  by (auto simp: scalars_def dest: in_set_dropD)

lemma scalars_while [simp]:
  "scalars rs \<Longrightarrow> scalars (takeWhile P rs)" "scalars rs \<Longrightarrow> scalars (dropWhile P rs)"
  by (auto simp: scalars_def dest: set_takeWhileD set_dropWhileD)

lemma lexString_loop_scalars:
  "lexString_loop q sb n cs = Some (sb', n') \<Longrightarrow> scalars sb \<Longrightarrow> scalars cs \<Longrightarrow> scalars sb'"
  by (induction q sb n cs rule: lexString_loop.induct) (auto split: if_splits)

lemma utf8_scalars: "scalars rs \<Longrightarrow> utf8 (string_of_runes rs)"
  by (simp add: scalars_def)

lemma runes_of_scalars: "scalars rs \<Longrightarrow> runes_of (string_of_runes rs) = rs"
  by (simp add: scalars_def)

lemma lexer_next_good:
  assumes "lexer_next l = Inr (t, l')" and sc: "scalars (rest l)"
  shows "good_token t \<and> scalars (rest l')"
proof -
  have sc': "scalars (rest (skip_space l))" using sc by simp
  show ?thesis
  proof (cases "rest (skip_space l)")
    case Nil
    then show ?thesis
      using assms(1) sc' by (auto simp: lexer_next_def Let_def good_token_def simp del: rest_skip_space)
  next
    case (Cons r rs)
    let ?ds = "takeWhile (\<lambda>c. IsDigit c \<or> c = 46) (r # rs)"
    let ?cs = "takeWhile isIdentPart (r # rs)"
    have nsp: "\<not> IsSpace r"
      using Cons hd_dropWhile [of IsSpace "rest l"] by auto
    have scs: "scalars ?ds" "scalars ?cs" "scalars (r # rs)"
      using sc' Cons by (auto simp del: rest_skip_space simp: takeWhile.simps)
    have num: "lex_number (string_of_runes ?ds)" if "IsDigit r"
      using that nsp scs(1) runes_of_scalars [OF scs(1)] utf8_scalars [OF scs(1)]
      by (auto simp: lex_number_def Let_def list_all_iff dest: set_takeWhileD)
    have start: "isIdentStart r \<Longrightarrow> isIdentPart r"
      by (auto simp: isIdentStart_def isIdentPart_def)
    have ident: "good_token (mk_token (keyword_kind (upper (string_of_runes ?cs)))
        (string_of_runes ?cs) (pos (skip_space l)))"
      if "isIdentStart r" "\<not> IsDigit r"
      using that nsp start runes_of_scalars [OF scs(2)] utf8_scalars [OF scs(2)]
      by (auto simp: good_token_def lex_ident_def ident_runes_def keyword_kind_def list_all_iff
          dest: set_takeWhileD)
    have str: "good_token (mk_token tString (string_of_runes sb) (pos (skip_space l)))"
      if "lexString_loop q [] 1 rs = Some (sb, n)" for q sb n
      using lexString_loop_scalars [OF that] scs by (simp add: good_token_def utf8_scalars)
    have op: "good_token (mk_token tOp t' p)" if "List.member cmp_ops t'" for t' p
      using that by (simp add: good_token_def)
    have oth: "good_token (mk_token k t' p)" if "k \<in> {tLParen, tRParen, tComma}" for k t' p
      using that by (auto simp: good_token_def)
    have num': "IsDigit r \<Longrightarrow> good_token (mk_token tNumber (string_of_runes ?ds) p)" for p
      using num by (simp add: good_token_def)
    show ?thesis
      using assms(1) Cons sc' num' ident str op oth
      by (auto simp: lexer_next_def Let_def lexString_def lexOp_def lexNumber_def lexIdent_def
          cmp_ops_def simp del: takeWhile.simps rest_skip_space
          split: if_splits option.splits)
  qed
qed

lemma lexAll_loop_good:
  "lexAll_loop l = Inr toks \<Longrightarrow> scalars (rest l) \<Longrightarrow> list_all good_token toks"
proof (induction l arbitrary: toks rule: lexAll_loop.induct)
  case (1 l)
  obtain t l' where n: "lexer_next l = Inr (t, l')"
    using "1.prems" by (subst (asm) lexAll_loop.simps) (auto simp: bind_res_Inr_iff)
  show ?case
    using "1.prems" "1.IH" [OF n refl] lexer_next_good [OF n]
    by (subst (asm) lexAll_loop.simps) (auto simp: n bind_res_Inr_iff split: if_splits)
qed

lemma lexAll_good: "lexAll s = Inr toks \<Longrightarrow> list_all good_token toks"
  using lexAll_loop_good [of "newLexer s" toks] by (simp add: lexAll_def newLexer_def)

end
