(* ===== verification/IR_Parser.thy ===== *)
theory IR_Parser
  imports IR_Lexer
begin

text \<open>
  The recursive-descent parser of the rule language, \<^verbatim>\<open>pkg/ir/parser.go\<close>. The struct \<open>parser\<close>
  holds the tokens and an index; the model keeps the tokens from the index on (\<open>toks[i:]\<close>).
  Past the last token \<open>cur\<close> is an end-of-input token, as in the code.

  The methods call each other, so the recursion is bounded by fuel that every call spends; the
  value \<open>OutOfFuel\<close> stands for no behaviour of the code. \<open>Parse\<close> gives five units per token and
  five more, and \<open>Parse_no_fuel_error\<close> shows that this is always enough, so that \<open>Parse\<close> is a
  total function with the code's results only. \<open>Parse_lexed\<close> shows that every parsed rule is
  a well-formed node whose texts are those of its tokens.
\<close>

datatype parse_error =
    LexError lex_error
  | Expected string string
  | TrailingToken string
  | NotWithoutInLike string string
  | ExpectedPredicate string string
  | ExpectedValue string
  | OutOfFuel

type_synonym parser = "token list"
type_synonym 'a parse = "parse_error + 'a \<times> parser"

definition cur :: "parser \<Rightarrow> token" where
  "cur p = (case p of [] \<Rightarrow> mk_token tEOF [] 0 | t # _ \<Rightarrow> t)"

definition advance :: "parser \<Rightarrow> token \<times> parser" where
  "advance p = (cur p, tl p)"

definition expect :: "parser \<Rightarrow> tokenKind \<Rightarrow> string \<Rightarrow> token parse" where
  "expect p k what =
    (if Kind (cur p) \<noteq> k then Inl (Expected what (Text (cur p))) else Inr (advance p))"

definition parseValue :: "parser \<Rightarrow> Value parse" where
  "parseValue p =
    (case Kind (cur p) of
       tNumber \<Rightarrow> Inr (NumValue (Text (cur p)), tl p)
     | tString \<Rightarrow> Inr (StrValue (Text (cur p)), tl p)
     | _ \<Rightarrow> Inl (ExpectedValue (Text (cur p))))"

text \<open>The loop over the values of an \<open>IN\<close> list; every iteration takes a value and a comma.\<close>

function parseVals :: "parser \<Rightarrow> Value list parse" where
  "parseVals p =
    bind_res (parseValue p) (\<lambda>(v, p').
      if Kind (cur p') = tComma
      then bind_res (parseVals (tl p')) (\<lambda>(vs, p''). Inr (v # vs, p''))
      else Inr ([v], p'))"
  by pat_completeness auto
termination
  by (relation "measure length")
    (auto simp: parseValue_def cur_def split: tokenKind.splits list.splits)

declare parseVals.simps [simp del]

definition parsePredicate :: "parser \<Rightarrow> Node parse" where
  "parsePredicate p0 =
    bind_res (expect p0 tIdent ''field identifier'') (\<lambda>(id, p1).
      let field = Text id;
        negate = (Kind (cur p1) = tNot);
        p = (if negate then tl p1 else p1)
      in if negate \<and> Kind (cur p) \<noteq> tIn \<and> Kind (cur p) \<noteq> tLike
         then Inl (NotWithoutInLike field (Text (cur p)))
         else case Kind (cur p) of
           tOp \<Rightarrow>
             bind_res (parseValue (tl p)) (\<lambda>(v, p').
               Inr (Compare field (Text (cur p)) v, p'))
         | tBetween \<Rightarrow>
             bind_res (parseValue (tl p)) (\<lambda>(lo, p2).
             bind_res (expect p2 tAnd ''AND in BETWEEN'') (\<lambda>(_, p3).
             bind_res (parseValue p3) (\<lambda>(hi, p4).
               Inr (Between field lo hi, p4))))
         | tIn \<Rightarrow>
             bind_res (expect (tl p) tLParen ''( after IN'') (\<lambda>(_, p2).
             bind_res (parseVals p2) (\<lambda>(vals, p3).
             bind_res (expect p3 tRParen '') after IN list'') (\<lambda>(_, p4).
               Inr (In field vals negate, p4))))
         | tLike \<Rightarrow>
             bind_res (expect (tl p) tString ''string after LIKE'') (\<lambda>(s, p2).
               Inr (Like field (Text s) negate, p2))
         | tIs \<Rightarrow>
             let neg = (Kind (cur (tl p)) = tNot);
               p2 = (if neg then tl (tl p) else tl p)
             in bind_res (expect p2 tNull ''NULL after IS'') (\<lambda>(_, p3).
                  Inr (IsNull field neg, p3))
         | _ \<Rightarrow> Inl (ExpectedPredicate field (Text (cur p))))"

text \<open>
  \<open>parseOr\<close>, \<open>parseAnd\<close> and their loops (the accumulator is the slice \<open>args\<close>), and
  \<open>parseUnary\<close>.
\<close>

fun parseOr :: "nat \<Rightarrow> parser \<Rightarrow> Node parse"
and orLoop :: "nat \<Rightarrow> Node list \<Rightarrow> parser \<Rightarrow> Node list parse"
and parseAnd :: "nat \<Rightarrow> parser \<Rightarrow> Node parse"
and andLoop :: "nat \<Rightarrow> Node list \<Rightarrow> parser \<Rightarrow> Node list parse"
and parseUnary :: "nat \<Rightarrow> parser \<Rightarrow> Node parse" where
  "parseOr 0 p = Inl OutOfFuel"
| "parseOr (Suc k) p =
    bind_res (parseAnd k p) (\<lambda>(left, p1).
      if Kind (cur p1) \<noteq> tOr then Inr (left, p1)
      else bind_res (orLoop k [left] p1) (\<lambda>(args, p2). Inr (Logic ''OR'' args, p2)))"
| "orLoop 0 args p = Inl OutOfFuel"
| "orLoop (Suc k) args p =
    (if Kind (cur p) = tOr
     then bind_res (parseAnd k (tl p)) (\<lambda>(right, p1). orLoop k (args @ [right]) p1)
     else Inr (args, p))"
| "parseAnd 0 p = Inl OutOfFuel"
| "parseAnd (Suc k) p =
    bind_res (parseUnary k p) (\<lambda>(left, p1).
      if Kind (cur p1) \<noteq> tAnd then Inr (left, p1)
      else bind_res (andLoop k [left] p1) (\<lambda>(args, p2). Inr (Logic ''AND'' args, p2)))"
| "andLoop 0 args p = Inl OutOfFuel"
| "andLoop (Suc k) args p =
    (if Kind (cur p) = tAnd
     then bind_res (parseUnary k (tl p)) (\<lambda>(right, p1). andLoop k (args @ [right]) p1)
     else Inr (args, p))"
| "parseUnary 0 p = Inl OutOfFuel"
| "parseUnary (Suc k) p =
    (if Kind (cur p) = tNot
     then bind_res (parseUnary k (tl p)) (\<lambda>(arg, p1). Inr (NotNode arg, p1))
     else if Kind (cur p) = tLParen
     then bind_res (parseOr k (tl p)) (\<lambda>(n, p1).
          bind_res (expect p1 tRParen '')'') (\<lambda>(_, p2). Inr (n, p2)))
     else parsePredicate p)"

definition parse_fuel :: "parser \<Rightarrow> nat" where
  "parse_fuel p = 5 * length p + 5"

definition parse_tokens :: "parser \<Rightarrow> parse_error + Node" where
  "parse_tokens toks =
    bind_res (parseOr (parse_fuel toks) toks) (\<lambda>(n, p).
      if Kind (cur p) \<noteq> tEOF then Inl (TrailingToken (Text (cur p))) else Inr n)"

definition Parse :: "string \<Rightarrow> parse_error + Node" where
  "Parse s =
    (case lexAll s of
       Inl e \<Rightarrow> Inl (LexError e)
     | Inr toks \<Rightarrow> parse_tokens toks)"

section \<open>Parsing consumes tokens, so the fuel is enough\<close>

lemma cur_nonempty: "Kind (cur p) \<noteq> tEOF \<Longrightarrow> p \<noteq> [] \<and> length (tl p) < length p"
  by (cases p) (auto simp: cur_def)

lemma expect_Inr:
  "expect p k what = Inr (t, p') \<Longrightarrow> k \<noteq> tEOF \<Longrightarrow>
    Kind (cur p) = k \<and> t = cur p \<and> p' = tl p \<and> length p' < length p"
  using cur_nonempty [of p] by (auto simp: expect_def advance_def split: if_splits)

lemma parseValue_Inr:
  "parseValue p = Inr (v, p') \<Longrightarrow> p' = tl p \<and> length p' < length p"
  using cur_nonempty [of p] by (auto simp: parseValue_def split: tokenKind.splits)

lemma parseVals_Inr:
  "parseVals p = Inr (vs, p') \<Longrightarrow> vs \<noteq> [] \<and> length p' < length p"
proof (induction p arbitrary: vs p' rule: parseVals.induct)
  case (1 p)
  from "1.prems" obtain v q where v: "parseValue p = Inr (v, q)"
    by (subst (asm) parseVals.simps) (auto simp: bind_res_Inr_iff)
  show ?case
  proof (cases "Kind (cur q) = tComma")
    case True
    then obtain ws where ws: "parseVals (tl q) = Inr (ws, p')" and vs: "vs = v # ws"
      using "1.prems" v by (subst (asm) parseVals.simps) (auto simp: bind_res_Inr_iff)
    from "1.IH" [OF v refl True ws] have "ws \<noteq> []" and "length p' < length (tl q)" by auto
    with parseValue_Inr [OF v] vs show ?thesis by simp
  next
    case False
    then show ?thesis
      using "1.prems" v parseValue_Inr [OF v] by (subst (asm) parseVals.simps) auto
  qed
qed

lemma parse_le:
  "expect p k what = Inr (t, p') \<Longrightarrow> length p' \<le> length p"
  "parseValue p = Inr (v, p') \<Longrightarrow> length p' \<le> length p"
  "parseVals p = Inr (vs, p') \<Longrightarrow> length p' \<le> length p"
  by (auto simp: expect_def advance_def dest!: parseValue_Inr parseVals_Inr split: if_splits)

lemma parsePredicate_consumes:
  assumes "parsePredicate p0 = Inr (n, p')"
  shows "length p' < length p0"
proof -
  obtain p1 where e: "expect p0 tIdent ''field identifier'' = Inr (cur p0, p1)"
    and l: "length p1 < length p0"
    using assms by (auto simp: parsePredicate_def bind_res_Inr_iff dest: expect_Inr)
  have "length p' \<le> length p1"
    using assms unfolding parsePredicate_def e bind_res_simps
    by (auto simp: Let_def bind_res_Inr_iff dest!: parse_le split: tokenKind.splits if_splits)
  with l show ?thesis by simp
qed

lemma parseVals_no_fuel: "parseVals p \<noteq> Inl OutOfFuel"
proof (induction p rule: parseVals.induct)
  case (1 p)
  then show ?case
    by (subst parseVals.simps)
      (auto simp: bind_res_Inl_iff parseValue_def split: tokenKind.splits)
qed

lemma parsePredicate_no_fuel: "parsePredicate p \<noteq> Inl OutOfFuel"
  using parseVals_no_fuel
  by (auto simp: parsePredicate_def Let_def bind_res_Inl_iff expect_def advance_def
      parseValue_def split: tokenKind.splits if_splits)

lemma parse_consumes:
  "parseOr k p = Inr (n, p') \<Longrightarrow> length p' < length p"
  "orLoop k args p = Inr (args', p') \<Longrightarrow> length p' \<le> length p"
  "parseAnd k p = Inr (n, p') \<Longrightarrow> length p' < length p"
  "andLoop k args p = Inr (args', p') \<Longrightarrow> length p' \<le> length p"
  "parseUnary k p = Inr (n, p') \<Longrightarrow> length p' < length p"
proof (induction k p and k args p and k p and k args p and k p arbitrary: n p' and args' p'
    and n p' and args' p' and n p' rule: parseOr_orLoop_parseAnd_andLoop_parseUnary.induct)
  case (2 k p)
  then show ?case
    by (fastforce simp: bind_res_Inr_iff split: if_splits)
next
  case (4 k args p)
  then show ?case
    by (fastforce simp: bind_res_Inr_iff split: if_splits)
next
  case (6 k p)
  then show ?case
    by (fastforce simp: bind_res_Inr_iff split: if_splits)
next
  case (8 k args p)
  then show ?case
    by (fastforce simp: bind_res_Inr_iff split: if_splits)
next
  case (10 k p)
  then show ?case
    using cur_nonempty [of p]
    by (fastforce simp: bind_res_Inr_iff dest: expect_Inr parsePredicate_consumes
        split: if_splits)
qed auto

lemma parse_fuel_enough:
  "5 * length p + 3 \<le> k \<Longrightarrow> parseOr k p \<noteq> Inl OutOfFuel"
  "5 * length p + 1 \<le> k \<Longrightarrow> orLoop k args p \<noteq> Inl OutOfFuel"
  "5 * length p + 2 \<le> k \<Longrightarrow> parseAnd k p \<noteq> Inl OutOfFuel"
  "5 * length p + 1 \<le> k \<Longrightarrow> andLoop k args p \<noteq> Inl OutOfFuel"
  "5 * length p + 1 \<le> k \<Longrightarrow> parseUnary k p \<noteq> Inl OutOfFuel"
proof (induction k arbitrary: p args)
  case (Suc k)
  note and_less = parse_consumes(3) and un_less = parse_consumes(5)
  { case 1
    then show ?case
      by (auto intro!: bind_res_neq_Inl simp: Suc.IH dest!: and_less) }
  { case 2
    then show ?case
      using cur_nonempty [of p] by (auto intro!: bind_res_neq_Inl simp: Suc.IH dest!: and_less) }
  { case 3
    then show ?case
      by (auto intro!: bind_res_neq_Inl simp: Suc.IH dest!: un_less) }
  { case 4
    then show ?case
      using cur_nonempty [of p] by (auto intro!: bind_res_neq_Inl simp: Suc.IH dest!: un_less) }
  { case 5
    then show ?case
      using cur_nonempty [of p]
      by (auto intro!: bind_res_neq_Inl simp: Suc.IH parsePredicate_no_fuel expect_def advance_def) }
qed simp_all

lemma Parse_no_fuel_error: "Parse s \<noteq> Inl OutOfFuel"
  using parse_fuel_enough(1)
  by (auto simp: Parse_def parse_tokens_def parse_fuel_def intro!: bind_res_neq_Inl
      split: sum.splits)

section \<open>Every parsed rule is a well-formed node\<close>

text \<open>
  The texts of a parsed node are those of its tokens: a field is an identifier, a number
  literal a number, an operator one of the seven (\<open><>\<close> is lexed as \<open>!=\<close>), and an \<open>IN\<close> list
  has a value.
\<close>

definition lexed_value :: "Value \<Rightarrow> bool" where
  "lexed_value v \<longleftrightarrow>
    (if IsString v then Num v = [] \<and> utf8 (Str v) else Str v = [] \<and> lex_number (Num v))"

fun lexed_node :: "Node \<Rightarrow> bool" where
  "lexed_node (Logic op args) =
    ((op = ''AND'' \<or> op = ''OR'') \<and> 2 \<le> length args \<and> list_all lexed_node args)"
| "lexed_node (Compare f op v) = (lex_ident f \<and> List.member cmp_ops op \<and> lexed_value v)"
| "lexed_node (Between f lo hi) = (lex_ident f \<and> lexed_value lo \<and> lexed_value hi)"
| "lexed_node (In f vs neg) = (lex_ident f \<and> vs \<noteq> [] \<and> list_all lexed_value vs)"
| "lexed_node (Like f pat neg) = (lex_ident f \<and> utf8 pat)"
| "lexed_node (IsNull f neg) = lex_ident f"
| "lexed_node (NotNode n) = lexed_node n"

lemma lexed_node_wf: "lexed_node n \<Longrightarrow> wf_node n"
  by (induction n) (auto simp: list_all_iff)

abbreviation good_tokens :: "parser \<Rightarrow> bool" where
  "good_tokens \<equiv> list_all good_token"

lemma good_tokens_tl [simp]: "good_tokens p \<Longrightarrow> good_tokens (tl p)"
  by (cases p) auto

lemma good_tokens_cur: "good_tokens p \<Longrightarrow> good_token (cur p)"
  by (cases p) (auto simp: good_token_def cur_def)

lemma good_token_kinds:
  "good_token t \<Longrightarrow> Kind t = tOp \<Longrightarrow> List.member cmp_ops (Text t)"
  "good_token t \<Longrightarrow> Kind t = tIdent \<Longrightarrow> lex_ident (Text t)"
  "good_token t \<Longrightarrow> Kind t = tNumber \<Longrightarrow> lex_number (Text t)"
  "good_token t \<Longrightarrow> Kind t = tString \<Longrightarrow> utf8 (Text t)"
  by (simp_all add: good_token_def)

lemma expect_good: "good_tokens p \<Longrightarrow> expect p k what = Inr (t, p') \<Longrightarrow> good_tokens p'"
  by (auto simp: expect_def advance_def split: if_splits)

lemma parseValue_good:
  "parseValue p = Inr (v, p') \<Longrightarrow> good_tokens p \<Longrightarrow> p' = tl p \<and> lexed_value v"
  using good_token_kinds(3,4) [OF good_tokens_cur]
  by (auto simp: parseValue_def lexed_value_def split: tokenKind.splits)

lemma parseVals_good:
  "parseVals p = Inr (vs, p') \<Longrightarrow> good_tokens p \<Longrightarrow>
    good_tokens p' \<and> vs \<noteq> [] \<and> list_all lexed_value vs"
proof (induction p arbitrary: vs p' rule: parseVals.induct)
  case (1 p)
  obtain v q where v: "parseValue p = Inr (v, q)"
    using "1.prems"(1) by (subst (asm) parseVals.simps) (auto simp: bind_res_Inr_iff)
  show ?case
    using "1.prems"(1) "1.IH" [OF v refl] parseValue_good [OF v "1.prems"(2)] v "1.prems"(2)
    by (subst (asm) parseVals.simps) (auto simp: bind_res_Inr_iff split: if_splits)
qed

lemma parsePredicate_good:
  assumes "good_tokens p0" "parsePredicate p0 = Inr (n, p')"
  shows "lexed_node n \<and> good_tokens p'"
proof -
  obtain p1 where e: "expect p0 tIdent ''field identifier'' = Inr (cur p0, p1)"
    and k: "Kind (cur p0) = tIdent"
    using assms(2) by (auto simp: parsePredicate_def bind_res_Inr_iff dest: expect_Inr)
  have id: "lex_ident (Text (cur p0))"
    using good_token_kinds(2) [OF good_tokens_cur [OF assms(1)] k] .
  have p1: "good_tokens p1" using expect_good [OF assms(1) e] .
  have op: "Kind (cur p1) = tOp \<Longrightarrow> List.member cmp_ops (Text (cur p1))"
    using good_token_kinds(1) [OF good_tokens_cur [OF p1]] .
  have str: "Kind (cur q) = tString \<Longrightarrow> good_tokens q \<Longrightarrow> utf8 (Text (cur q))" for q
    using good_token_kinds(4) [OF good_tokens_cur] .
  show ?thesis
    using assms(2) p1 op id unfolding parsePredicate_def e bind_res_simps
    by (auto simp: Let_def bind_res_Inr_iff str
        dest!: expect_Inr parseValue_good parseVals_good split: tokenKind.splits if_splits)
qed

lemma parse_good:
  "good_tokens p \<Longrightarrow> parseOr k p = Inr (n, p') \<Longrightarrow> lexed_node n \<and> good_tokens p'"
  "good_tokens p \<Longrightarrow> list_all lexed_node args \<Longrightarrow> orLoop k args p = Inr (args', p') \<Longrightarrow>
    list_all lexed_node args' \<and> good_tokens p' \<and>
    length args + (if Kind (cur p) = tOr then 1 else 0) \<le> length args'"
  "good_tokens p \<Longrightarrow> parseAnd k p = Inr (n, p') \<Longrightarrow> lexed_node n \<and> good_tokens p'"
  "good_tokens p \<Longrightarrow> list_all lexed_node args \<Longrightarrow> andLoop k args p = Inr (args', p') \<Longrightarrow>
    list_all lexed_node args' \<and> good_tokens p' \<and>
    length args + (if Kind (cur p) = tAnd then 1 else 0) \<le> length args'"
  "good_tokens p \<Longrightarrow> parseUnary k p = Inr (n, p') \<Longrightarrow> lexed_node n \<and> good_tokens p'"
proof (induction k arbitrary: p n p' args args')
  case (Suc k)
  { case 1
    then obtain left p1 where l: "parseAnd k p = Inr (left, p1)"
      by (auto simp: bind_res_Inr_iff)
    with Suc.IH(3) 1 have w: "lexed_node left" "good_tokens p1" by blast+
    show ?case
      using 1 l w Suc.IH(2) [of p1 "[left]"] by (auto simp: bind_res_Inr_iff split: if_splits) }
  { case 2
    show ?case
    proof (cases "Kind (cur p) = tOr")
      case True
      with 2 obtain right p1 where r: "parseAnd k (tl p) = Inr (right, p1)"
        and o': "orLoop k (args @ [right]) p1 = Inr (args', p')"
        by (auto simp: bind_res_Inr_iff)
      with Suc.IH(3) 2 have "lexed_node right" "good_tokens p1" by (blast intro: good_tokens_tl)+
      with Suc.IH(2) [OF _ _ o'] 2 show ?thesis by (auto split: if_splits)
    qed (use 2 in auto) }
  { case 3
    then obtain left p1 where l: "parseUnary k p = Inr (left, p1)"
      by (auto simp: bind_res_Inr_iff)
    with Suc.IH(5) 3 have w: "lexed_node left" "good_tokens p1" by blast+
    show ?case
      using 3 l w Suc.IH(4) [of p1 "[left]"] by (auto simp: bind_res_Inr_iff split: if_splits) }
  { case 4
    show ?case
    proof (cases "Kind (cur p) = tAnd")
      case True
      with 4 obtain right p1 where r: "parseUnary k (tl p) = Inr (right, p1)"
        and o': "andLoop k (args @ [right]) p1 = Inr (args', p')"
        by (auto simp: bind_res_Inr_iff)
      with Suc.IH(5) 4 have "lexed_node right" "good_tokens p1" by (blast intro: good_tokens_tl)+
      with Suc.IH(4) [OF _ _ o'] 4 show ?thesis by (auto split: if_splits)
    qed (use 4 in auto) }
  { case 5
    then show ?case
      using parsePredicate_good [of p n p']
      by (auto simp: bind_res_Inr_iff dest!: expect_Inr split: if_splits
          dest: Suc.IH(1) [rotated] Suc.IH(5) [rotated]) }
qed simp_all

lemma Parse_lexed: "Parse s = Inr n \<Longrightarrow> lexed_node n"
  using parse_good(1) lexAll_good [of s]
  by (auto simp: Parse_def parse_tokens_def bind_res_Inr_iff split: sum.splits if_splits)

section \<open>Properties\<close>

text \<open>C18: For every text the parser returns one of the errors of the code or a node (the fuel of
  the model never runs out), and a node it returns is one the grammar describes: a connective is
  \<open>AND\<close> or \<open>OR\<close> with at least two operands, an operator is one of the lexer's, an \<open>IN\<close> list is
  not empty, every field is an identifier that is no keyword and every number literal the text of
  a number token.\<close>

theorem Parse_total_wf:
  "Parse s \<noteq> Inl OutOfFuel \<and> (\<forall>n. Parse s = Inr n \<longrightarrow> lexed_node n \<and> wf_node n)"
  using Parse_no_fuel_error Parse_lexed lexed_node_wf by blast

theorem Parse_total_wf_witness:
  "Parse ''a >= 1.5 AND NOT (b in (2, 3) or c is not null)'' =
     Inr (Logic ''AND'' [Compare ''a'' ''>='' (NumValue ''1.5''),
       NotNode (Logic ''OR'' [In ''b'' [NumValue ''2'', NumValue ''3''] False, IsNull ''c'' True])]) \<and>
   lexed_node (Logic ''AND'' [Compare ''a'' ''>='' (NumValue ''1.5''),
       NotNode (Logic ''OR'' [In ''b'' [NumValue ''2'', NumValue ''3''] False, IsNull ''c'' True])])"
proof -
  let ?s = "''a >= 1.5 AND NOT (b in (2, 3) or c is not null)''"
  have "Parse ?s = Inr (Logic ''AND'' [Compare ''a'' ''>='' (NumValue ''1.5''),
      NotNode (Logic ''OR'' [In ''b'' [NumValue ''2'', NumValue ''3''] False, IsNull ''c'' True])])"
    by code_simp
  with Parse_total_wf [of ?s] show ?thesis by blast
qed

end
