(* ===== verification/IR_Emit.thy ===== *)
theory IR_Emit
  imports IR_Parser
begin

text \<open>
  The emitters of \<^verbatim>\<open>pkg/ir/emit.go\<close>: a node printed as SQL, Aviator, CEL or Expr text, and
  \<open>Convert\<close>, which parses a rule and prints it in another language. \<open>likeParts\<close> decides how a
  LIKE pattern is read; the same function occurs again in \<^verbatim>\<open>pkg/vm/compile.go\<close>.
\<close>

datatype DSL = SQL | Aviator | CEL | Expr

definition AllDSLs :: "DSL list" where
  "AllDSLs = [SQL, Aviator, CEL, Expr]"

text \<open>The quote characters, and the backslash.\<close>

abbreviation squote :: char where "squote \<equiv> CHR 0x27"
abbreviation dquote :: char where "dquote \<equiv> CHR 0x22"
abbreviation backslash :: char where "backslash \<equiv> CHR 0x5C"

section \<open>SQL\<close>

definition sqlVal :: "Value \<Rightarrow> string" where
  "sqlVal v = (if IsString v then [squote] @ Str v @ [squote] else Num v)"

definition sqlValList :: "Value list \<Rightarrow> string" where
  "sqlValList vs = Join (map sqlVal vs) '', ''"

text \<open>\<open>wrapSQL\<close> is the parenthesis around a nested logic node.\<close>

fun emitSQL :: "Node \<Rightarrow> string" where
  "emitSQL (Logic op args) =
    Join (map (\<lambda>a. if is_logic a then ''('' @ emitSQL a @ '')'' else emitSQL a) args)
      ('' '' @ op @ '' '')"
| "emitSQL (Compare f op v) = f @ '' '' @ op @ '' '' @ sqlVal v"
| "emitSQL (Between f lo hi) = f @ '' BETWEEN '' @ sqlVal lo @ '' AND '' @ sqlVal hi"
| "emitSQL (In f vs neg) =
    (if neg then f @ '' NOT IN ('' @ sqlValList vs @ '')''
     else f @ '' IN ('' @ sqlValList vs @ '')'')"
| "emitSQL (Like f pat neg) =
    (if neg then f @ '' NOT LIKE '' @ [squote] @ pat @ [squote]
     else f @ '' LIKE '' @ [squote] @ pat @ [squote])"
| "emitSQL (IsNull f neg) = (if neg then f @ '' IS NOT NULL'' else f @ '' IS NULL'')"
| "emitSQL (NotNode n) = ''NOT ('' @ emitSQL n @ '')''"

definition wrapSQL :: "Node \<Rightarrow> string" where
  "wrapSQL n = (if is_logic n then ''('' @ emitSQL n @ '')'' else emitSQL n)"

lemma emitSQL_Logic: "emitSQL (Logic op args) = Join (map wrapSQL args) ('' '' @ op @ '' '')"
  by (simp add: wrapSQL_def [abs_def])

section \<open>Aviator, CEL and Expr\<close>

definition quote :: "string \<Rightarrow> DSL \<Rightarrow> string" where
  "quote s d = (let q = (if d = Expr then dquote else squote)
    in [q] @ ReplaceAll s q [backslash, q] @ [q])"

definition mapOp :: "string \<Rightarrow> string" where
  "mapOp op = (if op = ''='' then ''=='' else op)"

definition codeVal :: "Value \<Rightarrow> DSL \<Rightarrow> string" where
  "codeVal v d = (if IsString v then quote (Str v) d else Num v)"

datatype like_kind = LContains | LPrefix | LSuffix | LEquals

definition likeParts :: "string \<Rightarrow> like_kind \<times> string" where
  "likeParts pattern =
    (let pre = HasPrefix pattern ''%''; suf = HasSuffix pattern ''%'';
         core = Trim pattern CHR ''%''
     in if pre \<and> suf then (LContains, core)
        else if suf then (LPrefix, core)
        else if pre then (LSuffix, core)
        else (LEquals, core))"

definition emitIsNull :: "string \<Rightarrow> bool \<Rightarrow> DSL \<Rightarrow> string" where
  "emitIsNull f neg d =
    (case d of
       CEL \<Rightarrow> if neg then ''has('' @ f @ '')'' else ''!has('' @ f @ '')''
     | _ \<Rightarrow> if neg then f @ '' != nil'' else f @ '' == nil'')"

definition emitIn :: "string \<Rightarrow> Value list \<Rightarrow> bool \<Rightarrow> DSL \<Rightarrow> string" where
  "emitIn f vs neg d =
    (let pos =
       (if d = CEL \<or> d = Expr
        then f @ '' in ['' @ Join (map (\<lambda>v. codeVal v d) vs) '', '' @ '']''
        else ''('' @ Join (map (\<lambda>v. f @ '' == '' @ codeVal v d) vs) '' || '' @ '')'')
     in if neg then ''!('' @ pos @ '')'' else pos)"

definition emitLikePositive :: "string \<Rightarrow> string \<Rightarrow> DSL \<Rightarrow> string" where
  "emitLikePositive f pattern d =
    (let (kind, core) = likeParts pattern; q = quote core d in
     case d of
       CEL \<Rightarrow>
         (case kind of
            LPrefix \<Rightarrow> f @ ''.startsWith('' @ q @ '')''
          | LSuffix \<Rightarrow> f @ ''.endsWith('' @ q @ '')''
          | LContains \<Rightarrow> f @ ''.contains('' @ q @ '')''
          | LEquals \<Rightarrow> f @ '' == '' @ q)
     | Expr \<Rightarrow>
         (case kind of
            LPrefix \<Rightarrow> ''hasPrefix('' @ f @ '', '' @ q @ '')''
          | LSuffix \<Rightarrow> ''hasSuffix('' @ f @ '', '' @ q @ '')''
          | LContains \<Rightarrow> f @ '' contains '' @ q
          | LEquals \<Rightarrow> f @ '' == '' @ q)
     | _ \<Rightarrow>
         (case kind of
            LPrefix \<Rightarrow> ''string.startsWith('' @ f @ '', '' @ q @ '')''
          | LSuffix \<Rightarrow> ''string.endsWith('' @ f @ '', '' @ q @ '')''
          | LContains \<Rightarrow> ''string.contains('' @ f @ '', '' @ q @ '')''
          | LEquals \<Rightarrow> f @ '' == '' @ q))"

definition emitLike :: "string \<Rightarrow> string \<Rightarrow> bool \<Rightarrow> DSL \<Rightarrow> string" where
  "emitLike f pattern neg d =
    (let pos = emitLikePositive f pattern d in if neg then ''!('' @ pos @ '')'' else pos)"

fun emitCode :: "Node \<Rightarrow> DSL \<Rightarrow> string" where
  "emitCode (Logic op args) d =
    Join (map (\<lambda>a. if is_logic a then ''('' @ emitCode a d @ '')'' else emitCode a d) args)
      (if op = ''OR'' then '' || '' else '' && '')"
| "emitCode (Compare f op v) d = f @ '' '' @ mapOp op @ '' '' @ codeVal v d"
| "emitCode (Between f lo hi) d =
    ''('' @ f @ '' >= '' @ codeVal lo d @ '' && '' @ f @ '' <= '' @ codeVal hi d @ '')''"
| "emitCode (In f vs neg) d = emitIn f vs neg d"
| "emitCode (Like f pat neg) d = emitLike f pat neg d"
| "emitCode (IsNull f neg) d = emitIsNull f neg d"
| "emitCode (NotNode n) d = ''!('' @ emitCode n d @ '')''"

definition wrapCode :: "Node \<Rightarrow> DSL \<Rightarrow> string" where
  "wrapCode n d = (if is_logic n then ''('' @ emitCode n d @ '')'' else emitCode n d)"

section \<open>Entry points\<close>

definition Emit :: "Node \<Rightarrow> DSL \<Rightarrow> string" where
  "Emit n d = (if d = SQL then emitSQL n else emitCode n d)"

definition Convert :: "string \<Rightarrow> DSL \<Rightarrow> parse_error + string" where
  "Convert rule d = bind_res (Parse rule) (\<lambda>n. Inr (Emit n d))"

end
