(* ===== verification/IR_RoundTrip.thy ===== *)
theory IR_RoundTrip
  imports IR_Emit
begin

text \<open>
  Printing a node as SQL and parsing the text gives the node back. The lexer half works on
  segments: a piece of text that turns into a known list of tokens whatever follows
  (\<open>seg\<close>), or whatever follows that starts with a space, a closing parenthesis or a comma
  (\<open>oseg\<close>). The parser half runs the recursive descent over the token list of a node. The
  printer does not escape quotes, so the texts of string literals must hold no quote and no
  backslash (\<open>sql_safe\<close>).
\<close>

section \<open>The nodes that print faithfully\<close>

definition plain :: "string \<Rightarrow> bool" where
  "plain t \<longleftrightarrow> squote \<notin> set t \<and> backslash \<notin> set t"

definition plain_value :: "Value \<Rightarrow> bool" where
  "plain_value v \<longleftrightarrow> (IsString v \<longrightarrow> plain (Str v))"

fun plain_node :: "Node \<Rightarrow> bool" where
  "plain_node (Logic op args) = list_all plain_node args"
| "plain_node (Compare f op v) = plain_value v"
| "plain_node (Between f lo hi) = (plain_value lo \<and> plain_value hi)"
| "plain_node (In f vs neg) = list_all plain_value vs"
| "plain_node (Like f pat neg) = plain pat"
| "plain_node (IsNull f neg) = True"
| "plain_node (NotNode n) = plain_node n"

definition sql_safe :: "Node \<Rightarrow> bool" where
  "sql_safe n \<longleftrightarrow> lexed_node n \<and> plain_node n"

section \<open>Segments of text and their tokens\<close>

type_synonym tk = "tokenKind \<times> string"

definition tk :: "token \<Rightarrow> tk" where
  "tk t = (Kind t, Text t)"

definition lexes :: "rune list \<Rightarrow> tk list \<Rightarrow> bool" where
  "lexes rs ks \<longleftrightarrow>
    (\<forall>p. \<exists>ts. lexAll_loop \<lparr>rest = rs, pos = p\<rparr> = Inr ts \<and> map tk ts = ks)"

lemma lexes_Nil: "lexes [] [(tEOF, [])]"
  by (auto simp: lexes_def lexAll_loop.simps lexer_next_def Let_def tk_def)

lemma lexes_step:
  assumes "\<And>p. \<exists>t l'. lexer_next \<lparr>rest = rs, pos = p\<rparr> = Inr (t, l') \<and> tk t = k \<and> rest l' = rs'"
    and "fst k \<noteq> tEOF" and "lexes rs' ks"
  shows "lexes rs (k # ks)"
  unfolding lexes_def
proof
  fix p
  obtain t l' where n: "lexer_next \<lparr>rest = rs, pos = p\<rparr> = Inr (t, l')" "tk t = k" "rest l' = rs'"
    using assms(1) by blast
  obtain ts where ts: "lexAll_loop \<lparr>rest = rs', pos = pos l'\<rparr> = Inr ts" "map tk ts = ks"
    using assms(3) by (auto simp: lexes_def)
  have "l' = \<lparr>rest = rs', pos = pos l'\<rparr>" using n(3) by simp
  with n ts assms(2)
  show "\<exists>ts. lexAll_loop \<lparr>rest = rs, pos = p\<rparr> = Inr ts \<and> map tk ts = k # ks"
    by (subst lexAll_loop.simps) (auto simp: tk_def)
qed

lemma lexer_next_space: "lexer_next \<lparr>rest = 32 # rs, pos = p\<rparr> = lexer_next \<lparr>rest = rs, pos = Suc p\<rparr>"
proof -
  have "skip_space \<lparr>rest = 32 # rs, pos = p\<rparr> = skip_space \<lparr>rest = rs, pos = Suc p\<rparr>"
    by (simp add: skip_space_def skip_def IsSpace_def)
  then show ?thesis by (simp add: lexer_next_def)
qed

definition seg :: "rune list \<Rightarrow> tk list \<Rightarrow> bool" where
  "seg a ka \<longleftrightarrow> (\<forall>rs ks. lexes rs ks \<longrightarrow> lexes (a @ rs) (ka @ ks))"

definition follow :: "rune list \<Rightarrow> bool" where
  "follow rs \<longleftrightarrow> rs = [] \<or> hd rs = 32 \<or> hd rs = 41 \<or> hd rs = 44"

definition oseg :: "rune list \<Rightarrow> tk list \<Rightarrow> bool" where
  "oseg a ka \<longleftrightarrow> (\<forall>rs ks. follow rs \<longrightarrow> lexes rs ks \<longrightarrow> lexes (a @ rs) (ka @ ks))"

lemma seg_append: "seg a ka \<Longrightarrow> seg b kb \<Longrightarrow> seg (a @ b) (ka @ kb)"
  by (simp add: seg_def)

lemma seg_oseg: "seg a ka \<Longrightarrow> oseg b kb \<Longrightarrow> oseg (a @ b) (ka @ kb)"
  by (simp add: seg_def oseg_def)

lemma follow_append: "b \<noteq> [] \<Longrightarrow> follow (b @ rs) = follow b"
  by (simp add: follow_def)

lemma oseg_seg: "oseg a ka \<Longrightarrow> seg b kb \<Longrightarrow> b \<noteq> [] \<Longrightarrow> follow b \<Longrightarrow> seg (a @ b) (ka @ kb)"
  by (simp add: seg_def oseg_def follow_append)

lemma seg_imp_oseg: "seg a ka \<Longrightarrow> oseg a ka"
  by (simp add: seg_def oseg_def)

lemma lexAll_loop_space:
  "lexAll_loop \<lparr>rest = 32 # rs, pos = p\<rparr> = lexAll_loop \<lparr>rest = rs, pos = Suc p\<rparr>"
  by (simp add: lexAll_loop.simps [of "\<lparr>rest = 32 # rs, pos = p\<rparr>"]
      lexAll_loop.simps [of "\<lparr>rest = rs, pos = Suc p\<rparr>"] lexer_next_space)

lemma seg_space: "seg [32] []"
  by (simp add: seg_def lexes_def lexAll_loop_space)

text \<open>Texts that become one token.\<close>

lemma skip_space_id:
  "\<not> IsSpace r \<Longrightarrow> skip_space \<lparr>rest = r # rs, pos = p\<rparr> = \<lparr>rest = r # rs, pos = p\<rparr>"
  by (simp add: skip_space_def skip_def)

lemma seg_punct:
  "seg [40] [(tLParen, ''('')]" "seg [41] [(tRParen, '')'')]" "seg [44] [(tComma, '','')]"
  unfolding seg_def
  by (auto intro!: lexes_step simp: lexer_next_def Let_def skip_space_id IsSpace_def tk_def)

lemma lexString_loop_plain:
  assumes "q \<noteq> 92" "q \<notin> set rs" "92 \<notin> set rs"
  shows "lexString_loop q sb n (rs @ q # cs) = Some (sb @ rs, Suc (n + length rs))"
  using assms
proof (induction rs arbitrary: sb n)
  case Nil
  then show ?case by (cases cs) auto
next
  case (Cons r rs)
  then have "lexString_loop q sb n ((r # rs) @ q # cs)
      = lexString_loop q (sb @ [r]) (Suc n) (rs @ q # cs)"
    by (cases "rs @ q # cs") auto
  with Cons show ?case by simp
qed

lemma seg_string:
  assumes "39 \<notin> set rs" "92 \<notin> set rs"
  shows "seg (39 # rs @ [39]) [(tString, string_of_runes rs)]"
  unfolding seg_def
  by (auto intro!: lexes_step
      simp: lexer_next_def Let_def skip_space_id IsSpace_def tk_def lexString_def
        lexString_loop_plain assms)

lemma follow_not_part:
  "follow rs \<Longrightarrow> rs = [] \<or> (\<not> isIdentPart (hd rs) \<and> \<not> (IsDigit (hd rs) \<or> hd rs = 46))"
  by (auto simp: follow_def isIdentPart_def IsLetter_def IsDigit_def)

lemma takeWhile_follow:
  "list_all P a \<Longrightarrow> rs = [] \<or> \<not> P (hd rs) \<Longrightarrow> takeWhile P (a @ rs) = a"
  by (induction a) (auto, cases rs, auto)

lemma keyword_kind_not_EOF [simp]: "keyword_kind u \<noteq> tEOF"
  by (simp add: keyword_kind_def)

lemma oseg_word:
  assumes "ident_runes a"
  shows "oseg a [(keyword_kind (upper (string_of_runes a)), string_of_runes a)]"
  unfolding oseg_def
proof (intro allI impI)
  fix rs ks
  assume f: "follow rs" and l: "lexes rs ks"
  obtain r a' where a: "a = r # a'" using assms by (cases a) (auto simp: ident_runes_def)
  have tw: "takeWhile isIdentPart (a @ rs) = a"
    using assms follow_not_part [OF f] by (intro takeWhile_follow) (auto simp: ident_runes_def)
  have r: "isIdentStart r" "\<not> IsSpace r" "\<not> IsDigit r"
    using assms by (auto simp: ident_runes_def a)
  then have ne: "r \<noteq> 40" "r \<noteq> 41" "r \<noteq> 44" "r \<noteq> 39" "r \<noteq> 34" "r \<noteq> 61" "r \<noteq> 33" "r \<noteq> 62" "r \<noteq> 60"
    by (auto simp: isIdentStart_def IsLetter_def)
  have "lexes (a @ rs) ((keyword_kind (upper (string_of_runes a)), string_of_runes a) # ks)"
    by (rule lexes_step [OF _ _ l])
      (use tw r ne in \<open>auto simp: a lexer_next_def Let_def skip_space_id lexIdent_def tk_def\<close>)
  then show "lexes (a @ rs)
      ([(keyword_kind (upper (string_of_runes a)), string_of_runes a)] @ ks)"
    by simp
qed

lemma oseg_number:
  assumes "a \<noteq> []" "IsDigit (hd a)" "\<not> IsSpace (hd a)" "list_all (\<lambda>c. IsDigit c \<or> c = 46) a"
  shows "oseg a [(tNumber, string_of_runes a)]"
  unfolding oseg_def
proof (intro allI impI)
  fix rs ks
  assume f: "follow rs" and l: "lexes rs ks"
  obtain r a' where a: "a = r # a'" using assms by (cases a) auto
  have tw: "takeWhile (\<lambda>c. IsDigit c \<or> c = 46) (a @ rs) = a"
    using assms follow_not_part [OF f] by (intro takeWhile_follow) auto
  have r: "\<not> IsSpace r" "IsDigit r"
    using assms by (auto simp: a)
  then have ne: "r \<noteq> 40" "r \<noteq> 41" "r \<noteq> 44" "r \<noteq> 39" "r \<noteq> 34" "r \<noteq> 61" "r \<noteq> 33" "r \<noteq> 62" "r \<noteq> 60"
    by (auto simp: IsDigit_def)
  have "lexes (a @ rs) ((tNumber, string_of_runes a) # ks)"
    by (rule lexes_step [OF _ _ l])
      (use tw r ne in \<open>auto simp: a lexer_next_def Let_def skip_space_id lexNumber_def tk_def\<close>)
  then show "lexes (a @ rs) ([(tNumber, string_of_runes a)] @ ks)" by simp
qed

lemma oseg_op:
  assumes "List.member cmp_ops op"
  shows "oseg (map of_char op) [(tOp, op)]"
  unfolding oseg_def
proof (intro allI impI)
  fix rs ks
  assume f: "follow rs" and l: "lexes rs ks"
  have pk: "(case rs of [] \<Rightarrow> 0 | r # _ \<Rightarrow> r) \<noteq> 61 \<and> (case rs of [] \<Rightarrow> 0 | r # _ \<Rightarrow> r) \<noteq> 62"
    using f by (auto simp: follow_def split: list.split)
  have lx: "lexer_next \<lparr>rest = r # cs, pos = p\<rparr> = lexOp \<lparr>rest = r # cs, pos = p\<rparr>"
    if "r = 61 \<or> r = 33 \<or> r = 62 \<or> r = 60" for r cs p
    using that by (auto simp: lexer_next_def Let_def skip_space_id IsSpace_def)
  have "\<exists>t l'. lexer_next \<lparr>rest = map of_char op @ rs, pos = p\<rparr> = Inr (t, l') \<and> tk t = (tOp, op) \<and> rest l' = rs"
    for p
  proof -
    consider "op = ''=''" | "op = ''==''" | "op = ''!=''" | "op = ''>''" | "op = ''>=''"
      | "op = ''<''" | "op = ''<=''"
      using assms by (auto simp: cmp_ops_def)
    then show ?thesis
      by cases (use pk in \<open>simp_all add: lx lexOp_def Let_def peekNext_def tk_def\<close>)
  qed
  then have "lexes (map of_char op @ rs) ((tOp, op) # ks)"
    by (rule lexes_step [OF _ _ l]) simp
  then show "lexes (map of_char op @ rs) ([(tOp, op)] @ ks)" by simp
qed

section \<open>Segments of byte strings\<close>

definition bseg :: "string \<Rightarrow> tk list \<Rightarrow> bool" where
  "bseg s ks \<longleftrightarrow> utf8 s \<and> seg (runes_of s) ks"

definition boseg :: "string \<Rightarrow> tk list \<Rightarrow> bool" where
  "boseg s ks \<longleftrightarrow> utf8 s \<and> oseg (runes_of s) ks"

definition bfollow :: "string \<Rightarrow> bool" where
  "bfollow s \<longleftrightarrow> s \<noteq> [] \<and> (hd s = CHR '' '' \<or> hd s = CHR '')'' \<or> hd s = CHR '','')"

lemma bfollow_runes: "bfollow s \<Longrightarrow> runes_of s \<noteq> [] \<and> follow (runes_of s)"
  by (cases s) (auto simp: bfollow_def follow_def runes_of_def decode_bytes.simps decode_rune_def)

lemma bseg_append: "bseg a ka \<Longrightarrow> bseg b kb \<Longrightarrow> bseg (a @ b) (ka @ kb)"
  by (simp add: bseg_def utf8_append utf8_runes_of_append seg_append)

lemma bseg_boseg: "bseg a ka \<Longrightarrow> boseg b kb \<Longrightarrow> boseg (a @ b) (ka @ kb)"
  by (simp add: bseg_def boseg_def utf8_append utf8_runes_of_append seg_oseg)

lemma boseg_bseg: "boseg a ka \<Longrightarrow> bseg b kb \<Longrightarrow> bfollow b \<Longrightarrow> bseg (a @ b) (ka @ kb)"
  using bfollow_runes [of b]
  by (simp add: bseg_def boseg_def utf8_append utf8_runes_of_append oseg_seg)

lemma bseg_imp_boseg: "bseg a ka \<Longrightarrow> boseg a ka"
  by (simp add: bseg_def boseg_def seg_imp_oseg)

lemma boseg_Join:
  assumes "xs \<noteq> []" "\<forall>x \<in> set xs. boseg (f x) (g x)" "bseg sep ks" "bfollow sep"
  shows "boseg (Join (map f xs) sep) (Join (map g xs) ks)"
  using assms(1,2)
proof (induction xs rule: induct_list012)
  case (3 x y zs)
  have "bseg (f x @ sep) (g x @ ks)"
    using 3 assms(3,4) by (intro boseg_bseg) auto
  from bseg_boseg [OF this "3.IH"(2)] "3.prems" show ?case by simp
qed auto

lemma bseg_const:
  "bseg '' '' []" "bseg ''('' [(tLParen, ''('')]" "bseg '')'' [(tRParen, '')'')]"
  "bseg '','' [(tComma, '','')]"
  using seg_space seg_punct by (simp_all add: bseg_def ascii_utf8 runes_of_ascii)

lemma boseg_word:
  "ascii w \<Longrightarrow> ident_runes (map of_char w) \<Longrightarrow> keyword_kind (upper w) = k \<Longrightarrow> boseg w [(k, w)]"
  using oseg_word [of "map of_char w"]
  by (auto simp: boseg_def ascii_utf8 runes_of_ascii string_of_runes_ascii)

lemma boseg_keyword:
  "boseg ''AND'' [(tAnd, ''AND'')]" "boseg ''OR'' [(tOr, ''OR'')]"
  "boseg ''BETWEEN'' [(tBetween, ''BETWEEN'')]" "boseg ''IN'' [(tIn, ''IN'')]"
  "boseg ''LIKE'' [(tLike, ''LIKE'')]" "boseg ''IS'' [(tIs, ''IS'')]"
  "boseg ''NOT'' [(tNot, ''NOT'')]" "boseg ''NULL'' [(tNull, ''NULL'')]"
  by (rule boseg_word, simp, code_simp, code_simp)+

lemma boseg_op: "List.member cmp_ops op \<Longrightarrow> boseg op [(tOp, op)]"
proof -
  assume op: "List.member cmp_ops op"
  then have "ascii op" by (auto simp: cmp_ops_def)
  with oseg_op [OF op] show ?thesis by (simp add: boseg_def ascii_utf8 runes_of_ascii)
qed

lemma boseg_ident: "lex_ident f \<Longrightarrow> boseg f [(tIdent, f)]"
  using oseg_word [of "runes_of f"] by (auto simp: boseg_def lex_ident_def utf8_def)

lemma plain_runes:
  assumes "utf8 t" "plain t"
  shows "39 \<notin> set (runes_of t)" "92 \<notin> set (runes_of t)"
proof -
  have "char_of b \<in> set t" if "r \<in> set (runes_of t)" "b \<in> set (encode_rune r)" for r b
    using that assms(1) unfolding utf8_def string_of_runes_def by (metis UN_I image_eqI set_concat set_map)
  moreover have "encode_rune 39 = [39]" "encode_rune 92 = [92]" by code_simp+
  moreover have "char_of (39::int) = squote" "char_of (92::int) = backslash" by code_simp+
  ultimately show "39 \<notin> set (runes_of t)" "92 \<notin> set (runes_of t)"
    using assms(2) unfolding plain_def by (metis list.set_intros(1))+
qed

lemma bseg_string:
  assumes "utf8 t" "plain t"
  shows "bseg ([squote] @ t @ [squote]) [(tString, t)]"
proof -
  have q: "utf8 [squote]" "runes_of [squote] = [39]"
    by (simp_all add: ascii_utf8 runes_of_ascii)
  have "runes_of ([squote] @ t @ [squote]) = 39 # runes_of t @ [39]"
    using utf8_runes_of_append [OF q(1)] utf8_runes_of_append [OF assms(1)] q(2) by simp
  moreover have "utf8 ([squote] @ t @ [squote])"
    using q(1) assms(1) by (intro utf8_append)
  ultimately show ?thesis
    using seg_string [OF plain_runes [OF assms]] assms(1) by (simp add: bseg_def utf8_def)
qed

section \<open>The tokens of a printed node\<close>

definition vtk :: "Value \<Rightarrow> tk" where
  "vtk v = (if IsString v then (tString, Str v) else (tNumber, Num v))"

definition vals_tks :: "Value list \<Rightarrow> tk list" where
  "vals_tks vs = Join (map (\<lambda>v. [vtk v]) vs) [(tComma, '','')]"

definition op_tk :: "string \<Rightarrow> tk" where
  "op_tk op = (if op = ''OR'' then tOr else tAnd, op)"

definition paren_tks :: "tk list \<Rightarrow> tk list" where
  "paren_tks ks = [(tLParen, ''('')] @ ks @ [(tRParen, '')'')]"

fun tks :: "Node \<Rightarrow> tk list" where
  "tks (Logic op args) =
    Join (map (\<lambda>a. if is_logic a then paren_tks (tks a) else tks a) args) [op_tk op]"
| "tks (Compare f op v) = [(tIdent, f), (tOp, op), vtk v]"
| "tks (Between f lo hi) =
    [(tIdent, f), (tBetween, ''BETWEEN''), vtk lo, (tAnd, ''AND''), vtk hi]"
| "tks (In f vs neg) =
    [(tIdent, f)] @ (if neg then [(tNot, ''NOT'')] else []) @ [(tIn, ''IN'')] @
    paren_tks (vals_tks vs)"
| "tks (Like f pat neg) =
    [(tIdent, f)] @ (if neg then [(tNot, ''NOT'')] else []) @ [(tLike, ''LIKE''), (tString, pat)]"
| "tks (IsNull f neg) =
    [(tIdent, f), (tIs, ''IS'')] @ (if neg then [(tNot, ''NOT'')] else []) @ [(tNull, ''NULL'')]"
| "tks (NotNode n) = [(tNot, ''NOT'')] @ paren_tks (tks n)"

lemma boseg_value:
  assumes "lexed_value v" "plain_value v"
  shows "boseg (sqlVal v) [vtk v]"
proof (cases "IsString v")
  case True
  then show ?thesis
    using assms bseg_string [of "Str v"]
    by (auto simp: sqlVal_def vtk_def lexed_value_def plain_value_def intro: bseg_imp_boseg)
next
  case False
  then show ?thesis
    using assms oseg_number [of "runes_of (Num v)"]
    by (auto simp: sqlVal_def vtk_def lexed_value_def lex_number_def Let_def boseg_def utf8_def)
qed

text \<open>Spaces around a word, and a text in parentheses.\<close>

lemma boseg_sp: "boseg a ka \<Longrightarrow> boseg b kb \<Longrightarrow> boseg (a @ '' '' @ b) (ka @ kb)"
  using bseg_boseg [OF boseg_bseg [OF _ bseg_const(1)]] by (fastforce simp: bfollow_def)

lemma bseg_paren: "boseg a ka \<Longrightarrow> bseg (''('' @ a @ '')'') (paren_tks ka)"
  using bseg_append [OF bseg_const(2) boseg_bseg [OF _ bseg_const(3)]]
  by (fastforce simp: bfollow_def paren_tks_def)

lemma boseg_paren: "boseg a ka \<Longrightarrow> boseg (CHR ''('' # a @ '')'') (paren_tks ka)"
  using bseg_imp_boseg [OF bseg_paren] by simp

lemma boseg_vals:
  assumes "vs \<noteq> []" "list_all lexed_value vs" "list_all plain_value vs"
  shows "boseg (sqlValList vs) (vals_tks vs)"
proof -
  have "bseg '', '' [(tComma, '','')]"
    using bseg_append [OF bseg_const(4,1)] by simp
  then show ?thesis
    using assms unfolding sqlValList_def vals_tks_def
    by (intro boseg_Join) (auto simp: list_all_iff bfollow_def boseg_value)
qed

lemma boseg_logic_sep:
  assumes "op = ''AND'' \<or> op = ''OR''"
  shows "bseg ('' '' @ op @ '' '') [op_tk op]"
proof -
  have "boseg ('' '' @ op) [op_tk op]"
    using assms bseg_boseg [OF bseg_const(1) boseg_keyword(1)]
      bseg_boseg [OF bseg_const(1) boseg_keyword(2)]
    by (auto simp: op_tk_def)
  from boseg_bseg [OF this bseg_const(1)] show ?thesis by (simp add: bfollow_def)
qed

lemma boseg_emit: "lexed_node n \<Longrightarrow> plain_node n \<Longrightarrow> boseg (emitSQL n) (tks n)"
proof (induction n)
  case (Logic op args)
  have "\<forall>a \<in> set args. boseg (wrapSQL a) (if is_logic a then paren_tks (tks a) else tks a)"
    using Logic boseg_paren by (auto simp: wrapSQL_def list_all_iff)
  with Logic.prems boseg_logic_sep [of op] show ?case
    unfolding emitSQL_Logic tks.simps by (intro boseg_Join) (auto simp: bfollow_def)
next
  case (Compare f op v)
  then have "boseg (f @ '' '' @ op @ '' '' @ sqlVal v) ([(tIdent, f)] @ [(tOp, op)] @ [vtk v])"
    by (intro boseg_sp boseg_ident boseg_op boseg_value) auto
  then show ?case by simp
next
  case (Between f lo hi)
  then have "boseg (f @ '' '' @ ''BETWEEN'' @ '' '' @ sqlVal lo @ '' '' @ ''AND'' @ '' '' @ sqlVal hi)
      ([(tIdent, f)] @ [(tBetween, ''BETWEEN'')] @ [vtk lo] @ [(tAnd, ''AND'')] @ [vtk hi])"
    by (intro boseg_sp boseg_ident boseg_keyword boseg_value) auto
  then show ?case by simp
next
  case (In f vs neg)
  then have v: "boseg (''('' @ sqlValList vs @ '')'') (paren_tks (vals_tks vs))"
    by (intro bseg_imp_boseg [OF bseg_paren] boseg_vals) auto
  from In v have "boseg (f @ '' '' @ ''IN'' @ '' '' @ (''('' @ sqlValList vs @ '')''))
      ([(tIdent, f)] @ [(tIn, ''IN'')] @ paren_tks (vals_tks vs))"
    by (intro boseg_sp boseg_ident boseg_keyword) auto
  moreover from In v have "boseg (f @ '' '' @ ''NOT'' @ '' '' @ ''IN'' @ '' '' @ (''('' @ sqlValList vs @ '')''))
      ([(tIdent, f)] @ [(tNot, ''NOT'')] @ [(tIn, ''IN'')] @ paren_tks (vals_tks vs))"
    by (intro boseg_sp boseg_ident boseg_keyword) auto
  ultimately show ?case by simp
next
  case (Like f pat neg)
  then have p: "boseg ([squote] @ pat @ [squote]) [(tString, pat)]"
    by (intro bseg_imp_boseg [OF bseg_string]) auto
  from Like p have "boseg (f @ '' '' @ ''LIKE'' @ '' '' @ ([squote] @ pat @ [squote]))
      ([(tIdent, f)] @ [(tLike, ''LIKE'')] @ [(tString, pat)])"
    by (intro boseg_sp boseg_ident boseg_keyword) auto
  moreover from Like p have "boseg (f @ '' '' @ ''NOT'' @ '' '' @ ''LIKE'' @ '' '' @ ([squote] @ pat @ [squote]))
      ([(tIdent, f)] @ [(tNot, ''NOT'')] @ [(tLike, ''LIKE'')] @ [(tString, pat)])"
    by (intro boseg_sp boseg_ident boseg_keyword) auto
  ultimately show ?case by simp
next
  case (IsNull f neg)
  then have "boseg (f @ '' '' @ ''IS'' @ '' '' @ ''NULL'')
      ([(tIdent, f)] @ [(tIs, ''IS'')] @ [(tNull, ''NULL'')])"
    by (intro boseg_sp boseg_ident boseg_keyword) auto
  moreover from IsNull have "boseg (f @ '' '' @ ''IS'' @ '' '' @ ''NOT'' @ '' '' @ ''NULL'')
      ([(tIdent, f)] @ [(tIs, ''IS'')] @ [(tNot, ''NOT'')] @ [(tNull, ''NULL'')])"
    by (intro boseg_sp boseg_ident boseg_keyword) auto
  ultimately show ?case by simp
next
  case (NotNode n)
  then have "boseg (''('' @ emitSQL n @ '')'') (paren_tks (tks n))"
    by (intro bseg_imp_boseg [OF bseg_paren]) simp
  from boseg_sp [OF boseg_keyword(7) this] show ?case by simp
qed

lemma lexAll_emit:
  assumes "sql_safe n"
  shows "\<exists>ts. lexAll (emitSQL n) = Inr ts \<and> map tk ts = tks n @ [(tEOF, [])]"
proof -
  have "oseg (runes_of (emitSQL n)) (tks n)"
    using boseg_emit assms by (simp add: sql_safe_def boseg_def)
  then have "lexes (runes_of (emitSQL n) @ []) (tks n @ [(tEOF, [])])"
    using lexes_Nil unfolding oseg_def follow_def by blast
  then show ?thesis by (auto simp: lexes_def lexAll_def newLexer_def)
qed

section \<open>Parsing the tokens of a node\<close>

lemma tk_Cons:
  "map tk p = k # ks \<longleftrightarrow> (\<exists>t q. p = t # q \<and> Kind t = fst k \<and> Text t = snd k \<and> map tk q = ks)"
  by (cases k) (auto simp: map_eq_Cons_conv tk_def)

lemma cur_Cons [simp]: "cur (t # p) = t"
  by (simp add: cur_def)

lemma cur_tk: "map tk p = k # ks \<Longrightarrow> Kind (cur p) = fst k \<and> Text (cur p) = snd k"
  by (auto simp: tk_Cons)

lemma parseValue_tk:
  "map tk p = vtk v # ks \<Longrightarrow> lexed_value v \<Longrightarrow> \<exists>q. parseValue p = Inr (v, q) \<and> map tk q = ks"
  by (cases v) (auto simp: tk_Cons vtk_def lexed_value_def parseValue_def NumValue_def StrValue_def
      split: if_splits)

lemma parseVals_tk:
  assumes "map tk p = vals_tks vs @ ks" "vs \<noteq> []" "list_all lexed_value vs" "ks \<noteq> []"
    "fst (hd ks) \<noteq> tComma"
  shows "\<exists>q. parseVals p = Inr (vs, q) \<and> map tk q = ks"
  using assms
proof (induction vs arbitrary: p rule: induct_list012)
  case (2 v)
  then obtain q where q: "parseValue p = Inr (v, q)" "map tk q = ks"
    using parseValue_tk [of p v ks] by (auto simp: vals_tks_def)
  moreover have "Kind (cur q) \<noteq> tComma"
    using 2 q cur_tk [of q "hd ks" "tl ks"] by simp
  ultimately show ?case by (subst parseVals.simps) simp
next
  case (3 v w vs)
  then have "map tk p = vtk v # (tComma, '','') # vals_tks (w # vs) @ ks"
    by (simp add: vals_tks_def)
  then obtain q where q: "parseValue p = Inr (v, q)"
      "map tk q = (tComma, '','') # vals_tks (w # vs) @ ks"
    using parseValue_tk "3.prems"(3) by (metis list.pred_inject(2))
  then obtain t q' where q': "q = t # q'" "Kind t = tComma" "map tk q' = vals_tks (w # vs) @ ks"
    by (auto simp: tk_Cons)
  from "3.IH"(2) [OF q'(3)] "3.prems" obtain r where "parseVals q' = Inr (w # vs, r)" "map tk r = ks"
    by auto
  with q q' show ?case by (subst parseVals.simps) simp
qed simp

fun is_leaf :: "Node \<Rightarrow> bool" where
  "is_leaf (Logic _ _) = False"
| "is_leaf (NotNode _) = False"
| "is_leaf _ = True"

lemma expect_tk: "map tk p = k # ks \<Longrightarrow> expect p (fst k) w = Inr (cur p, tl p) \<and> map tk (tl p) = ks"
  by (auto simp: expect_def advance_def tk_Cons)

lemma parsePredicate_tk:
  assumes "is_leaf n" "lexed_node n" "map tk p = tks n @ ks"
  shows "\<exists>q. parsePredicate p = Inr (n, q) \<and> map tk q = ks"
proof (cases n)
  case (Compare f op v)
  then obtain t1 t2 q where p: "p = t1 # t2 # q" "Kind t1 = tIdent" "Text t1 = f"
      "Kind t2 = tOp" "Text t2 = op" "map tk q = vtk v # ks"
    using assms by (auto simp: tk_Cons)
  then obtain r where "parseValue q = Inr (v, r)" "map tk r = ks"
    using parseValue_tk [of q v ks] assms Compare by auto
  with p Compare show ?thesis
    by (simp add: parsePredicate_def expect_def advance_def)
next
  case (Between f lo hi)
  then obtain t1 t2 q where p: "p = t1 # t2 # q" "Kind t1 = tIdent" "Text t1 = f"
      "Kind t2 = tBetween" "map tk q = vtk lo # (tAnd, ''AND'') # vtk hi # ks"
    using assms by (auto simp: tk_Cons)
  then obtain r where r: "parseValue q = Inr (lo, r)" "map tk r = (tAnd, ''AND'') # vtk hi # ks"
    using parseValue_tk [OF p(5)] assms Between by auto
  then obtain t3 r' where r': "r = t3 # r'" "Kind t3 = tAnd" "map tk r' = vtk hi # ks"
    by (auto simp: tk_Cons)
  then obtain s where "parseValue r' = Inr (hi, s)" "map tk s = ks"
    using parseValue_tk [of r' hi ks] assms Between by auto
  with p r r' Between show ?thesis
    by (simp add: parsePredicate_def expect_def advance_def)
next
  case (In f vs neg)
  let ?rest = "vals_tks vs @ [(tRParen, '')'')] @ ks"
  have v: "\<exists>r. parseVals q = Inr (vs, r) \<and> map tk r = (tRParen, '')'') # ks"
    if "map tk q = ?rest" for q
    using parseVals_tk [of q vs "(tRParen, '')'') # ks"] that assms In by simp
  obtain t1 q0 where p: "p = t1 # q0" "Kind t1 = tIdent" "Text t1 = f"
      "map tk q0 = (if neg then [(tNot, ''NOT'')] else []) @ [(tIn, ''IN''), (tLParen, ''('')] @ ?rest"
    using assms In by (auto simp: tk_Cons paren_tks_def)
  obtain t2 t3 q1 where q1: "(if neg then tl q0 else q0) = t2 # t3 # q1" "Kind t2 = tIn"
      "Kind t3 = tLParen" "map tk q1 = ?rest" and n: "(Kind (cur q0) = tNot) = neg"
    using p by (cases neg) (auto simp: tk_Cons)
  from v [OF q1(4)] obtain r t4 r' where "parseVals q1 = Inr (vs, r)" "r = t4 # r'"
      "Kind t4 = tRParen" "map tk r' = ks" by (auto simp: tk_Cons)
  with p q1 n In show ?thesis
    by (simp add: parsePredicate_def Let_def expect_def advance_def)
next
  case (Like f pat neg)
  obtain t1 q0 where p: "p = t1 # q0" "Kind t1 = tIdent" "Text t1 = f"
      "map tk q0 = (if neg then [(tNot, ''NOT'')] else []) @ [(tLike, ''LIKE''), (tString, pat)] @ ks"
    using assms Like by (auto simp: tk_Cons)
  obtain t2 t3 q1 where q1: "(if neg then tl q0 else q0) = t2 # t3 # q1" "Kind t2 = tLike"
      "Kind t3 = tString" "Text t3 = pat" "map tk q1 = ks" and n: "(Kind (cur q0) = tNot) = neg"
    using p by (cases neg) (auto simp: tk_Cons)
  with p Like show ?thesis
    by (simp add: parsePredicate_def Let_def expect_def advance_def)
next
  case (IsNull f neg)
  obtain t1 t2 q0 where p: "p = t1 # t2 # q0" "Kind t1 = tIdent" "Text t1 = f" "Kind t2 = tIs"
      "map tk q0 = (if neg then [(tNot, ''NOT'')] else []) @ [(tNull, ''NULL'')] @ ks"
    using assms IsNull by (auto simp: tk_Cons)
  obtain t3 q1 where q1: "(if neg then tl q0 else q0) = t3 # q1" "Kind t3 = tNull"
      "map tk q1 = ks" and n: "(Kind (cur q0) = tNot) = neg"
    using p by (cases neg) (auto simp: tk_Cons)
  with p IsNull show ?thesis
    by (cases neg) (simp_all add: parsePredicate_def Let_def expect_def advance_def)
qed (use assms in auto)

text \<open>
  An operand of a connective (\<open>wtks\<close>, in parentheses when it is itself a connective) is read by
  \<open>parseUnary\<close>; the tokens of a whole node are read by \<open>parseOr\<close>, whatever closes them.
\<close>

definition wtks :: "Node \<Rightarrow> tk list" where
  "wtks a = (if is_logic a then paren_tks (tks a) else tks a)"

definition unary_ok :: "Node \<Rightarrow> bool" where
  "unary_ok n \<longleftrightarrow> (\<forall>p ks k. map tk p = wtks n @ ks \<longrightarrow> 5 * length p + 1 \<le> k \<longrightarrow>
    (\<exists>q. parseUnary k p = Inr (n, q) \<and> map tk q = ks))"

definition or_ok :: "Node \<Rightarrow> bool" where
  "or_ok n \<longleftrightarrow> (\<forall>p ks k. map tk p = tks n @ ks \<longrightarrow> ks \<noteq> [] \<longrightarrow> fst (hd ks) \<noteq> tAnd \<longrightarrow>
    fst (hd ks) \<noteq> tOr \<longrightarrow> 5 * length p + 3 \<le> k \<longrightarrow>
    (\<exists>q. parseOr k p = Inr (n, q) \<and> map tk q = ks))"

lemma unary_okD:
  "unary_ok n \<Longrightarrow> map tk p = wtks n @ ks \<Longrightarrow> 5 * length p + 1 \<le> k \<Longrightarrow>
    \<exists>q. parseUnary k p = Inr (n, q) \<and> map tk q = ks \<and> length q < length p"
  using parse_consumes(5) by (metis unary_ok_def)

lemma or_okD:
  "or_ok n \<Longrightarrow> map tk p = tks n @ k0 # ks \<Longrightarrow> fst k0 \<noteq> tAnd \<Longrightarrow> fst k0 \<noteq> tOr \<Longrightarrow>
    5 * length p + 3 \<le> k \<Longrightarrow> \<exists>q. parseOr k p = Inr (n, q) \<and> map tk q = k0 # ks"
  unfolding or_ok_def by (metis list.distinct(1) list.sel(1))

lemma and_of_unary:
  assumes "unary_ok n" "map tk p = wtks n @ k0 # ks" "fst k0 \<noteq> tAnd" "5 * length p + 2 \<le> k"
  shows "\<exists>q. parseAnd k p = Inr (n, q) \<and> map tk q = k0 # ks \<and> length q < length p"
proof -
  obtain k' where k: "k = Suc k'" using assms(4) by (cases k) auto
  obtain q where "parseUnary k' p = Inr (n, q)" "map tk q = k0 # ks" "length q < length p"
    using unary_okD [OF assms(1,2), of k'] assms(4) k by auto
  moreover from this assms(3) have "Kind (cur q) \<noteq> tAnd" by (auto simp: tk_def)
  ultimately show ?thesis by (simp add: k)
qed

lemma Join_Cons_concat:
  "Join (map f (x # xs)) sep = f x @ concat (map (\<lambda>a. sep @ f a) xs)"
  by (induction xs arbitrary: x) simp_all

lemma andLoop_tk:
  assumes "\<forall>a \<in> set xs. unary_ok a" "map tk p = concat (map (\<lambda>a. (tAnd, w) # wtks a) xs) @ k0 # ks"
    "fst k0 \<noteq> tAnd" "5 * length p + 1 \<le> k"
  shows "\<exists>q. andLoop k acc p = Inr (acc @ xs, q) \<and> map tk q = k0 # ks"
  using assms
proof (induction xs arbitrary: p acc k)
  case Nil
  then show ?case by (cases k) (auto simp: tk_def)
next
  case (Cons x xs)
  obtain k' where k: "k = Suc k'" using Cons.prems by (cases k) auto
  from Cons.prems obtain t p' where p: "p = t # p'" "Kind t = tAnd"
      "map tk p' = wtks x @ concat (map (\<lambda>a. (tAnd, w) # wtks a) xs) @ k0 # ks"
    by (auto simp: tk_Cons)
  obtain q where q: "parseUnary k' p' = Inr (x, q)" "length q < length p'"
      "map tk q = concat (map (\<lambda>a. (tAnd, w) # wtks a) xs) @ k0 # ks"
    using unary_okD [OF _ p(3), of k'] Cons.prems p(1) k by auto
  then obtain r where "andLoop k' (acc @ [x]) q = Inr (acc @ x # xs, r)" "map tk r = k0 # ks"
    using Cons.IH [OF _ q(3), of k' "acc @ [x]"] Cons.prems p(1) k by auto
  with p q k show ?case by simp
qed

lemma orLoop_tk:
  assumes "\<forall>a \<in> set xs. unary_ok a" "map tk p = concat (map (\<lambda>a. (tOr, w) # wtks a) xs) @ k0 # ks"
    "fst k0 \<noteq> tAnd" "fst k0 \<noteq> tOr" "5 * length p + 1 \<le> k"
  shows "\<exists>q. orLoop k acc p = Inr (acc @ xs, q) \<and> map tk q = k0 # ks"
  using assms
proof (induction xs arbitrary: p acc k)
  case Nil
  then show ?case by (cases k) (auto simp: tk_def)
next
  case (Cons x xs)
  obtain k' where k: "k = Suc k'" using Cons.prems by (cases k) auto
  obtain k1 ks1 where k1: "concat (map (\<lambda>a. (tOr, w) # wtks a) xs) @ k0 # ks = k1 # ks1"
      "fst k1 \<noteq> tAnd"
    using Cons.prems(3) by (cases xs) auto
  from Cons.prems obtain t p' where p: "p = t # p'" "Kind t = tOr" "map tk p' = wtks x @ k1 # ks1"
    by (auto simp: tk_Cons k1(1) [symmetric])
  obtain q where q: "parseAnd k' p' = Inr (x, q)" "length q < length p'" "map tk q = k1 # ks1"
    using and_of_unary [OF _ p(3) k1(2), of k'] Cons.prems p(1) k by auto
  then obtain r where "orLoop k' (acc @ [x]) q = Inr (acc @ x # xs, r)" "map tk r = k0 # ks"
    using Cons.IH [of q k' "acc @ [x]"] Cons.prems p(1) k k1 by auto
  with p q k show ?case by simp
qed

lemma or_ok_unary:
  assumes "unary_ok n" "\<not> is_logic n"
  shows "or_ok n"
  unfolding or_ok_def
proof (intro allI impI)
  fix p ks and k :: nat
  assume p: "map tk p = tks n @ ks" and ks: "ks \<noteq> []" "fst (hd ks) \<noteq> tAnd" "fst (hd ks) \<noteq> tOr"
    and k: "5 * length p + 3 \<le> k"
  obtain k' where k': "k = Suc k'" using k by (cases k) auto
  obtain q where "parseAnd k' p = Inr (n, q)" "map tk q = ks"
    using and_of_unary [OF assms(1), of p "hd ks" "tl ks" k'] p ks k k' assms(2)
    by (auto simp: wtks_def)
  with ks cur_tk [of q "hd ks" "tl ks"] show "\<exists>q. parseOr k p = Inr (n, q) \<and> map tk q = ks"
    by (simp add: k')
qed

lemma or_ok_logic:
  assumes "op = ''AND'' \<or> op = ''OR''" "2 \<le> length args" "\<forall>a \<in> set args. unary_ok a"
  shows "or_ok (Logic op args)"
  unfolding or_ok_def
proof (intro allI impI)
  fix p ks and k :: nat
  assume p: "map tk p = tks (Logic op args) @ ks"
    and ks: "ks \<noteq> []" "fst (hd ks) \<noteq> tAnd" "fst (hd ks) \<noteq> tOr" and k: "5 * length p + 3 \<le> k"
  obtain x y xs where args: "args = x # y # xs"
    using assms(2) by (cases args rule: list.exhaust [case_product list.exhaust [of "tl args"]]) auto
  have ks': "ks = hd ks # tl ks" using ks by simp
  obtain k'' where k'': "k = Suc (Suc k'')" using k by (cases k; cases "k - 1") auto
  let ?tail = "concat (map (\<lambda>a. op_tk op # wtks a) (y # xs)) @ ks"
  have p': "map tk p = wtks x @ ?tail"
    using p Join_Cons_concat [of wtks x "y # xs" "[op_tk op]"]
    by (simp add: args wtks_def [abs_def] cong: if_cong)
  show "\<exists>q. parseOr k p = Inr (Logic op args, q) \<and> map tk q = ks"
  proof (cases "op = ''AND''")
    case True
    obtain q where q: "parseUnary k'' p = Inr (x, q)" "map tk q = ?tail" "length q < length p"
      using unary_okD [OF _ p', of k''] assms(3) k k'' args by auto
    obtain r where r: "andLoop k'' [x] q = Inr (args, r)" "map tk r = ks"
      using andLoop_tk [of "y # xs" q "''AND''" "hd ks" "tl ks" k'' "[x]"] q assms(3) k k'' args ks True
      by (auto simp: op_tk_def)
    have "Kind (cur q) = tAnd" "Kind (cur r) \<noteq> tOr"
      using cur_tk [of q] q(2) cur_tk [of r "hd ks" "tl ks"] r(2) ks by (auto simp: op_tk_def True)
    with q r show ?thesis by (simp add: k'' True)
  next
    case False
    then have op: "op = ''OR''" using assms(1) by simp
    obtain q where q: "parseAnd (Suc k'') p = Inr (x, q)" "map tk q = ?tail" "length q < length p"
      using and_of_unary [of x p "op_tk op" _ "Suc k''"] p' assms(3) k k'' args
      by (auto simp: op_tk_def op)
    obtain r where r: "orLoop (Suc k'') [x] q = Inr (args, r)" "map tk r = ks"
      using orLoop_tk [of "y # xs" q "''OR''" "hd ks" "tl ks" "Suc k''" "[x]"] q assms(3) k k'' args ks op
      by (auto simp: op_tk_def)
    have "Kind (cur q) = tOr" using cur_tk [of q] q(2) by (auto simp: op_tk_def op)
    with q(1) r show ?thesis by (simp add: k'' op del: orLoop.simps parseAnd.simps)
  qed
qed

lemma unary_paren:
  assumes "or_ok n" "map tk p = paren_tks (tks n) @ ks" "5 * length p + 1 \<le> k"
  shows "\<exists>q. parseUnary k p = Inr (n, q) \<and> map tk q = ks"
proof -
  obtain k' where k: "k = Suc k'" using assms(3) by (cases k) auto
  obtain t p' where p: "p = t # p'" "Kind t = tLParen" "map tk p' = tks n @ (tRParen, '')'') # ks"
    using assms(2) by (auto simp: paren_tks_def tk_Cons)
  obtain q where q: "parseOr k' p' = Inr (n, q)" "map tk q = (tRParen, '')'') # ks"
    using or_okD [OF assms(1) p(3), of k'] assms(3) p(1) k by auto
  with p show ?thesis using expect_tk [OF q(2)] by (auto simp: k)
qed

lemma unary_leaf: "is_leaf n \<Longrightarrow> lexed_node n \<Longrightarrow> unary_ok n"
  unfolding unary_ok_def
proof (intro allI impI)
  fix p ks and k :: nat
  assume n: "is_leaf n" "lexed_node n" and p: "map tk p = wtks n @ ks" and k: "5 * length p + 1 \<le> k"
  obtain k' where k': "k = Suc k'" using k by (cases k) auto
  have "map tk p = tks n @ ks" using p n(1) by (cases n) (auto simp: wtks_def)
  moreover from this have "Kind (cur p) = tIdent" using n(1) by (cases n) (auto dest!: cur_tk)
  ultimately show "\<exists>q. parseUnary k p = Inr (n, q) \<and> map tk q = ks"
    using parsePredicate_tk [OF n] by (simp add: k')
qed

lemma unary_not: "or_ok n \<Longrightarrow> unary_ok (NotNode n)"
  unfolding unary_ok_def
proof (intro allI impI)
  fix p ks and k :: nat
  assume n: "or_ok n" and p: "map tk p = wtks (NotNode n) @ ks" and k: "5 * length p + 1 \<le> k"
  obtain k' where k': "k = Suc k'" using k by (cases k) auto
  obtain t p' where p': "p = t # p'" "Kind t = tNot" "map tk p' = paren_tks (tks n) @ ks"
    using p by (auto simp: wtks_def tk_Cons)
  with unary_paren [OF n p'(3), of k'] k k'
  show "\<exists>q. parseUnary k p = Inr (NotNode n, q) \<and> map tk q = ks" by auto
qed

lemma parse_tk_ok: "lexed_node n \<Longrightarrow> unary_ok n \<and> or_ok n"
proof (induction n)
  case (Logic op args)
  then have "or_ok (Logic op args)" by (intro or_ok_logic) (auto simp: list_all_iff)
  then show ?case using unary_paren by (auto simp: unary_ok_def wtks_def)
next
  case (NotNode n)
  then show ?case using unary_not or_ok_unary [OF unary_not] by simp
qed (use unary_leaf or_ok_unary [OF unary_leaf] in simp_all)

section \<open>The round trip\<close>

text \<open>A text whose tokens are those of a tree parses to the tree.\<close>

lemma Parse_tokens:
  assumes "lexAll s = Inr ts" "map tk ts = tks n @ [(tEOF, [])]" "lexed_node n"
  shows "Parse s = Inr n"
proof -
  obtain q where "parseOr (parse_fuel ts) ts = Inr (n, q)" "map tk q = [(tEOF, [])]"
    using or_okD [OF conjunct2 [OF parse_tk_ok] assms(2), of "parse_fuel ts"] assms(3)
    by (auto simp: parse_fuel_def)
  with assms(1) show ?thesis by (auto simp: Parse_def parse_tokens_def tk_def)
qed

lemma Parse_emitSQL_safe: "sql_safe n \<Longrightarrow> Parse (emitSQL n) = Inr n"
  using lexAll_emit [of n] Parse_tokens [of "emitSQL n" _ n] by (auto simp: sql_safe_def)

lemma emitSQL_inj: "sql_safe a \<Longrightarrow> sql_safe b \<Longrightarrow> emitSQL a = emitSQL b \<Longrightarrow> a = b"
  by (metis Parse_emitSQL_safe sum.inject(2))

lemma Parse_sql_safe: "Parse s = Inr n \<Longrightarrow> plain_node n \<Longrightarrow> sql_safe n"
  by (simp add: sql_safe_def Parse_lexed)

section \<open>Properties\<close>

text \<open>C3: Parsing the SQL text that \<open>emitSQL\<close> prints for a node gives the same node back, for
  every node made of what the lexer can produce and whose string literals hold no quote and no
  backslash. The parentheses that \<open>wrapSQL\<close> adds around nested connectives are therefore enough,
  and they are dropped again by the parser.\<close>

theorem Parse_emitSQL:
  assumes "lexed_node n" "plain_node n"
  shows "Parse (emitSQL n) = Inr n"
  using assms Parse_emitSQL_safe by (simp add: sql_safe_def)

theorem Parse_emitSQL_witness:
  "Parse (emitSQL (Logic ''OR'' [Logic ''AND'' [Compare ''age'' ''>='' (NumValue ''18''),
       In ''vip'' [StrValue ''gold'', NumValue ''2''] True], NotNode (Like ''name'' ''a%'' False)])) =
   Inr (Logic ''OR'' [Logic ''AND'' [Compare ''age'' ''>='' (NumValue ''18''),
       In ''vip'' [StrValue ''gold'', NumValue ''2''] True], NotNode (Like ''name'' ''a%'' False)])"
  by (rule Parse_emitSQL) code_simp+

text \<open>Reprinting is stable: when a rule parses to a node whose strings are plain, its SQL text
  parses to the same node, and two rules print the same SQL text only when they are the same
  tree (the text can serve as a key of the tree).\<close>

theorem emitSQL_canonical:
  assumes "Parse s = Inr m" "Parse t = Inr n" "plain_node m" "plain_node n"
  shows "Parse (emitSQL m) = Inr m \<and> (emitSQL m = emitSQL n \<longleftrightarrow> m = n)"
  using assms Parse_sql_safe Parse_emitSQL_safe emitSQL_inj by blast

theorem emitSQL_canonical_witness:
  "Parse (emitSQL (Compare ''a'' ''!='' (NumValue ''1''))) = Inr (Compare ''a'' ''!='' (NumValue ''1'')) \<and>
   (emitSQL (Compare ''a'' ''!='' (NumValue ''1'')) = emitSQL (IsNull ''b'' False) \<longleftrightarrow>
    Compare ''a'' ''!='' (NumValue ''1'') = IsNull ''b'' False)"
  by (rule emitSQL_canonical [of "''a <> 1''" _ "''b is NULL''"]; code_simp)

end
