(* ===== verification/VM_Compile.thy ===== *)
theory VM_Compile
  imports VM_Machine IR_RoundTrip
begin

text \<open>
  The compiler from rule trees to stack code, \<^verbatim>\<open>pkg/vm/compile.go\<close>. The struct \<open>compiler\<close> holds
  the program built so far and the index of its fields; every method takes it and returns it
  updated. Pool indices are \<open>int32(len(..))\<close>, a conversion that wraps, so they are 32-bit words
  here and correctness is stated for rules with fewer than \<open>2^30\<close> leaves.

  \<open>denote\<close> is the meaning of a rule on a row, a fold over the tree with no stack, pools or
  instructions. The main result is that the compiled program evaluates to it (\<open>Eval_Compile\<close>),
  unless the rule needs more than \<open>stackMax\<close> stack slots, when it evaluates to false, and
  that it never panics.
\<close>

section \<open>The compiler\<close>

datatype compile_error =
    EmptyLogic
  | BadNumber string num_error
  | ExpectedNumber string
  | NumberSyntax num_error
  | BetweenLo compile_error
  | BetweenHi compile_error
  | UnsupportedOperator string
  | RuleSyntax parse_error

record compiler =
  prog :: Program
  fieldIdx :: "string \<rightharpoonup> 32 word"

definition add :: "compiler \<Rightarrow> OpCode \<Rightarrow> 32 word \<Rightarrow> compiler" where
  "add c op a = c\<lparr>prog := (prog c)\<lparr>Code := Code (prog c) @ [instr op a]\<rparr>\<rparr>"

definition comp_field :: "compiler \<Rightarrow> string \<Rightarrow> 32 word \<times> compiler" where
  "comp_field c name =
    (case fieldIdx c name of
       Some i \<Rightarrow> (i, c)
     | None \<Rightarrow>
       let i = word_of_int (int (length (Fields (prog c)))) in
       (i, c\<lparr>prog := (prog c)\<lparr>Fields := Fields (prog c) @ [name]\<rparr>,
            fieldIdx := (fieldIdx c)(name \<mapsto> i)\<rparr>))"

definition numConst :: "compiler \<Rightarrow> float64 \<Rightarrow> 32 word \<times> compiler" where
  "numConst c f =
    (word_of_int (int (length (Nums (prog c)))),
     c\<lparr>prog := (prog c)\<lparr>Nums := Nums (prog c) @ [f]\<rparr>\<rparr>)"

definition strConst :: "compiler \<Rightarrow> string \<Rightarrow> 32 word \<times> compiler" where
  "strConst c s =
    (word_of_int (int (length (Strs (prog c)))),
     c\<lparr>prog := (prog c)\<lparr>Strs := Strs (prog c) @ [s]\<rparr>\<rparr>)"

definition setConst :: "compiler \<Rightarrow> string list \<Rightarrow> 32 word \<times> compiler" where
  "setConst c vals =
    (word_of_int (int (length (Sets (prog c)))),
     c\<lparr>prog := (prog c)\<lparr>Sets := Sets (prog c) @ [set vals]\<rparr>\<rparr>)"

definition numOf :: "Value \<Rightarrow> compile_error + float64" where
  "numOf v =
    (if IsString v then Inl (ExpectedNumber (Str v))
     else case ParseFloat (Num v) of Inl e \<Rightarrow> Inl (NumberSyntax e) | Inr f \<Rightarrow> Inr f)"

definition valStr :: "Value \<Rightarrow> string" where
  "valStr v = (if IsString v then Str v else Num v)"

definition cmpOp :: "string \<Rightarrow> compile_error + OpCode" where
  "cmpOp op =
    (if op = ''='' \<or> op = ''=='' then Inr OpEq
     else if op = ''!='' then Inr OpNe
     else if op = ''>'' then Inr OpGt
     else if op = ''>='' then Inr OpGe
     else if op = ''<'' then Inr OpLt
     else if op = ''<='' then Inr OpLe
     else Inl (UnsupportedOperator op))"

definition vm_likeParts :: "string \<Rightarrow> like_kind \<times> string" where
  "vm_likeParts pattern =
    (let pre = HasPrefix pattern ''%''; suf = HasSuffix pattern ''%'';
         core = Trim pattern CHR ''%''
     in if pre \<and> suf then (LContains, core)
        else if suf then (LPrefix, core)
        else if pre then (LSuffix, core)
        else (LEquals, core))"

text \<open>The nested calls \<open>c.add(op, c.field(name))\<close>, \<open>c.add(op, c.numConst(f))\<close> and so on.\<close>

definition add_load :: "compiler \<Rightarrow> string \<Rightarrow> compiler" where
  "add_load c name = (let (i, c1) = comp_field c name in add c1 OpLoadField i)"

definition add_num :: "compiler \<Rightarrow> float64 \<Rightarrow> compiler" where
  "add_num c f = (let (i, c1) = numConst c f in add c1 OpConstNum i)"

definition add_str :: "compiler \<Rightarrow> OpCode \<Rightarrow> string \<Rightarrow> compiler" where
  "add_str c op s = (let (i, c1) = strConst c s in add c1 op i)"

definition add_set :: "compiler \<Rightarrow> string list \<Rightarrow> compiler" where
  "add_set c vals = (let (i, c1) = setConst c vals in add c1 OpIn i)"

definition pushVal :: "compiler \<Rightarrow> Value \<Rightarrow> compile_error + compiler" where
  "pushVal c v =
    (if IsString v then Inr (add_str c OpConstStr (Str v))
     else case ParseFloat (Num v) of
       Inl e \<Rightarrow> Inl (BadNumber (Num v) e)
     | Inr f \<Rightarrow> Inr (add_num c f))"

definition like_op :: "like_kind \<Rightarrow> OpCode" where
  "like_op k = (case k of LPrefix \<Rightarrow> OpLikePrefix | LSuffix \<Rightarrow> OpLikeSuffix
     | LContains \<Rightarrow> OpLikeContains | LEquals \<Rightarrow> OpLikeEq)"

text \<open>\<open>emit\<close>; \<open>emit_rest\<close> is its loop over \<open>t.Args[1:]\<close>.\<close>

fun emit :: "compiler \<Rightarrow> Node \<Rightarrow> compile_error + compiler"
and emit_rest :: "OpCode \<Rightarrow> compiler \<Rightarrow> Node list \<Rightarrow> compile_error + compiler" where
  "emit c (Logic op []) = Inl EmptyLogic"
| "emit c (Logic op (a # as)) =
    bind_res (emit c a) (\<lambda>c1. emit_rest (if op = ''OR'' then OpOr else OpAnd) c1 as)"
| "emit c (Compare f op v) =
    bind_res (pushVal (add_load c f) v) (\<lambda>c1.
    bind_res (cmpOp op) (\<lambda>o'. Inr (add c1 o' 0)))"
| "emit c (Between f lo hi) =
    (let c1 = add_load c f in
     case numOf lo of Inl e \<Rightarrow> Inl (BetweenLo e) | Inr l \<Rightarrow>
     case numOf hi of Inl e \<Rightarrow> Inl (BetweenHi e) | Inr h \<Rightarrow>
       Inr (add (add_num (add_num c1 l) h) OpBetween 0))"
| "emit c (In f vs neg) =
    (let c1 = add_set (add_load c f) (map valStr vs)
     in Inr (if neg then add c1 OpNot 0 else c1))"
| "emit c (Like f pat neg) =
    (let (kind, core) = vm_likeParts pat; c1 = add_str (add_load c f) (like_op kind) core
     in Inr (if neg then add c1 OpNot 0 else c1))"
| "emit c (IsNull f neg) =
    (let c1 = add_load c f in Inr (add c1 (if neg then OpIsNotNull else OpIsNull) 0))"
| "emit c (NotNode n) = bind_res (emit c n) (\<lambda>c1. Inr (add c1 OpNot 0))"
| "emit_rest op c [] = Inr c"
| "emit_rest op c (a # as) = bind_res (emit c a) (\<lambda>c1. emit_rest op (add c1 op 0) as)"

definition empty_compiler :: compiler where
  "empty_compiler =
    \<lparr>prog = \<lparr>Source = [], Code = [], Nums = [], Strs = [], Fields = [], Sets = []\<rparr>,
     fieldIdx = Map.empty\<rparr>"

definition Compile :: "Node \<Rightarrow> compile_error + Program" where
  "Compile n = bind_res (emit empty_compiler n) (\<lambda>c. Inr (prog c))"

definition CompileString :: "string \<Rightarrow> compile_error + Program" where
  "CompileString rule =
    (case Parse rule of Inl e \<Rightarrow> Inl (RuleSyntax e) | Inr n \<Rightarrow> Compile n)"

section \<open>The meaning of a rule\<close>

text \<open>
  The value of a field on a row, of a literal (a literal that is no number has no value), and of
  a predicate. A missing or null field satisfies no comparison, IN or LIKE, but the negated forms
  NOT IN and NOT LIKE hold of it.
\<close>

definition field_val :: "row \<Rightarrow> string \<Rightarrow> vm_Value" where
  "field_val r f = toValue (row_get r f)"

definition lit_val :: "Value \<Rightarrow> vm_Value" where
  "lit_val v = (if IsString v then strV (Str v)
    else case ParseFloat (Num v) of Inr f \<Rightarrow> numV f | Inl _ \<Rightarrow> undef)"

definition cmp_holds :: "string \<Rightarrow> vm_Value \<Rightarrow> vm_Value \<Rightarrow> bool" where
  "cmp_holds op a b = (case cmpOp op of Inr o' \<Rightarrow> vm_compare a b o' | Inl _ \<Rightarrow> False)"

definition between_holds :: "vm_Value \<Rightarrow> vm_Value \<Rightarrow> vm_Value \<Rightarrow> bool" where
  "between_holds x lo hi \<longleftrightarrow> v_k x = kNum \<and> v_k lo = kNum \<and> v_k hi = kNum \<and>
    f64_le (v_n lo) (v_n x) \<and> f64_le (v_n x) (v_n hi)"

definition like_holds :: "string \<Rightarrow> string \<Rightarrow> bool" where
  "like_holds pat s =
    (case vm_likeParts pat of
       (LPrefix, core) \<Rightarrow> HasPrefix s core
     | (LSuffix, core) \<Rightarrow> HasSuffix s core
     | (LContains, core) \<Rightarrow> Contains s core
     | (LEquals, core) \<Rightarrow> s = core)"

fun denote :: "Node \<Rightarrow> row \<Rightarrow> bool" where
  "denote (Logic op args) r =
    (if op = ''OR'' then list_ex (\<lambda>a. denote a r) args else list_all (\<lambda>a. denote a r) args)"
| "denote (Compare f op v) r = cmp_holds op (field_val r f) (lit_val v)"
| "denote (Between f lo hi) r = between_holds (field_val r f) (lit_val lo) (lit_val hi)"
| "denote (In f vs neg) r =
    ((v_k (field_val r f) \<noteq> kUndef \<and> vm_asString (field_val r f) \<in> set (map valStr vs)) \<noteq> neg)"
| "denote (Like f pat neg) r =
    ((v_k (field_val r f) \<noteq> kUndef \<and> like_holds pat (vm_asString (field_val r f))) \<noteq> neg)"
| "denote (IsNull f neg) r = ((v_k (field_val r f) = kUndef) \<noteq> neg)"
| "denote (NotNode n) r = (\<not> denote n r)"

text \<open>The rules that compile, and the stack slots a rule needs.\<close>

definition num_ok :: "Value \<Rightarrow> bool" where
  "num_ok v \<longleftrightarrow> \<not> IsString v \<and> (case ParseFloat (Num v) of Inr _ \<Rightarrow> True | Inl _ \<Rightarrow> False)"

fun compilable :: "Node \<Rightarrow> bool" where
  "compilable (Logic op args) = (args \<noteq> [] \<and> list_all compilable args)"
| "compilable (Compare f op v) = ((IsString v \<or> num_ok v) \<and> List.member cmp_ops op)"
| "compilable (Between f lo hi) = (num_ok lo \<and> num_ok hi)"
| "compilable (NotNode n) = compilable n"
| "compilable _ = True"

fun stack_need :: "Node \<Rightarrow> nat" where
  "stack_need (Logic op args) =
    (case map stack_need args of [] \<Rightarrow> 0 | a # as \<Rightarrow> fold max (map Suc as) a)"
| "stack_need (Compare _ _ _) = 2"
| "stack_need (Between _ _ _) = 3"
| "stack_need (In _ _ _) = 1"
| "stack_need (Like _ _ _) = 1"
| "stack_need (IsNull _ _) = 1"
| "stack_need (NotNode n) = stack_need n"

fun leaves :: "Node \<Rightarrow> nat" where
  "leaves (Logic op args) = sum_list (map leaves args)"
| "leaves (NotNode n) = leaves n"
| "leaves _ = 1"

section \<open>Compiling keeps the pools\<close>

definition pools_le :: "Program \<Rightarrow> Program \<Rightarrow> bool" where
  "pools_le p q \<longleftrightarrow> prefix (Nums p) (Nums q) \<and> prefix (Strs p) (Strs q) \<and>
    prefix (Fields p) (Fields q) \<and> prefix (Sets p) (Sets q)"

definition pool_max :: "Program \<Rightarrow> nat" where
  "pool_max p = Max {length (Nums p), length (Strs p), length (Fields p), length (Sets p)}"

lemma pools_le_refl [simp]: "pools_le p p"
  by (simp add: pools_le_def)

lemma pools_le_trans: "pools_le p q \<Longrightarrow> pools_le q s \<Longrightarrow> pools_le p s"
  by (auto simp: pools_le_def)

lemma pools_le_max: "pools_le p q \<Longrightarrow> pool_max p \<le> pool_max q"
  unfolding pools_le_def pool_max_def by (auto dest!: prefix_length_le simp: le_max_iff_disj)

lemmas compiler_defs = add_def comp_field_def numConst_def strConst_def setConst_def
  add_load_def add_num_def add_str_def add_set_def

text \<open>\<open>grows k c c'\<close>: \<open>c'\<close> extends the pools of \<open>c\<close>, by at most \<open>k\<close> entries each.\<close>

definition grows :: "nat \<Rightarrow> compiler \<Rightarrow> compiler \<Rightarrow> bool" where
  "grows k c c' \<longleftrightarrow> pools_le (prog c) (prog c') \<and> pool_max (prog c') \<le> pool_max (prog c) + k"

lemma grows_trans: "grows i a b \<Longrightarrow> grows j b c \<Longrightarrow> i + j \<le> k \<Longrightarrow> grows k a c"
  by (auto simp: grows_def intro: pools_le_trans)

lemma grows_mono: "grows i a b \<Longrightarrow> i \<le> k \<Longrightarrow> grows k a b"
  by (auto simp: grows_def)

lemma grows_ops:
  "grows 0 c (add c op a)" "grows 1 c (add_load c f)" "grows 1 c (add_num c x)"
  "grows 1 c (add_str c op s)" "grows 1 c (add_set c ss)"
  by (auto simp: compiler_defs grows_def pools_le_def pool_max_def Let_def split: option.split)

lemma pushVal_grows: "pushVal c v = Inr c' \<Longrightarrow> grows 1 c c'"
  by (auto simp: pushVal_def grows_ops simp del: One_nat_def split: if_splits sum.splits)

lemma emit_grows_leaf:
  "emit c (Compare f op v) = Inr c' \<Longrightarrow> grows 3 c c'"
  "emit c (Between f lo hi) = Inr c' \<Longrightarrow> grows 3 c c'"
  "emit c (In f vs neg) = Inr c' \<Longrightarrow> grows 3 c c'"
  "emit c (Like f pat neg) = Inr c' \<Longrightarrow> grows 3 c c'"
  "emit c (IsNull f neg) = Inr c' \<Longrightarrow> grows 3 c c'"
proof -
  assume "emit c (Compare f op v) = Inr c'"
  then show "grows 3 c c'"
    by (auto simp: bind_res_Inr_iff dest!: pushVal_grows
        intro: grows_trans [OF grows_ops(2) grows_trans [OF _ grows_ops(1) order_refl]])
next
  assume "emit c (Between f lo hi) = Inr c'"
  then show "grows 3 c c'"
    by (auto simp: Let_def split: sum.splits
        intro: grows_trans [OF grows_ops(2) grows_trans [OF grows_ops(3)
          grows_trans [OF grows_ops(3) grows_ops(1) order_refl] order_refl]])
next
  assume "emit c (In f vs neg) = Inr c'"
  then show "grows 3 c c'"
    by (auto simp: Let_def split: if_splits
        intro: grows_trans [OF grows_ops(2) grows_ops(5)]
          grows_trans [OF grows_ops(2) grows_trans [OF grows_ops(5) grows_ops(1) order_refl]])
next
  assume "emit c (Like f pat neg) = Inr c'"
  then show "grows 3 c c'"
    by (auto simp: Let_def split: if_splits prod.splits
        intro: grows_trans [OF grows_ops(2) grows_ops(4)]
          grows_trans [OF grows_ops(2) grows_trans [OF grows_ops(4) grows_ops(1) order_refl]])
next
  assume "emit c (IsNull f neg) = Inr c'"
  then show "grows 3 c c'"
    by (auto simp: Let_def intro: grows_trans [OF grows_ops(2) grows_ops(1)])
qed

lemma emit_grows:
  "emit c n = Inr c' \<Longrightarrow> grows (3 * leaves n) c c'"
  "emit_rest op c as = Inr c' \<Longrightarrow> grows (3 * sum_list (map leaves as)) c c'"
proof (induction c n and op c as arbitrary: c' and c' rule: emit_emit_rest.induct)
  case (2 c op a as)
  then obtain c1 where c1: "emit c a = Inr c1"
      "emit_rest (if op = ''OR'' then OpOr else OpAnd) c1 as = Inr c'"
    by (auto simp: bind_res_Inr_iff)
  from grows_trans [OF "2.IH"(1) [OF c1(1)] "2.IH"(2) [OF c1]] show ?case by simp
next
  case (8 c n)
  then show ?case by (auto simp: bind_res_Inr_iff intro: grows_trans [OF _ grows_ops(1)])
next
  case (10 op c a as)
  then obtain c1 where c1: "emit c a = Inr c1" "emit_rest op (add c1 op 0) as = Inr c'"
    by (auto simp: bind_res_Inr_iff)
  from grows_trans [OF "10.IH"(1) [OF c1(1)] grows_trans [OF grows_ops(1) "10.IH"(2) [OF c1] order_refl]]
  show ?case by simp
qed (use emit_grows_leaf in \<open>auto simp: grows_def\<close>)

section \<open>What the emitted code does\<close>

text \<open>
  \<open>runs c c' F\<close>: the code that \<open>c'\<close> has after the code of \<open>c\<close> acts on the stack as \<open>F\<close>, in every
  program whose pools extend those of \<open>c'\<close>. The index of fields stays correct.
\<close>

definition fields_ok :: "compiler \<Rightarrow> bool" where
  "fields_ok c \<longleftrightarrow> (\<forall>f i. fieldIdx c f = Some i \<longrightarrow> at32 (Fields (prog c)) i = Some f)"

definition runs :: "compiler \<Rightarrow> compiler \<Rightarrow> (row \<Rightarrow> vm_Value list \<Rightarrow> vm_step) \<Rightarrow> bool" where
  "runs c c' F \<longleftrightarrow> pools_le (prog c) (prog c') \<and> fields_ok c' \<and>
    (\<exists>code. Code (prog c') = Code (prog c) @ code \<and>
      (\<forall>p r st. pools_le (prog c') p \<longrightarrow> exec p r code st = F r st))"

definition push :: "vm_Value \<Rightarrow> vm_Value list \<Rightarrow> vm_step" where
  "push v st = (if stackMax \<le> length st then ReturnFalse else Continue (v # st))"

lemma runs_trans:
  assumes "runs c c1 F" "runs c1 c2 G"
  shows "runs c c2 (\<lambda>r st. bind_step (F r st) (G r))"
proof -
  obtain a b where "Code (prog c1) = Code (prog c) @ a" "Code (prog c2) = (Code (prog c) @ a) @ b"
    and "\<forall>p r st. pools_le (prog c1) p \<longrightarrow> exec p r a st = F r st"
    and "\<forall>p r st. pools_le (prog c2) p \<longrightarrow> exec p r b st = G r st"
    using assms by (auto simp: runs_def)
  moreover have "pools_le (prog c1) p" if "pools_le (prog c2) p" for p
    using assms(2) that by (auto simp: runs_def intro: pools_le_trans)
  ultimately have "exec p r (a @ b) st = bind_step (F r st) (G r)" if "pools_le (prog c2) p" for p r st
    using that by (simp add: exec_append bind_step_def split: vm_step.split)
  with \<open>Code (prog c2) = (Code (prog c) @ a) @ b\<close> show ?thesis
    using assms by (auto simp: runs_def intro: pools_le_trans)
qed

lemma runs_ops:
  assumes "fields_ok c"
  shows "op \<in> {OpEq, OpNe, OpGt, OpGe, OpLt, OpLe, OpAnd, OpOr} \<Longrightarrow>
      runs c (add c op 0) (\<lambda>r st. case st of
        b # a # st' \<Rightarrow> Continue (boolV (binaryOp op a b) # st') | _ \<Rightarrow> ReturnFalse)"
    and "runs c (add c OpNot 0) (\<lambda>r st. case st of
        x # st' \<Rightarrow> Continue (boolV (v_k x = kBool \<and> \<not> v_b x) # st') | _ \<Rightarrow> ReturnFalse)"
    and "runs c (add c OpIsNull 0) (\<lambda>r st. case st of
        x # st' \<Rightarrow> Continue (boolV (v_k x = kUndef) # st') | _ \<Rightarrow> ReturnFalse)"
    and "runs c (add c OpIsNotNull 0) (\<lambda>r st. case st of
        x # st' \<Rightarrow> Continue (boolV (v_k x \<noteq> kUndef) # st') | _ \<Rightarrow> ReturnFalse)"
    and "runs c (add c OpBetween 0) (\<lambda>r st. case st of
        hi # lo # x # st' \<Rightarrow> Continue (boolV (between_holds x lo hi) # st') | _ \<Rightarrow> ReturnFalse)"
  using assms
  by (auto simp: runs_def add_def pools_le_def fields_ok_def eval_step_def unaryOp_def
      between_holds_def split: list.split)

definition fits :: "compiler \<Rightarrow> bool" where
  "fits c \<longleftrightarrow> pool_max (prog c) \<le> 2 ^ 31"

lemma fits_lengths:
  "fits c \<Longrightarrow> length (Nums (prog c)) \<le> 2 ^ 31 \<and> length (Strs (prog c)) \<le> 2 ^ 31 \<and>
    length (Fields (prog c)) \<le> 2 ^ 31 \<and> length (Sets (prog c)) \<le> 2 ^ 31"
  by (simp add: fits_def pool_max_def)

lemma fits_grows: "grows k c c' \<Longrightarrow> fits c' \<Longrightarrow> fits c"
  unfolding grows_def fits_def by (meson le_trans pools_le_max)

lemma runs_one:
  assumes "Code (prog c') = Code (prog c) @ [ins]" "pools_le (prog c) (prog c')" "fields_ok c'"
    and "\<And>p r st. pools_le (prog c') p \<Longrightarrow> eval_step p r ins st = F r st"
  shows "runs c c' F"
  using assms by (auto simp: runs_def split: vm_step.split)

lemma fields_ok_pools:
  "fields_ok c \<Longrightarrow> fieldIdx c' = fieldIdx c \<Longrightarrow> Fields (prog c') = Fields (prog c) \<Longrightarrow> fields_ok c'"
  by (simp add: fields_ok_def)

lemma runs_num:
  assumes "fields_ok c" "fits (add_num c x)"
  shows "runs c (add_num c x) (\<lambda>r st. push (numV x) st)"
proof (rule runs_one)
  let ?i = "word_of_int (int (length (Nums (prog c)))) :: 32 word"
  show "Code (prog (add_num c x)) = Code (prog c) @ [instr OpConstNum ?i]"
    by (simp add: compiler_defs)
  fix p r st
  assume "pools_le (prog (add_num c x)) p"
  then have "at32 (Nums p) ?i = Some x"
    using fits_lengths [OF assms(2)]
    by (intro at32_prefix [OF at32_last]) (auto simp: pools_le_def compiler_defs)
  then show "eval_step p r (instr OpConstNum ?i) st = push (numV x) st"
    by (simp add: eval_step_def load_def push_def)
qed (use assms grows_ops in \<open>auto simp: grows_def intro: fields_ok_pools simp: compiler_defs\<close>)

lemma str_at32:
  assumes "fits (add_str c op s)" "pools_le (prog (add_str c op s)) p"
  shows "at32 (Strs p) (word_of_int (int (length (Strs (prog c))))) = Some s"
  using assms fits_lengths [OF assms(1)]
  by (intro at32_prefix [OF at32_last]) (auto simp: pools_le_def compiler_defs)

lemma runs_str:
  assumes "fields_ok c" "fits (add_str c op s)"
    and "\<And>p r a st. at32 (Strs p) a = Some s \<Longrightarrow> eval_step p r (instr op a) st = F r st"
  shows "runs c (add_str c op s) F"
proof (rule runs_one)
  let ?i = "word_of_int (int (length (Strs (prog c)))) :: 32 word"
  show "Code (prog (add_str c op s)) = Code (prog c) @ [instr op ?i]"
    by (simp add: compiler_defs)
  show "eval_step p r (instr op ?i) st = F r st" if "pools_le (prog (add_str c op s)) p" for p r st
    by (rule assms(3) [OF str_at32 [OF assms(2) that]])
qed (use assms grows_ops in \<open>auto simp: grows_def intro: fields_ok_pools simp: compiler_defs\<close>)

lemma runs_set:
  assumes "fields_ok c" "fits (add_set c ss)"
  shows "runs c (add_set c ss) (\<lambda>r st. case st of
      v # st' \<Rightarrow> Continue (boolV (v_k v \<noteq> kUndef \<and> vm_asString v \<in> set ss) # st')
    | _ \<Rightarrow> ReturnFalse)"
proof (rule runs_one)
  let ?i = "word_of_int (int (length (Sets (prog c)))) :: 32 word"
  show "Code (prog (add_set c ss)) = Code (prog c) @ [instr OpIn ?i]"
    by (simp add: compiler_defs)
  fix p r st
  assume "pools_le (prog (add_set c ss)) p"
  then have "at32 (Sets p) ?i = Some (set ss)"
    using fits_lengths [OF assms(2)]
    by (intro at32_prefix [OF at32_last]) (auto simp: pools_le_def compiler_defs)
  then show "eval_step p r (instr OpIn ?i) st = (case st of
      v # st' \<Rightarrow> Continue (boolV (v_k v \<noteq> kUndef \<and> vm_asString v \<in> set ss) # st')
    | _ \<Rightarrow> ReturnFalse)"
    by (auto simp: eval_step_def unaryOp_def split: list.split)
qed (use assms grows_ops in \<open>auto simp: grows_def intro: fields_ok_pools simp: compiler_defs\<close>)

lemma comp_field_ok:
  assumes "fields_ok c" "fits (snd (comp_field c f))"
  shows "fields_ok (snd (comp_field c f)) \<and>
    at32 (Fields (prog (snd (comp_field c f)))) (fst (comp_field c f)) = Some f"
proof (cases "fieldIdx c f")
  case None
  have "at32 (Fields (prog c) @ [f]) (word_of_int (int (length (Fields (prog c))))) = Some f"
    using fits_lengths [OF assms(2)] None by (intro at32_last) (simp add: comp_field_def Let_def)
  with None assms(1) show ?thesis
    by (auto simp: comp_field_def Let_def fields_ok_def intro: at32_prefix [of "Fields (prog c)"])
qed (use assms in \<open>auto simp: comp_field_def fields_ok_def\<close>)

lemma runs_load:
  assumes "fields_ok c" "fits (add_load c f)"
  shows "runs c (add_load c f) (\<lambda>r st. push (field_val r f) st)"
proof (rule runs_one)
  let ?i = "fst (comp_field c f)"
  have ok: "fields_ok (snd (comp_field c f)) \<and>
      at32 (Fields (prog (snd (comp_field c f)))) ?i = Some f"
    using assms by (intro comp_field_ok) (auto simp: add_load_def add_def fits_def pool_max_def split_def Let_def)
  show "Code (prog (add_load c f)) = Code (prog c) @ [instr OpLoadField ?i]"
    by (auto simp: add_load_def add_def comp_field_def split_def Let_def split: option.split)
  show "fields_ok (add_load c f)"
    using ok by (auto simp: add_load_def add_def split_def Let_def intro: fields_ok_pools)
  fix p r st
  assume "pools_le (prog (add_load c f)) p"
  then have "at32 (Fields p) ?i = Some f"
    using ok by (intro at32_prefix [OF conjunct2]) (auto simp: add_load_def add_def split_def Let_def pools_le_def)
  then show "eval_step p r (instr OpLoadField ?i) st = push (field_val r f) st"
    by (auto simp: eval_step_def load_def push_def field_val_def row_get_def toValue_def split: option.split)
qed (use grows_ops in \<open>auto simp: grows_def\<close>)

text \<open>The effect of the code of a whole rule: its truth value on top of the stack, if it fits.\<close>

definition result :: "nat \<Rightarrow> bool \<Rightarrow> vm_Value list \<Rightarrow> vm_step" where
  "result k b st = (if length st + k \<le> stackMax then Continue (boolV b # st) else ReturnFalse)"

lemma runs_cong: "runs c c' F \<Longrightarrow> (\<And>r st. F r st = G r st) \<Longrightarrow> runs c c' G"
  by (simp add: runs_def)

lemma runs_fields_ok: "runs c c' F \<Longrightarrow> fields_ok c'"
  by (simp add: runs_def)

lemma runs_pushVal:
  assumes "pushVal c v = Inr c'" "fields_ok c" "fits c'"
  shows "runs c c' (\<lambda>r st. push (lit_val v) st)"
proof (cases "IsString v")
  case True
  then have "c' = add_str c OpConstStr (Str v)" using assms(1) by (simp add: pushVal_def)
  then show ?thesis
    using assms True by (auto simp: lit_val_def eval_step_def load_def push_def intro!: runs_str)
next
  case False
  then obtain f where "ParseFloat (Num v) = Inr f" "c' = add_num c f"
    using assms(1) by (auto simp: pushVal_def split: sum.splits)
  then show ?thesis using assms False runs_num by (simp add: lit_val_def)
qed

lemma cmpOp_binary:
  "cmpOp op = Inr o' \<Longrightarrow> o' \<in> {OpEq, OpNe, OpGt, OpGe, OpLt, OpLe}"
  by (auto simp: cmpOp_def split: if_splits)

lemma runs_Compare:
  assumes "emit c (Compare f op v) = Inr c'" "fields_ok c" "fits c'"
  shows "runs c c' (\<lambda>r. result 2 (denote (Compare f op v) r))"
proof -
  obtain c1 o' where c1: "pushVal (add_load c f) v = Inr c1" "cmpOp op = Inr o'" "c' = add c1 o' 0"
    using assms(1) by (auto simp: bind_res_Inr_iff)
  have fits: "fits c1" "fits (add_load c f)"
    using assms(3) c1 grows_ops(1) pushVal_grows fits_grows by metis+
  note load = runs_load [OF assms(2) fits(2)]
  note val = runs_pushVal [OF c1(1) runs_fields_ok [OF load] fits(1)]
  have "runs c1 c' (\<lambda>r st. case st of
      b # a # st' \<Rightarrow> Continue (boolV (binaryOp o' a b) # st') | _ \<Rightarrow> ReturnFalse)"
    unfolding c1(3) using cmpOp_binary [OF c1(2)] runs_fields_ok [OF val] by (intro runs_ops(1)) auto
  from runs_trans [OF runs_trans [OF load val] this] show ?thesis
    using cmpOp_binary [OF c1(2)]
    by (elim runs_cong) (auto simp: push_def result_def cmp_holds_def c1(2) binaryOp_def stackMax_def)
qed

lemma numOf_lit: "numOf v = Inr f \<Longrightarrow> lit_val v = numV f"
  by (auto simp: numOf_def lit_val_def split: if_splits sum.splits)

lemma runs_Between:
  assumes "emit c (Between f lo hi) = Inr c'" "fields_ok c" "fits c'"
  shows "runs c c' (\<lambda>r. result 3 (denote (Between f lo hi) r))"
proof -
  let ?c1 = "add_load c f"
  obtain l h where lh: "numOf lo = Inr l" "numOf hi = Inr h"
      and c': "c' = add (add_num (add_num ?c1 l) h) OpBetween 0"
    using assms(1) by (auto simp: Let_def split: sum.splits)
  have fits: "fits (add_num (add_num ?c1 l) h)" "fits (add_num ?c1 l)" "fits ?c1"
    using assms(3) c' grows_ops fits_grows by metis+
  note load = runs_load [OF assms(2) fits(3)]
  note l = runs_num [OF runs_fields_ok [OF load] fits(2)]
  note h = runs_num [OF runs_fields_ok [OF l] fits(1)]
  note b = runs_ops(5) [OF runs_fields_ok [OF h]]
  from runs_trans [OF runs_trans [OF runs_trans [OF load l] h] b] show ?thesis
    unfolding c' by (elim runs_cong)
      (auto simp: push_def result_def stackMax_def numOf_lit [OF lh(1)] numOf_lit [OF lh(2)])
qed

lemma runs_negate:
  assumes "runs c c1 (\<lambda>r. result k (d r))"
  shows "runs c (if neg then add c1 OpNot 0 else c1) (\<lambda>r. result k (d r \<noteq> neg))"
proof (cases neg)
  case True
  from runs_trans [OF assms runs_ops(2) [OF runs_fields_ok [OF assms]]] show ?thesis
    using True by (auto elim!: runs_cong simp: result_def)
qed (use assms in simp)

lemma runs_In:
  assumes "emit c (In f vs neg) = Inr c'" "fields_ok c" "fits c'"
  shows "runs c c' (\<lambda>r. result 1 (denote (In f vs neg) r))"
proof -
  let ?c1 = "add_set (add_load c f) (map valStr vs)"
  have c': "c' = (if neg then add ?c1 OpNot 0 else ?c1)" using assms(1) by (simp add: Let_def)
  have fits: "fits ?c1" "fits (add_load c f)"
    using assms(3) c' grows_ops fits_grows by metis+
  note load = runs_load [OF assms(2) fits(2)]
  note s = runs_set [OF runs_fields_ok [OF load] fits(1)]
  have "runs c ?c1 (\<lambda>r. result 1 (v_k (field_val r f) \<noteq> kUndef \<and>
      vm_asString (field_val r f) \<in> set (map valStr vs)))"
    using runs_trans [OF load s] by (elim runs_cong) (auto simp: push_def result_def stackMax_def)
  from runs_negate [OF this, of neg] show ?thesis by (simp add: c')
qed

lemma like_op_step:
  assumes "at32 (Strs p) a = Some core" "vm_likeParts pat = (kind, core)"
  shows "eval_step p r (instr (like_op kind) a) st = (case st of
      v # st' \<Rightarrow> Continue (boolV (v_k v \<noteq> kUndef \<and> like_holds pat (vm_asString v)) # st')
    | _ \<Rightarrow> ReturnFalse)"
  using assms by (cases kind) (auto simp: eval_step_def unaryOp_def like_op_def like_with_def
      like_holds_def split: list.split)

lemma runs_Like:
  assumes "emit c (Like f pat neg) = Inr c'" "fields_ok c" "fits c'"
  shows "runs c c' (\<lambda>r. result 1 (denote (Like f pat neg) r))"
proof -
  obtain kind core where k: "vm_likeParts pat = (kind, core)" by fastforce
  let ?c1 = "add_str (add_load c f) (like_op kind) core"
  have c': "c' = (if neg then add ?c1 OpNot 0 else ?c1)" using assms(1) k by (simp add: Let_def)
  have fits: "fits ?c1" "fits (add_load c f)"
    using assms(3) c' grows_ops fits_grows by metis+
  note load = runs_load [OF assms(2) fits(2)]
  note s = runs_str [OF runs_fields_ok [OF load] fits(1) like_op_step [OF _ k], simplified]
  have "runs c ?c1 (\<lambda>r. result 1 (v_k (field_val r f) \<noteq> kUndef \<and>
      like_holds pat (vm_asString (field_val r f))))"
    using runs_trans [OF load s] by (elim runs_cong) (auto simp: push_def result_def stackMax_def)
  from runs_negate [OF this, of neg] show ?thesis by (simp add: c')
qed

lemma runs_IsNull:
  assumes "emit c (IsNull f neg) = Inr c'" "fields_ok c" "fits c'"
  shows "runs c c' (\<lambda>r. result 1 (denote (IsNull f neg) r))"
proof -
  let ?c1 = "add_load c f"
  have c': "c' = add ?c1 (if neg then OpIsNotNull else OpIsNull) 0" using assms(1) by (simp add: Let_def)
  have "fits ?c1" using assms(3) c' grows_ops fits_grows by metis
  note load = runs_load [OF assms(2) this]
  note null = runs_ops(3,4) [OF runs_fields_ok [OF load]]
  show ?thesis
    using runs_trans [OF load null(1)] runs_trans [OF load null(2)] unfolding c'
    by (cases neg) (auto elim!: runs_cong simp: push_def result_def stackMax_def)
qed

definition bool_fold :: "OpCode \<Rightarrow> bool \<Rightarrow> bool list \<Rightarrow> bool" where
  "bool_fold op b bs = (if op = OpOr then b \<or> list_ex id bs else b \<and> list_all id bs)"

lemma runs_combine:
  assumes "runs c0 c1 (\<lambda>r. result k (d r))" "runs c1 c2 (\<lambda>r. result m (e r))"
    and "op = OpAnd \<or> op = OpOr"
  shows "runs c0 (add c2 op 0) (\<lambda>r. result (max k (Suc m)) (bool_fold op (d r) [e r]))"
proof -
  have "runs c2 (add c2 op 0) (\<lambda>r st. case st of
      b # a # st' \<Rightarrow> Continue (boolV (binaryOp op a b) # st') | _ \<Rightarrow> ReturnFalse)"
    using assms(3) runs_fields_ok [OF assms(2)] by (intro runs_ops(1)) auto
  from runs_trans [OF runs_trans [OF assms(1,2)] this] show ?thesis
    using assms(3) by (elim runs_cong) (auto simp: result_def bool_fold_def binaryOp_def)
qed

lemma emit_runs:
  "emit c n = Inr c' \<Longrightarrow> fields_ok c \<Longrightarrow> fits c' \<Longrightarrow> runs c c' (\<lambda>r. result (stack_need n) (denote n r))"
  "emit_rest op c as = Inr c' \<Longrightarrow> op = OpAnd \<or> op = OpOr \<Longrightarrow> fits c' \<Longrightarrow>
    runs c0 c (\<lambda>r. result k (d r)) \<Longrightarrow>
    runs c0 c' (\<lambda>r. result (fold max (map (Suc \<circ> stack_need) as) k)
      (bool_fold op (d r) (map (\<lambda>a. denote a r) as)))"
proof (induction c n and op c as arbitrary: c' and c' c0 k d rule: emit_emit_rest.induct)
  case (2 c op a as)
  let ?op = "if op = ''OR'' then OpOr else OpAnd"
  obtain c1 where c1: "emit c a = Inr c1" "emit_rest ?op c1 as = Inr c'"
    using "2.prems"(1) by (auto simp: bind_res_Inr_iff)
  have "runs c c1 (\<lambda>r. result (stack_need a) (denote a r))"
    using "2.IH"(1) [OF c1(1) "2.prems"(2)] fits_grows [OF emit_grows(2) [OF c1(2)] "2.prems"(3)] by simp
  moreover have "?op = OpAnd \<or> ?op = OpOr" by simp
  ultimately have "runs c c' (\<lambda>r. result (fold max (map (Suc \<circ> stack_need) as) (stack_need a))
      (bool_fold ?op (denote a r) (map (\<lambda>b. denote b r) as)))"
    using "2.IH"(2) [OF c1 _ "2.prems"(3)] by blast
  then show ?case by (rule runs_cong) (auto simp: bool_fold_def list_all_iff list_ex_iff comp_def)
next
  case (8 c n)
  then obtain c1 where c1: "emit c n = Inr c1" "c' = add c1 OpNot 0"
    by (auto simp: bind_res_Inr_iff)
  have "runs c c1 (\<lambda>r. result (stack_need n) (denote n r))"
    using 8 c1 fits_grows [OF grows_ops(1)] by metis
  from runs_negate [OF this, of True] show ?case by (simp add: c1(2))
next
  case (9 op c)
  then show ?case by (auto elim!: runs_cong simp: bool_fold_def)
next
  case (10 op c a as)
  then obtain c1 where c1: "emit c a = Inr c1" "emit_rest op (add c1 op 0) as = Inr c'"
    by (auto simp: bind_res_Inr_iff)
  have "fits c1"
    using "10.prems"(3) fits_grows [OF emit_grows(2) [OF c1(2)]] fits_grows [OF grows_ops(1)] by blast
  then have "runs c c1 (\<lambda>r. result (stack_need a) (denote a r))"
    using "10.IH"(1) [OF c1(1)] runs_fields_ok "10.prems"(4) by blast
  from "10.IH"(2) [OF c1 "10.prems"(2,3) runs_combine [OF "10.prems"(4) this "10.prems"(2)]]
  show ?case by (elim runs_cong) (auto simp: bool_fold_def max.commute)
qed (use runs_Compare runs_Between runs_In runs_Like runs_IsNull in
    \<open>simp_all del: denote.simps emit.simps(3-7) add: numeral_2_eq_2 numeral_3_eq_3\<close>)

lemma Eval_denote:
  assumes "Compile n = Inr p" "3 * leaves n \<le> 2 ^ 31"
  shows "Eval p r = Some (stack_need n \<le> stackMax \<and> denote n r)"
proof -
  obtain c where c: "emit empty_compiler n = Inr c" "p = prog c"
    using assms(1) by (auto simp: Compile_def bind_res_Inr_iff)
  have "pool_max (prog empty_compiler) = 0" by (simp add: pool_max_def empty_compiler_def)
  then have "fits c"
    using emit_grows(1) [OF c(1)] assms(2) by (simp add: grows_def fits_def)
  from emit_runs(1) [OF c(1) _ this]
  have "exec p r (Code p) [] = result (stack_need n) (denote n r) []"
    by (auto simp: runs_def c(2) fields_ok_def empty_compiler_def)
  then show ?thesis by (simp add: Eval_def result_def)
qed

lemma num_ok_pushVal: "(\<exists>c'. pushVal c v = Inr c') \<longleftrightarrow> IsString v \<or> num_ok v"
  by (auto simp: pushVal_def num_ok_def split: sum.splits)

lemma cmpOp_ok: "(\<exists>o'. cmpOp op = Inr o') \<longleftrightarrow> List.member cmp_ops op"
  by (auto simp: cmpOp_def cmp_ops_def)

lemma numOf_ok: "(\<exists>f. numOf v = Inr f) \<longleftrightarrow> num_ok v"
  by (auto simp: numOf_def num_ok_def split: sum.splits)

lemma emit_compilable:
  "(\<exists>c'. emit c n = Inr c') \<longleftrightarrow> compilable n"
  "(\<exists>c'. emit_rest op c as = Inr c') \<longleftrightarrow> list_all compilable as"
proof (induction c n and op c as rule: emit_emit_rest.induct)
  case (3 c f op v)
  then show ?case
    using num_ok_pushVal [of "add_load c f" v] cmpOp_ok [of op] by (auto simp: bind_res_Inr_iff)
next
  case (4 c f lo hi)
  then show ?case
    using numOf_ok [of lo] numOf_ok [of hi] by (auto simp: Let_def split: sum.splits)
qed (auto simp: bind_res_Inr_iff Let_def split: prod.splits)

lemma Compile_compilable: "(\<exists>p. Compile n = Inr p) \<longleftrightarrow> compilable n"
  using emit_compilable(1) [of empty_compiler n] by (auto simp: Compile_def bind_res_Inr_iff)

section \<open>LIKE as a pattern language\<close>

text \<open>The reference: \<^verbatim>\<open>%\<close> stands for any text, every other byte for itself.\<close>

fun sql_like :: "string \<Rightarrow> string \<Rightarrow> bool" where
  "sql_like [] s = (s = [])"
| "sql_like (c # p) s =
    (if c = CHR ''%'' then list_ex (\<lambda>k. sql_like p (drop k s)) [0..<Suc (length s)]
     else s \<noteq> [] \<and> hd s = c \<and> sql_like p (tl s))"

lemma sql_like_any: "sql_like (CHR ''%'' # p) s \<longleftrightarrow> (\<exists>a t. s = a @ t \<and> sql_like p t)"
proof
  assume "sql_like (CHR ''%'' # p) s"
  then show "\<exists>a t. s = a @ t \<and> sql_like p t"
    by (auto simp: list_ex_iff simp del: upt_Suc) (metis append_take_drop_id)
next
  assume "\<exists>a t. s = a @ t \<and> sql_like p t"
  then obtain a t where "s = a @ t" "sql_like p t" by blast
  then show "sql_like (CHR ''%'' # p) s"
    by (auto simp: list_ex_iff simp del: upt_Suc intro!: bexI [of _ "length a"])
qed

lemma sql_like_lit:
  "CHR ''%'' \<notin> set core \<Longrightarrow> sql_like (core @ q) s \<longleftrightarrow> (\<exists>t. s = core @ t \<and> sql_like q t)"
  by (induction core arbitrary: s) (auto simp: neq_Nil_conv)

declare sql_like.simps(2) [simp del]

lemma sql_like_pcts:
  "sql_like (replicate (Suc k) CHR ''%'' @ q) s \<longleftrightarrow> (\<exists>a t. s = a @ t \<and> sql_like q t)"
proof (induction k arbitrary: s)
  case (Suc k)
  have "sql_like (replicate (Suc (Suc k)) CHR ''%'' @ q) s \<longleftrightarrow>
      (\<exists>a t. s = a @ t \<and> (\<exists>b u. t = b @ u \<and> sql_like q u))"
    using Suc by (simp add: sql_like_any)
  also have "\<dots> \<longleftrightarrow> (\<exists>a t. s = a @ t \<and> sql_like q t)"
    by (metis append.assoc append_Nil)
  finally show ?case .
qed (simp add: sql_like_any)

lemma takeWhile_pct: "takeWhile (\<lambda>x. x = c) xs = replicate (length (takeWhile (\<lambda>x. x = c) xs)) c"
  by (induction xs) auto

lemma Trim_decomp: "\<exists>i j. pat = replicate i c @ Trim pat c @ replicate j c"
proof -
  let ?P = "\<lambda>x. x = c"
  let ?m = "dropWhile ?P pat"
  have "pat = takeWhile ?P pat @ ?m" by simp
  moreover have "rev ?m = takeWhile ?P (rev ?m) @ dropWhile ?P (rev ?m)" by simp
  then have "?m = rev (dropWhile ?P (rev ?m)) @ rev (takeWhile ?P (rev ?m))"
    by (metis rev_append rev_rev_ident)
  ultimately show ?thesis
    unfolding Trim_def by (metis takeWhile_pct rev_replicate)
qed

lemma like_holds_sql:
  assumes "CHR ''%'' \<notin> set (Trim pat CHR ''%'')"
  shows "like_holds pat s = sql_like pat s"
proof -
  let ?c = "CHR ''%''"
  define core where "core = Trim pat ?c"
  obtain i j where pat: "pat = replicate i ?c @ core @ replicate j ?c"
    using Trim_decomp core_def by blast
  have nc: "?c \<notin> set core" using assms core_def by simp
  have pcts: "sql_like (replicate j ?c) t = (j = 0 \<longrightarrow> t = [])" for t
    using sql_like_pcts [of "j - 1" "[]" t] by (cases j) auto
  have lit: "sql_like (core @ replicate j ?c) t = (\<exists>u. t = core @ u \<and> (j = 0 \<longrightarrow> u = []))" for t
    using sql_like_lit [OF nc] pcts by simp
  have "sql_like pat s = (\<exists>a u. s = a @ core @ u \<and> (i = 0 \<longrightarrow> a = []) \<and> (j = 0 \<longrightarrow> u = []))"
    using sql_like_pcts [of "i - 1" "core @ replicate j ?c" s] lit by (cases i) (auto simp: pat)
  moreover have "HasPrefix pat ''%'' = (i \<noteq> 0 \<or> (core = [] \<and> j \<noteq> 0))"
    using nc by (cases i; cases core; cases j) (auto simp: pat HasPrefix_def)
  moreover have "HasSuffix pat ''%'' = (j \<noteq> 0 \<or> (core = [] \<and> i \<noteq> 0))"
    using nc by (cases j; cases core rule: rev_cases; cases i)
      (auto simp: pat HasSuffix_def suffix_def replicate_append_same [symmetric] append_eq_append_conv2)
  ultimately show ?thesis
    unfolding like_holds_def vm_likeParts_def core_def [symmetric]
    by (auto simp: Let_def go_string prefix_def suffix_def sublist_def)
qed

section \<open>Properties\<close>

text \<open>C2: The compiler and the machine agree with the meaning of the rule. For every tree that
  compiles (with at most \<open>2^31\<close> constants) the program never panics on any row, and \<open>Eval\<close> returns
  the truth value of the tree on the row, except that a tree needing more than 256 stack slots
  evaluates to false.\<close>

theorem Eval_Compile:
  assumes "Compile n = Inr p" "3 * leaves n \<le> 2 ^ 31"
  shows "Eval p r = Some (stack_need n \<le> stackMax \<and> denote n r)"
  using assms by (rule Eval_denote)

theorem Eval_Compile_witness:
  "\<exists>p. Compile (Logic ''AND'' [Between ''age'' (NumValue ''25'') (NumValue ''40''),
        NotNode (Like ''job'' ''%std%'' False)]) = Inr p \<and>
     Eval p [''age'' \<mapsto> AInt 30, ''job'' \<mapsto> AString ''engineer''] = Some True"
proof -
  let ?n = "Logic ''AND'' [Between ''age'' (NumValue ''25'') (NumValue ''40''),
        NotNode (Like ''job'' ''%std%'' False)]"
  let ?r = "[''age'' \<mapsto> AInt 30, ''job'' \<mapsto> AString ''engineer'']"
  have "case Compile ?n of Inr _ \<Rightarrow> True | Inl _ \<Rightarrow> False" by code_simp
  then obtain p where p: "Compile ?n = Inr p" by (auto split: sum.splits)
  moreover have "stack_need ?n \<le> stackMax \<and> denote ?n ?r" by code_simp
  ultimately show ?thesis using Eval_Compile [OF p, of ?r] by simp
qed

text \<open>Compilation fails exactly on the trees with an empty connective, an operator that is no
  comparison, a BETWEEN bound that is a string, or a number literal that \<open>strconv.ParseFloat\<close>
  rejects; so a parsed rule whose number literals are in range and whose BETWEEN bounds are
  numbers always compiles.\<close>

theorem Compile_defined_iff: "(\<exists>p. Compile n = Inr p) \<longleftrightarrow> compilable n"
  by (rule Compile_compilable)

text \<open>A LIKE pattern whose \<^verbatim>\<open>%\<close> signs stand only at its ends is matched as SQL matches it (any
  text for \<^verbatim>\<open>%\<close>, each other byte for itself): the split by \<open>likeParts\<close> into prefix, suffix,
  substring and equality tests loses nothing.\<close>

theorem like_holds_correct:
  assumes "CHR ''%'' \<notin> set (Trim pat CHR ''%'')"
  shows "like_holds pat s = sql_like pat s"
  using assms by (rule like_holds_sql)

theorem like_holds_correct_witness:
  "like_holds ''%ab%'' ''xxaby'' = sql_like ''%ab%'' ''xxaby''"
  by (rule like_holds_correct) code_simp

text \<open>Whatever the instructions of a program are, executing them never takes the stack above
  its bound of 256 entries.\<close>

theorem exec_stack_bound:
  assumes "exec p r code [] = Continue st"
  shows "length st \<le> stackMax"
  using exec_bounded [OF assms] by simp

theorem exec_stack_bound_witness:
  "length [undef] \<le> stackMax"
proof (rule exec_stack_bound)
  show "exec \<lparr>Source = [], Code = [], Nums = [], Strs = [], Fields = [''x''], Sets = []\<rparr>
      Map.empty [instr OpLoadField 0] [] = Continue [undef]"
    by code_simp
qed

end
