(* ===== verification/IR_Optimize.thy ===== *)
theory IR_Optimize
  imports IR_RoundTrip
begin

text \<open>
  The rewriting pass of \<^verbatim>\<open>pkg/ir/optimize.go\<close>: nested connectives of the same operator are
  flattened, operands with the same SQL text are dropped, and a connective with one operand left
  becomes that operand.

  The pass is correct for every reading of the trees in which connectives are conjunction and
  disjunction and \<open>Not\<close> is negation. The locale \<open>bool_semantics\<close> is that interface; the bytecode
  machine and the tree walker each interpret it. Dropping duplicates by their SQL text is sound
  when the texts tell the operands of every connective apart (\<open>keys_apart\<close>), which is so when
  string literals hold no quote (\<open>emitSQL_inj\<close>); \<open>Optimize_key_collision\<close> shows what happens
  otherwise.
\<close>

fun dedup :: "string set \<Rightarrow> Node list \<Rightarrow> Node list" where
  "dedup seen [] = []"
| "dedup seen (a # as) =
    (let key = Emit a SQL in
     if key \<in> seen then dedup seen as else a # dedup (insert key seen) as)"

definition flat_one :: "string \<Rightarrow> Node \<Rightarrow> Node list" where
  "flat_one op oa = (case oa of Logic op' as \<Rightarrow> if op' = op then as else [oa] | _ \<Rightarrow> [oa])"

definition logic_of :: "string \<Rightarrow> Node list \<Rightarrow> Node" where
  "logic_of op uniq = (case uniq of [a] \<Rightarrow> a | _ \<Rightarrow> Logic op uniq)"

fun Optimize :: "Node \<Rightarrow> Node" where
  "Optimize (NotNode n) = NotNode (Optimize n)"
| "Optimize (Logic op args) =
    (let flat = concat (map (\<lambda>a. flat_one op (Optimize a)) args) in
     logic_of op (dedup {} flat))"
| "Optimize n = n"

section \<open>Flattening and dropping duplicates\<close>

lemma dedup_subset: "set (dedup S xs) \<subseteq> set xs"
  by (induction S xs rule: dedup.induct) (auto simp: Let_def)

lemma dedup_keys:
  "x \<in> set xs \<Longrightarrow> emitSQL x \<in> S \<or> (\<exists>y \<in> set (dedup S xs). emitSQL y = emitSQL x)"
  by (induction S xs rule: dedup.induct) (auto simp: Let_def Emit_def)

lemma dedup_set:
  assumes "inj_on emitSQL (set xs)"
  shows "set (dedup {} xs) = set xs"
  using assms dedup_subset [of "{}" xs] dedup_keys [of _ xs "{}"] unfolding inj_on_def by blast

lemma dedup_distinct:
  "distinct (map emitSQL (dedup S xs)) \<and> S \<inter> emitSQL ` set (dedup S xs) = {}"
  by (induction S xs rule: dedup.induct) (auto simp: Let_def Emit_def)

lemma dedup_id: "distinct (map emitSQL xs) \<Longrightarrow> S \<inter> emitSQL ` set xs = {} \<Longrightarrow> dedup S xs = xs"
  by (induction S xs rule: dedup.induct) (auto simp: Let_def Emit_def)

lemma dedup_hd: "xs \<noteq> [] \<Longrightarrow> hd (dedup {} xs) = hd xs \<and> dedup {} xs \<noteq> []"
  by (cases xs) (auto simp: Let_def)

lemma dedup_Nil [simp]: "dedup {} xs = [] \<longleftrightarrow> xs = []"
  using dedup_hd by (cases xs) (auto simp: Let_def)

lemma logic_of_cases:
  obtains (single) a where "xs = [a]" "logic_of op xs = a"
  | (many) "length xs \<noteq> 1" "logic_of op xs = Logic op xs"
  by (cases xs rule: list.exhaust [case_product list.exhaust [of "tl xs"]]) (auto simp: logic_of_def)

section \<open>Normal form\<close>

fun opt_nf :: "Node \<Rightarrow> bool" where
  "opt_nf (Logic op args) =
    (length args \<noteq> 1 \<and> list_all opt_nf args \<and> distinct (map emitSQL args) \<and>
     list_all (\<lambda>a. case a of Logic op' _ \<Rightarrow> op' \<noteq> op | _ \<Rightarrow> True) args)"
| "opt_nf (NotNode n) = opt_nf n"
| "opt_nf _ = True"

lemma flat_one_nf:
  "opt_nf a \<Longrightarrow> b \<in> set (flat_one op a) \<Longrightarrow>
    opt_nf b \<and> (case b of Logic op' _ \<Rightarrow> op' \<noteq> op | _ \<Rightarrow> True)"
  by (cases a) (auto simp: flat_one_def list_all_iff split: if_splits)

lemma Optimize_nf_aux: "opt_nf (Optimize n)"
proof (induction n rule: Optimize.induct)
  case (2 op args)
  let ?uniq = "dedup {} (concat (map (\<lambda>a. flat_one op (Optimize a)) args))"
  have "\<forall>b \<in> set ?uniq. opt_nf b \<and> (case b of Logic op' _ \<Rightarrow> op' \<noteq> op | _ \<Rightarrow> True)"
    using dedup_subset 2 flat_one_nf by fastforce
  moreover have "distinct (map emitSQL ?uniq)" using dedup_distinct by blast
  ultimately show ?case
    by (cases rule: logic_of_cases [of ?uniq op]) (auto simp: Let_def list_all_iff)
qed auto

lemma flat_one_id:
  "(case a of Logic op' _ \<Rightarrow> op' \<noteq> op | _ \<Rightarrow> True) \<Longrightarrow> flat_one op a = [a]"
  by (auto simp: flat_one_def split: Node.splits)

lemma concat_singletons: "(\<And>a. a \<in> set xs \<Longrightarrow> f a = [a]) \<Longrightarrow> concat (map f xs) = xs"
  by (induction xs) auto

lemma Optimize_nf_id: "opt_nf n \<Longrightarrow> Optimize n = n"
proof (induction n rule: Optimize.induct)
  case (2 op args)
  then have "flat_one op (Optimize a) = [a]" if "a \<in> set args" for a
    using that flat_one_id by (fastforce simp: list_all_iff)
  then have "concat (map (\<lambda>a. flat_one op (Optimize a)) args) = args"
    by (rule concat_singletons)
  moreover have "dedup {} args = args" using 2 by (intro dedup_id) auto
  ultimately show ?case
    using "2.prems" by (cases rule: logic_of_cases [of args op]) (auto simp: Let_def)
qed auto

section \<open>The pass keeps the trees printable\<close>

lemma sql_safe_Logic:
  "sql_safe (Logic op args) \<longleftrightarrow>
    (op = ''AND'' \<or> op = ''OR'') \<and> 2 \<le> length args \<and> list_all sql_safe args"
  by (auto simp: sql_safe_def list_all_iff)

lemma sql_safe_Not [simp]: "sql_safe (NotNode n) \<longleftrightarrow> sql_safe n"
  by (simp add: sql_safe_def)

lemma sql_safe_flat_one:
  "sql_safe a \<Longrightarrow> flat_one op a \<noteq> [] \<and> list_all sql_safe (flat_one op a)"
  by (cases a) (auto simp: flat_one_def sql_safe_Logic)

lemma sql_safe_logic_of:
  "op = ''AND'' \<or> op = ''OR'' \<Longrightarrow> xs \<noteq> [] \<Longrightarrow> list_all sql_safe xs \<Longrightarrow> sql_safe (logic_of op xs)"
  by (cases rule: logic_of_cases [of xs op])
    (auto simp: sql_safe_Logic Suc_le_eq neq_Nil_conv numeral_2_eq_2)

lemma Optimize_sql_safe: "sql_safe n \<Longrightarrow> sql_safe (Optimize n)"
proof (induction n rule: Optimize.induct)
  case (2 op args)
  let ?flat = "concat (map (\<lambda>a. flat_one op (Optimize a)) args)"
  have "sql_safe (Optimize a)" if "a \<in> set args" for a
    using 2 that by (auto simp: sql_safe_Logic list_all_iff)
  then have "list_all sql_safe ?flat" "?flat \<noteq> []"
    using "2.prems" sql_safe_flat_one by (fastforce simp: sql_safe_Logic list_all_iff)+
  moreover from this have "list_all sql_safe (dedup {} ?flat)"
    using dedup_subset [of "{}" ?flat] by (auto simp: list_all_iff)
  ultimately show ?case
    using "2.prems" unfolding Optimize.simps Let_def
    by (intro sql_safe_logic_of) (simp_all add: sql_safe_Logic)
qed auto

section \<open>When the key of an operand identifies it\<close>

text \<open>The operands the pass compares are those of a connective after flattening. The pass takes
  two of them for the same when they print alike; \<open>keys_apart\<close> says that they then are.\<close>

definition flat_args :: "string \<Rightarrow> Node list \<Rightarrow> Node list" where
  "flat_args op args = concat (map (\<lambda>a. flat_one op (Optimize a)) args)"

definition texts_differ :: "Node list \<Rightarrow> bool" where
  "texts_differ as \<longleftrightarrow> list_all (\<lambda>a. list_all (\<lambda>b. emitSQL a = emitSQL b \<longrightarrow> a = b) as) as"

fun keys_apart :: "Node \<Rightarrow> bool" where
  "keys_apart (NotNode n) = keys_apart n"
| "keys_apart (Logic op args) = (list_all keys_apart args \<and> texts_differ (flat_args op args))"
| "keys_apart n = True"

lemma Optimize_Logic: "Optimize (Logic op args) = logic_of op (dedup {} (flat_args op args))"
  by (simp add: flat_args_def Let_def)

lemma texts_differ_inj: "texts_differ as \<longleftrightarrow> inj_on emitSQL (set as)"
  by (auto simp: texts_differ_def inj_on_def list_all_iff)

lemma sql_safe_keys_apart: "sql_safe n \<Longrightarrow> keys_apart n"
proof (induction n rule: keys_apart.induct)
  case (2 op args)
  then have safe: "sql_safe a" if "a \<in> set args" for a
    using that by (auto simp: sql_safe_Logic list_all_iff)
  then have "sql_safe b" if "b \<in> set (flat_args op args)" for b
    using that sql_safe_flat_one Optimize_sql_safe by (fastforce simp: flat_args_def list_all_iff)
  then have "texts_differ (flat_args op args)"
    by (auto simp: texts_differ_inj inj_on_def intro: emitSQL_inj)
  with 2 safe show ?case by (simp add: list_all_iff)
qed auto

section \<open>The pass keeps the meaning\<close>

locale bool_semantics =
  fixes sem :: "Node \<Rightarrow> 'r \<Rightarrow> bool"
  assumes sem_Logic:
    "sem (Logic op args) r = (if op = ''OR'' then \<exists>a \<in> set args. sem a r else \<forall>a \<in> set args. sem a r)"
    and sem_Not: "sem (NotNode n) r = (\<not> sem n r)"
begin

lemma sem_flat_one:
  "(if op = ''OR'' then \<exists>b \<in> set (flat_one op a). sem b r else \<forall>b \<in> set (flat_one op a). sem b r)
    = sem a r"
  by (auto simp: flat_one_def sem_Logic split: Node.splits)

lemma sem_logic_of: "sem (logic_of op xs) r = sem (Logic op xs) r"
  by (cases rule: logic_of_cases [of xs op]) (simp_all add: sem_Logic)

lemma optimize_keeps: "keys_apart n \<Longrightarrow> sem (Optimize n) r = sem n r"
proof (induction n rule: Optimize.induct)
  case (1 n)
  then show ?case by (simp add: sem_Not)
next
  case (2 op args)
  let ?flat = "flat_args op args"
  have apart: "keys_apart a" if "a \<in> set args" for a
    using "2.prems" that by (simp add: list_all_iff)
  have "set (dedup {} ?flat) = set ?flat"
    using "2.prems" by (intro dedup_set) (simp add: texts_differ_inj)
  then have "sem (Optimize (Logic op args)) r = sem (Logic op ?flat) r"
    unfolding Optimize_Logic sem_logic_of by (cases "op = ''OR''") (simp_all add: sem_Logic)
  also have "\<dots> = sem (Logic op args) r"
  proof (cases "op = ''OR''")
    case True
    then have "(\<exists>b \<in> set (flat_one op (Optimize a)). sem b r) = sem a r" if "a \<in> set args" for a
      using sem_flat_one [of op "Optimize a" r] "2.IH" apart that by simp
    then show ?thesis using True by (simp add: sem_Logic flat_args_def)
  next
    case False
    then have "(\<forall>b \<in> set (flat_one op (Optimize a)). sem b r) = sem a r" if "a \<in> set args" for a
      using sem_flat_one [of op "Optimize a" r] "2.IH" apart that by simp
    then show ?thesis using False by (simp add: sem_Logic flat_args_def)
  qed
  finally show ?case .
qed simp_all

lemma optimize_sound: "sql_safe n \<Longrightarrow> sem (Optimize n) r = sem n r"
  by (rule optimize_keeps) (rule sql_safe_keys_apart)

end

section \<open>Properties\<close>

text \<open>The optimizer returns a normal form (no operand of a connective is a connective of the
  same operator, no two operands print alike, no connective has exactly one operand) and leaves a
  normal form alone, so running it twice is the same as running it once.\<close>

theorem Optimize_normal_form: "opt_nf (Optimize n) \<and> Optimize (Optimize n) = Optimize n"
  using Optimize_nf_aux Optimize_nf_id by blast

text \<open>The optimizer returns a tree that prints and parses back, when its input does: the
  optimized rule can be stored as text.\<close>

theorem Optimize_roundtrip:
  assumes "lexed_node n" "plain_node n"
  shows "Parse (emitSQL (Optimize n)) = Inr (Optimize n)"
  using assms Optimize_sql_safe Parse_emitSQL_safe by (simp add: sql_safe_def)

theorem Optimize_roundtrip_witness:
  "Parse (emitSQL (Optimize (Logic ''OR'' [IsNull ''a'' False, Logic ''OR'' [Like ''b'' ''x%'' False,
       IsNull ''a'' False]]))) =
   Inr (Optimize (Logic ''OR'' [IsNull ''a'' False, Logic ''OR'' [Like ''b'' ''x%'' False,
       IsNull ''a'' False]]))"
  by (rule Optimize_roundtrip) code_simp+

end
