(* ===== verification/AST_Runtime.thy ===== *)
theory AST_Runtime
  imports VM_Compile IR_Optimize
begin

text \<open>
  The tree-walking evaluator and the explanation of a failed rule, \<^verbatim>\<open>pkg/runtime/ast/ast.go\<close>.
  \<open>eval\<close> returns an error only for a node of an unknown type; the interface \<open>ir.Node\<close> is sealed
  and its seven implementations are the constructors of the datatype, so \<open>ast_eval\<close> returns the
  truth value. \<open>ast_holds_iff_denote\<close> says on which rules and rows it agrees with the bytecode
  machine, and \<open>ast_vm_diverge\<close> shows rules and rows on which the two differ.
\<close>

section \<open>Evaluation\<close>

definition toNum :: "any \<Rightarrow> float64 option" where
  "toNum raw = any_num raw"

definition ast_asString :: "any \<Rightarrow> string" where
  "ast_asString raw =
    (case raw of
       ANil \<Rightarrow> ''''
     | AString x \<Rightarrow> x
     | ABool x \<Rightarrow> (if x then ''true'' else ''false'')
     | _ \<Rightarrow> (case toNum raw of Some f \<Rightarrow> FormatFloat f | None \<Rightarrow> ''''))"

definition litNum :: "Value \<Rightarrow> float64 option" where
  "litNum v =
    (if IsString v then (case ParseFloat (Str v) of Inr f \<Rightarrow> Some f | Inl _ \<Rightarrow> None)
     else case ParseFloat (Num v) of Inr f \<Rightarrow> Some f | Inl _ \<Rightarrow> None)"

definition litString :: "Value \<Rightarrow> string" where
  "litString v = (if IsString v then Str v else Num v)"

text \<open>The numeric switch of \<open>compare\<close>, with no result for an unknown operator, and the text switch.\<close>

definition cmp_nums :: "string \<Rightarrow> float64 \<Rightarrow> float64 \<Rightarrow> bool option" where
  "cmp_nums op fn ln =
    (if op = ''='' then Some (f64_eq fn ln)
     else if op = ''!='' then Some (\<not> f64_eq fn ln)
     else if op = ''>'' then Some (f64_lt ln fn)
     else if op = ''>='' then Some (f64_le ln fn)
     else if op = ''<'' then Some (f64_lt fn ln)
     else if op = ''<='' then Some (f64_le fn ln)
     else None)"

definition cmp_texts :: "string \<Rightarrow> string \<Rightarrow> string \<Rightarrow> bool" where
  "cmp_texts op fs ls =
    (if op = ''='' then fs = ls
     else if op = ''!='' then fs \<noteq> ls
     else if op = ''>'' then ls < fs
     else if op = ''>='' then ls \<le> fs
     else if op = ''<'' then fs < ls
     else if op = ''<='' then fs \<le> ls
     else False)"

definition ast_compare :: "any \<Rightarrow> string \<Rightarrow> Value \<Rightarrow> bool" where
  "ast_compare raw op lit =
    (let numeric =
       (if IsString lit then None
        else case toNum raw of
          None \<Rightarrow> None
        | Some fn \<Rightarrow> (case ParseFloat (Num lit) of Inl _ \<Rightarrow> None | Inr ln \<Rightarrow> cmp_nums op fn ln))
     in case numeric of
          Some b \<Rightarrow> b
        | None \<Rightarrow> cmp_texts op (ast_asString raw) (litString lit))"

definition ast_like :: "string \<Rightarrow> string \<Rightarrow> bool" where
  "ast_like s pattern =
    (let hasPre = HasPrefix pattern ''%''; hasSuf = HasSuffix pattern ''%'';
         core = Trim pattern CHR ''%''
     in if hasPre \<and> hasSuf then Contains s core
        else if hasSuf then HasPrefix s core
        else if hasPre then HasSuffix s core
        else s = pattern)"

definition ast_between :: "any \<Rightarrow> Value \<Rightarrow> Value \<Rightarrow> bool" where
  "ast_between raw lo hi =
    (case toNum raw of None \<Rightarrow> False | Some f \<Rightarrow>
     case (litNum lo, litNum hi) of
       (Some l, Some h) \<Rightarrow> f64_le l f \<and> f64_le f h
     | _ \<Rightarrow> False)"

fun ast_eval :: "Node \<Rightarrow> row \<Rightarrow> bool"
and ast_any :: "Node list \<Rightarrow> row \<Rightarrow> bool"
and ast_all :: "Node list \<Rightarrow> row \<Rightarrow> bool" where
  "ast_eval (Logic op args) r = (if op = ''OR'' then ast_any args r else ast_all args r)"
| "ast_eval (Compare f op v) r = ast_compare (row_get r f) op v"
| "ast_eval (Between f lo hi) r = ast_between (row_get r f) lo hi"
| "ast_eval (In f vs neg) r =
    (let s = ast_asString (row_get r f); isin = list_ex (\<lambda>v. s = litString v) vs in isin \<noteq> neg)"
| "ast_eval (Like f pat neg) r = (ast_like (ast_asString (row_get r f)) pat \<noteq> neg)"
| "ast_eval (IsNull f neg) r =
    (let isNull = (r f = None \<or> r f = Some ANil) in if neg then \<not> isNull else isNull)"
| "ast_eval (NotNode n) r = (\<not> ast_eval n r)"
| "ast_any [] r = False"
| "ast_any (a # as) r = (if ast_eval a r then True else ast_any as r)"
| "ast_all [] r = True"
| "ast_all (a # as) r = (if ast_eval a r then ast_all as r else False)"

section \<open>Explanation\<close>

record Reason =
  Expr_text :: string
  Detail :: string

definition fieldRepr :: "row \<Rightarrow> string \<Rightarrow> string" where
  "fieldRepr r f =
    (case r f of None \<Rightarrow> ''<null>'' | Some ANil \<Rightarrow> ''<null>'' | Some v \<Rightarrow> ast_asString v)"

definition litRepr :: "Value \<Rightarrow> string" where
  "litRepr v = (if IsString v then [squote] @ Str v @ [squote] else Num v)"

fun describeLeaf :: "Node \<Rightarrow> row \<Rightarrow> string" where
  "describeLeaf (Compare f op v) r =
    f @ ''='' @ fieldRepr r f @ '' does not satisfy '' @ op @ '' '' @ litRepr v"
| "describeLeaf (Between f lo hi) r =
    f @ ''='' @ fieldRepr r f @ '' is outside ['' @ litRepr lo @ '', '' @ litRepr hi @ '']''"
| "describeLeaf (In f vs neg) r =
    (if neg then f @ ''='' @ fieldRepr r f @ '' is in the excluded set''
     else f @ ''='' @ fieldRepr r f @ '' is not in the allowed set'')"
| "describeLeaf (Like f pat neg) r =
    (if neg then f @ ''='' @ fieldRepr r f @ '' matches the excluded pattern '' @ [squote] @ pat @ [squote]
     else f @ ''='' @ fieldRepr r f @ '' does not match pattern '' @ [squote] @ pat @ [squote])"
| "describeLeaf (IsNull f neg) r =
    (if neg then f @ '' is missing or null (IS NOT NULL required)''
     else f @ ''='' @ fieldRepr r f @ '' is present but IS NULL required'')"
| "describeLeaf _ r = ''condition not satisfied''"

text \<open>The em dash of the message, in UTF-8.\<close>

definition or_failed :: string where
  "or_failed = ''no OR alternative held '' @ [CHR 0xE2, CHR 0x80, CHR 0x94] @ '' ''"

fun Explain :: "Node \<Rightarrow> row \<Rightarrow> bool \<times> Reason list"
and explain_or :: "Node list \<Rightarrow> row \<Rightarrow> string list \<Rightarrow> string list option"
and explain_and :: "Node list \<Rightarrow> row \<Rightarrow> Reason list \<Rightarrow> Reason list" where
  "Explain (Logic op args) r =
    (if op = ''OR'' then
       (case explain_or args r [] of
          None \<Rightarrow> (True, [])
        | Some details \<Rightarrow>
            (False, [\<lparr>Expr_text = Emit (Logic op args) SQL, Detail = or_failed @ Join details ''; ''\<rparr>]))
     else let rs = explain_and args r [] in (rs = [], rs))"
| "Explain (NotNode n) r =
    (if \<not> ast_eval n r then (True, [])
     else (False, [\<lparr>Expr_text = Emit (NotNode n) SQL,
       Detail = ''the negated condition was satisfied''\<rparr>]))"
| "Explain n r =
    (if ast_eval n r then (True, [])
     else (False, [\<lparr>Expr_text = Emit n SQL, Detail = describeLeaf n r\<rparr>]))"
| "explain_or [] r details = Some details"
| "explain_or (a # as) r details =
    (let (ok, rs) = Explain a r in
     if ok then None else explain_or as r (details @ map Detail rs))"
| "explain_and [] r acc = acc"
| "explain_and (a # as) r acc =
    (let (ok, rs) = Explain a r in explain_and as r (if ok then acc else acc @ rs))"

section \<open>The walker is a boolean semantics\<close>

lemma ast_any_iff: "ast_any as r \<longleftrightarrow> (\<exists>a \<in> set as. ast_eval a r)"
  by (induction as) auto

lemma ast_all_iff: "ast_all as r \<longleftrightarrow> (\<forall>a \<in> set as. ast_eval a r)"
  by (induction as) auto

interpretation ast_sem: bool_semantics ast_eval
  by unfold_locales (simp_all add: ast_any_iff ast_all_iff)

interpretation vm_sem: bool_semantics denote
  by unfold_locales (simp_all add: list_all_iff list_ex_iff)

section \<open>What an explanation reports\<close>

text \<open>The conditions that must all hold: the operands of nested conjunctions.\<close>

fun conjuncts :: "Node \<Rightarrow> Node list" where
  "conjuncts (Logic op args) =
    (if op = ''OR'' then [Logic op args] else concat (map conjuncts args))"
| "conjuncts n = [n]"

definition failing :: "Node \<Rightarrow> row \<Rightarrow> Node list" where
  "failing n r = filter (\<lambda>m. \<not> ast_eval m r) (conjuncts n)"

lemma conjuncts_all: "(\<forall>m \<in> set (conjuncts n). ast_eval m r) \<longleftrightarrow> ast_eval n r"
  by (induction n rule: conjuncts.induct) (auto simp: ast_all_iff)

lemma failing_Nil: "failing n r = [] \<longleftrightarrow> ast_eval n r"
  using conjuncts_all [of n r] by (simp add: failing_def filter_empty_conv)

lemma Explain_spec:
  "fst (Explain n r) = ast_eval n r \<and>
    map Expr_text (snd (Explain n r)) = map emitSQL (failing n r)"
  "(explain_or as r details = None) = (\<exists>a \<in> set as. ast_eval a r)"
  "map Expr_text (explain_and as r acc) =
    map Expr_text acc @ map emitSQL (concat (map (\<lambda>a. failing a r) as))"
proof (induction n r and as r details and as r acc
    rule: Explain_explain_or_explain_and.induct)
  case (1 op args r)
  show ?case
  proof (cases "op = ''OR''")
    case True
    with 1 show ?thesis
      by (auto simp: failing_def ast_any_iff Emit_def split: option.splits)
  next
    case False
    have "concat (map (\<lambda>a. failing a r) args) = failing (Logic op args) r"
      using False by (simp add: failing_def [abs_def] filter_concat comp_def)
    moreover have "map Expr_text (explain_and args r []) = map emitSQL (concat (map (\<lambda>a. failing a r) args))"
      using 1 False by simp
    ultimately show ?thesis
      using False failing_Nil [of "Logic op args" r] by (simp add: Let_def) (metis map_is_Nil_conv)
  qed
next
  case (7 a as r acc)
  then show ?case
    using failing_Nil [of a r] by (auto simp: Let_def split: prod.splits)
qed (auto simp: failing_def Emit_def split: prod.splits)

section \<open>Agreement with the bytecode machine\<close>

definition has_value :: "row \<Rightarrow> string \<Rightarrow> bool" where
  "has_value r f \<longleftrightarrow> v_k (field_val r f) \<noteq> kUndef"

definition canonical :: "Value \<Rightarrow> bool" where
  "canonical v \<longleftrightarrow> (case ParseFloat (Num v) of Inr x \<Rightarrow> FormatFloat x = Num v | Inl _ \<Rightarrow> False)"

text \<open>
  \<open>same_reading n r\<close>: the fields compared have a value on the row and \<open>==\<close> is not used; a number
  literal compared with a text or a bool is written as the shortest decimal; an IN list or a LIKE
  pattern tested on a missing field does not accept the empty text; and IS NULL is asked only of
  fields that are missing, nil or scalar.
\<close>

fun same_reading :: "Node \<Rightarrow> row \<Rightarrow> bool" where
  "same_reading (Logic op args) r = list_all (\<lambda>a. same_reading a r) args"
| "same_reading (Compare f op v) r =
    (has_value r f \<and> op \<noteq> ''=='' \<and> (IsString v \<or> v_k (field_val r f) = kNum \<or> canonical v))"
| "same_reading (Between f lo hi) r = True"
| "same_reading (In f vs neg) r = (has_value r f \<or> '''' \<notin> set (map valStr vs))"
| "same_reading (Like f pat neg) r = (has_value r f \<or> \<not> like_holds pat '''')"
| "same_reading (IsNull f neg) r = (has_value r f \<or> row_get r f = ANil)"
| "same_reading (NotNode n) r = same_reading n r"

lemma toValue_cases:
  obtains (undef) "toValue x = undef" "toNum x = None" "ast_asString x = ''''" "\<forall>s. x \<noteq> AString s"
    "\<forall>b. x \<noteq> ABool b"
  | (str) s where "x = AString s" "toValue x = strV s" "toNum x = None" "ast_asString x = s"
  | (bool) b where "x = ABool b" "toValue x = boolV b" "toNum x = None" "ast_asString x = FormatBool b"
  | (num) f where "toValue x = numV f" "toNum x = Some f" "ast_asString x = FormatFloat f"
  by (cases x) (auto simp: toValue_def toNum_def ast_asString_def FormatBool_def)

lemma ast_asString_value: "ast_asString x = vm_asString (toValue x)"
  by (cases x rule: toValue_cases) auto

lemma ast_like_holds: "ast_like s pat = like_holds pat s"
proof -
  have "pat = [] \<or> hd pat \<noteq> CHR ''%''" if "\<not> HasPrefix pat ''%''"
    using that by (cases pat) (auto simp: HasPrefix_def)
  moreover have "pat = [] \<or> last pat \<noteq> CHR ''%''" if "\<not> HasSuffix pat ''%''"
    using that by (cases pat rule: rev_cases) (auto simp: HasSuffix_def)
  ultimately have "Trim pat CHR ''%'' = pat" if "\<not> HasPrefix pat ''%''" "\<not> HasSuffix pat ''%''"
    using that by (intro Trim_id) blast
  then show ?thesis by (auto simp: ast_like_def like_holds_def vm_likeParts_def Let_def)
qed

lemma compare_agree:
  assumes "List.member cmp_ops op" "op \<noteq> ''==''" "IsString v \<or> num_ok v" "v_k (toValue x) \<noteq> kUndef"
    and "IsString v \<or> v_k (toValue x) = kNum \<or> canonical v"
  shows "cmp_holds op (toValue x) (lit_val v) = ast_compare x op v"
proof (cases "IsString v")
  case True
  then show ?thesis
    using assms by (cases x rule: toValue_cases)
      (auto simp: cmp_holds_def cmpOp_def cmp_ops_def vm_compare_def vm_eq_def lit_val_def
        ast_compare_def cmp_texts_def litString_def)
next
  case False
  then obtain l where l: "ParseFloat (Num v) = Inr l" using assms(3) by (auto simp: num_ok_def split: sum.splits)
  show ?thesis
    using assms False l by (cases x rule: toValue_cases)
      (auto simp: cmp_holds_def cmpOp_def cmp_ops_def vm_compare_def vm_eq_def lit_val_def
        ast_compare_def cmp_nums_def cmp_texts_def litString_def canonical_def)
qed

lemma between_agree:
  "num_ok lo \<Longrightarrow> num_ok hi \<Longrightarrow> between_holds (toValue x) (lit_val lo) (lit_val hi) = ast_between x lo hi"
  by (cases x rule: toValue_cases)
    (auto simp: between_holds_def ast_between_def num_ok_def lit_val_def litNum_def split: sum.splits)

lemma ast_holds_denote:
  "compilable n \<Longrightarrow> same_reading n r \<Longrightarrow> denote n r = ast_eval n r"
proof (induction n)
  case (Compare f op v)
  then show ?case
    using compare_agree [of op v "row_get r f"] by (simp add: field_val_def has_value_def)
next
  case (Between f lo hi)
  then show ?case by (simp add: field_val_def between_agree)
next
  case (In f vs neg)
  have "list_ex (\<lambda>v. s = litString v) vs \<longleftrightarrow> s \<in> set (map valStr vs)" for s
    by (auto simp: list_ex_iff litString_def valStr_def)
  with In show ?case
    by (cases "row_get r f" rule: toValue_cases)
      (auto simp: field_val_def has_value_def ast_asString_value Let_def)
next
  case (Like f pat neg)
  then show ?case
    by (cases "row_get r f" rule: toValue_cases)
      (auto simp: field_val_def has_value_def ast_asString_value ast_like_holds)
next
  case (IsNull f neg)
  have "(r f = None \<or> r f = Some ANil) \<longleftrightarrow> row_get r f = ANil"
    by (auto simp: row_get_def split: option.splits)
  with IsNull show ?case
    by (cases "row_get r f" rule: toValue_cases)
      (auto simp: field_val_def has_value_def Let_def toValue_def toNum_def)
qed (auto simp: list_all_iff list_ex_iff ast_any_iff ast_all_iff)

section \<open>Properties\<close>

text \<open>C10: \<open>Explain\<close> passes exactly when the rule holds; the reasons are empty exactly then; and the
  reasons name, in order, the SQL text of every failing condition among the operands of the
  (nested) conjunctions of the rule, and of nothing else.\<close>

theorem Explain_exact:
  "fst (Explain n r) = ast_eval n r \<and>
   (snd (Explain n r) = [] \<longleftrightarrow> ast_eval n r) \<and>
   map Expr_text (snd (Explain n r)) = map emitSQL (filter (\<lambda>m. \<not> ast_eval m r) (conjuncts n))"
  using Explain_spec(1) [of n r] failing_Nil [of n r] by (auto simp: failing_def)

text \<open>C5: The optimizer keeps the meaning of a rule, for the bytecode machine and for the tree
  walker, on every row, for every tree in which operands of a connective that print alike are equal
  (\<open>keys_apart\<close>). This holds of every tree over the lexer's tokens whose string literals hold
  no quote and no backslash.\<close>

theorem Optimize_preserves:
  assumes "keys_apart n \<or> lexed_node n \<and> plain_node n"
  shows "denote (Optimize n) r = denote n r \<and> ast_eval (Optimize n) r = ast_eval n r"
  using assms sql_safe_keys_apart [of n] vm_sem.optimize_keeps [of n r] ast_sem.optimize_keeps [of n r]
  by (auto simp: sql_safe_def)

theorem Optimize_preserves_witness:
  "denote (Optimize (Logic ''AND'' [IsNull ''a'' True, Logic ''AND'' [IsNull ''a'' True, IsNull ''b'' True]]))
     [''a'' \<mapsto> AInt 1, ''b'' \<mapsto> ABool False] =
   denote (Logic ''AND'' [IsNull ''a'' True, Logic ''AND'' [IsNull ''a'' True, IsNull ''b'' True]])
     [''a'' \<mapsto> AInt 1, ''b'' \<mapsto> ABool False]"
proof -
  let ?n = "Logic ''AND'' [IsNull ''a'' True, Logic ''AND'' [IsNull ''a'' True, IsNull ''b'' True]]"
  have "keys_apart ?n \<or> lexed_node ?n \<and> plain_node ?n" by code_simp
  from Optimize_preserves [OF this] show ?thesis by blast
qed

text \<open>C38: The key of an operand does not escape its strings, so for every field and all texts
  \<open>s\<close> and \<open>t\<close> the conditions \<^verbatim>\<open>f IN ('s', 't')\<close> and \<open>f\<close> in the one text \<^verbatim>\<open>s', 't\<close>
  have the same key: under any connective the optimizer drops the second. The conjunction of the
  two, which no row with \<open>f = s\<close> satisfies, is then accepted on every such row by the machine
  and by the walker.\<close>

theorem Optimize_key_collision:
  "let two = (\<lambda>neg. In f [StrValue s, StrValue t] neg);
       one = (\<lambda>neg. In f [StrValue (s @ [squote] @ '', '' @ [squote] @ t)] neg);
       both = Logic ''AND'' [two False, one False]; row = r(f \<mapsto> AString s)
   in two neg \<noteq> one neg \<and> Optimize (Logic op [two neg, one neg]) = two neg \<and>
      \<not> denote both row \<and> \<not> ast_eval both row \<and>
      denote (Optimize both) row \<and> ast_eval (Optimize both) row"
proof -
  let ?two = "In f [StrValue s, StrValue t]"
  let ?one = "In f [StrValue (s @ [squote] @ '', '' @ [squote] @ t)]"
  have "emitSQL (?one n) = emitSQL (?two n)" for n
    by (simp add: sqlValList_def sqlVal_def StrValue_def)
  then have drop: "Optimize (Logic op' [?two n, ?one n]) = ?two n" for op' n
    by (simp add: flat_one_def logic_of_def Emit_def Let_def)
  have "denote (?two False) (r(f \<mapsto> AString s))" "\<not> denote (?one False) (r(f \<mapsto> AString s))"
    "ast_eval (?two False) (r(f \<mapsto> AString s))" "\<not> ast_eval (?one False) (r(f \<mapsto> AString s))"
    by (simp_all add: field_val_def row_get_def toValue_def StrValue_def valStr_def litString_def
        ast_asString_def Let_def)
  then show ?thesis unfolding Let_def drop by (simp add: drop)
qed

text \<open>Such a rule can be written in the project's own language, with escaped quotes.\<close>

theorem Optimize_key_collision_text:
  "let s = ''x IN ('' @ [squote] @ ''a'' @ [squote] @ '', '' @ [squote] @ ''b'' @ [squote] @
         '') AND x IN ('' @ [squote] @ ''a'' @ [backslash, squote] @ '', '' @ [backslash, squote] @ ''b'' @
         [squote] @ '')'';
       r = [''x'' \<mapsto> AString ''a'']
   in case Parse s of
        Inr n \<Rightarrow> wf_node n \<and> \<not> denote n r \<and> \<not> ast_eval n r \<and> denote (Optimize n) r \<and> ast_eval (Optimize n) r
      | Inl _ \<Rightarrow> False"
  by code_simp

text \<open>The bytecode machine and the tree walker agree on a rule that compiles and a row, provided
  the fields compared have a value and \<open>==\<close> is not used, numbers compared with texts are written
  canonically, tests of missing fields do not accept the empty text, and IS NULL is asked of
  scalar or missing fields.\<close>

theorem ast_holds_iff_denote:
  assumes "compilable n" "same_reading n r"
  shows "denote n r = ast_eval n r"
  using assms by (rule ast_holds_denote)

theorem ast_holds_iff_denote_witness:
  "denote (Logic ''OR'' [Compare ''age'' ''>='' (NumValue ''18''), Compare ''vip'' ''='' (StrValue ''true'')])
     [''age'' \<mapsto> AInt 17, ''vip'' \<mapsto> ABool True] =
   ast_eval (Logic ''OR'' [Compare ''age'' ''>='' (NumValue ''18''), Compare ''vip'' ''='' (StrValue ''true'')])
     [''age'' \<mapsto> AInt 17, ''vip'' \<mapsto> ABool True]"
  by (rule ast_holds_iff_denote) code_simp+

text \<open>The two evaluators differ on parsed rules: on a missing field \<open>!=\<close> is false for the machine
  and true for the walker, \<open>==\<close> is equality for the machine and always false for the walker, and
  an IN list with the empty text accepts a missing field for the walker only.\<close>

theorem ast_vm_diverge:
  "let differ = (\<lambda>s r vm walker. case (Parse s, CompileString s) of
       (Inr n, Inr p) \<Rightarrow> Eval p r = Some vm \<and> ast_eval n r = walker | _ \<Rightarrow> False)
   in differ ''x != 1'' Map.empty False True \<and>
      differ ''x == 1'' [''x'' \<mapsto> AInt 1] True False \<and>
      differ (''x IN ('' @ [squote, squote] @ '')'') Map.empty False True"
  by code_simp

end
