(* ===== verification/VM_Optimize.thy ===== *)
theory VM_Optimize
  imports VM_Compile IR_Optimize
begin

text \<open>
  What the optimizer does to the resources of the compiled program: an optimized rule compiles when
  the original does, has no more leaves, and needs no more stack, so optimization never turns a
  rule that fits the stack of the machine into one that does not. Also the number of leaves of a
  parsed rule is bounded by the length of its text, which bounds the constant pools.
\<close>

section \<open>Optimized rules compile\<close>

lemma compilable_flat_one:
  "compilable a \<Longrightarrow> flat_one op a \<noteq> [] \<and> list_all compilable (flat_one op a)"
  by (cases a) (auto simp: flat_one_def)

lemma compilable_logic_of:
  "xs \<noteq> [] \<Longrightarrow> list_all compilable xs \<Longrightarrow> compilable (logic_of op xs)"
  by (cases rule: logic_of_cases [of xs op]) auto

lemma Optimize_compilable: "compilable n \<Longrightarrow> compilable (Optimize n)"
proof (induction n rule: Optimize.induct)
  case (2 op args)
  let ?flat = "concat (map (\<lambda>a. flat_one op (Optimize a)) args)"
  have "compilable (Optimize a)" if "a \<in> set args" for a
    using 2 that by (auto simp: list_all_iff)
  then have "list_all compilable ?flat" "?flat \<noteq> []"
    using "2.prems" compilable_flat_one by (fastforce simp: list_all_iff)+
  moreover from this have "list_all compilable (dedup {} ?flat)"
    using dedup_subset [of "{}" ?flat] by (auto simp: list_all_iff)
  ultimately show ?case
    unfolding Optimize.simps Let_def by (intro compilable_logic_of) simp_all
qed auto

text \<open>Conversely an optimized rule compiles only if the original does, when no connective is
  without operands and operands that print alike are equal: then no operand is lost.\<close>

fun has_operands :: "Node \<Rightarrow> bool" where
  "has_operands (Logic op args) = (args \<noteq> [] \<and> list_all has_operands args)"
| "has_operands (NotNode n) = has_operands n"
| "has_operands _ = True"

lemma wf_has_operands: "wf_node n \<Longrightarrow> has_operands n"
  by (induction n rule: has_operands.induct) (auto simp: list_all_iff)

lemma operands_flat_one:
  "has_operands a \<Longrightarrow> flat_one op a \<noteq> [] \<and> list_all has_operands (flat_one op a) \<and>
    list_all compilable (flat_one op a) = compilable a"
  by (cases a) (auto simp: flat_one_def)

lemma operands_logic_of:
  "list_all has_operands xs \<Longrightarrow> xs \<noteq> [] \<Longrightarrow>
    has_operands (logic_of op xs) \<and> compilable (logic_of op xs) = list_all compilable xs"
  by (cases rule: logic_of_cases [of xs op]) auto

lemma Optimize_operands:
  assumes "has_operands n" "keys_apart n"
  shows "has_operands (Optimize n) \<and> compilable (Optimize n) = compilable n"
  using assms
proof (induction n rule: Optimize.induct)
  case (2 op args)
  let ?flat = "flat_args op args"
  have IH: "has_operands (Optimize a) \<and> compilable (Optimize a) = compilable a" if "a \<in> set args" for a
    using 2 that by (simp add: list_all_iff)
  then have ops: "list_all has_operands ?flat" "?flat \<noteq> []"
    "list_all compilable ?flat = list_all compilable args"
    using operands_flat_one "2.prems"(1) by (fastforce simp: flat_args_def list_all_iff)+
  have "set (dedup {} ?flat) = set ?flat"
    using "2.prems" by (intro dedup_set) (simp add: texts_differ_inj)
  then have "list_all has_operands (dedup {} ?flat)" "dedup {} ?flat \<noteq> []"
    "list_all compilable (dedup {} ?flat) = list_all compilable args"
    using ops by (simp_all add: list_all_iff)
  with operands_logic_of "2.prems"(1) show ?case unfolding Optimize_Logic by simp
qed auto

section \<open>Leaves\<close>

lemma leaves_flat_one: "sum_list (map leaves (flat_one op a)) = leaves a"
  by (cases a) (auto simp: flat_one_def)

lemma leaves_dedup: "sum_list (map leaves (dedup S xs)) \<le> sum_list (map leaves xs)"
  by (induction S xs rule: dedup.induct) (auto simp: Let_def)

lemma leaves_logic_of: "leaves (logic_of op xs) = sum_list (map leaves xs)"
  by (cases rule: logic_of_cases [of xs op]) auto

lemma Optimize_leaves: "leaves (Optimize n) \<le> leaves n"
proof (induction n rule: Optimize.induct)
  case (2 op args)
  have "sum_list (map leaves (concat (map (\<lambda>a. flat_one op (Optimize a)) args)))
      = sum_list (map (\<lambda>a. leaves (Optimize a)) args)"
    by (induction args) (simp_all add: leaves_flat_one)
  also have "\<dots> \<le> sum_list (map leaves args)"
    using 2 by (intro sum_list_mono)
  finally show ?case
    using leaves_dedup le_trans by (fastforce simp: Let_def leaves_logic_of)
qed auto

section \<open>Stack\<close>

text \<open>The stack bound on the operands of a connective: the first runs on the stack as it is, the others on top of the result so far.\<close>

fun stack_fits :: "nat \<Rightarrow> Node list \<Rightarrow> bool" where
  "stack_fits k [] = True"
| "stack_fits k (a # as) = (stack_need a \<le> k \<and> list_all (\<lambda>b. Suc (stack_need b) \<le> k) as)"

lemma fold_max_le: "fold max xs (a::nat) \<le> k \<longleftrightarrow> a \<le> k \<and> (\<forall>x \<in> set xs. x \<le> k)"
  by (induction xs arbitrary: a) auto

lemma stack_need_Logic: "stack_need (Logic op args) \<le> k \<longleftrightarrow> stack_fits k args"
  by (cases args) (auto simp: fold_max_le list_all_iff)

lemma stack_fits_all: "stack_fits k as \<Longrightarrow> list_all (\<lambda>b. Suc (stack_need b) \<le> Suc k) as"
  by (cases as) (auto simp: list_all_iff)

lemma stack_fits_append:
  "stack_fits k xs \<Longrightarrow> list_all (\<lambda>b. Suc (stack_need b) \<le> k) ys \<Longrightarrow> stack_fits k (xs @ ys)"
  by (cases xs; cases ys) (auto simp: list_all_iff)

lemma stack_fits_flat_one: "stack_need a \<le> k \<Longrightarrow> stack_fits k (flat_one op a)"
  by (cases a) (auto simp: flat_one_def stack_need_Logic simp del: stack_need.simps(1))

lemma stack_fits_dedup: "stack_fits k xs \<Longrightarrow> stack_fits k (dedup {} xs)"
proof (cases xs)
  case (Cons a as)
  assume "stack_fits k xs"
  with Cons dedup_subset [of "{Emit a SQL}" as] show ?thesis
    by (auto simp: Let_def list_all_iff)
qed simp

lemma stack_fits_logic_of: "stack_fits k xs \<Longrightarrow> stack_need (logic_of op xs) \<le> k"
  by (cases rule: logic_of_cases [of xs op])
    (auto simp: stack_need_Logic simp del: stack_need.simps(1))

lemma stack_fits_flat:
  assumes "\<And>a k. a \<in> set args \<Longrightarrow> stack_need a \<le> k \<Longrightarrow> stack_need (Optimize a) \<le> k"
    and "stack_fits k args"
  shows "stack_fits k (concat (map (\<lambda>a. flat_one op (Optimize a)) args))"
proof (cases args)
  case (Cons a as)
  have rest: "list_all (\<lambda>b. Suc (stack_need b) \<le> k) (flat_one op (Optimize b))" if "b \<in> set as" for b
  proof -
    have "Suc (stack_need b) \<le> k" using assms(2) that Cons by (simp add: list_all_iff)
    then obtain j where "k = Suc j" "stack_need b \<le> j" by (cases k) auto
    then show ?thesis
      using assms(1) [of b j] that Cons stack_fits_all [OF stack_fits_flat_one] by simp
  qed
  have "stack_fits k (flat_one op (Optimize a))"
    using assms Cons by (intro stack_fits_flat_one) simp
  then show ?thesis
    using rest Cons by (auto intro!: stack_fits_append simp: list_all_iff)
qed simp

lemma Optimize_stack: "stack_need n \<le> k \<Longrightarrow> stack_need (Optimize n) \<le> k"
proof (induction n arbitrary: k rule: Optimize.induct)
  case (2 op args)
  then have "stack_fits k args" by (simp add: stack_need_Logic del: stack_need.simps(1))
  from stack_fits_flat [OF "2.IH" this] show ?case
    unfolding Optimize.simps Let_def by (intro stack_fits_logic_of stack_fits_dedup)
qed auto

section \<open>Leaves of a parsed rule\<close>

lemma parsePredicate_leaves: "parsePredicate p = Inr (n, p') \<Longrightarrow> leaves n = 1"
  by (auto simp: parsePredicate_def Let_def bind_res_Inr_iff split: tokenKind.splits if_splits)
    (metis tokenKind.exhaust)+

lemma parse_leaves:
  "parseOr k p = Inr (n, p') \<Longrightarrow> leaves n + length p' \<le> length p"
  "orLoop k args p = Inr (args', p') \<Longrightarrow>
    sum_list (map leaves args') + length p' \<le> sum_list (map leaves args) + length p"
  "parseAnd k p = Inr (n, p') \<Longrightarrow> leaves n + length p' \<le> length p"
  "andLoop k args p = Inr (args', p') \<Longrightarrow>
    sum_list (map leaves args') + length p' \<le> sum_list (map leaves args) + length p"
  "parseUnary k p = Inr (n, p') \<Longrightarrow> leaves n + length p' \<le> length p"
proof (induction k p and k args p and k p and k args p and k p arbitrary: n p' and args' p'
    and n p' and args' p' and n p' rule: parseOr_orLoop_parseAnd_andLoop_parseUnary.induct)
  case (2 k p)
  then show ?case by (fastforce simp: bind_res_Inr_iff split: if_splits)
next
  case (4 k args p)
  then show ?case by (fastforce simp: bind_res_Inr_iff split: if_splits)
next
  case (6 k p)
  then show ?case by (fastforce simp: bind_res_Inr_iff split: if_splits)
next
  case (8 k args p)
  then show ?case by (fastforce simp: bind_res_Inr_iff split: if_splits)
next
  case (10 k p)
  have tl: "length (tl p) \<le> length p" by simp
  consider (neg) "Kind (cur p) = tNot" | (par) "Kind (cur p) = tLParen"
    | (pred) "Kind (cur p) \<noteq> tNot" "Kind (cur p) \<noteq> tLParen" by blast
  then show ?case
  proof cases
    case neg
    with 10 obtain a where "parseUnary k (tl p) = Inr (a, p')" "n = NotNode a"
      by (auto simp: bind_res_Inr_iff)
    with "10.IH"(1) [OF neg] tl show ?thesis by fastforce
  next
    case par
    with 10 obtain p1 where "parseOr k (tl p) = Inr (n, p1)" "p' = tl p1"
      by (auto simp: bind_res_Inr_iff expect_def advance_def split: if_splits)
    with "10.IH"(2) par tl show ?thesis by fastforce
  next
    case pred
    with "10.prems" have "parsePredicate p = Inr (n, p')" by simp
    from parsePredicate_leaves [OF this] parsePredicate_consumes [OF this] show ?thesis by simp
  qed
qed auto

lemma lexAll_loop_length: "lexAll_loop l = Inr ts \<Longrightarrow> length ts \<le> Suc (length (rest l))"
proof (induction l arbitrary: ts rule: lexAll_loop.induct)
  case (1 l)
  from "1.prems" obtain t l' where n: "lexer_next l = Inr (t, l')"
    by (subst (asm) lexAll_loop.simps) (auto simp: bind_res_Inr_iff)
  show ?case
  proof (cases "Kind t = tEOF")
    case True
    then show ?thesis using "1.prems" n by (subst (asm) lexAll_loop.simps) auto
  next
    case False
    then obtain us where us: "lexAll_loop l' = Inr us" "ts = t # us"
      using "1.prems" n by (subst (asm) lexAll_loop.simps) (auto simp: bind_res_Inr_iff)
    from "1.IH" [OF n refl False us(1)] lexer_next_consumes [OF n False] us(2) show ?thesis by simp
  qed
qed

lemma decode_bytes_length: "length (decode_bytes bs) \<le> length bs"
proof (induction bs rule: decode_bytes.induct)
  case (2 b0 bs)
  obtain r w where "decode_rune b0 bs = (r, w)" by fastforce
  with 2 show ?case by (fastforce simp: decode_bytes.simps)
qed simp

lemma runes_of_length: "length (runes_of s) \<le> length s"
  using decode_bytes_length [of "map of_char s"] by (simp add: runes_of_def)

lemma Parse_leaves:
  assumes "Parse s = Inr n"
  shows "leaves n \<le> Suc (length s)"
proof -
  obtain ts where ts: "lexAll s = Inr ts" "parse_tokens ts = Inr n"
    using assms by (auto simp: Parse_def split: sum.splits)
  then have "leaves n \<le> length ts"
    by (auto simp: parse_tokens_def bind_res_Inr_iff dest!: parse_leaves(1) split: if_splits)
  also have "\<dots> \<le> Suc (length (runes_of s))"
    using lexAll_loop_length [of "newLexer s"] ts(1) by (simp add: lexAll_def newLexer_def)
  finally show ?thesis using runes_of_length [of s] by simp
qed

section \<open>Properties\<close>

text \<open>Optimizing a rule never costs: the optimized tree compiles when the original does, has no
  more leaves, and needs no more stack slots, so that a rule within the machine's stack bound
  stays within it.\<close>

theorem Optimize_resources:
  "(compilable n \<longrightarrow> compilable (Optimize n)) \<and> leaves (Optimize n) \<le> leaves n \<and>
   stack_need (Optimize n) \<le> stack_need n"
  using Optimize_compilable Optimize_leaves Optimize_stack [of n "stack_need n"] by blast

theorem Optimize_resources_witness:
  "compilable (Optimize (Logic ''AND'' [IsNull ''a'' True, Logic ''AND'' [IsNull ''b'' True, IsNull ''a'' True]]))"
proof -
  let ?n = "Logic ''AND'' [IsNull ''a'' True, Logic ''AND'' [IsNull ''b'' True, IsNull ''a'' True]]"
  have "compilable ?n" by simp
  with Optimize_resources [of ?n] show ?thesis by blast
qed

end
