(* ===== verification/Runtimes.thy ===== *)
theory Runtimes
  imports AST_Runtime VM_Optimize "HOL-Library.AList"
begin

text \<open>
  The pluggable evaluators: the interface \<open>api.Runtime\<close> (\<^verbatim>\<open>pkg/api/api.go\<close>) and its five
  implementations under \<^verbatim>\<open>pkg/runtime\<close>, and the interface \<open>engine.Backend\<close> with the adapters
  \<open>runtimeBackend\<close> (\<^verbatim>\<open>pkg/engine/spi.go\<close>), \<open>BytecodeBackend\<close> and \<open>QLBridgeBackend\<close>.

  A plan is opaque to the callers (\<open>any\<close> in Go): \<open>Plan\<close> is the union of the types the source stores
  in it, a bytecode program, a rule tree, or an artifact of one of the third-party evaluators, whose
  type and functions are parameters. Each \<open>Execute\<close> and \<open>Eval\<close> checks the type of the plan as the
  source does. \<open>None\<close> is a panic.

  Two locales state what callers rely on: \<open>api_runtime\<close>, that executing a compiled rule gives its
  meaning, and \<open>rule_backend\<close>, the same for rule texts. Every runtime over any parser is a backend
  (\<open>sublocale\<close>), and the bytecode machine and the tree walker are interpretations.
\<close>

section \<open>Plans, runtimes and backends\<close>

datatype 'q Plan = PlanProgram Program | PlanNode Node | PlanLib 'q

datatype 'e rt_error =
    NilProgram
  | UnsupportedNil
  | InvalidPlan
  | VMCompile compile_error
  | LibError string 'e

record ('e, 'q) Runtime =
  rt_Name :: string
  rt_Compile :: "Node option \<Rightarrow> 'e rt_error + 'q Plan"
  rt_Execute :: "'q Plan \<Rightarrow> row \<Rightarrow> ('e rt_error + bool) option"

record 'e Parser =
  parser_Name :: string
  parser_Parse :: "string \<Rightarrow> 'e + Node"

datatype 'c Ctx = CtxRow row | CtxLib 'c

record ('e, 'c, 'q) Backend =
  be_Name :: string
  be_Compile :: "string \<Rightarrow> 'e + 'q Plan"
  be_NewContext :: "row \<Rightarrow> 'c Ctx"
  be_Eval :: "'c Ctx \<Rightarrow> 'q Plan \<Rightarrow> bool option"

section \<open>The bytecode runtime\<close>

definition bytecode_Compile :: "Node option \<Rightarrow> 'e rt_error + 'q Plan" where
  "bytecode_Compile program =
    (case program of
       None \<Rightarrow> Inl UnsupportedNil
     | Some n \<Rightarrow> (case Compile (Optimize n) of
         Inl e \<Rightarrow> Inl (VMCompile e) | Inr p \<Rightarrow> Inr (PlanProgram p)))"

definition bytecode_Execute :: "'q Plan \<Rightarrow> row \<Rightarrow> ('e rt_error + bool) option" where
  "bytecode_Execute plan r =
    (case plan of PlanProgram p \<Rightarrow> map_option Inr (Eval p r) | _ \<Rightarrow> Some (Inl InvalidPlan))"

definition bytecode_Runtime :: "('e, 'q) Runtime" where
  "bytecode_Runtime =
    \<lparr>rt_Name = ''bytecode'', rt_Compile = bytecode_Compile, rt_Execute = bytecode_Execute\<rparr>"

section \<open>The tree-walking runtime\<close>

definition ast_Compile :: "Node option \<Rightarrow> 'e rt_error + 'q Plan" where
  "ast_Compile program = (case program of None \<Rightarrow> Inl NilProgram | Some n \<Rightarrow> Inr (PlanNode n))"

definition ast_Execute :: "'q Plan \<Rightarrow> row \<Rightarrow> ('e rt_error + bool) option" where
  "ast_Execute plan r =
    (case plan of PlanNode n \<Rightarrow> Some (Inr (ast_eval n r)) | _ \<Rightarrow> Some (Inl InvalidPlan))"

definition ast_Runtime :: "('e, 'q) Runtime" where
  "ast_Runtime = \<lparr>rt_Name = ''ast'', rt_Compile = ast_Compile, rt_Execute = ast_Execute\<rparr>"

section \<open>Runtimes over third-party evaluators\<close>

text \<open>
  The functions of cel-go, expr-lang and qlbridge that the runtimes call, as records of parameters.
  A CEL environment is built from the set of declared variables.
\<close>

record ('e, 'env, 'a, 'q) cel_lib =
  cel_NewEnv :: "string set \<Rightarrow> 'e + 'env"
  cel_env_Compile :: "'env \<Rightarrow> string \<Rightarrow> 'e + 'a"
  cel_env_Program :: "'env \<Rightarrow> 'a \<Rightarrow> 'e + 'q"
  cel_prog_Eval :: "'q \<Rightarrow> row \<Rightarrow> 'e + any"

fun collectFields :: "Node \<Rightarrow> string set \<Rightarrow> string set" where
  "collectFields (Logic op args) acc = foldl (\<lambda>s a. collectFields a s) acc args"
| "collectFields (Compare f op v) acc = insert f acc"
| "collectFields (Between f lo hi) acc = insert f acc"
| "collectFields (In f vs neg) acc = insert f acc"
| "collectFields (Like f pat neg) acc = insert f acc"
| "collectFields (IsNull f neg) acc = insert f acc"
| "collectFields (NotNode n) acc = collectFields n acc"

definition cel_Compile :: "('e, 'env, 'a, 'q) cel_lib \<Rightarrow> Node \<Rightarrow> 'e rt_error + 'q Plan" where
  "cel_Compile lib n =
    (case cel_NewEnv lib (collectFields n {}) of
       Inl e \<Rightarrow> Inl (LibError ''cel runtime env'' e)
     | Inr env \<Rightarrow> (case cel_env_Compile lib env (Emit n CEL) of
         Inl e \<Rightarrow> Inl (LibError ''cel runtime compile'' e)
       | Inr a \<Rightarrow> (case cel_env_Program lib env a of
           Inl e \<Rightarrow> Inl (LibError ''cel runtime program'' e)
         | Inr q \<Rightarrow> Inr (PlanLib q))))"

definition cel_Execute :: "('e, 'env, 'a, 'q) cel_lib \<Rightarrow> 'q Plan \<Rightarrow> row \<Rightarrow> 'e rt_error + bool" where
  "cel_Execute lib plan r =
    (case plan of
       PlanLib q \<Rightarrow>
         (case cel_prog_Eval lib q r of
            Inl e \<Rightarrow> Inl (LibError '''' e)
          | Inr out \<Rightarrow> Inr (case out of ABool b \<Rightarrow> b | _ \<Rightarrow> False))
     | _ \<Rightarrow> Inl InvalidPlan)"

record ('e, 'q) expr_lib =
  expr_Compile_src :: "string \<Rightarrow> 'e + 'q"
  expr_Run :: "'q \<Rightarrow> row \<Rightarrow> 'e + any"

definition expr_rt_Compile :: "('e, 'q) expr_lib \<Rightarrow> Node \<Rightarrow> 'e rt_error + 'q Plan" where
  "expr_rt_Compile lib n =
    (case expr_Compile_src lib (Emit n Expr) of
       Inl e \<Rightarrow> Inl (LibError (Emit n Expr) e) | Inr q \<Rightarrow> Inr (PlanLib q))"

definition expr_rt_Execute :: "('e, 'q) expr_lib \<Rightarrow> 'q Plan \<Rightarrow> row \<Rightarrow> 'e rt_error + bool" where
  "expr_rt_Execute lib plan r =
    (case plan of
       PlanLib q \<Rightarrow>
         (case expr_Run lib q r of
            Inl e \<Rightarrow> Inl (LibError '''' e)
          | Inr out \<Rightarrow> Inr (case out of ABool b \<Rightarrow> b | _ \<Rightarrow> False))
     | _ \<Rightarrow> Inl InvalidPlan)"

text \<open>
  qlbridge: the evaluation returns a value, which may be nil (\<open>None\<close>), and an ok flag;
  \<open>ValueToBool\<close> returns a bool and an ok flag.
\<close>

record ('e, 'c, 'q, 'v) ql_lib =
  ql_ParseExpression :: "string \<Rightarrow> 'e + 'q"
  ql_NewContext :: "row \<Rightarrow> 'c"
  ql_Eval :: "'c \<Rightarrow> 'q \<Rightarrow> 'v option \<times> bool"
  ql_Nil :: "'v \<Rightarrow> bool"
  ql_Err :: "'v \<Rightarrow> bool"
  ql_ValueToBool :: "'v \<Rightarrow> bool \<times> bool"

definition ql_truth :: "('e, 'c, 'q, 'v) ql_lib \<Rightarrow> 'v option \<times> bool \<Rightarrow> bool" where
  "ql_truth lib out =
    (case out of
       (Some v, True) \<Rightarrow>
         (if ql_Nil lib v \<or> ql_Err lib v then False
          else case ql_ValueToBool lib v of (b, ok) \<Rightarrow> ok \<and> b)
     | _ \<Rightarrow> False)"

definition ql_rt_Compile :: "('e, 'c, 'q, 'v) ql_lib \<Rightarrow> Node \<Rightarrow> 'e rt_error + 'q Plan" where
  "ql_rt_Compile lib n =
    (case ql_ParseExpression lib (Emit n SQL) of
       Inl e \<Rightarrow> Inl (LibError ''qlbridge runtime compile'' e) | Inr q \<Rightarrow> Inr (PlanLib q))"

definition ql_rt_Execute :: "('e, 'c, 'q, 'v) ql_lib \<Rightarrow> 'q Plan \<Rightarrow> row \<Rightarrow> 'e rt_error + bool" where
  "ql_rt_Execute lib plan r =
    (case plan of
       PlanLib q \<Rightarrow> Inr (ql_truth lib (ql_Eval lib (ql_NewContext lib r) q))
     | _ \<Rightarrow> Inl InvalidPlan)"

section \<open>Backends\<close>

datatype 'e be_error = ParseFailed 'e | CompileFailed "'e rt_error"

definition runtimeBackend_Eval :: "('e, 'q) Runtime \<Rightarrow> 'c Ctx \<Rightarrow> 'q Plan \<Rightarrow> bool option" where
  "runtimeBackend_Eval rt ctx plan =
    (case ctx of
       CtxRow r \<Rightarrow> map_option (\<lambda>out. case out of Inl _ \<Rightarrow> False | Inr b \<Rightarrow> b) (rt_Execute rt plan r)
     | _ \<Rightarrow> Some False)"

definition runtimeBackend :: "'e Parser \<Rightarrow> ('e, 'q) Runtime \<Rightarrow> ('e be_error, 'c, 'q) Backend" where
  "runtimeBackend ps rt =
    \<lparr>be_Name = rt_Name rt @ ''/'' @ parser_Name ps,
     be_Compile = (\<lambda>s. case parser_Parse ps s of
         Inl e \<Rightarrow> Inl (ParseFailed e)
       | Inr n \<Rightarrow> (case rt_Compile rt (Some n) of
           Inl e \<Rightarrow> Inl (CompileFailed e) | Inr p \<Rightarrow> Inr p)),
     be_NewContext = CtxRow,
     be_Eval = runtimeBackend_Eval rt\<rparr>"

definition BytecodeBackend_Eval :: "'c Ctx \<Rightarrow> 'q Plan \<Rightarrow> bool option" where
  "BytecodeBackend_Eval ctx ast =
    (case ast of
       PlanProgram p \<Rightarrow> (case ctx of CtxRow r \<Rightarrow> Eval p r | _ \<Rightarrow> Some False)
     | _ \<Rightarrow> Some False)"

definition BytecodeBackend :: "'e Parser \<Rightarrow> ('e be_error, 'c, 'q) Backend" where
  "BytecodeBackend fe =
    \<lparr>be_Name = ''bytecode/'' @ parser_Name fe,
     be_Compile = (\<lambda>s. case parser_Parse fe s of
         Inl e \<Rightarrow> Inl (ParseFailed e)
       | Inr n \<Rightarrow> (case Compile (Optimize n) of
           Inl e \<Rightarrow> Inl (CompileFailed (VMCompile e)) | Inr p \<Rightarrow> Inr (PlanProgram p))),
     be_NewContext = CtxRow,
     be_Eval = BytecodeBackend_Eval\<rparr>"

definition QLBridgeBackend_Eval ::
  "('e, 'c, 'q, 'v) ql_lib \<Rightarrow> 'c Ctx \<Rightarrow> 'q Plan \<Rightarrow> bool option" where
  "QLBridgeBackend_Eval lib ctx ast =
    (case ctx of
       CtxLib c \<Rightarrow> (case ast of PlanLib q \<Rightarrow> Some (ql_truth lib (ql_Eval lib c q)) | _ \<Rightarrow> Some False)
     | _ \<Rightarrow> Some False)"

definition QLBridgeBackend :: "('e, 'c, 'q, 'v) ql_lib \<Rightarrow> ('e, 'c, 'q) Backend" where
  "QLBridgeBackend lib =
    \<lparr>be_Name = ''qlbridge'',
     be_Compile = (\<lambda>s. case ql_ParseExpression lib s of Inl e \<Rightarrow> Inl e | Inr q \<Rightarrow> Inr (PlanLib q)),
     be_NewContext = (\<lambda>r. CtxLib (ql_NewContext lib r)),
     be_Eval = QLBridgeBackend_Eval lib\<rparr>"

text \<open>The parser of the project itself (\<open>NativeFrontend\<close>, \<^verbatim>\<open>pkg/parser/native\<close>) and the Vitess stub.\<close>

definition native_Parser :: "parse_error Parser" where
  "native_Parser = \<lparr>parser_Name = ''native-sql'', parser_Parse = Parse\<rparr>"

datatype vitess_error = NotImplemented

definition vitess_Parser :: "vitess_error Parser" where
  "vitess_Parser = \<lparr>parser_Name = ''vitess'', parser_Parse = (\<lambda>rule. Inl NotImplemented)\<rparr>"

text \<open>The registries of \<^verbatim>\<open>pkg/parser\<close> and \<^verbatim>\<open>pkg/runtime\<close>: constructors by name.\<close>

definition registry_New :: "(string \<times> 'p) list \<Rightarrow> string \<Rightarrow> 'p option" where
  "registry_New reg name = map_of reg name"

definition registry_Register :: "(string \<times> 'p) list \<Rightarrow> string \<Rightarrow> 'p \<Rightarrow> (string \<times> 'p) list" where
  "registry_Register reg name ctor = AList.update name ctor reg"

definition registry_Names :: "(string \<times> 'p) list \<Rightarrow> string list" where
  "registry_Names reg = sort (map fst reg)"

section \<open>Fields\<close>

lemma collectFields_eq: "collectFields n acc = acc \<union> node_fields n"
proof (induction n arbitrary: acc)
  case (Logic op args)
  have "foldl (\<lambda>s a. collectFields a s) acc bs = acc \<union> (\<Union>a \<in> set bs. node_fields a)"
    if "set bs \<subseteq> set args" for bs
    using that Logic by (induction bs arbitrary: acc) auto
  then show ?case by simp
qed auto

lemma denote_frame:
  "(\<And>f. f \<in> node_fields n \<Longrightarrow> r f = s f) \<Longrightarrow> denote n r = denote n s"
proof (induction n)
  case (Logic op args)
  then have "denote a r = denote a s" if "a \<in> set args" for a using that by auto
  then show ?case by (auto simp: list_all_iff list_ex_iff)
qed (auto simp: field_val_def row_get_def)

section \<open>What callers rely on\<close>

text \<open>A runtime: executing the plan of a rule in the domain \<open>ok\<close> gives the meaning of the rule.\<close>

locale api_runtime =
  fixes rt :: "('e, 'q) Runtime"
    and ok :: "Node \<Rightarrow> bool"
    and sem :: "Node \<Rightarrow> row \<Rightarrow> bool"
  assumes execute_sem:
    "rt_Compile rt (Some n) = Inr p \<Longrightarrow> ok n \<Longrightarrow> rt_Execute rt p r = Some (Inr (sem n r))"

text \<open>A backend: the same for rule texts.\<close>

locale rule_backend =
  fixes be :: "('e, 'c, 'q) Backend"
    and ok :: "string \<Rightarrow> bool"
    and sem :: "string \<Rightarrow> row \<Rightarrow> bool"
  assumes eval_sem:
    "be_Compile be s = Inr p \<Longrightarrow> ok s \<Longrightarrow> be_Eval be (be_NewContext be r) p = Some (sem s r)"
begin

lemma eval_total: "be_Compile be s = Inr p \<Longrightarrow> ok s \<Longrightarrow> be_Eval be (be_NewContext be r) p \<noteq> None"
  by (simp add: eval_sem)

lemma eval_deterministic:
  "be_Compile be s = Inr p \<Longrightarrow> be_Compile be s = Inr q \<Longrightarrow> ok s \<Longrightarrow>
    be_Eval be (be_NewContext be r) p = be_Eval be (be_NewContext be r) q"
  by simp

end

definition parsed_ok :: "'e Parser \<Rightarrow> (Node \<Rightarrow> bool) \<Rightarrow> string \<Rightarrow> bool" where
  "parsed_ok ps ok s = (case parser_Parse ps s of Inr n \<Rightarrow> ok n | Inl _ \<Rightarrow> True)"

definition parsed_sem :: "'e Parser \<Rightarrow> (Node \<Rightarrow> row \<Rightarrow> bool) \<Rightarrow> string \<Rightarrow> row \<Rightarrow> bool" where
  "parsed_sem ps sem s r = (case parser_Parse ps s of Inr n \<Rightarrow> sem n r | Inl _ \<Rightarrow> False)"

text \<open>Any runtime over any parser is a backend.\<close>

locale parsed_runtime = api_runtime rt ok sem
  for rt :: "('e, 'q) Runtime" and ok sem +
  fixes ps :: "'e Parser"

sublocale parsed_runtime \<subseteq> backend: rule_backend "runtimeBackend ps rt" "parsed_ok ps ok" "parsed_sem ps sem"
  by unfold_locales
    (auto simp: runtimeBackend_def runtimeBackend_Eval_def parsed_ok_def parsed_sem_def execute_sem
      split: sum.splits)

definition bytecode_ok :: "Node \<Rightarrow> bool" where
  "bytecode_ok n \<longleftrightarrow> 3 * leaves n \<le> 2 ^ 31"

definition bytecode_sem :: "Node \<Rightarrow> row \<Rightarrow> bool" where
  "bytecode_sem n r \<longleftrightarrow> stack_need (Optimize n) \<le> stackMax \<and> denote (Optimize n) r"

lemma Eval_optimized:
  "Compile (Optimize n) = Inr p \<Longrightarrow> bytecode_ok n \<Longrightarrow> Eval p r = Some (bytecode_sem n r)"
  using Optimize_leaves [of n] by (simp add: Eval_denote bytecode_sem_def bytecode_ok_def)

interpretation bytecode_rt: api_runtime bytecode_Runtime bytecode_ok bytecode_sem
  by unfold_locales
    (auto simp: bytecode_Runtime_def bytecode_Compile_def bytecode_Execute_def Eval_optimized
      split: sum.splits)

interpretation ast_rt: api_runtime ast_Runtime "\<lambda>n. True" ast_eval
  by unfold_locales (auto simp: ast_Runtime_def ast_Compile_def ast_Execute_def)

interpretation bytecode_parsed: parsed_runtime bytecode_Runtime bytecode_ok bytecode_sem ps for ps :: "'e Parser"
  by unfold_locales

interpretation ast_parsed: parsed_runtime ast_Runtime "\<lambda>n. True" ast_eval ps for ps :: "'e Parser"
  by unfold_locales

interpretation bytecode_be: rule_backend "BytecodeBackend fe" "parsed_ok fe bytecode_ok"
  "parsed_sem fe bytecode_sem" for fe
  by unfold_locales
    (auto simp: BytecodeBackend_def BytecodeBackend_Eval_def parsed_ok_def parsed_sem_def Eval_optimized
      split: sum.splits)

section \<open>The rule language of the project\<close>

text \<open>A rule text of less than 500 million bytes is in the domain of the bytecode backends.\<close>

lemma native_ok: "length s \<le> 500000000 \<Longrightarrow> parsed_ok native_Parser bytecode_ok s"
  by (auto simp: parsed_ok_def native_Parser_def bytecode_ok_def dest!: Parse_leaves split: sum.splits)

text \<open>What the machine returns for a rule: its truth value when the rule fits the machine's stack,
  and false otherwise. The operands of a connective that print alike have to be equal.\<close>

lemma bytecode_sem_exact:
  "keys_apart n \<Longrightarrow> bytecode_sem n r \<longleftrightarrow> stack_need (Optimize n) \<le> stackMax \<and> denote n r"
  by (simp add: bytecode_sem_def vm_sem.optimize_keeps)

lemma bytecode_sem_denote:
  assumes "sql_safe n" "stack_need n \<le> stackMax"
  shows "bytecode_sem n r = denote n r"
  using assms Optimize_stack sql_safe_keys_apart bytecode_sem_exact by fastforce

text \<open>
  The meaning of a rule text, which mentions neither the optimizer nor the machine: the text
  parses and its tree is true of the row. \<open>text_exact\<close> are the texts whose meaning the machine
  computes: those with fewer than 700 million conditions that fit the stack and whose operands are
  told apart by their SQL text. A text that does not parse is no rule and is one of them.
\<close>

definition text_holds :: "string \<Rightarrow> row \<Rightarrow> bool" where
  "text_holds s r = (case Parse s of Inr n \<Rightarrow> denote n r | Inl _ \<Rightarrow> False)"

definition text_exact :: "string \<Rightarrow> bool" where
  "text_exact s \<longleftrightarrow> (case Parse s of
     Inr n \<Rightarrow> 3 * int (leaves n) \<le> 2 ^ 31 \<and> keys_apart n \<and> stack_need n \<le> stackMax
   | Inl _ \<Rightarrow> True)"

lemma text_exact_ok: "text_exact s \<Longrightarrow> parsed_ok native_Parser bytecode_ok s"
  by (auto simp: parsed_ok_def native_Parser_def bytecode_ok_def text_exact_def split: sum.splits)

lemma text_exact_sem: "text_exact s \<Longrightarrow> parsed_sem native_Parser bytecode_sem s r = text_holds s r"
  using Optimize_stack
  by (fastforce simp: text_exact_def text_holds_def parsed_sem_def native_Parser_def bytecode_sem_exact
      split: sum.splits)

lemma text_holds_Inr [simp]: "Parse s = Inr n \<Longrightarrow> text_holds s r = denote n r"
  by (simp add: text_holds_def)

text \<open>The bytecode backend over any front-end, on a rule the front-end lowers to the tree \<open>n\<close>: when it
  compiles the rule and what it then returns.\<close>

lemma backend_exact:
  fixes be :: "('e be_error, 'c, 'q) Backend"
  assumes "be = BytecodeBackend fe" "parser_Parse fe s = Inr n" "keys_apart n" "has_operands n"
  shows "(\<exists>p. be_Compile be s = Inr p) = compilable n"
    and "be_Compile be s = Inr p \<Longrightarrow> bytecode_ok n \<Longrightarrow>
      be_Eval be (be_NewContext be r) p = Some (stack_need (Optimize n) \<le> stackMax \<and> denote n r)"
proof -
  have "(\<exists>p. be_Compile be s = Inr p) = (\<exists>q. Compile (Optimize n) = Inr q)"
    using assms(1,2) by (auto simp: BytecodeBackend_def split: sum.splits)
  also have "\<dots> = compilable n"
    using Optimize_operands [OF assms(4,3)] by (simp add: Compile_compilable)
  finally show "(\<exists>p. be_Compile be s = Inr p) = compilable n" .
  assume "be_Compile be s = Inr p" "bytecode_ok n"
  then show "be_Eval be (be_NewContext be r) p = Some (stack_need (Optimize n) \<le> stackMax \<and> denote n r)"
    using bytecode_be.eval_sem [of fe s p r] assms(1-3)
    by (simp add: parsed_ok_def parsed_sem_def bytecode_sem_exact)
qed

section \<open>Properties\<close>

text \<open>C1: End to end, for a rule text of at most 500 million bytes in the project's own language in
  which operands of a connective that print alike are equal: if its operators and number literals
  are valid the bytecode backend compiles it, and whenever it compiles, the backend returns on
  every row, without panicking, the truth value of the parsed tree if the optimized rule fits the
  machine's 256 stack slots, and false if it does not. Lexing, parsing, optimizing, code
  generation and execution compose.\<close>

theorem native_bytecode_correct:
  assumes "Parse s = Inr n" "keys_apart n" "int (length s) \<le> 500000000"
  shows "let be = (BytecodeBackend native_Parser :: (parse_error be_error, 'c, 'q) Backend) in
    (\<exists>p. be_Compile be s = Inr p) = compilable n \<and>
    (\<forall>p r. be_Compile be s = Inr p \<longrightarrow> be_Eval be (be_NewContext be r) p =
      Some (stack_need (Optimize n) \<le> stackMax \<and> denote n r))"
proof -
  have n: "parser_Parse native_Parser s = Inr n" using assms(1) by (simp add: native_Parser_def)
  have ok: "bytecode_ok n" using native_ok [of s] assms(3) n by (simp add: parsed_ok_def)
  note exact = backend_exact [OF refl n assms(2) wf_has_operands [OF lexed_node_wf [OF Parse_lexed [OF assms(1)]]],
      where 'c = 'c and 'q = 'q]
  show ?thesis using exact(1) exact(2) [OF _ ok] by (simp add: Let_def)
qed

theorem native_bytecode_correct_witness:
  "let be = (BytecodeBackend native_Parser :: (parse_error be_error, unit, unit) Backend) in
    \<exists>p. be_Compile be ''vip IS NOT NULL AND age > 18'' = Inr p \<and> (\<forall>r. be_Eval be (be_NewContext be r) p
      = Some (denote (Logic ''AND'' [IsNull ''vip'' True, Compare ''age'' ''>'' (NumValue ''18'')]) r))"
proof -
  let ?s = "''vip IS NOT NULL AND age > 18''"
  let ?n = "Logic ''AND'' [IsNull ''vip'' True, Compare ''age'' ''>'' (NumValue ''18'')]"
  have "Parse ?s = Inr ?n" "keys_apart ?n" "compilable ?n" "stack_need (Optimize ?n) \<le> stackMax"
    by code_simp+
  moreover have "int (length ?s) \<le> 500000000" by simp
  ultimately show ?thesis
    using native_bytecode_correct [of ?s ?n, where 'c = unit and 'q = unit] by (auto simp: Let_def)
qed

text \<open>The two runtimes of the project give the same answer for a rule and a row: executing the
  bytecode plan and walking the tree return the same truth value and no error, on rules with
  plain strings within the stack bound and rows that both read alike (\<open>same_reading\<close>).\<close>

theorem runtimes_agree:
  assumes "lexed_node n" "plain_node n" "stack_need n \<le> stackMax" "bytecode_ok n"
    and "compilable n" "same_reading n r"
    and "rt_Compile (bytecode_Runtime :: ('e, 'q) Runtime) (Some n) = Inr p"
    and "rt_Compile (ast_Runtime :: ('e, 'q) Runtime) (Some n) = Inr q"
  shows "rt_Execute (bytecode_Runtime :: ('e, 'q) Runtime) p r = rt_Execute ast_Runtime q r \<and>
    rt_Execute (ast_Runtime :: ('e, 'q) Runtime) q r = Some (Inr (denote n r))"
  using bytecode_rt.execute_sem [OF assms(7,4)] ast_rt.execute_sem [OF assms(8)]
    bytecode_sem_denote [of n r] ast_holds_denote [OF assms(5,6)] assms(1-3)
  by (simp add: sql_safe_def)

theorem runtimes_agree_witness:
  "\<exists>(p :: unit Plan) (q :: unit Plan). rt_Execute bytecode_Runtime p [''a'' \<mapsto> AString ''x''] =
     (rt_Execute ast_Runtime q [''a'' \<mapsto> AString ''x''] :: (unit rt_error + bool) option)"
proof -
  let ?n = "Logic ''OR'' [Compare ''a'' ''='' (StrValue ''x''), IsNull ''b'' False]"
  have "compilable ?n" by code_simp
  then have "\<exists>q. Compile (Optimize ?n) = Inr q"
    using Optimize_compilable Compile_compilable by blast
  then obtain p where p: "rt_Compile bytecode_Runtime (Some ?n) = (Inr p :: unit rt_error + unit Plan)"
    by (auto simp: bytecode_Runtime_def bytecode_Compile_def)
  have q: "rt_Compile ast_Runtime (Some ?n) = (Inr (PlanNode ?n) :: unit rt_error + unit Plan)"
    by (simp add: ast_Runtime_def ast_Compile_def)
  have "lexed_node ?n" "plain_node ?n" "stack_need ?n \<le> stackMax"
    "same_reading ?n [''a'' \<mapsto> AString ''x'']" by code_simp+
  moreover have "bytecode_ok ?n" by (simp add: bytecode_ok_def)
  ultimately show ?thesis
    using runtimes_agree [OF _ _ _ _ \<open>compilable ?n\<close> _ p q, of "[''a'' \<mapsto> AString ''x'']"] by blast
qed

text \<open>The fields the CEL runtime declares are exactly the fields of the rule, and the bytecode
  result depends on no other field: rows that agree on them give the same answer.\<close>

theorem collectFields_exact:
  "collectFields n {} = node_fields n \<and>
   ((\<forall>f \<in> collectFields n {}. r f = s f) \<longrightarrow> denote n r = denote n s)"
  using collectFields_eq [of n "{}"] denote_frame [of n r s] by auto

theorem collectFields_exact_witness:
  "denote (IsNull ''a'' False) [''a'' \<mapsto> AInt 1, ''b'' \<mapsto> ANil] = denote (IsNull ''a'' False) [''a'' \<mapsto> AInt 1]"
proof -
  have "\<forall>f \<in> collectFields (IsNull ''a'' False) {}. [''a'' \<mapsto> AInt 1, ''b'' \<mapsto> ANil] f = [''a'' \<mapsto> AInt 1] f"
    by simp
  with collectFields_exact [of "IsNull ''a'' False"] show ?thesis by blast
qed

text \<open>A plan of another runtime is refused with an error and never evaluated, by each of the
  five runtimes, and a backend turns such an error into \<open>false\<close>.\<close>

theorem invalid_plan_refused:
  "bytecode_Execute (PlanNode n) r = Some (Inl InvalidPlan) \<and>
   ast_Execute (PlanProgram p) r = Some (Inl InvalidPlan) \<and>
   cel_Execute clib (PlanNode n) r = Inl InvalidPlan \<and>
   expr_rt_Execute elib (PlanProgram p) r = Inl InvalidPlan \<and>
   ql_rt_Execute qlib (PlanProgram p) r = Inl InvalidPlan \<and>
   runtimeBackend_Eval bytecode_Runtime (CtxRow r) (PlanNode n) = Some False \<and>
   BytecodeBackend_Eval (CtxRow r) (PlanNode n) = Some False"
  by (simp add: bytecode_Execute_def ast_Execute_def cel_Execute_def expr_rt_Execute_def
      ql_rt_Execute_def runtimeBackend_Eval_def bytecode_Runtime_def BytecodeBackend_Eval_def)

end
