(* ===== verification/Rule_Model.thy ===== *)
theory Rule_Model
  imports Go_Value Go_Prelude
begin

text \<open>
  The records of package \<^verbatim>\<open>model\<close>: rules, compiled rules, users and match results
  (\<^verbatim>\<open>pkg/model/rule.go\<close>, \<^verbatim>\<open>user.go\<close>, \<^verbatim>\<open>result.go\<close>). The fields \<open>int\<close> and \<open>int64\<close> are integers;
  where the source adds to them the wrap-around is written out. The custom JSON methods start
  from what \<open>encoding/json\<close> decoded: a struct with absent keys at their zero value, or a map of
  dynamic values.
\<close>

section \<open>Rules\<close>

record Rule =
  rName :: string
  rExpr :: string
  rID :: int
  rPriority :: int
  rVersion :: int
  rEnabled :: bool

text \<open>The anonymous struct that \<open>UnmarshalJSON\<close> decodes into.\<close>

record raw_rule =
  raw_Enabled :: "bool option"
  raw_Name :: string
  raw_Rule :: string
  raw_Expr :: string
  raw_ID :: int
  raw_Priority :: int
  raw_Version :: int

definition Rule_UnmarshalJSON :: "'e + raw_rule \<Rightarrow> 'e + Rule" where
  "Rule_UnmarshalJSON decoded =
    bind_res decoded (\<lambda>raw.
      Inr \<lparr>rName = raw_Name raw,
           rExpr = (if raw_Rule raw \<noteq> '''' then raw_Rule raw else raw_Expr raw),
           rID = raw_ID raw, rPriority = raw_Priority raw, rVersion = raw_Version raw,
           rEnabled = (case raw_Enabled raw of None \<Rightarrow> True | Some b \<Rightarrow> b)\<rparr>)"

text \<open>\<open>MarshalJSON\<close> writes the struct with the key \<open>expr\<close>; decoding it leaves \<open>rule\<close> empty.\<close>

definition Rule_MarshalJSON :: "Rule \<Rightarrow> raw_rule" where
  "Rule_MarshalJSON r =
    \<lparr>raw_Enabled = Some (rEnabled r), raw_Name = rName r, raw_Rule = '''', raw_Expr = rExpr r,
     raw_ID = rID r, raw_Priority = rPriority r, raw_Version = rVersion r\<rparr>"

record 'ast RuleProgram =
  AST :: 'ast
  pName :: string
  pSource :: string
  pID :: int
  pPriority :: int
  pVersion :: int

section \<open>Users and results\<close>

record User =
  uFields :: row
  UID :: int

definition NewUser :: "int \<Rightarrow> row \<Rightarrow> User" where
  "NewUser uid fs = \<lparr>uFields = fs, UID = uid\<rparr>"

definition User_Get :: "User \<Rightarrow> string \<Rightarrow> any option" where
  "User_Get u key = uFields u key"

text \<open>
  Go's conversion of a float64 to int64 truncates towards zero; outside the range of int64 the
  language leaves the result to the implementation, the parameter \<open>oor\<close>.
\<close>

definition trunc64 :: "(float64 \<Rightarrow> int) \<Rightarrow> float64 \<Rightarrow> int" where
  "trunc64 oor x =
    (case x of
       Fin s m e \<Rightarrow>
         (let a = (if e \<ge> 0 then m * 2 ^ nat e else m div 2 ^ nat (- e));
              v = (if s then - a else a)
          in if in_int64 v then v else oor x)
     | _ \<Rightarrow> oor x)"

text \<open>\<open>json.Number.Int64\<close>, that is \<open>strconv.ParseInt(s, 10, 64)\<close>: an optional sign and decimal digits.\<close>

definition digits_val :: "string \<Rightarrow> int" where
  "digits_val ds = foldl (\<lambda>n c. 10 * n + (of_char c - 48)) 0 ds"

definition ParseInt :: "string \<Rightarrow> int option" where
  "ParseInt s =
    (let (neg, ds) = (case s of
           CHR ''-'' # t \<Rightarrow> (True, t) | CHR ''+'' # t \<Rightarrow> (False, t) | _ \<Rightarrow> (False, s))
     in if ds = [] \<or> \<not> list_all is_dec ds then None
        else let v = (if neg then - digits_val ds else digits_val ds)
             in if in_int64 v then Some v else None)"

definition User_UnmarshalJSON :: "(float64 \<Rightarrow> int) \<Rightarrow> User \<Rightarrow> 'e + row \<Rightarrow> 'e + User" where
  "User_UnmarshalJSON oor u decoded =
    bind_res decoded (\<lambda>m.
      let u1 = u\<lparr>uFields := m\<rparr> in
      Inr (case row_get m ''uid'' of
         AFloat64 v \<Rightarrow> u1\<lparr>UID := trunc64 oor v\<rparr>
       | AInt64 v \<Rightarrow> u1\<lparr>UID := sint v\<rparr>
       | AInt v \<Rightarrow> u1\<lparr>UID := sint v\<rparr>
       | AJsonNumber v \<Rightarrow> (case ParseInt v of Some n \<Rightarrow> u1\<lparr>UID := n\<rparr> | None \<Rightarrow> u1)
       | _ \<Rightarrow> u1))"

record UserResult =
  RuleIDs :: "int list"
  res_UID :: int

definition HitCount :: "UserResult \<Rightarrow> nat" where
  "HitCount r = length (RuleIDs r)"

section \<open>Properties\<close>

text \<open>A rule written by \<open>MarshalJSON\<close> is read back by \<open>UnmarshalJSON\<close> as the same rule, disabled
  rules included, although the two use different keys for the expression; and a rule whose
  \<open>enabled\<close> key is absent is read as enabled.\<close>

theorem Rule_json_roundtrip:
  "Rule_UnmarshalJSON (Inr (Rule_MarshalJSON r)) = Inr r \<and>
   (case Rule_UnmarshalJSON (Inr ((Rule_MarshalJSON r)\<lparr>raw_Enabled := None\<rparr>)) of
      Inr r' \<Rightarrow> r' = r\<lparr>rEnabled := True\<rparr> | Inl _ \<Rightarrow> False)"
  by (cases r) (simp add: Rule_UnmarshalJSON_def Rule_MarshalJSON_def)

end
