(* ===== verification/Rule_Cache.thy ===== *)
theory Rule_Cache
  imports Rule_Model "HOL-Library.AList"
begin

text \<open>
  The store of compiled rules, \<^verbatim>\<open>pkg/engine/cache.go\<close>. The \<open>sync.Map\<close> is an association list
  from rule id to program with distinct keys, in the order in which \<open>Range\<close> visits it;
  \<open>Rebuild_order_irrelevant\<close> shows that this order cannot be seen, since \<open>Rebuild\<close> sorts by a
  key on which no two programs agree. The snapshot is the slice the matching loop reads.

  The operations here run without interference. They hold no lock while they change the map, so
  that concurrent ones interleave; \<open>Engine_Concurrent\<close> models them call by call, with every visit
  of \<open>Range\<close> a step of its own.

  The locale \<open>rule_store\<close> is what the engine relies on: a lookup after each update, and a listing
  that holds exactly the stored programs in the order of their keys.
\<close>

section \<open>The order of the snapshot\<close>

text \<open>Descending priority, then ascending id.\<close>

datatype rule_key = RuleKey (key_prio: int) (key_id: int)

instantiation rule_key :: linorder
begin

definition less_rule_key :: "rule_key \<Rightarrow> rule_key \<Rightarrow> bool" where
  "less_rule_key a b \<longleftrightarrow>
    (if key_prio a \<noteq> key_prio b then key_prio a > key_prio b else key_id a < key_id b)"

definition less_eq_rule_key :: "rule_key \<Rightarrow> rule_key \<Rightarrow> bool" where
  "less_eq_rule_key a b \<longleftrightarrow> a < b \<or> a = (b :: rule_key)"

instance
  by standard
    (auto simp: less_rule_key_def less_eq_rule_key_def split: if_splits intro: rule_key.expand)

end

definition prog_key :: "'ast RuleProgram \<Rightarrow> rule_key" where
  "prog_key p = RuleKey (pPriority p) (pID p)"

section \<open>The cache\<close>

record 'ast RuleCache =
  cmap :: "(int \<times> 'ast RuleProgram) list"
  snapshot :: "'ast RuleProgram list"

definition NewRuleCache :: "'ast RuleCache" where
  "NewRuleCache = \<lparr>cmap = [], snapshot = []\<rparr>"

definition Put :: "'ast RuleCache \<Rightarrow> 'ast RuleProgram \<Rightarrow> 'ast RuleCache" where
  "Put c p = c\<lparr>cmap := AList.update (pID p) p (cmap c)\<rparr>"

definition Rebuild :: "'ast RuleCache \<Rightarrow> 'ast RuleCache" where
  "Rebuild c = c\<lparr>snapshot := sort_key prog_key (map snd (cmap c))\<rparr>"

definition PutAll :: "'ast RuleCache \<Rightarrow> 'ast RuleProgram list \<Rightarrow> 'ast RuleCache" where
  "PutAll c progs = Rebuild (foldl Put c progs)"

definition ReplaceAll :: "'ast RuleCache \<Rightarrow> 'ast RuleProgram list \<Rightarrow> 'ast RuleCache" where
  "ReplaceAll c progs = PutAll (c\<lparr>cmap := []\<rparr>) progs"

definition cache_Delete :: "'ast RuleCache \<Rightarrow> int \<Rightarrow> 'ast RuleCache" where
  "cache_Delete c i = c\<lparr>cmap := AList.delete i (cmap c)\<rparr>"

definition cache_Get :: "'ast RuleCache \<Rightarrow> int \<Rightarrow> 'ast RuleProgram option" where
  "cache_Get c i = map_of (cmap c) i"

definition Snapshot :: "'ast RuleCache \<Rightarrow> 'ast RuleProgram list" where
  "Snapshot c = snapshot c"

definition cache_Len :: "'ast RuleCache \<Rightarrow> nat" where
  "cache_Len c = length (snapshot c)"

section \<open>Invariants\<close>

text \<open>Every program is stored under its own id, once.\<close>

definition cache_wf :: "'ast RuleCache \<Rightarrow> bool" where
  "cache_wf c \<longleftrightarrow> distinct (map fst (cmap c)) \<and> list_all (\<lambda>(i, p). pID p = i) (cmap c)"

text \<open>The snapshot is up to date, which \<open>Put\<close> and \<open>Delete\<close> leave to a later \<open>Rebuild\<close>.\<close>

definition cache_fresh :: "'ast RuleCache \<Rightarrow> bool" where
  "cache_fresh c \<longleftrightarrow> cache_wf c \<and> snapshot c = sort_key prog_key (map snd (cmap c))"

lemma update_wf:
  "list_all (\<lambda>(i, p). pID p = i) xs \<Longrightarrow>
    list_all (\<lambda>(i, p). pID p = i) (AList.update (pID p) p xs)"
  by (induction xs) auto

lemma Put_wf: "cache_wf c \<Longrightarrow> cache_wf (Put c p)"
  by (simp add: cache_wf_def Put_def distinct_update update_wf)

lemma delete_wf:
  "list_all (\<lambda>(i, p). pID p = i) xs \<Longrightarrow> list_all (\<lambda>(i, p). pID p = i) (AList.delete i xs)"
  by (induction xs) auto

lemma Delete_wf: "cache_wf c \<Longrightarrow> cache_wf (cache_Delete c i)"
  by (simp add: cache_wf_def cache_Delete_def distinct_delete delete_wf)

lemma foldl_Put_wf: "cache_wf c \<Longrightarrow> cache_wf (foldl Put c ps)"
  by (induction ps arbitrary: c) (simp_all add: Put_wf)

lemma Rebuild_fresh: "cache_wf c \<Longrightarrow> cache_fresh (Rebuild c)"
  by (simp add: cache_fresh_def cache_wf_def Rebuild_def)

lemma NewRuleCache_fresh [simp]: "cache_fresh NewRuleCache"
  by (simp add: cache_fresh_def cache_wf_def NewRuleCache_def)

lemma cache_fresh_wf: "cache_fresh c \<Longrightarrow> cache_wf c"
  by (simp add: cache_fresh_def)

lemma PutAll_fresh: "cache_wf c \<Longrightarrow> cache_fresh (PutAll c ps)"
  by (simp add: PutAll_def Rebuild_fresh foldl_Put_wf)

lemma ReplaceAll_fresh: "cache_fresh (ReplaceAll c ps)"
  by (simp add: ReplaceAll_def PutAll_fresh cache_wf_def)

section \<open>Lookups\<close>

lemma Get_Put: "cache_Get (Put c p) i = (if i = pID p then Some p else cache_Get c i)"
  by (simp add: cache_Get_def Put_def update_conv')

lemma Get_Delete: "cache_Get (cache_Delete c j) i = (if i = j then None else cache_Get c i)"
  by (simp add: cache_Get_def cache_Delete_def delete_conv')

lemma Get_Rebuild [simp]: "cache_Get (Rebuild c) = cache_Get c"
  by (simp add: cache_Get_def Rebuild_def fun_eq_iff)

definition last_prog :: "'ast RuleProgram list \<Rightarrow> int \<Rightarrow> 'ast RuleProgram option" where
  "last_prog ps i = map_of (rev (map (\<lambda>p. (pID p, p)) ps)) i"

lemma last_prog_simps:
  "last_prog [] i = None"
  "last_prog (ps @ [p]) i = (if i = pID p then Some p else last_prog ps i)"
  by (simp_all add: last_prog_def)

lemma Get_foldl_Put:
  "cache_Get (foldl Put c ps) i = (case last_prog ps i of Some p \<Rightarrow> Some p | None \<Rightarrow> cache_Get c i)"
  by (induction ps rule: rev_induct) (simp_all add: last_prog_simps Get_Put)

lemma Get_PutAll:
  "cache_Get (PutAll c ps) i = (case last_prog ps i of Some p \<Rightarrow> Some p | None \<Rightarrow> cache_Get c i)"
  by (simp add: PutAll_def Get_foldl_Put)

lemma Get_ReplaceAll: "cache_Get (ReplaceAll c ps) i = last_prog ps i"
  by (simp add: ReplaceAll_def Get_PutAll) (simp add: cache_Get_def split: option.split)

section \<open>The snapshot does not depend on the order of Range\<close>

definition stored :: "'ast RuleCache \<Rightarrow> 'ast RuleProgram set" where
  "stored c = {p. cache_Get c (pID p) = Some p}"

lemma stored_eq: "cache_wf c \<Longrightarrow> stored c = set (map snd (cmap c))"
  by (force simp: stored_def cache_Get_def cache_wf_def list_all_iff dest: map_of_SomeD
      intro: map_of_is_SomeI)

lemma stored_pID_inj: "inj_on pID (stored c)"
proof (rule inj_onI)
  fix p q
  assume pq: "p \<in> stored c" "q \<in> stored c" "pID p = pID q"
  have "cache_Get c (pID q) = Some p" using pq(1,3) by (simp add: stored_def)
  moreover have "cache_Get c (pID q) = Some q" using pq(2) by (simp add: stored_def)
  ultimately show "p = q" by simp
qed

lemma prog_key_inj: "inj_on prog_key (stored c)"
proof (rule inj_onI)
  fix p q
  assume pq: "p \<in> stored c" "q \<in> stored c" "prog_key p = prog_key q"
  then have "pID p = pID q" by (simp add: prog_key_def)
  with pq(1,2) stored_pID_inj show "p = q" by (auto dest: inj_onD)
qed

interpretation rebuild_order: sorted_range prog_key "stored c" for c
  by unfold_locales (rule prog_key_inj)

lemma values_distinct: "cache_wf c \<Longrightarrow> distinct (map snd (cmap c))"
proof -
  assume wf: "cache_wf c"
  then have "map fst (cmap c) = map pID (map snd (cmap c))"
    by (auto simp: cache_wf_def list_all_iff)
  with wf show ?thesis
    unfolding cache_wf_def by (metis distinct_map)
qed

lemma snapshot_set: "cache_fresh c \<Longrightarrow> set (Snapshot c) = stored c"
  by (simp add: cache_fresh_def Snapshot_def stored_eq)

lemma snapshot_sorted:
  "cache_fresh c \<Longrightarrow> sorted_wrt (\<lambda>p q. prog_key p < prog_key q) (Snapshot c)"
  using rebuild_order.strictly_sorted [of "map snd (cmap c)" c] values_distinct [of c]
  by (simp add: cache_fresh_def Snapshot_def stored_eq)

lemma snapshot_length: "cache_fresh c \<Longrightarrow> cache_Len c = card (stored c)"
  using distinct_card [of "Snapshot c"] snapshot_set [of c] values_distinct [of c]
  by (simp add: cache_Len_def Snapshot_def cache_fresh_def)

section \<open>What the engine relies on\<close>

locale rule_store =
  fixes fresh :: "'c \<Rightarrow> bool"
    and get :: "'c \<Rightarrow> int \<Rightarrow> 'p option"
    and snap :: "'c \<Rightarrow> 'p list"
    and ident :: "'p \<Rightarrow> int"
    and key :: "'p \<Rightarrow> 'k::linorder"
  assumes snap_set: "fresh c \<Longrightarrow> set (snap c) = {p. get c (ident p) = Some p}"
    and snap_sorted: "fresh c \<Longrightarrow> sorted_wrt (\<lambda>p q. key p < key q) (snap c)"
begin

lemma snap_by_get:
  assumes "fresh c" "fresh d" "\<And>i. get c i = get d i"
  shows "snap c = snap d"
  using assms snap_set snap_sorted by (intro strict_key_unique [where key = key]) auto

lemma snap_delete:
  assumes "fresh c" "fresh d" "\<And>j. get d j = (if j = i then None else get c j)"
  shows "snap d = filter (\<lambda>p. ident p \<noteq> i) (snap c)"
proof (rule strict_key_unique [where key = key])
  show "sorted_wrt (\<lambda>p q. key p < key q) (filter (\<lambda>p. ident p \<noteq> i) (snap c))"
    using snap_sorted [OF assms(1)] by (rule sorted_wrt_filter)
  show "set (snap d) = set (filter (\<lambda>p. ident p \<noteq> i) (snap c))"
    using snap_set [OF assms(1)] snap_set [OF assms(2)] assms(3) by auto
qed (rule snap_sorted [OF assms(2)])

lemma snap_put:
  assumes "fresh c" "fresh d" "\<And>j. get d j = (if j = ident p then Some p else get c j)"
  shows "set (snap d) = insert p {q \<in> set (snap c). ident q \<noteq> ident p}"
  using snap_set [OF assms(1)] snap_set [OF assms(2)] assms(3) by auto

end

interpretation store: rule_store cache_fresh cache_Get Snapshot pID prog_key
  by unfold_locales (simp_all add: snapshot_set stored_def snapshot_sorted)

section \<open>Properties\<close>

text \<open>The snapshot does not depend on the order in which \<open>Range\<close> visits the map: two caches
  that hold the same entries in different orders have the same snapshot after \<open>Rebuild\<close>, and it
  is strictly sorted by descending priority and ascending id.\<close>

theorem Rebuild_order_irrelevant:
  assumes "cache_wf c" "mset (cmap d) = mset (cmap c)"
  shows "Snapshot (Rebuild c) = Snapshot (Rebuild d) \<and>
    sorted_wrt (\<lambda>p q. pPriority p > pPriority q \<or> pPriority p = pPriority q \<and> pID p < pID q)
      (Snapshot (Rebuild c))"
proof -
  have sets: "set (cmap d) = set (cmap c)" using assms(2) by (metis set_mset_mset)
  have "mset (map fst (cmap d)) = mset (map fst (cmap c))" using assms(2) by simp
  from mset_eq_imp_distinct_iff [OF this] have wf: "cache_wf d"
    using assms(1) sets by (simp add: cache_wf_def list_all_iff)
  have "map_of (cmap d) = map_of (cmap c)"
    using assms(1) wf sets by (simp add: cache_wf_def map_of_inject_set)
  then have "Snapshot (Rebuild c) = Snapshot (Rebuild d)"
    using assms(1) wf by (intro store.snap_by_get Rebuild_fresh) (simp_all add: cache_Get_def)
  moreover have "sorted_wrt (\<lambda>p q. prog_key p < prog_key q) (Snapshot (Rebuild c))"
    using assms(1) by (intro snapshot_sorted Rebuild_fresh)
  ultimately show ?thesis
    by (auto simp: prog_key_def less_rule_key_def elim!: sorted_wrt_mono_rel [rotated] split: if_splits)
qed

theorem Rebuild_order_irrelevant_witness:
  "let p = \<lparr>AST = (), pName = ''a'', pSource = '''', pID = 1, pPriority = 3, pVersion = 1\<rparr>;
       q = \<lparr>AST = (), pName = ''b'', pSource = '''', pID = 2, pPriority = 5, pVersion = 1\<rparr>
   in Snapshot (Rebuild \<lparr>cmap = [(1, p), (2, q)], snapshot = []\<rparr>) =
      Snapshot (Rebuild \<lparr>cmap = [(2, q), (1, p)], snapshot = []\<rparr>)"
proof -
  let ?p = "\<lparr>AST = (), pName = ''a'', pSource = '''', pID = 1, pPriority = 3, pVersion = 1\<rparr>"
  let ?q = "\<lparr>AST = (), pName = ''b'', pSource = '''', pID = 2, pPriority = 5, pVersion = 1\<rparr>"
  have "cache_wf \<lparr>cmap = [(1, ?p), (2, ?q)], snapshot = []\<rparr>" by (simp add: cache_wf_def)
  from Rebuild_order_irrelevant [OF this, of "\<lparr>cmap = [(2, ?q), (1, ?p)], snapshot = []\<rparr>"]
  show ?thesis by (simp add: Let_def)
qed

end
