(* ===== verification/Engine.thy ===== *)
theory Engine
  imports Runtimes Rule_Cache
begin

text \<open>
  The engine, \<^verbatim>\<open>pkg/engine/engine.go\<close>: rules are compiled once by the backend and kept in the rule
  cache; a user is matched against the snapshot of the cache. A rule file arrives here as the
  result of reading and decoding it (\<^verbatim>\<open>pkg/engine/loader.go\<close>): the rules, or an error.

  \<open>engine_step\<close> is the transition relation of the operations that change an engine, each taken as
  a whole; \<open>Engine_Concurrent\<close> splits them into the steps that can interleave. Every
  reachable engine satisfies \<open>engine_wf\<close>: the snapshot is up to date and every stored program is
  what the backend compiles from its source. The locale \<open>matching\<close> adds to a lawful backend what
  matching then returns, and is interpreted for the bytecode backends.
\<close>

section \<open>Operations\<close>

record ('e, 'c, 'q) Engine =
  backend :: "('e, 'c, 'q) Backend"
  cache :: "'q Plan RuleCache"

definition NewWithBackend :: "('e, 'c, 'q) Backend \<Rightarrow> ('e, 'c, 'q) Engine" where
  "NewWithBackend b = \<lparr>backend = b, cache = NewRuleCache\<rparr>"

definition RuleCount :: "('e, 'c, 'q) Engine \<Rightarrow> nat" where
  "RuleCount e = cache_Len (cache e)"

definition program_of :: "Rule \<Rightarrow> 'q Plan \<Rightarrow> 'q Plan RuleProgram" where
  "program_of r ast =
    \<lparr>AST = ast, pName = rName r, pSource = rExpr r, pID = rID r, pPriority = rPriority r,
     pVersion = rVersion r\<rparr>"

fun engine_compile ::
  "('e, 'c, 'q) Backend \<Rightarrow> Rule list \<Rightarrow> 'q Plan RuleProgram list \<times> nat" where
  "engine_compile b [] = ([], 0)"
| "engine_compile b (r # rs) =
    (let (progs, failed) = engine_compile b rs in
     if \<not> rEnabled r then (progs, failed)
     else case be_Compile b (rExpr r) of
       Inl _ \<Rightarrow> (progs, Suc failed)
     | Inr ast \<Rightarrow> (program_of r ast # progs, failed))"

definition Engine_LoadRules ::
  "('e, 'c, 'q) Engine \<Rightarrow> Rule list \<Rightarrow> (nat \<times> nat) \<times> ('e, 'c, 'q) Engine" where
  "Engine_LoadRules e rules =
    (let (progs, failed) = engine_compile (backend e) rules in
     ((length progs, failed), e\<lparr>cache := PutAll (cache e) progs\<rparr>))"

definition ReplaceRules ::
  "('e, 'c, 'q) Engine \<Rightarrow> Rule list \<Rightarrow> (nat \<times> nat) \<times> ('e, 'c, 'q) Engine" where
  "ReplaceRules e rules =
    (let (progs, failed) = engine_compile (backend e) rules in
     ((length progs, failed), e\<lparr>cache := ReplaceAll (cache e) progs\<rparr>))"

datatype engine_error = RuleFailedToCompile int

definition AddRule :: "('e, 'c, 'q) Engine \<Rightarrow> Rule \<Rightarrow> engine_error + ('e, 'c, 'q) Engine" where
  "AddRule e r =
    (let (progs, failed) = engine_compile (backend e) [r] in
     if failed > 0 \<or> progs = [] then Inl (RuleFailedToCompile (rID r))
     else Inr (e\<lparr>cache := Rebuild (Put (cache e) (hd progs))\<rparr>))"

definition RemoveRule :: "('e, 'c, 'q) Engine \<Rightarrow> int \<Rightarrow> ('e, 'c, 'q) Engine" where
  "RemoveRule e i = e\<lparr>cache := Rebuild (cache_Delete (cache e) i)\<rparr>"

text \<open>The two operations on files; \<open>file\<close> is what \<open>LoadRules(path)\<close> of the loader returned.\<close>

definition LoadRulesFromFile ::
  "('e, 'c, 'q) Engine \<Rightarrow> 'f + Rule list \<Rightarrow> ('f + nat \<times> nat) \<times> ('e, 'c, 'q) Engine" where
  "LoadRulesFromFile e file =
    (case file of
       Inl err \<Rightarrow> (Inl err, e)
     | Inr rules \<Rightarrow> (let (counts, e') = Engine_LoadRules e rules in (Inr counts, e')))"

definition ReloadFromFile ::
  "('e, 'c, 'q) Engine \<Rightarrow> 'f + Rule list \<Rightarrow> ('f + nat \<times> nat) \<times> ('e, 'c, 'q) Engine" where
  "ReloadFromFile e file =
    (case file of
       Inl err \<Rightarrow> (Inl err, e)
     | Inr rules \<Rightarrow> (let (counts, e') = ReplaceRules e rules in (Inr counts, e')))"

text \<open>\<open>matchInto\<close>; \<open>None\<close> is a panic of the backend. The scratch buffer is emptied first.\<close>

fun match_loop ::
  "('e, 'c, 'q) Backend \<Rightarrow> 'c Ctx \<Rightarrow> 'q Plan RuleProgram list \<Rightarrow> int list \<Rightarrow> int list option" where
  "match_loop b ctx [] dst = Some dst"
| "match_loop b ctx (p # ps) dst =
    (case be_Eval b ctx (AST p) of
       None \<Rightarrow> None
     | Some hit \<Rightarrow> match_loop b ctx ps (if hit then dst @ [pID p] else dst))"

definition matchInto ::
  "('e, 'c, 'q) Engine \<Rightarrow> User \<Rightarrow> 'q Plan RuleProgram list \<Rightarrow> int list \<Rightarrow> int list option" where
  "matchInto e u rules dst = match_loop (backend e) (be_NewContext (backend e) (uFields u)) rules []"

definition Match :: "('e, 'c, 'q) Engine \<Rightarrow> User \<Rightarrow> int list option" where
  "Match e u = matchInto e u (Snapshot (cache e)) []"

section \<open>Compiling a list of rules\<close>

definition compiles :: "('e, 'c, 'q) Backend \<Rightarrow> Rule \<Rightarrow> bool" where
  "compiles b r \<longleftrightarrow> rEnabled r \<and> (case be_Compile b (rExpr r) of Inr _ \<Rightarrow> True | Inl _ \<Rightarrow> False)"

lemma compiles_simps [simp]:
  "be_Compile b (rExpr r) = Inl err \<Longrightarrow> \<not> compiles b r"
  "be_Compile b (rExpr r) = Inr ast \<Longrightarrow> compiles b r = rEnabled r"
  "\<not> rEnabled r \<Longrightarrow> \<not> compiles b r"
  by (simp_all add: compiles_def)

lemma engine_compile_set:
  "p \<in> set (fst (engine_compile b rules)) \<Longrightarrow>
    \<exists>r \<in> set rules. rEnabled r \<and> be_Compile b (rExpr r) = Inr (AST p) \<and> p = program_of r (AST p)"
  by (induction rules) (auto simp: Let_def program_of_def split: prod.splits if_splits sum.splits)

lemma engine_compile_counts:
  "length (fst (engine_compile b rules)) = length (filter (compiles b) rules) \<and>
   snd (engine_compile b rules) = length (filter (\<lambda>r. rEnabled r \<and> \<not> compiles b r) rules)"
  by (induction rules) (auto simp: Let_def split: prod.split sum.split)

lemma engine_compile_ids:
  "map pID (fst (engine_compile b rules)) = map rID (filter (compiles b) rules)"
  by (induction rules) (auto simp: Let_def program_of_def split: prod.split sum.split)

lemma AddRule_cases:
  obtains (err) "AddRule e r = Inl (RuleFailedToCompile (rID r))" "\<not> compiles (backend e) r"
  | (ok) ast where "be_Compile (backend e) (rExpr r) = Inr ast" "compiles (backend e) r"
      "AddRule e r = Inr (e\<lparr>cache := Rebuild (Put (cache e) (program_of r ast))\<rparr>)"
  by (cases "rEnabled r"; cases "be_Compile (backend e) (rExpr r)")
    (auto simp: AddRule_def compiles_def)

section \<open>Reachable engines\<close>

definition prog_ok :: "('e, 'c, 'q) Backend \<Rightarrow> 'q Plan RuleProgram \<Rightarrow> bool" where
  "prog_ok b p \<longleftrightarrow> be_Compile b (pSource p) = Inr (AST p)"

definition engine_wf :: "('e, 'c, 'q) Engine \<Rightarrow> bool" where
  "engine_wf e \<longleftrightarrow> cache_fresh (cache e) \<and> (\<forall>p \<in> stored (cache e). prog_ok (backend e) p)"

inductive engine_step :: "('e, 'c, 'q) Engine \<Rightarrow> ('e, 'c, 'q) Engine \<Rightarrow> bool" where
  step_load: "Engine_LoadRules e rules = (counts, e') \<Longrightarrow> engine_step e e'"
| step_replace: "ReplaceRules e rules = (counts, e') \<Longrightarrow> engine_step e e'"
| step_add: "AddRule e r = Inr e' \<Longrightarrow> engine_step e e'"
| step_remove: "RemoveRule e i = e' \<Longrightarrow> engine_step e e'"

inductive_cases engine_stepE: "engine_step e e'"

inductive engine_reach :: "('e, 'c, 'q) Backend \<Rightarrow> ('e, 'c, 'q) Engine \<Rightarrow> bool" for b where
  reach_new: "engine_reach b (NewWithBackend b)"
| reach_step: "engine_reach b e \<Longrightarrow> engine_step e e' \<Longrightarrow> engine_reach b e'"

lemma stored_get: "p \<in> stored c \<longleftrightarrow> cache_Get c (pID p) = Some p"
  by (simp add: stored_def)

lemma last_prog_set: "last_prog ps i = Some p \<Longrightarrow> p \<in> set ps \<and> pID p = i"
  by (auto simp: last_prog_def dest!: map_of_SomeD)

lemma compiled_ok: "p \<in> set (fst (engine_compile b rules)) \<Longrightarrow> prog_ok b p"
proof -
  assume "p \<in> set (fst (engine_compile b rules))"
  then obtain r where "be_Compile b (rExpr r) = Inr (AST p)" and p: "p = program_of r (AST p)"
    using engine_compile_set by blast
  moreover have "pSource p = rExpr r" by (subst p) (simp add: program_of_def)
  ultimately show "prog_ok b p" by (simp add: prog_ok_def)
qed

lemma engine_wf_cache:
  assumes "cache_fresh c'"
    and "\<And>p. cache_Get c' (pID p) = Some p \<Longrightarrow> p \<in> stored (cache e) \<or> prog_ok (backend e) p"
    and "engine_wf e"
  shows "engine_wf (e\<lparr>cache := c'\<rparr>)"
proof -
  have "prog_ok (backend e) p" if "p \<in> stored c'" for p
    using assms(2) [of p] assms(3) that by (auto simp: engine_wf_def stored_get)
  with assms(1) show ?thesis by (simp add: engine_wf_def)
qed

lemma engine_step_wf: "engine_step e e' \<Longrightarrow> engine_wf e \<Longrightarrow> engine_wf e' \<and> backend e' = backend e"
proof (induction rule: engine_step.induct)
  case (step_load e rules counts e')
  let ?ps = "fst (engine_compile (backend e) rules)"
  have e': "e' = e\<lparr>cache := PutAll (cache e) ?ps\<rparr>"
    using step_load(1) by (auto simp: Engine_LoadRules_def split_def Let_def)
  show ?case
    unfolding e' using step_load(2)
    by (auto intro!: engine_wf_cache PutAll_fresh simp: Get_PutAll stored_get engine_wf_def cache_fresh_wf
        split: option.splits dest!: last_prog_set compiled_ok)
next
  case (step_replace e rules counts e')
  let ?ps = "fst (engine_compile (backend e) rules)"
  have e': "e' = e\<lparr>cache := ReplaceAll (cache e) ?ps\<rparr>"
    using step_replace(1) by (auto simp: ReplaceRules_def split_def Let_def)
  show ?case
    unfolding e' using step_replace(2)
    by (auto intro!: engine_wf_cache ReplaceAll_fresh simp: Get_ReplaceAll
        dest!: last_prog_set compiled_ok)
next
  case (step_add e r e')
  then show ?case
    by (cases rule: AddRule_cases [of e r])
      (auto intro!: engine_wf_cache Rebuild_fresh Put_wf simp: Get_Put stored_get engine_wf_def
        cache_fresh_wf prog_ok_def program_of_def split: if_splits)
next
  case (step_remove e i e')
  then show ?case
    by (auto intro!: engine_wf_cache Rebuild_fresh Delete_wf simp: RemoveRule_def Get_Delete stored_get
        engine_wf_def cache_fresh_wf split: if_splits)
qed

lemma engine_reach_wf: "engine_reach b e \<Longrightarrow> engine_wf e \<and> backend e = b"
proof (induction rule: engine_reach.induct)
  case reach_new
  then show ?case
    by (simp add: NewWithBackend_def engine_wf_def) (simp add: NewRuleCache_def stored_def cache_Get_def)
next
  case (reach_step e e')
  then show ?case using engine_step_wf by blast
qed

section \<open>Matching with a lawful backend\<close>

lemma match_loop_sem:
  assumes "\<And>p. p \<in> set ps \<Longrightarrow> be_Eval b ctx (AST p) = Some (h p)"
  shows "match_loop b ctx ps dst = Some (dst @ map pID (filter h ps))"
  using assms by (induction ps arbitrary: dst) auto

definition sources_ok :: "(string \<Rightarrow> bool) \<Rightarrow> ('e, 'c, 'q) Engine \<Rightarrow> bool" where
  "sources_ok ok e \<longleftrightarrow> (\<forall>p \<in> stored (cache e). ok (pSource p))"

definition hits :: "(string \<Rightarrow> row \<Rightarrow> bool) \<Rightarrow> 'q Plan RuleProgram list \<Rightarrow> User \<Rightarrow> int list" where
  "hits sem rules u = map pID (filter (\<lambda>p. sem (pSource p) (uFields u)) rules)"

locale matching = rule_backend
begin

lemma match_hits:
  assumes "backend e = be" "\<And>p. p \<in> set rules \<Longrightarrow> prog_ok be p \<and> ok (pSource p)"
  shows "matchInto e u rules dst = Some (hits sem rules u)"
  unfolding matchInto_def hits_def
  using assms match_loop_sem [of rules be "be_NewContext be (uFields u)" "\<lambda>p. sem (pSource p) (uFields u)"]
  by (simp add: prog_ok_def eval_sem)

lemma match_engine:
  assumes "engine_reach be e" "sources_ok ok e"
  shows "Match e u = Some (hits sem (Snapshot (cache e)) u)"
proof -
  have wf: "engine_wf e" "backend e = be" using engine_reach_wf [OF assms(1)] by auto
  then show ?thesis
    unfolding Match_def using assms(2)
    by (intro match_hits) (auto simp: engine_wf_def snapshot_set sources_ok_def)
qed

lemma match_removed:
  assumes "engine_reach be e" "sources_ok ok e" "Match e u = Some ids"
  shows "Match (RemoveRule e i) u = Some (filter (\<lambda>j. j \<noteq> i) ids)"
proof -
  let ?c' = "Rebuild (cache_Delete (cache e) i)"
  have wf: "cache_fresh (cache e)" using engine_reach_wf [OF assms(1)] by (simp add: engine_wf_def)
  then have fresh: "cache_fresh ?c'" by (intro Rebuild_fresh Delete_wf cache_fresh_wf)
  have snap: "Snapshot ?c' = filter (\<lambda>p. pID p \<noteq> i) (Snapshot (cache e))"
    by (rule store.snap_delete [OF wf fresh]) (simp add: Get_Delete)
  have "sources_ok ok (RemoveRule e i)"
    using assms(2) snapshot_set [OF fresh] snapshot_set [OF wf] snap
    by (auto simp: sources_ok_def RemoveRule_def)
  moreover have "engine_reach be (RemoveRule e i)"
    using assms(1) by (rule reach_step) (rule step_remove, rule refl)
  ultimately have "Match (RemoveRule e i) u = Some (hits sem (filter (\<lambda>p. pID p \<noteq> i) (Snapshot (cache e))) u)"
    using match_engine snap by (simp add: RemoveRule_def)
  moreover have "ids = hits sem (Snapshot (cache e)) u"
    using match_engine [OF assms(1,2)] assms(3) by simp
  ultimately show ?thesis by (simp add: hits_def filter_map comp_def conj_commute)
qed

end

interpretation bytecode_matching: matching "BytecodeBackend fe" "parsed_ok fe bytecode_ok"
  "parsed_sem fe bytecode_sem" for fe :: "'e Parser"
  by unfold_locales

interpretation ast_matching: matching "runtimeBackend ps ast_Runtime" "parsed_ok ps (\<lambda>n. True)"
  "parsed_sem ps ast_eval" for ps :: "'e Parser"
  by unfold_locales

section \<open>Properties\<close>

type_synonym native_backend = "(parse_error be_error, unit, unit) Backend"

text \<open>In every engine that operations taken as a whole can produce the snapshot holds exactly the stored
  programs, in strictly descending priority and, within a priority, ascending id; and every
  program is what the backend compiles from its source. The operations never change the backend.\<close>

theorem engine_reachable_invariant:
  assumes "engine_reach b e"
  shows "backend e = b \<and> set (Snapshot (cache e)) = stored (cache e) \<and>
    sorted_wrt (\<lambda>p q. pPriority p > pPriority q \<or> pPriority p = pPriority q \<and> pID p < pID q)
      (Snapshot (cache e)) \<and>
    (\<forall>p \<in> set (Snapshot (cache e)). be_Compile b (pSource p) = Inr (AST p))"
proof -
  have wf: "engine_wf e" "backend e = b" using engine_reach_wf [OF assms] by auto
  then have "cache_fresh (cache e)" by (simp add: engine_wf_def)
  from snapshot_sorted [OF this] snapshot_set [OF this] wf show ?thesis
    by (auto simp: engine_wf_def prog_ok_def prog_key_def less_rule_key_def
        elim!: sorted_wrt_mono_rel [rotated] split: if_splits)
qed

definition demo_rules :: "Rule list" where
  "demo_rules =
    [\<lparr>rName = ''vip'', rExpr = ''level >= 3'', rID = 7, rPriority = 1, rVersion = 1, rEnabled = True\<rparr>,
     \<lparr>rName = ''bad'', rExpr = ''level >='', rID = 8, rPriority = 9, rVersion = 1, rEnabled = True\<rparr>,
     \<lparr>rName = ''any'', rExpr = ''level is not null'', rID = 9, rPriority = 5, rVersion = 1, rEnabled = True\<rparr>]"

definition demo_engine :: "(parse_error be_error, unit, unit) Engine" where
  "demo_engine = snd (Engine_LoadRules (NewWithBackend (BytecodeBackend native_Parser)) demo_rules)"

lemma demo_reach: "engine_reach (BytecodeBackend native_Parser) demo_engine"
  unfolding demo_engine_def
  by (rule reach_step [OF reach_new]) (rule step_load, rule surjective_pairing)

theorem engine_reachable_invariant_witness:
  "set (Snapshot (cache demo_engine)) = stored (cache demo_engine) \<and> length (Snapshot (cache demo_engine)) = 2"
proof -
  have "length (Snapshot (cache demo_engine)) = 2" by code_simp
  with engine_reachable_invariant [OF demo_reach] show ?thesis by blast
qed

text \<open>Matching a user against a reachable engine over the project's rule language never panics
  and returns exactly the ids of the stored rules whose text holds of the user's fields, in the
  order of the snapshot (rule texts of at most 500 million bytes).\<close>

theorem Match_native:
  assumes "engine_reach (BytecodeBackend native_Parser) e"
    and "\<forall>p \<in> set (Snapshot (cache e)). int (length (pSource p)) \<le> 500000000"
  shows "Match e u = Some (map pID (filter
    (\<lambda>p. parsed_sem native_Parser bytecode_sem (pSource p) (uFields u)) (Snapshot (cache e))))"
proof -
  have "cache_fresh (cache e)" using engine_reach_wf [OF assms(1)] by (simp add: engine_wf_def)
  then have "sources_ok (parsed_ok native_Parser bytecode_ok) e"
    using assms(2) native_ok by (auto simp: sources_ok_def snapshot_set)
  from bytecode_matching.match_engine [OF assms(1) this] show ?thesis by (simp add: hits_def)
qed

theorem Match_native_witness:
  "Match demo_engine (NewUser 1 [''level'' \<mapsto> AInt 5]) = Some [9, 7]"
proof -
  have "\<forall>p \<in> set (Snapshot (cache demo_engine)). int (length (pSource p)) \<le> 500000000" by code_simp
  note Match_native [OF demo_reach this, of "NewUser 1 [''level'' \<mapsto> AInt 5]"]
  moreover have "map pID (filter (\<lambda>p. parsed_sem native_Parser bytecode_sem (pSource p)
      (uFields (NewUser 1 [''level'' \<mapsto> AInt 5]))) (Snapshot (cache demo_engine))) = [9, 7]"
    by code_simp
  ultimately show ?thesis by simp
qed

text \<open>Removing a rule removes exactly its id from the result of every later match and nothing
  else, and the order of the remaining ids does not change.\<close>

theorem Match_after_RemoveRule:
  assumes "engine_reach (BytecodeBackend native_Parser) e"
    and "\<forall>p \<in> set (Snapshot (cache e)). int (length (pSource p)) \<le> 500000000"
    and "Match e u = Some ids"
  shows "Match (RemoveRule e i) u = Some (filter (\<lambda>j. j \<noteq> i) ids)"
proof -
  have "cache_fresh (cache e)" using engine_reach_wf [OF assms(1)] by (simp add: engine_wf_def)
  then have "sources_ok (parsed_ok native_Parser bytecode_ok) e"
    using assms(2) native_ok by (auto simp: sources_ok_def snapshot_set)
  then show ?thesis using assms(1,3) by (intro bytecode_matching.match_removed)
qed

theorem Match_after_RemoveRule_witness:
  "Match (RemoveRule demo_engine 9) (NewUser 1 [''level'' \<mapsto> AInt 5]) = Some [7]"
proof -
  have "Match (RemoveRule demo_engine 9) (NewUser 1 [''level'' \<mapsto> AInt 5]) = Some (filter (\<lambda>j. j \<noteq> 9) [9, 7])"
  proof (rule Match_after_RemoveRule [OF demo_reach])
    show "\<forall>p \<in> set (Snapshot (cache demo_engine)). int (length (pSource p)) \<le> 500000000" by code_simp
    show "Match demo_engine (NewUser 1 [''level'' \<mapsto> AInt 5]) = Some [9, 7]" by code_simp
  qed
  then show ?thesis by simp
qed

text \<open>Loading rules merges: afterwards an id has the last of the loaded rules with that id that
  compiled, or what it had before; the two counts are the numbers of enabled rules that compiled
  and that failed to, so that a rule which fails to compile never touches the cache.\<close>

theorem LoadRules_merges:
  "let ((loaded, failed), e') = Engine_LoadRules e rules in
   loaded = length (filter (compiles (backend e)) rules) \<and>
   failed = length (filter (\<lambda>r. rEnabled r \<and> \<not> compiles (backend e) r) rules) \<and>
   (\<forall>i. i \<notin> rID ` {r \<in> set rules. compiles (backend e) r} \<longrightarrow>
     cache_Get (cache e') i = cache_Get (cache e) i) \<and>
   (\<forall>i p. cache_Get (cache e') i = Some p \<longrightarrow> cache_Get (cache e) i = Some p \<or>
     (\<exists>r \<in> set rules. rEnabled r \<and> be_Compile (backend e) (rExpr r) = Inr (AST p) \<and>
        p = program_of r (AST p) \<and> pID p = i))"
proof -
  let ?ps = "fst (engine_compile (backend e) rules)"
  have "last_prog ?ps i = None" if "i \<notin> rID ` {r \<in> set rules. compiles (backend e) r}" for i
  proof (rule ccontr)
    assume "last_prog ?ps i \<noteq> None"
    then obtain p where "p \<in> set ?ps" "pID p = i" using last_prog_set by fastforce
    then have "i \<in> set (map pID ?ps)" by auto
    then show False using that unfolding engine_compile_ids by auto
  qed
  moreover have "\<exists>r \<in> set rules. rEnabled r \<and> be_Compile (backend e) (rExpr r) = Inr (AST p) \<and>
      p = program_of r (AST p) \<and> pID p = i" if "last_prog ?ps i = Some p" for i p
    using last_prog_set [OF that] engine_compile_set [of p "backend e" rules] by auto
  ultimately show ?thesis
    using engine_compile_counts [of "backend e" rules]
    by (auto simp: Engine_LoadRules_def Let_def split_def Get_PutAll split: option.splits)
qed

theorem LoadRules_merges_witness:
  "cache_Get (cache (snd (Engine_LoadRules demo_engine []))) 9 = cache_Get (cache demo_engine) 9"
proof -
  have "9 \<notin> rID ` {r \<in> set []. compiles (backend demo_engine) r}" by simp
  then show ?thesis
    using LoadRules_merges [of demo_engine "[]"] unfolding Let_def split_def by blast
qed

text \<open>A full reload forgets the old rules: two engines with the same backend that replace their
  rules by the same list hold the same programs and match every user alike, whatever they held
  before; a file that cannot be read or decoded leaves the engine unchanged.\<close>

theorem ReplaceRules_forgets:
  assumes "backend e = backend e'"
  shows "Match (snd (ReplaceRules e rules)) u = Match (snd (ReplaceRules e' rules)) u \<and>
    fst (ReplaceRules e rules) = fst (ReplaceRules e' rules) \<and>
    ReloadFromFile e (Inl err) = (Inl err, e)"
proof -
  let ?ps = "fst (engine_compile (backend e) rules)"
  have "Snapshot (ReplaceAll (cache e) ?ps) = Snapshot (ReplaceAll (cache e') ?ps)"
    by (rule store.snap_by_get [OF ReplaceAll_fresh ReplaceAll_fresh]) (simp add: Get_ReplaceAll)
  then show ?thesis
    using assms by (simp add: ReplaceRules_def Let_def split_def Match_def matchInto_def ReloadFromFile_def)
qed

theorem ReplaceRules_forgets_witness:
  "Match (snd (ReplaceRules demo_engine demo_rules)) (NewUser 1 Map.empty) =
   Match (snd (ReplaceRules (NewWithBackend (backend demo_engine)) demo_rules)) (NewUser 1 Map.empty)"
proof -
  have "backend demo_engine = backend (NewWithBackend (backend demo_engine))"
    by (simp add: NewWithBackend_def)
  from ReplaceRules_forgets [OF this, of demo_rules "NewUser 1 Map.empty" "()"] show ?thesis by blast
qed

end
