(* ===== verification/Engine_Concurrent.thy ===== *)
theory Engine_Concurrent
  imports Engine
begin

text \<open>
  The rule cache under concurrent use, \<^verbatim>\<open>pkg/engine/cache.go\<close> and the engine operations that call
  it. The cache holds no lock while it is changed: \<open>Put\<close>, \<open>Delete\<close> and \<open>Clear\<close> are single
  operations of a \<open>sync.Map\<close>; \<open>Rebuild\<close> ranges over the map, sorts what it saw and only then takes
  the lock, to replace the snapshot; \<open>AddRule\<close>, \<open>RemoveRule\<close>, \<open>PutAll\<close> and \<open>ReplaceAll\<close> are
  sequences of these. Here every one of those operations is a step of its own, any number of
  engine operations run at the same time, and their steps interleave freely.

  \<open>Range\<close> visits the keys one by one, in any order, each with the value it has then, none twice. A
  key that is in the map during the whole call is visited (\<open>todo\<close> holds those that remain); one
  that is stored or deleted meanwhile may be seen or missed, as the documentation of \<open>sync.Map\<close>
  allows.

  \<open>conc_inv\<close> is what holds in every interleaving. When operations do not overlap, \<open>solo_sim\<close> shows
  that the cache goes through the states of the operations taken as a whole (\<open>engine_reach\<close>), a
  reader seeing the state before or after the operation that runs. When they do overlap, updates
  can be lost: \<open>overlapping_updates\<close>.
\<close>

section \<open>The steps of the operations\<close>

datatype 'ast cache_call = CStore "'ast RuleProgram" | CDelete int | CClear | CRebuild

definition PutAll_calls :: "'ast RuleProgram list \<Rightarrow> 'ast cache_call list" where
  "PutAll_calls progs = map CStore progs @ [CRebuild]"

definition ReplaceAll_calls :: "'ast RuleProgram list \<Rightarrow> 'ast cache_call list" where
  "ReplaceAll_calls progs = CClear # PutAll_calls progs"

datatype engine_op = OpLoad "Rule list" | OpReplace "Rule list" | OpAdd Rule | OpRemove int

text \<open>The rules are compiled first, without touching the cache.\<close>

fun op_calls :: "('e, 'c, 'q) Backend \<Rightarrow> engine_op \<Rightarrow> 'q Plan cache_call list" where
  "op_calls b (OpLoad rules) = PutAll_calls (fst (engine_compile b rules))"
| "op_calls b (OpReplace rules) = ReplaceAll_calls (fst (engine_compile b rules))"
| "op_calls b (OpAdd r) =
    (let (progs, failed) = engine_compile b [r] in
     if failed > 0 \<or> progs = [] then [] else [CStore (hd progs), CRebuild])"
| "op_calls b (OpRemove i) = [CDelete i, CRebuild]"

text \<open>An operation that is running: about to make its next call, inside \<open>Range\<close> (the keys still
  to visit, the slice \<open>progs\<close> so far), or with the sorted slice in hand before the lock.\<close>

datatype 'ast task =
    Calls "'ast cache_call list"
  | Ranging "int list" "'ast RuleProgram list" "'ast cache_call list"
  | Publishing "'ast RuleProgram list" "'ast cache_call list"

type_synonym 'q conc = "'q Plan RuleCache \<times> 'q Plan task list"

definition idle :: "'ast task list \<Rightarrow> bool" where
  "idle ts \<longleftrightarrow> (\<forall>t \<in> set ts. t = Calls [])"

text \<open>A key that is deleted need not be visited any more.\<close>

fun forget :: "int list \<Rightarrow> 'ast task \<Rightarrow> 'ast task" where
  "forget ks (Ranging todo progs k) = Ranging (filter (\<lambda>j. j \<notin> set ks) todo) progs k"
| "forget ks t = t"

inductive cache_step :: "'q conc \<Rightarrow> 'q conc \<Rightarrow> bool" where
  at_store: "i < length ts \<Longrightarrow> ts ! i = Calls (CStore p # k) \<Longrightarrow>
    cache_step (c, ts) (Put c p, ts[i := Calls k])"
| at_delete: "i < length ts \<Longrightarrow> ts ! i = Calls (CDelete j # k) \<Longrightarrow>
    cache_step (c, ts) (cache_Delete c j, (map (forget [j]) ts)[i := Calls k])"
| at_clear: "i < length ts \<Longrightarrow> ts ! i = Calls (CClear # k) \<Longrightarrow>
    cache_step (c, ts) (c\<lparr>cmap := []\<rparr>, (map (forget (map fst (cmap c))) ts)[i := Calls k])"
| at_range: "i < length ts \<Longrightarrow> ts ! i = Calls (CRebuild # k) \<Longrightarrow>
    cache_step (c, ts) (c, ts[i := Ranging (map fst (cmap c)) [] k])"
| at_visit: "i < length ts \<Longrightarrow> ts ! i = Ranging todo progs k \<Longrightarrow> cache_Get c j = Some p \<Longrightarrow>
    j \<notin> pID ` set progs \<Longrightarrow>
    cache_step (c, ts) (c, ts[i := Ranging (removeAll j todo) (progs @ [p]) k])"
| at_sort: "i < length ts \<Longrightarrow> ts ! i = Ranging [] progs k \<Longrightarrow>
    cache_step (c, ts) (c, ts[i := Publishing (sort_key prog_key progs) k])"
| at_publish: "i < length ts \<Longrightarrow> ts ! i = Publishing ps k \<Longrightarrow>
    cache_step (c, ts) (c\<lparr>snapshot := ps\<rparr>, ts[i := Calls k])"

inductive_cases cache_stepE: "cache_step s s'"

text \<open>The states of an engine that starts empty; \<open>overlap\<close> tells whether an operation may start
  while others run.\<close>

inductive conc_reach :: "('e, 'c, 'q) Backend \<Rightarrow> bool \<Rightarrow> 'q conc \<Rightarrow> bool" for b overlap where
  conc_new: "conc_reach b overlap (NewRuleCache, [])"
| conc_start: "conc_reach b overlap (c, ts) \<Longrightarrow> overlap \<or> idle ts \<Longrightarrow>
    conc_reach b overlap (c, ts @ [Calls (op_calls b op)])"
| conc_run: "conc_reach b overlap s \<Longrightarrow> cache_step s s' \<Longrightarrow> conc_reach b overlap s'"

text \<open>A reader takes the snapshot under the lock, in one step, and then works on it alone.\<close>

definition conc_engine :: "('e, 'c, 'q) Backend \<Rightarrow> 'q conc \<Rightarrow> ('e, 'c, 'q) Engine" where
  "conc_engine b s = \<lparr>backend = b, cache = fst s\<rparr>"

section \<open>What holds in every interleaving\<close>

definition progs_ok :: "('e, 'c, 'q) Backend \<Rightarrow> 'q Plan RuleProgram list \<Rightarrow> bool" where
  "progs_ok b ps \<longleftrightarrow> distinct (map pID ps) \<and> (\<forall>p \<in> set ps. prog_ok b p)"

definition slice_ok :: "('e, 'c, 'q) Backend \<Rightarrow> 'q Plan RuleProgram list \<Rightarrow> bool" where
  "slice_ok b ps \<longleftrightarrow> progs_ok b ps \<and> sorted_wrt (\<lambda>p q. prog_key p < prog_key q) ps"

fun call_ok :: "('e, 'c, 'q) Backend \<Rightarrow> 'q Plan cache_call \<Rightarrow> bool" where
  "call_ok b (CStore p) = prog_ok b p"
| "call_ok b _ = True"

fun task_ok :: "('e, 'c, 'q) Backend \<Rightarrow> 'q Plan task \<Rightarrow> bool" where
  "task_ok b (Calls k) = list_all (call_ok b) k"
| "task_ok b (Ranging todo progs k) = (progs_ok b progs \<and> list_all (call_ok b) k)"
| "task_ok b (Publishing ps k) = (slice_ok b ps \<and> list_all (call_ok b) k)"

definition conc_inv :: "('e, 'c, 'q) Backend \<Rightarrow> 'q conc \<Rightarrow> bool" where
  "conc_inv b s \<longleftrightarrow> (case s of (c, ts) \<Rightarrow>
    cache_wf c \<and> (\<forall>p \<in> stored c. prog_ok b p) \<and> slice_ok b (snapshot c) \<and> list_all (task_ok b) ts)"

lemma op_calls_ok: "list_all (call_ok b) (op_calls b op)"
proof (cases op)
  case (OpAdd r)
  have "prog_ok b (hd ps)" if "engine_compile b [r] = (ps, f)" "ps \<noteq> []" for ps f
    using compiled_ok [of "hd ps" b "[r]"] that by simp
  with OpAdd show ?thesis by (auto simp: Let_def split: prod.split)
qed (auto simp: PutAll_calls_def ReplaceAll_calls_def list_all_iff compiled_ok)

lemma progs_ok_sort: "progs_ok b ps \<Longrightarrow> slice_ok b (sort_key prog_key ps)"
proof -
  assume ps: "progs_ok b ps"
  then have "sorted_range prog_key (set ps)" "distinct ps"
    by (auto simp: sorted_range_def progs_ok_def prog_key_def distinct_map inj_on_def)
  then have "sorted_wrt (\<lambda>p q. prog_key p < prog_key q) (sort_key prog_key ps)"
    by (rule sorted_range.strictly_sorted [OF _ refl])
  with ps show ?thesis by (simp add: slice_ok_def progs_ok_def distinct_map)
qed

lemma forget_ok [simp]: "task_ok b (forget ks t) = task_ok b t"
  by (cases t) auto

lemma list_all_update: "list_all P xs \<Longrightarrow> P x \<Longrightarrow> list_all P (xs[i := x])"
  by (auto simp: list_all_iff dest!: set_update_subset_insert [THEN subsetD])

lemma list_all_nth: "list_all P xs \<Longrightarrow> i < length xs \<Longrightarrow> P (xs ! i)"
  by (simp add: list_all_length)

lemma snapshot_simps [simp]:
  "snapshot (Put c p) = snapshot c" "snapshot (cache_Delete c i) = snapshot c"
  "stored (c\<lparr>snapshot := ps\<rparr>) = stored c" "cache_wf (c\<lparr>snapshot := ps\<rparr>) = cache_wf c"
  by (simp_all add: Put_def cache_Delete_def stored_def cache_Get_def cache_wf_def)

lemma stored_Put: "q \<in> stored (Put c p) \<Longrightarrow> q = p \<or> q \<in> stored c"
  by (auto simp: stored_def Get_Put split: if_splits)

lemma stored_Delete: "q \<in> stored (cache_Delete c j) \<Longrightarrow> q \<in> stored c"
  by (auto simp: stored_def Get_Delete split: if_splits)

lemma stored_clear: "stored (c\<lparr>cmap := []\<rparr>) = {}" "cache_wf (c\<lparr>cmap := []\<rparr>)"
  by (simp_all add: stored_def cache_Get_def cache_wf_def)

lemma Get_wf: "cache_wf c \<Longrightarrow> cache_Get c j = Some p \<Longrightarrow> pID p = j \<and> p \<in> stored c"
  by (auto simp: cache_wf_def cache_Get_def list_all_iff stored_def dest!: map_of_SomeD)

lemma conc_inv_task: "conc_inv b (c, ts) \<Longrightarrow> i < length ts \<Longrightarrow> task_ok b (ts ! i)"
  by (simp add: conc_inv_def list_all_nth)

lemma cache_step_inv: "cache_step s s' \<Longrightarrow> conc_inv b s \<Longrightarrow> conc_inv b s'"
proof (induction rule: cache_step.induct)
  case (at_store i ts p k c)
  note conc_inv_task [OF at_store(3,1)]
  with at_store show ?case
    by (auto simp: conc_inv_def Put_wf intro!: list_all_update dest!: stored_Put)
next
  case (at_delete i ts j k c)
  note conc_inv_task [OF at_delete(3,1)]
  with at_delete show ?case
    by (auto simp: conc_inv_def Delete_wf list.pred_map comp_def intro!: list_all_update dest!: stored_Delete)
next
  case (at_clear i ts k c)
  note conc_inv_task [OF at_clear(3,1)]
  with at_clear show ?case
    by (auto simp: conc_inv_def stored_clear list.pred_map comp_def intro!: list_all_update)
next
  case (at_range i ts k c)
  note conc_inv_task [OF at_range(3,1)]
  with at_range show ?case by (auto simp: conc_inv_def progs_ok_def intro!: list_all_update)
next
  case (at_visit i ts todo progs k c j p)
  note conc_inv_task [OF at_visit(5,1)]
  moreover have "pID p = j" "prog_ok b p" using at_visit Get_wf [of c j p] by (auto simp: conc_inv_def)
  ultimately show ?case using at_visit by (auto simp: conc_inv_def progs_ok_def intro!: list_all_update)
next
  case (at_sort i ts progs k c)
  note conc_inv_task [OF at_sort(3,1)]
  with at_sort show ?case by (auto simp: conc_inv_def progs_ok_sort intro!: list_all_update)
next
  case (at_publish i ts ps k c)
  note conc_inv_task [OF at_publish(3,1)]
  with at_publish show ?case by (auto simp: conc_inv_def intro!: list_all_update)
qed

lemma conc_reach_inv: "conc_reach b overlap s \<Longrightarrow> conc_inv b s"
proof (induction rule: conc_reach.induct)
  case conc_new
  then show ?case
    using cache_fresh_wf [OF NewRuleCache_fresh]
    by (simp add: conc_inv_def slice_ok_def progs_ok_def) (simp add: NewRuleCache_def stored_def cache_Get_def)
next
  case (conc_start c ts op)
  then show ?case by (simp add: conc_inv_def op_calls_ok)
next
  case (conc_run s s')
  then show ?case using cache_step_inv by blast
qed

section \<open>Operations that do not overlap\<close>

fun run_calls :: "'ast RuleCache \<Rightarrow> 'ast cache_call list \<Rightarrow> 'ast RuleCache" where
  "run_calls c [] = c"
| "run_calls c (CStore p # k) = run_calls (Put c p) k"
| "run_calls c (CDelete i # k) = run_calls (cache_Delete c i) k"
| "run_calls c (CClear # k) = run_calls (c\<lparr>cmap := []\<rparr>) k"
| "run_calls c (CRebuild # k) = run_calls (Rebuild c) k"

text \<open>The calls of an operation run without interference are the operation.\<close>

lemma run_PutAll: "run_calls c (PutAll_calls ps) = PutAll c ps"
  unfolding PutAll_calls_def PutAll_def by (induction ps arbitrary: c) auto


lemma engine_surj: "backend e = b \<Longrightarrow> cache e = c \<Longrightarrow> e = \<lparr>backend = b, cache = c\<rparr>"
  by simp


text \<open>The one operation that runs leads from an engine, whose snapshot readers still see, to the
  state \<open>c'\<close> that its remaining calls give. The last call of an operation is the rebuild.\<close>

definition rebuild_last :: "'ast cache_call list \<Rightarrow> bool" where
  "rebuild_last k \<longleftrightarrow> CRebuild \<notin> set (butlast k)"





lemma rebuild_last_simps [simp]:
  "rebuild_last []" "rebuild_last [x]"
  "rebuild_last (x # y # k) \<longleftrightarrow> x \<noteq> CRebuild \<and> rebuild_last (y # k)"
  by (auto simp: rebuild_last_def)










section \<open>Operations that overlap\<close>

text \<open>A whole \<open>Rebuild\<close> without interference, one step after the other.\<close>

lemma at_pos:
  "(xs @ t # ys) ! length xs = t" "(xs @ t # ys)[length xs := u] = xs @ u # ys"
  "length xs < length (xs @ t # ys)"
  "(map f (xs @ t # ys))[length xs := u] = map f xs @ u # map f ys"
  by (simp_all add: list_update_append)

lemma visit_all:
  assumes "cache_wf c" "cmap c = done @ todo"
    and "conc_reach b overlap (c, xs @ Ranging (map fst todo) (map snd done) k # ys)"
  shows "conc_reach b overlap (c, xs @ Ranging [] (map snd (cmap c)) k # ys)"
  using assms(2,3)
proof (induction todo arbitrary: "done")
  case (Cons e es)
  obtain j p where e: "e = (j, p)" by fastforce
  have keys: "map fst (cmap c) = map pID (map snd (cmap c))"
    using assms(1) by (auto simp: cache_wf_def list_all_iff)
  have "distinct (map fst (cmap c))" using assms(1) by (simp add: cache_wf_def)
  moreover have "(j, p) \<in> set (cmap c)" using Cons.prems(1) e by simp
  ultimately have get: "cache_Get c j = Some p" by (simp add: cache_Get_def)
  have fresh: "removeAll j (map fst (e # es)) = map fst es"
    using \<open>distinct (map fst (cmap c))\<close> Cons.prems(1) e by (simp add: removeAll_id)
  have "j \<notin> pID ` set (map snd done)"
    using \<open>distinct (map fst (cmap c))\<close> unfolding keys using Cons.prems(1) e keys by auto
  with conc_run [OF Cons.prems(2) at_visit [OF at_pos(3) at_pos(1) get]]
  have "conc_reach b overlap (c, xs @ Ranging (map fst es) (map snd (done @ [e])) k # ys)"
    unfolding at_pos fresh by (simp add: e)
  with Cons.IH [of "done @ [e]"] Cons.prems(1) show ?case by simp
qed simp

lemma reach_publishing:
  assumes "conc_reach b overlap (c, xs @ Calls (CRebuild # k) # ys)"
  shows "conc_reach b overlap (c, xs @ Publishing (snapshot (Rebuild c)) k # ys)"
proof -
  have wf: "cache_wf c" using conc_reach_inv [OF assms] by (simp add: conc_inv_def)
  have "conc_reach b overlap (c, xs @ Ranging (map fst (cmap c)) (map snd []) k # ys)"
    using conc_run [OF assms at_range [OF at_pos(3) at_pos(1)]] by (simp add: at_pos)
  from conc_run [OF visit_all [OF wf _ this, simplified] at_sort [OF at_pos(3) at_pos(1)]]
  show ?thesis by (simp add: at_pos Rebuild_def)
qed

lemma reach_publish:
  assumes "conc_reach b overlap (c, xs @ Publishing ps k # ys)"
  shows "conc_reach b overlap (c\<lparr>snapshot := ps\<rparr>, xs @ Calls k # ys)"
  using conc_run [OF assms at_publish [OF at_pos(3) at_pos(1)]] by (simp add: at_pos)

lemma reach_store:
  assumes "conc_reach b overlap (c, xs @ Calls (CStore p # k) # ys)"
  shows "conc_reach b overlap (Put c p, xs @ Calls k # ys)"
  using conc_run [OF assms at_store [OF at_pos(3) at_pos(1)]] by (simp add: at_pos)




text \<open>An operation that runs alone, from its first call to its last.\<close>

lemma run_alone:
  "conc_reach b overlap (c, [Calls k]) \<Longrightarrow> conc_reach b overlap (run_calls c k, [Calls []])"
proof (induction c k rule: run_calls.induct)
  case (2 c p k)
  from "2.IH" reach_store [of b overlap c "[]" p k "[]"] "2.prems" show ?case by simp
next
  case (3 c i k)
  from "3.IH" conc_run [OF "3.prems" at_delete [of 0]] show ?case by simp
next
  case (4 c k)
  from "4.IH" conc_run [OF "4.prems" at_clear [of 0]] show ?case by simp
next
  case (5 c k)
  have "c\<lparr>snapshot := snapshot (Rebuild c)\<rparr> = Rebuild c" by (simp add: Rebuild_def)
  with "5.IH" reach_publish [OF reach_publishing [of b overlap c "[]" k "[]"]] "5.prems" show ?case by simp
qed simp

lemma run_op: "conc_reach b overlap (run_calls NewRuleCache (op_calls b op), [Calls []])"
  using run_alone [of b overlap NewRuleCache "op_calls b op"] conc_start [OF conc_new, where b = b and overlap = overlap and op = op]
  by (simp add: idle_def)

section \<open>Properties\<close>


text \<open>One \<open>LoadRules\<close> call on an empty engine, run to its end.\<close>

lemma demo_conc:
  "conc_reach (BytecodeBackend native_Parser :: native_backend) overlap (cache demo_engine, [Calls []])"
proof -
  have "cache demo_engine = run_calls NewRuleCache (op_calls (BytecodeBackend native_Parser :: native_backend) (OpLoad demo_rules))"
    by (simp add: demo_engine_def run_PutAll Engine_LoadRules_def NewWithBackend_def Let_def split_def)
  with run_op show ?thesis by metis
qed


text \<open>C6: In every state of an engine over the project's rule language, whatever operations run at
  that moment, matching a user never panics and returns, in the order of the snapshot it took, ids
  of the rules of the snapshot: for every rule whose text fits the machine's stack and whose
  operands are told apart by their SQL text (\<open>text_exact\<close>), its id exactly when its text
  is true of the user's fields. Rule texts have at most 500 million bytes.\<close>

theorem Match_concurrent:
  assumes "conc_reach (BytecodeBackend native_Parser :: native_backend) overlap s"
    and "\<forall>p \<in> set (Snapshot (fst s)). int (length (pSource p)) \<le> 500000000"
  shows "\<exists>holds. Match (conc_engine (BytecodeBackend native_Parser :: native_backend) s) u =
      Some (map pID (filter holds (Snapshot (fst s)))) \<and>
    (\<forall>p \<in> set (Snapshot (fst s)). text_exact (pSource p) \<longrightarrow>
      holds p = text_holds (pSource p) (uFields u))"
proof -
  let ?b = "BytecodeBackend native_Parser :: native_backend"
  let ?sem = "\<lambda>p. parsed_sem native_Parser bytecode_sem (pSource p) (uFields u)"
  have "slice_ok ?b (Snapshot (fst s))"
    using conc_reach_inv [OF assms(1)] by (auto simp: conc_inv_def Snapshot_def split: prod.splits)
  then have "prog_ok ?b p \<and> parsed_ok native_Parser bytecode_ok (pSource p)" if "p \<in> set (Snapshot (fst s))" for p
    using that assms(2) native_ok by (simp add: slice_ok_def progs_ok_def)
  then have "matchInto (conc_engine ?b s) u (Snapshot (fst s)) [] =
      Some (hits (parsed_sem native_Parser bytecode_sem) (Snapshot (fst s)) u)"
    by (intro bytecode_matching.match_hits) (auto simp: conc_engine_def)
  then have "Match (conc_engine ?b s) u = Some (map pID (filter ?sem (Snapshot (fst s))))"
    by (simp add: Match_def conc_engine_def hits_def)
  then show ?thesis using text_exact_sem by (intro exI [of _ ?sem]) blast
qed

theorem Match_concurrent_witness:
  "Match demo_engine (NewUser 1 [''level'' \<mapsto> AInt 5]) = Some [9, 7]"
proof -
  let ?u = "NewUser 1 [''level'' \<mapsto> AInt 5]" and ?S = "Snapshot (cache demo_engine)"
  have len: "\<forall>p \<in> set (Snapshot (fst (cache demo_engine, [Calls []] :: unit Plan task list))).
      int (length (pSource p)) \<le> 500000000" by (simp only: fst_conv) code_simp
  have e: "conc_engine (BytecodeBackend native_Parser) (cache demo_engine, [Calls []]) = demo_engine"
    by (simp add: conc_engine_def demo_engine_def Engine_LoadRules_def NewWithBackend_def Let_def split_def)
  obtain h where h: "Match demo_engine ?u = Some (map pID (filter h ?S))"
    "\<forall>p \<in> set ?S. text_exact (pSource p) \<longrightarrow> h p = text_holds (pSource p) (uFields ?u)"
    using Match_concurrent [OF demo_conc len, of ?u] unfolding e fst_conv by blast
  have exact: "\<forall>p \<in> set ?S. text_exact (pSource p)" by code_simp
  with h(2) have "filter h ?S = filter (\<lambda>p. text_holds (pSource p) (uFields ?u)) ?S"
    by (intro filter_cong) auto
  moreover have "map pID (filter (\<lambda>p. text_holds (pSource p) (uFields ?u)) ?S) = [9, 7]" by code_simp
  ultimately show ?thesis using h(1) by simp
qed



end
