(* ===== verification/Manager.thy ===== *)
theory Manager
  imports Engine
begin

text \<open>
  The operations layer, \<^verbatim>\<open>pkg/engine/manager.go\<close>: an editable rule set kept beside the engine,
  live edits, published versions and rollback. The map of rules is an association list from id to
  rule; the clock is an argument.

  \<open>mgr_step\<close> runs whole operations one after the other. Its invariant \<open>mgr_inv\<close> ties the three
  parts together: the engine's cache holds exactly the compiled enabled rules of the editable
  set, and every published version can be restored. The method \<open>Upsert\<close> holds its lock only while
  it reads the old rule and while it stores the new one; \<open>upsert_read\<close>, \<open>upsert_apply\<close> and
  \<open>upsert_store\<close> are its three phases, and \<open>Upsert_race\<close> interleaves two calls.
\<close>

section \<open>Operations\<close>

record Version =
  v_Time :: int
  v_Note :: string
  v_Rules :: "Rule list"
  v_Version :: int
  v_Count :: int

record ('e, 'c, 'q) Manager =
  eng :: "('e, 'c, 'q) Engine"
  m_rules :: "(int \<times> Rule) list"
  versions :: "Version list"

definition rule_of :: "'q Plan RuleProgram \<Rightarrow> Rule" where
  "rule_of p = \<lparr>rName = pName p, rExpr = pSource p, rID = pID p, rPriority = pPriority p,
    rVersion = pVersion p, rEnabled = True\<rparr>"

definition NewManager :: "('e, 'c, 'q) Engine \<Rightarrow> ('e, 'c, 'q) Manager" where
  "NewManager e = \<lparr>eng = e,
    m_rules = foldl (\<lambda>m p. AList.update (pID p) (rule_of p) m) [] (Snapshot (cache e)),
    versions = []\<rparr>"

definition Manager_List :: "('e, 'c, 'q) Manager \<Rightarrow> Rule list" where
  "Manager_List m = sort_key rID (map snd (m_rules m))"

datatype manager_error =
    RuleIdRequired
  | EngineError engine_error
  | VersionNotFound int

text \<open>The three phases of \<open>Upsert\<close>.\<close>

definition upsert_read :: "('e, 'c, 'q) Manager \<Rightarrow> Rule \<Rightarrow> Rule" where
  "upsert_read m r =
    (case map_of (m_rules m) (rID r) of
       Some prev \<Rightarrow>
         if rVersion r \<le> rVersion prev then r\<lparr>rVersion := wrap64 (rVersion prev + 1)\<rparr>
         else if rVersion r = 0 then r\<lparr>rVersion := 1\<rparr> else r
     | None \<Rightarrow> if rVersion r = 0 then r\<lparr>rVersion := 1\<rparr> else r)"

definition upsert_apply :: "('e, 'c, 'q) Manager \<Rightarrow> Rule \<Rightarrow> manager_error + ('e, 'c, 'q) Manager" where
  "upsert_apply m r =
    (if rEnabled r
     then (case AddRule (eng m) r of Inl err \<Rightarrow> Inl (EngineError err) | Inr e \<Rightarrow> Inr (m\<lparr>eng := e\<rparr>))
     else Inr (m\<lparr>eng := RemoveRule (eng m) (rID r)\<rparr>))"

definition upsert_store :: "('e, 'c, 'q) Manager \<Rightarrow> Rule \<Rightarrow> ('e, 'c, 'q) Manager" where
  "upsert_store m r = m\<lparr>m_rules := AList.update (rID r) r (m_rules m)\<rparr>"

definition Upsert :: "('e, 'c, 'q) Manager \<Rightarrow> Rule \<Rightarrow> manager_error + ('e, 'c, 'q) Manager" where
  "Upsert m r =
    (if rID r = 0 then Inl RuleIdRequired
     else let r' = upsert_read m r in
       bind_res (upsert_apply m r') (\<lambda>m'. Inr (upsert_store m' r')))"

definition Manager_Remove :: "('e, 'c, 'q) Manager \<Rightarrow> int \<Rightarrow> ('e, 'c, 'q) Manager" where
  "Manager_Remove m i = m\<lparr>eng := RemoveRule (eng m) i, m_rules := AList.delete i (m_rules m)\<rparr>"

definition Manager_Test :: "('e, 'c, 'q) Manager \<Rightarrow> string \<Rightarrow> row \<Rightarrow> ('e + bool) option" where
  "Manager_Test m exprText r =
    (let b = backend (eng m) in
     case be_Compile b exprText of
       Inl err \<Rightarrow> Some (Inl err)
     | Inr plan \<Rightarrow> map_option Inr (be_Eval b (be_NewContext b r) plan))"

definition Publish :: "('e, 'c, 'q) Manager \<Rightarrow> int \<Rightarrow> string \<Rightarrow> Version \<times> ('e, 'c, 'q) Manager" where
  "Publish m now note =
    (let rules = Manager_List m;
       v = \<lparr>v_Time = now, v_Note = note, v_Rules = rules, v_Version = int (length (versions m)) + 1,
         v_Count = int (length rules)\<rparr>
     in (v, m\<lparr>versions := versions m @ [v]\<rparr>))"

definition Versions :: "('e, 'c, 'q) Manager \<Rightarrow> Version list" where
  "Versions m = versions m"

definition Rollback :: "('e, 'c, 'q) Manager \<Rightarrow> int \<Rightarrow> manager_error + ('e, 'c, 'q) Manager" where
  "Rollback m version =
    (case List.find (\<lambda>v. v_Version v = version) (versions m) of
       None \<Rightarrow> Inl (VersionNotFound version)
     | Some v \<Rightarrow>
         Inr (m\<lparr>eng := snd (ReplaceRules (eng m) (v_Rules v)),
           m_rules := foldl (\<lambda>l r. AList.update (rID r) r l) [] (v_Rules v)\<rparr>))"

section \<open>The compiled form of a rule set\<close>

definition compiled :: "('e, 'c, 'q) Backend \<Rightarrow> Rule \<Rightarrow> 'q Plan RuleProgram option" where
  "compiled b r = (if rEnabled r
    then (case be_Compile b (rExpr r) of Inr ast \<Rightarrow> Some (program_of r ast) | Inl _ \<Rightarrow> None) else None)"

definition rules_wf :: "('e, 'c, 'q) Backend \<Rightarrow> (int \<times> Rule) list \<Rightarrow> bool" where
  "rules_wf b l \<longleftrightarrow> distinct (map fst l) \<and> (\<forall>(i, r) \<in> set l. rID r = i \<and> (rEnabled r \<longrightarrow> compiles b r))"

text \<open>The cache holds the compiled enabled rules of the editable set and nothing else.\<close>

definition in_sync :: "('e, 'c, 'q) Manager \<Rightarrow> bool" where
  "in_sync m \<longleftrightarrow> (\<forall>i. cache_Get (cache (eng m)) i
    = Option.bind (map_of (m_rules m) i) (compiled (backend (eng m))))"

definition version_ok :: "('e, 'c, 'q) Backend \<Rightarrow> Version \<Rightarrow> bool" where
  "version_ok b v \<longleftrightarrow> distinct (map rID (v_Rules v)) \<and> sorted (map rID (v_Rules v)) \<and>
    v_Count v = int (length (v_Rules v)) \<and> (\<forall>r \<in> set (v_Rules v). rEnabled r \<longrightarrow> compiles b r)"

definition mgr_inv :: "('e, 'c, 'q) Manager \<Rightarrow> bool" where
  "mgr_inv m \<longleftrightarrow> engine_wf (eng m) \<and> rules_wf (backend (eng m)) (m_rules m) \<and> in_sync m \<and>
    (\<forall>v \<in> set (versions m). version_ok (backend (eng m)) v) \<and>
    map v_Version (versions m) = map int [1..<Suc (length (versions m))]"

lemma compiles_compiled: "compiles b r \<Longrightarrow> \<exists>ast. be_Compile b (rExpr r) = Inr ast \<and> compiled b r = Some (program_of r ast)"
  by (auto simp: compiles_def compiled_def split: sum.splits)

lemma compiled_id: "compiled b r = Some p \<Longrightarrow> pID p = rID r"
  by (auto simp: compiled_def program_of_def split: if_splits sum.splits)

section \<open>Lemmas on association lists\<close>

lemma set_update_subset: "set (AList.update k v al) \<subseteq> insert (k, v) (set al)"
  by (induction al) auto

lemma set_delete_subset: "set (AList.delete k al) \<subseteq> set al"
  by (induction al) auto

lemma update_append_new: "k \<notin> fst ` set al \<Longrightarrow> AList.update k v al = al @ [(k, v)]"
  by (induction al) auto

lemma foldl_update_distinct:
  assumes "distinct (map k xs)" "k ` set xs \<inter> fst ` set acc = {}"
  shows "foldl (\<lambda>l x. AList.update (k x) (f x) l) acc xs = acc @ map (\<lambda>x. (k x, f x)) xs"
  using assms
proof (induction xs arbitrary: acc)
  case (Cons x xs)
  then have "AList.update (k x) (f x) acc = acc @ [(k x, f x)]" by (intro update_append_new) auto
  moreover have "k ` set xs \<inter> fst ` set (acc @ [(k x, f x)]) = {}" using Cons.prems by auto
  ultimately show ?case using Cons by simp
qed simp

lemma rules_wf_update:
  "rules_wf b l \<Longrightarrow> (rEnabled r \<longrightarrow> compiles b r) \<Longrightarrow> rules_wf b (AList.update (rID r) r l)"
  using set_update_subset [of "rID r" r l] by (fastforce simp: rules_wf_def distinct_update)

lemma rules_wf_delete: "rules_wf b l \<Longrightarrow> rules_wf b (AList.delete i l)"
  using set_delete_subset [of i l] by (fastforce simp: rules_wf_def distinct_delete)

lemma rules_wf_map:
  "distinct (map rID rs) \<Longrightarrow> \<forall>r \<in> set rs. rEnabled r \<longrightarrow> compiles b r \<Longrightarrow>
    rules_wf b (map (\<lambda>r. (rID r, r)) rs)"
  by (auto simp: rules_wf_def comp_def)

section \<open>Operations keep the invariant\<close>

lemma last_prog_distinct:
  "distinct (map pID ps) \<Longrightarrow> last_prog ps i = map_of (map (\<lambda>p. (pID p, p)) ps) i"
proof (induction ps rule: rev_induct)
  case (snoc x xs)
  then have "map_of (map (\<lambda>p. (pID p, p)) xs) (pID x) = None" by (auto simp: map_of_eq_None_iff)
  with snoc show ?case by (auto simp: last_prog_simps map_add_def split: option.split)
qed (simp add: last_prog_simps)

lemma map_of_compiled:
  "distinct (map rID rs) \<Longrightarrow>
    map_of (map (\<lambda>p. (pID p, p)) (fst (engine_compile b rs))) i
      = Option.bind (map_of (map (\<lambda>r. (rID r, r)) rs) i) (compiled b)"
proof (induction rs)
  case (Cons r rs)
  have "map_of (map (\<lambda>r. (rID r, r)) rs) (rID r) = None"
    using Cons.prems by (auto simp: map_of_eq_None_iff)
  with Cons show ?case
    by (auto simp: Let_def split_def compiled_def program_of_def split: sum.split)
qed simp

lemma replace_sync:
  assumes "distinct (map rID rs)"
  shows "cache_Get (cache (snd (ReplaceRules e rs))) i
    = Option.bind (map_of (map (\<lambda>r. (rID r, r)) rs) i) (compiled (backend e))"
proof -
  have "distinct (map pID (fst (engine_compile (backend e) rs)))"
    unfolding engine_compile_ids using assms by (simp add: distinct_map inj_on_def)
  then show ?thesis
    using map_of_compiled [OF assms, of "backend e" i] last_prog_distinct [of "fst (engine_compile (backend e) rs)" i]
    by (simp add: ReplaceRules_def Let_def split_def Get_ReplaceAll)
qed

lemma engine_ops_wf:
  "engine_wf e \<Longrightarrow> engine_wf (RemoveRule e i) \<and> backend (RemoveRule e i) = backend e"
  "engine_wf e \<Longrightarrow> engine_wf (snd (ReplaceRules e rs)) \<and> backend (snd (ReplaceRules e rs)) = backend e"
  "engine_wf e \<Longrightarrow> AddRule e r = Inr e' \<Longrightarrow> engine_wf e' \<and> backend e' = backend e"
  using engine_step_wf [OF step_remove [OF refl, of e i]]
    engine_step_wf [OF step_replace [of e rs "fst (ReplaceRules e rs)" "snd (ReplaceRules e rs)"]]
    engine_step_wf [OF step_add [of e r e']] by simp_all

lemma upsert_read_simps [simp]:
  "rID (upsert_read m r) = rID r" "rEnabled (upsert_read m r) = rEnabled r"
  "rExpr (upsert_read m r) = rExpr r"
  by (auto simp: upsert_read_def split: option.split)

lemma Upsert_cases:
  assumes "Upsert m r = Inr m'"
  obtains (on) ast where "rEnabled r" "be_Compile (backend (eng m)) (rExpr r) = Inr ast" "rID r \<noteq> 0"
      "AddRule (eng m) (upsert_read m r) = Inr (eng m')"
      "eng m' = (eng m)\<lparr>cache := Rebuild (Put (cache (eng m)) (program_of (upsert_read m r) ast))\<rparr>"
      "m' = m\<lparr>eng := eng m', m_rules := AList.update (rID r) (upsert_read m r) (m_rules m)\<rparr>"
  | (off) "\<not> rEnabled r" "rID r \<noteq> 0"
      "m' = m\<lparr>eng := RemoveRule (eng m) (rID r), m_rules := AList.update (rID r) (upsert_read m r) (m_rules m)\<rparr>"
proof (cases "rEnabled r")
  case True
  with assms obtain e where e: "AddRule (eng m) (upsert_read m r) = Inr e" "rID r \<noteq> 0"
      "m' = upsert_store (m\<lparr>eng := e\<rparr>) (upsert_read m r)"
    by (auto simp: Upsert_def upsert_apply_def Let_def split: if_splits sum.splits)
  then show ?thesis
    using True by (cases rule: AddRule_cases [of "eng m" "upsert_read m r"])
      (auto simp: upsert_store_def intro!: on)
next
  case False
  with assms show ?thesis
    by (auto simp: Upsert_def upsert_apply_def upsert_store_def Let_def intro!: off split: if_splits)
qed

lemma Upsert_inv:
  assumes "mgr_inv m" "Upsert m r = Inr m'"
  shows "mgr_inv m' \<and> backend (eng m') = backend (eng m)"
  using assms(2)
proof (cases rule: Upsert_cases)
  case (on ast)
  have wf: "engine_wf (eng m') \<and> backend (eng m') = backend (eng m)"
    using engine_ops_wf(3) [OF _ on(4)] assms(1) by (simp add: mgr_inv_def)
  have c: "compiled (backend (eng m)) (upsert_read m r) = Some (program_of (upsert_read m r) ast)"
    using on(1,2) by (simp add: compiled_def)
  have "m_rules m' = AList.update (rID r) (upsert_read m r) (m_rules m)" "versions m' = versions m"
    by (subst on(6), simp)+
  moreover have "cache_Get (cache (eng m')) i = (if i = rID r then Some (program_of (upsert_read m r) ast)
      else cache_Get (cache (eng m)) i)" for i
    by (subst on(5)) (simp add: Get_Put program_of_def)
  moreover have "rules_wf (backend (eng m)) (AList.update (rID r) (upsert_read m r) (m_rules m))"
    using rules_wf_update [of "backend (eng m)" "m_rules m" "upsert_read m r"] on(1,2) assms(1)
    by (simp add: mgr_inv_def)
  ultimately show ?thesis
    using assms(1) wf c by (auto simp: mgr_inv_def in_sync_def update_conv')
next
  case off
  have wf: "engine_wf (RemoveRule (eng m) (rID r)) \<and> backend (RemoveRule (eng m) (rID r)) = backend (eng m)"
    using engine_ops_wf(1) [of "eng m" "rID r"] assms(1) by (simp add: mgr_inv_def)
  moreover have "rules_wf (backend (eng m)) (AList.update (rID r) (upsert_read m r) (m_rules m))"
    using rules_wf_update [of "backend (eng m)" "m_rules m" "upsert_read m r"] off(1) assms(1)
    by (simp add: mgr_inv_def)
  moreover have "cache_Get (cache (RemoveRule (eng m) (rID r))) i
      = (if i = rID r then None else cache_Get (cache (eng m)) i)" for i
    by (simp add: RemoveRule_def Get_Delete)
  ultimately show ?thesis
    using assms(1) off by (auto simp: mgr_inv_def in_sync_def update_conv' compiled_def)
qed

lemma Remove_inv:
  assumes "mgr_inv m"
  shows "mgr_inv (Manager_Remove m i) \<and> backend (eng (Manager_Remove m i)) = backend (eng m)"
proof -
  have "engine_wf (RemoveRule (eng m) i) \<and> backend (RemoveRule (eng m) i) = backend (eng m)"
    using engine_ops_wf(1) [of "eng m" i] assms by (simp add: mgr_inv_def)
  moreover have "cache_Get (cache (RemoveRule (eng m) i)) j
      = (if j = i then None else cache_Get (cache (eng m)) j)" for j
    by (simp add: RemoveRule_def Get_Delete)
  ultimately show ?thesis
    using assms by (auto simp: mgr_inv_def in_sync_def Manager_Remove_def delete_conv' rules_wf_delete)
qed

lemma List_wf:
  assumes "rules_wf b (m_rules m)"
  shows "distinct (map rID (Manager_List m)) \<and> sorted (map rID (Manager_List m)) \<and>
    set (Manager_List m) = snd ` set (m_rules m) \<and> (\<forall>r \<in> set (Manager_List m). rEnabled r \<longrightarrow> compiles b r)"
proof -
  have "map fst (m_rules m) = map rID (map snd (m_rules m))"
    using assms by (auto simp: rules_wf_def)
  then have d: "distinct (map rID (map snd (m_rules m)))"
    using assms unfolding rules_wf_def by metis
  have "mset (map rID (Manager_List m)) = mset (map rID (map snd (m_rules m)))"
    by (simp add: Manager_List_def multiset.map_comp)
  from mset_eq_imp_distinct_iff [OF this] d have "distinct (map rID (Manager_List m))" by simp
  then show ?thesis using assms by (auto simp: Manager_List_def rules_wf_def)
qed

lemma Publish_inv:
  assumes "mgr_inv m" "Publish m now note = (v, m')"
  shows "mgr_inv m' \<and> backend (eng m') = backend (eng m)"
proof -
  have "version_ok (backend (eng m)) v"
    using List_wf [of "backend (eng m)" m] assms by (auto simp: mgr_inv_def version_ok_def Publish_def Let_def)
  then show ?thesis
    using assms by (auto simp: mgr_inv_def in_sync_def Publish_def Let_def)
qed

lemma Rollback_inv:
  assumes "mgr_inv m" "Rollback m k = Inr m'"
  shows "mgr_inv m' \<and> backend (eng m') = backend (eng m)"
proof -
  obtain v where f: "List.find (\<lambda>v. v_Version v = k) (versions m) = Some v"
    and m': "m' = m\<lparr>eng := snd (ReplaceRules (eng m) (v_Rules v)),
        m_rules := foldl (\<lambda>l r. AList.update (rID r) r l) [] (v_Rules v)\<rparr>"
    using assms(2) by (auto simp: Rollback_def split: option.splits)
  have "v \<in> set (versions m)" using f by (metis find_Some_iff nth_mem)
  then have ok: "version_ok (backend (eng m)) v" using assms(1) by (simp add: mgr_inv_def)
  then have "m_rules m' = map (\<lambda>r. (rID r, r)) (v_Rules v)"
    using foldl_update_distinct [of rID "v_Rules v" "[]" "\<lambda>r. r"] m' by (simp add: version_ok_def)
  moreover have "engine_wf (eng m') \<and> backend (eng m') = backend (eng m)"
    using engine_ops_wf(2) [of "eng m" "v_Rules v"] assms(1) m' by (simp add: mgr_inv_def)
  ultimately show ?thesis
    using assms(1) m' ok replace_sync [of "v_Rules v" "eng m"]
    by (simp add: mgr_inv_def in_sync_def version_ok_def rules_wf_map)
qed

lemma NewManager_inv:
  assumes "engine_wf e"
  shows "mgr_inv (NewManager e)"
proof -
  let ?b = "backend e" and ?snap = "Snapshot (cache e)"
  have fresh: "cache_fresh (cache e)" and ok: "\<forall>p \<in> set ?snap. prog_ok ?b p"
    using assms snapshot_set by (auto simp: engine_wf_def)
  have d: "distinct (map pID ?snap)"
    using snapshot_set [OF fresh] stored_pID_inj [of "cache e"] strict_key_distinct [OF snapshot_sorted [OF fresh]]
    by (auto simp: distinct_map)
  have rules: "m_rules (NewManager e) = map (\<lambda>p. (pID p, rule_of p)) ?snap"
    using foldl_update_distinct [of pID ?snap "[]" rule_of] d by (simp add: NewManager_def)
  have c: "compiled ?b (rule_of p) = Some p" if "p \<in> set ?snap" for p
    using ok that by (cases p) (auto simp: compiled_def rule_of_def prog_ok_def program_of_def)
  have "cache_Get (cache e) i = Option.bind (map_of (map (\<lambda>p. (pID p, rule_of p)) ?snap) i) (compiled ?b)" for i
  proof (cases "cache_Get (cache e) i")
    case None
    then have "i \<notin> pID ` set ?snap" using snapshot_set [OF fresh] by (auto simp: stored_def)
    then have "map_of (map (\<lambda>p. (pID p, rule_of p)) ?snap) i = None" by (auto simp: map_of_eq_None_iff)
    with None show ?thesis by simp
  next
    case (Some p)
    have "pID p = i" using fresh Some
      by (auto simp: cache_fresh_def cache_wf_def cache_Get_def list_all_iff dest: map_of_SomeD)
    then have p: "p \<in> set ?snap" using Some snapshot_set [OF fresh] by (simp add: stored_def)
    then have "map_of (map (\<lambda>p. (pID p, rule_of p)) ?snap) i = Some (rule_of p)"
      using d \<open>pID p = i\<close> by (intro map_of_is_SomeI) (auto simp: comp_def)
    with Some c [OF p] show ?thesis by simp
  qed
  moreover have "rules_wf ?b (map (\<lambda>p. (pID p, rule_of p)) ?snap)"
  proof -
    have "compiles ?b (rule_of p)" "rID (rule_of p) = pID p" if "p \<in> set ?snap" for p
      using bspec [OF ok that] by (simp_all add: rule_of_def compiles_def prog_ok_def)
    then show ?thesis using d by (auto simp: rules_wf_def comp_def)
  qed
  moreover have "eng (NewManager e) = e" "versions (NewManager e) = []" by (simp_all add: NewManager_def)
  ultimately show ?thesis
    using assms unfolding mgr_inv_def in_sync_def rules by simp
qed

section \<open>Reachable managers\<close>

inductive mgr_step :: "('e, 'c, 'q) Manager \<Rightarrow> ('e, 'c, 'q) Manager \<Rightarrow> bool" where
  m_upsert: "Upsert m r = Inr m' \<Longrightarrow> mgr_step m m'"
| m_remove: "mgr_step m (Manager_Remove m i)"
| m_publish: "Publish m now note = (v, m') \<Longrightarrow> mgr_step m m'"
| m_rollback: "Rollback m k = Inr m' \<Longrightarrow> mgr_step m m'"

lemma mgr_step_inv: "mgr_step m m' \<Longrightarrow> mgr_inv m \<Longrightarrow> mgr_inv m' \<and> backend (eng m') = backend (eng m)"
  by (erule mgr_step.cases) (metis Upsert_inv Remove_inv Publish_inv Rollback_inv)+




lemma Upsert_engine: "Upsert m r = Inr m' \<Longrightarrow> engine_step (eng m) (eng m')"
proof -
  assume "Upsert m r = Inr m'"
  then show ?thesis
  proof (cases rule: Upsert_cases)
    case (on ast)
    from on(4) show ?thesis by (rule step_add)
  next
    case off
    then show ?thesis by (simp add: step_remove)
  qed
qed

lemma mgr_step_engine: "mgr_step m m' \<Longrightarrow> engine_step\<^sup>*\<^sup>* (eng m) (eng m')"
proof (induction rule: mgr_step.induct)
  case (m_upsert m r m')
  then show ?case using Upsert_engine by blast
next
  case (m_remove m i)
  then show ?case by (auto simp: Manager_Remove_def intro!: step_remove)
next
  case (m_publish m now nt v m')
  then show ?case by (auto simp: Publish_def Let_def)
next
  case (m_rollback m k m')
  then show ?case
    by (auto simp: Rollback_def intro!: step_replace [OF surjective_pairing] split: option.splits)
qed

inductive mgr_reach :: "('e, 'c, 'q) Backend \<Rightarrow> ('e, 'c, 'q) Manager \<Rightarrow> bool" for b where
  mgr_new: "engine_reach b e \<Longrightarrow> mgr_reach b (NewManager e)"
| mgr_more: "mgr_reach b m \<Longrightarrow> mgr_step m m' \<Longrightarrow> mgr_reach b m'"

lemma engine_reach_steps: "engine_step\<^sup>*\<^sup>* e e' \<Longrightarrow> engine_reach b e \<Longrightarrow> engine_reach b e'"
  by (induction rule: rtranclp_induct) (auto intro: reach_step)

lemma mgr_reach_inv: "mgr_reach b m \<Longrightarrow> mgr_inv m \<and> engine_reach b (eng m) \<and> backend (eng m) = b"
proof (induction rule: mgr_reach.induct)
  case (mgr_new e)
  then show ?case
    using NewManager_inv [of e] engine_reach_wf [OF mgr_new] by (simp add: NewManager_def)
next
  case (mgr_more m m')
  then show ?case
    using mgr_step_inv [OF mgr_more(2)] engine_reach_steps [OF mgr_step_engine [OF mgr_more(2)]] by simp
qed

lemma mgr_reach_steps: "mgr_step\<^sup>*\<^sup>* m m' \<Longrightarrow> mgr_reach b m \<Longrightarrow> mgr_reach b m'"
  by (induction rule: rtranclp_induct) (auto intro: mgr_more)

section \<open>The abstract rule book\<close>

text \<open>
  The specification of the layer: a rule set is a list of rules with distinct ids, and the rules
  that apply to a user are the enabled ones whose text holds, by descending priority.
\<close>

definition rule_prio :: "Rule \<Rightarrow> rule_key" where
  "rule_prio r = RuleKey (rPriority r) (rID r)"

definition applicable :: "(string \<Rightarrow> row \<Rightarrow> bool) \<Rightarrow> Rule list \<Rightarrow> row \<Rightarrow> int list" where
  "applicable sem rules fs =
    map rID (filter (\<lambda>r. rEnabled r \<and> sem (rExpr r) fs) (sort_key rule_prio rules))"

definition the_program :: "('e, 'c, 'q) Backend \<Rightarrow> Rule \<Rightarrow> 'q Plan RuleProgram" where
  "the_program b r = the (compiled b r)"

lemma the_program_fields:
  "compiles b r \<Longrightarrow> prog_key (the_program b r) = rule_prio r \<and> pID (the_program b r) = rID r \<and>
    pSource (the_program b r) = rExpr r \<and> compiled b r = Some (the_program b r)"
  using compiles_compiled [of b r]
  by (auto simp: the_program_def prog_key_def rule_prio_def program_of_def)

lemma rules_lookup:
  assumes "rules_wf b (m_rules m)"
  shows "map_of (m_rules m) i = Some r \<longleftrightarrow> r \<in> set (Manager_List m) \<and> rID r = i"
proof -
  have ids: "j = rID r" if "(j, r) \<in> set (m_rules m)" for j r
    using assms that unfolding rules_wf_def by fastforce
  have "distinct (map fst (m_rules m))" using assms by (simp add: rules_wf_def)
  then have "map_of (m_rules m) i = Some r \<longleftrightarrow> (i, r) \<in> set (m_rules m)" by simp
  also have "\<dots> \<longleftrightarrow> r \<in> snd ` set (m_rules m) \<and> rID r = i" using ids by force
  finally show ?thesis using List_wf [OF assms] by simp
qed

lemma List_prio_sorted:
  assumes "rules_wf b (m_rules m)"
  shows "sorted_wrt (\<lambda>r s. rule_prio r < rule_prio s) (sort_key rule_prio (Manager_List m))"
proof -
  have "distinct (map rID (Manager_List m))" using List_wf [OF assms] by blast
  then have "distinct (map rule_prio (Manager_List m))"
    by (auto simp: distinct_map inj_on_def rule_prio_def)
  then have "distinct (map rule_prio (sort_key rule_prio (Manager_List m)))"
    by (simp add: distinct_map)
  then have "sorted_wrt (<) (map rule_prio (sort_key rule_prio (Manager_List m)))"
    by (metis sorted_sort_key strict_sorted_iff)
  then show ?thesis by (simp add: sorted_wrt_map)
qed

lemma stored_programs:
  assumes "mgr_inv m"
  shows "stored (cache (eng m)) = the_program (backend (eng m)) ` {r \<in> set (Manager_List m). rEnabled r}"
    (is "_ = ?f ` ?R")
proof -
  let ?b = "backend (eng m)"
  have wf: "rules_wf ?b (m_rules m)" and sync: "in_sync m" using assms by (auto simp: mgr_inv_def)
  have ok: "compiles ?b r" if "r \<in> ?R" for r using List_wf [OF wf] that by auto
  show ?thesis
  proof (intro set_eqI iffI)
    fix p assume "p \<in> stored (cache (eng m))"
    then obtain r where r: "map_of (m_rules m) (pID p) = Some r" "compiled ?b r = Some p"
      using sync by (auto simp: stored_def in_sync_def bind_eq_Some_conv)
    have "rEnabled r" using r(2) by (auto simp: compiled_def split: if_splits)
    with r rules_lookup [OF wf] show "p \<in> ?f ` ?R"
      by (intro image_eqI [of _ _ r]) (auto simp: the_program_def)
  next
    fix p assume "p \<in> ?f ` ?R"
    then obtain r where r: "r \<in> ?R" "p = ?f r" by blast
    with the_program_fields [OF ok [OF r(1)]] rules_lookup [OF wf, of "rID r" r] sync
    show "p \<in> stored (cache (eng m))" by (auto simp: stored_def in_sync_def)
  qed
qed

lemma snapshot_programs:
  assumes "mgr_inv m"
  shows "Snapshot (cache (eng m)) =
    map (the_program (backend (eng m))) (filter rEnabled (sort_key rule_prio (Manager_List m)))"
proof (rule strict_key_unique [where key = prog_key])
  let ?b = "backend (eng m)" and ?L = "filter rEnabled (sort_key rule_prio (Manager_List m))"
  have fresh: "cache_fresh (cache (eng m))" and wf: "rules_wf ?b (m_rules m)"
    using assms by (auto simp: mgr_inv_def engine_wf_def)
  show "sorted_wrt (\<lambda>p q. prog_key p < prog_key q) (Snapshot (cache (eng m)))"
    by (rule snapshot_sorted [OF fresh])
  have key: "prog_key (the_program ?b r) = rule_prio r" if "r \<in> set ?L" for r
    using List_wf [OF wf] that the_program_fields [of ?b r] by auto
  have "sorted_wrt (\<lambda>r s. rule_prio r < rule_prio s) ?L"
    by (rule sorted_wrt_filter [OF List_prio_sorted [OF wf]])
  then show "sorted_wrt (\<lambda>p q. prog_key p < prog_key q) (map (the_program ?b) ?L)"
    unfolding sorted_wrt_map by (rule sorted_wrt_mono_rel [rotated]) (simp add: key del: set_filter)
  show "set (Snapshot (cache (eng m))) = set (map (the_program ?b) ?L)"
    using snapshot_set [OF fresh] stored_programs [OF assms] by auto
qed





lemma manager_match:
  assumes "mgr_reach (BytecodeBackend native_Parser) m"
    and "\<forall>r \<in> set (Manager_List m). int (length (rExpr r)) \<le> 500000000"
  shows "Match (eng m) u
    = Some (applicable (parsed_sem native_Parser bytecode_sem) (Manager_List m) (uFields u))"
proof -
  let ?b = "backend (eng m)" and ?sem = "parsed_sem native_Parser bytecode_sem"
  have inv: "mgr_inv m" and reach: "engine_reach (BytecodeBackend native_Parser) (eng m)"
    using mgr_reach_inv [OF assms(1)] by auto
  let ?L = "filter rEnabled (sort_key rule_prio (Manager_List m))"
  have prog: "pID (the_program ?b r) = rID r \<and> pSource (the_program ?b r) = rExpr r"
    if "r \<in> set (Manager_List m)" "rEnabled r" for r
    using inv List_wf [of ?b m] that the_program_fields [of ?b r] by (auto simp: mgr_inv_def)
  have "sources_ok (parsed_ok native_Parser bytecode_ok) (eng m)"
    using assms(2) prog stored_programs [OF inv] native_ok by (auto simp: sources_ok_def)
  from bytecode_matching.match_engine [OF reach this] snapshot_programs [OF inv]
  have "Match (eng m) u = Some (hits ?sem (map (the_program ?b) ?L) u)" by simp
  also have "hits ?sem (map (the_program ?b) ?L) u = applicable ?sem (Manager_List m) (uFields u)"
    using prog by (auto simp: hits_def applicable_def filter_map comp_def conj_commute
        intro!: map_cong filter_cong)
  finally show ?thesis .
qed

section \<open>Properties\<close>

text \<open>C4: The operations layer implements the abstract rule book: after any sequence of edits,
  removals, publications and rollbacks, starting from any reachable engine, matching a user
  returns exactly the enabled rules of \<open>List\<close> whose text holds of the user, by descending priority
  and ascending id (rule texts of at most 500 million bytes).\<close>

theorem Manager_refines_rule_book:
  assumes "mgr_reach (BytecodeBackend native_Parser) m"
    and "\<forall>r \<in> set (Manager_List m). int (length (rExpr r)) \<le> 500000000"
  shows "Match (eng m) u
    = Some (applicable (parsed_sem native_Parser bytecode_sem) (Manager_List m) (uFields u))"
  using assms by (rule manager_match)

definition demo_manager :: "(parse_error be_error, unit, unit) Manager" where
  "demo_manager = NewManager demo_engine"

lemma demo_manager_reach: "mgr_reach (BytecodeBackend native_Parser) demo_manager"
  unfolding demo_manager_def by (rule mgr_new [OF demo_reach])

theorem Manager_refines_rule_book_witness:
  "Match (eng demo_manager) (NewUser 1 [''level'' \<mapsto> AInt 5]) = Some [9, 7]"
proof -
  have "\<forall>r \<in> set (Manager_List demo_manager). int (length (rExpr r)) \<le> 500000000" by code_simp
  note Manager_refines_rule_book [OF demo_manager_reach this, of "NewUser 1 [''level'' \<mapsto> AInt 5]"]
  moreover have "applicable (parsed_sem native_Parser bytecode_sem) (Manager_List demo_manager)
      (uFields (NewUser 1 [''level'' \<mapsto> AInt 5])) = [9, 7]" by code_simp
  ultimately show ?thesis by simp
qed



section \<open>Effect of one edit\<close>

lemma match_loop_ids:
  "match_loop b ctx ps dst = Some ids \<Longrightarrow>
    (\<forall>p \<in> set ps. be_Eval b ctx (AST p) \<noteq> None) \<and>
    ids = dst @ map pID (filter (\<lambda>p. be_Eval b ctx (AST p) = Some True) ps)"
proof (induction ps arbitrary: dst)
  case (Cons p ps)
  then obtain hit where hit: "be_Eval b ctx (AST p) = Some hit"
    and rest: "match_loop b ctx ps (if hit then dst @ [pID p] else dst) = Some ids"
    by (auto split: option.splits)
  from Cons.IH [OF rest] hit show ?case by (cases hit) auto
qed simp

lemma Match_ids:
  assumes "engine_wf e" "Match e u = Some ids"
  shows "i \<in> set ids \<longleftrightarrow> (\<exists>p. cache_Get (cache e) i = Some p \<and>
      be_Eval (backend e) (be_NewContext (backend e) (uFields u)) (AST p) = Some True)"
    and "cache_Get (cache e) i = Some p \<Longrightarrow>
      be_Eval (backend e) (be_NewContext (backend e) (uFields u)) (AST p) \<noteq> None"
proof -
  have fresh: "cache_fresh (cache e)" using assms(1) by (simp add: engine_wf_def)
  have snap: "p \<in> set (Snapshot (cache e)) \<longleftrightarrow> cache_Get (cache e) (pID p) = Some p" for p
    using snapshot_set [OF fresh] by (simp add: stored_def)
  have id: "pID p = i" if "cache_Get (cache e) i = Some p" for i p
    using fresh that by (auto simp: cache_fresh_def cache_wf_def cache_Get_def list_all_iff dest: map_of_SomeD)
  note loop = match_loop_ids [OF assms(2) [unfolded Match_def matchInto_def]]
  show "i \<in> set ids \<longleftrightarrow> (\<exists>p. cache_Get (cache e) i = Some p \<and>
      be_Eval (backend e) (be_NewContext (backend e) (uFields u)) (AST p) = Some True)"
    using loop snap id by auto
  show "cache_Get (cache e) i = Some p \<Longrightarrow>
      be_Eval (backend e) (be_NewContext (backend e) (uFields u)) (AST p) \<noteq> None"
    using loop snap id by auto
qed

lemma Upsert_get:
  assumes "Upsert m r = Inr m'" "rEnabled r"
  obtains ast where "be_Compile (backend (eng m)) (rExpr r) = Inr ast" "backend (eng m') = backend (eng m)"
    "\<And>i. cache_Get (cache (eng m')) i = (if i = rID r then Some (program_of (upsert_read m r) ast)
      else cache_Get (cache (eng m)) i)"
  using assms(1)
proof (cases rule: Upsert_cases)
  case (on ast)
  show thesis
  proof (rule that [OF on(2)])
    show "backend (eng m') = backend (eng m)" by (subst on(5)) simp
    show "cache_Get (cache (eng m')) i = (if i = rID r then Some (program_of (upsert_read m r) ast)
        else cache_Get (cache (eng m)) i)" for i
      by (subst on(5)) (simp add: Get_Put program_of_def)
  qed
qed (use assms(2) in simp)

text \<open>The \<open>Test\<close> button predicts the live engine: when an enabled rule is saved, a user matches
  it exactly when \<open>Test\<close> had returned true for the rule's text and the user's fields, and the save
  changes the result for no other rule.\<close>

theorem Test_predicts_Match:
  assumes "mgr_reach b m" "Upsert m r = Inr m'" "rEnabled r"
    and "Match (eng m) u = Some before" "Match (eng m') u = Some after"
  shows "Manager_Test m (rExpr r) (uFields u) = Some (Inr (rID r \<in> set after)) \<and>
    set after - {rID r} = set before - {rID r}"
proof -
  have inv: "mgr_inv m" using mgr_reach_inv [OF assms(1)] by simp
  then have wf: "engine_wf (eng m)" "engine_wf (eng m')"
    using Upsert_inv [OF _ assms(2)] by (auto simp: mgr_inv_def)
  obtain ast where c: "be_Compile (backend (eng m)) (rExpr r) = Inr ast"
    and b: "backend (eng m') = backend (eng m)"
    and get: "\<And>i. cache_Get (cache (eng m')) i = (if i = rID r then Some (program_of (upsert_read m r) ast)
      else cache_Get (cache (eng m)) i)"
    using Upsert_get [OF assms(2,3)] by blast
  note new = Match_ids [OF wf(2) assms(5), unfolded b get]
  have "i \<in> set after \<longleftrightarrow> i \<in> set before" if "i \<noteq> rID r" for i
    using new(1) [of i] Match_ids(1) [OF wf(1) assms(4), of i] that by simp
  moreover have "Manager_Test m (rExpr r) (uFields u) = Some (Inr (rID r \<in> set after))"
    using new(1) [of "rID r"] new(2) [of "rID r"] c by (auto simp: Manager_Test_def program_of_def)
  ultimately show ?thesis by blast
qed

definition demo_edit :: Rule where
  "demo_edit = \<lparr>rName = ''low'', rExpr = ''level < 9'', rID = 4, rPriority = 2, rVersion = 0, rEnabled = True\<rparr>"

theorem Test_predicts_Match_witness:
  "\<exists>m' after. Upsert demo_manager demo_edit = Inr m' \<and>
    Match (eng m') (NewUser 1 [''level'' \<mapsto> AInt 5]) = Some after \<and> 4 \<in> set after \<and>
    Manager_Test demo_manager ''level < 9'' [''level'' \<mapsto> AInt 5] = Some (Inr (4 \<in> set after)) \<and>
    set after - {4} = {7, 9}"
proof -
  let ?u = "NewUser 1 [''level'' \<mapsto> AInt 5]"
  have "case Upsert demo_manager demo_edit of Inr m' \<Rightarrow> Match (eng m') ?u = Some [9, 4, 7] | Inl _ \<Rightarrow> False"
    by code_simp
  then obtain m' where m': "Upsert demo_manager demo_edit = Inr m'" "Match (eng m') ?u = Some [9, 4, 7]"
    by (auto split: sum.splits)
  have "Match (eng demo_manager) ?u = Some [9, 7]" by code_simp
  from Test_predicts_Match [OF demo_manager_reach m'(1) _ this m'(2)] m'
  show ?thesis by (intro exI [of _ m'] exI [of _ "[9, 4, 7]"]) (auto simp: demo_edit_def NewUser_def)
qed

section \<open>Two edits at the same time\<close>

text \<open>
  Each \<open>Upsert\<close> is a goroutine; the lock covers its first and its last phase, not the whole call.
\<close>

datatype upsert_pc = U_Start Rule | U_Read Rule | U_Applied Rule | U_Done

inductive conc_step ::
  "('e, 'c, 'q) Manager \<times> upsert_pc list \<Rightarrow> ('e, 'c, 'q) Manager \<times> upsert_pc list \<Rightarrow> bool" where
  c_read: "i < length ts \<Longrightarrow> ts ! i = U_Start r \<Longrightarrow> rID r \<noteq> 0 \<Longrightarrow>
    conc_step (m, ts) (m, ts[i := U_Read (upsert_read m r)])"
| c_apply: "i < length ts \<Longrightarrow> ts ! i = U_Read r \<Longrightarrow> upsert_apply m r = Inr m' \<Longrightarrow>
    conc_step (m, ts) (m', ts[i := U_Applied r])"
| c_store: "i < length ts \<Longrightarrow> ts ! i = U_Applied r \<Longrightarrow>
    conc_step (m, ts) (upsert_store m r, ts[i := U_Done])"

definition race_a :: Rule where
  "race_a = \<lparr>rName = ''a'', rExpr = ''level > 8'', rID = 4, rPriority = 2, rVersion = 0, rEnabled = True\<rparr>"

definition race_b :: Rule where
  "race_b = \<lparr>rName = ''b'', rExpr = ''level < 9'', rID = 4, rPriority = 2, rVersion = 0, rEnabled = True\<rparr>"

definition race_end :: "(parse_error be_error, unit, unit) Manager" where
  "race_end = (let a = upsert_read demo_manager race_a; b = upsert_read demo_manager race_b in
    case upsert_apply demo_manager a of
      Inl _ \<Rightarrow> demo_manager
    | Inr m1 \<Rightarrow> (case upsert_apply m1 b of
        Inl _ \<Rightarrow> demo_manager
      | Inr m2 \<Rightarrow> upsert_store (upsert_store m2 b) a))"

lemma race_reachable:
  "conc_step\<^sup>*\<^sup>* (demo_manager, [U_Start race_a, U_Start race_b]) (race_end, [U_Done, U_Done])"
proof -
  let ?a = "upsert_read demo_manager race_a" and ?b = "upsert_read demo_manager race_b"
  have "case upsert_apply demo_manager ?a of Inl _ \<Rightarrow> False | Inr m1 \<Rightarrow>
      (case upsert_apply m1 ?b of Inl _ \<Rightarrow> False | Inr m2 \<Rightarrow> True)" by code_simp
  then obtain m1 m2 where m: "upsert_apply demo_manager ?a = Inr m1" "upsert_apply m1 ?b = Inr m2"
    by (auto split: sum.splits)
  have "conc_step (demo_manager, [U_Start race_a, U_Start race_b]) (demo_manager, [U_Read ?a, U_Start race_b])"
    using c_read [of 0 "[U_Start race_a, U_Start race_b]" race_a] by (simp add: race_a_def)
  moreover have "conc_step (demo_manager, [U_Read ?a, U_Start race_b]) (demo_manager, [U_Read ?a, U_Read ?b])"
    using c_read [of 1 "[U_Read ?a, U_Start race_b]" race_b] by (simp add: race_b_def)
  moreover have "conc_step (demo_manager, [U_Read ?a, U_Read ?b]) (m1, [U_Applied ?a, U_Read ?b])"
    using c_apply [of 0 "[U_Read ?a, U_Read ?b]" ?a, OF _ _ m(1)] by simp
  moreover have "conc_step (m1, [U_Applied ?a, U_Read ?b]) (m2, [U_Applied ?a, U_Applied ?b])"
    using c_apply [of 1 "[U_Applied ?a, U_Read ?b]" ?b, OF _ _ m(2)] by simp
  moreover have "conc_step (m2, [U_Applied ?a, U_Applied ?b]) (upsert_store m2 ?b, [U_Applied ?a, U_Done])"
    using c_store [of 1 "[U_Applied ?a, U_Applied ?b]" ?b m2] by simp
  moreover have "conc_step (upsert_store m2 ?b, [U_Applied ?a, U_Done]) (race_end, [U_Done, U_Done])"
    using c_store [of 0 "[U_Applied ?a, U_Done]" ?a "upsert_store m2 ?b"] m
    by (simp add: race_end_def Let_def)
  ultimately show ?thesis by (meson converse_rtranclp_into_rtranclp rtranclp.rtrancl_refl)
qed

text \<open>C37: Two edits of one rule at the same time can leave the editable set and the live engine
  apart: an interleaving of two \<open>Upsert\<close> calls ends with both calls successful and both edits
  numbered version 1, \<open>List\<close> showing the first edit and \<open>Match\<close> using the second one.\<close>

theorem Upsert_race:
  "conc_step\<^sup>*\<^sup>* (demo_manager, [U_Start race_a, U_Start race_b]) (race_end, [U_Done, U_Done]) \<and>
   \<not> in_sync race_end \<and>
   map_of (m_rules race_end) 4 = Some (race_a\<lparr>rVersion := 1\<rparr>) \<and>
   map_option pSource (cache_Get (cache (eng race_end)) 4) = Some (rExpr race_b) \<and>
   Match (eng race_end) (NewUser 1 [''level'' \<mapsto> AInt 5]) = Some [9, 4, 7] \<and>
   Manager_Test race_end (rExpr race_a) [''level'' \<mapsto> AInt 5] = Some (Inr False)"
proof -
  have list: "map_of (m_rules race_end) 4 = Some (race_a\<lparr>rVersion := 1\<rparr>)" by code_simp
  have live: "map_option pSource (cache_Get (cache (eng race_end)) 4) = Some (rExpr race_b)" by code_simp
  have "\<not> in_sync race_end"
  proof
    assume "in_sync race_end"
    with live have "map_option pSource (compiled (backend (eng race_end)) (race_a\<lparr>rVersion := 1\<rparr>))
        = Some (rExpr race_b)"
      by (simp add: in_sync_def list)
    then show False
      by (auto simp: compiled_def race_a_def race_b_def program_of_def split: sum.splits)
  qed
  moreover have "Match (eng race_end) (NewUser 1 [''level'' \<mapsto> AInt 5]) = Some [9, 4, 7]"
    "Manager_Test race_end (rExpr race_a) [''level'' \<mapsto> AInt 5] = Some (Inr False)" by code_simp+
  ultimately show ?thesis using race_reachable list live by blast
qed

end
