(* ===== verification/Loading.thy ===== *)
theory Loading
  imports Engine
begin

text \<open>
  Rules and users from files and typed records, and the hot reload of a rules file:
  \<^verbatim>\<open>pkg/engine/loader.go\<close>, \<^verbatim>\<open>pkg/engine/structinput.go\<close> and \<^verbatim>\<open>pkg/engine/reload.go\<close>. Reading a file gives
  its bytes or an error, decoding is the argument \<open>decode\<close>, the function \<open>json.Unmarshal\<close> at the
  target type; the watcher gets, for every tick of its timer, what \<open>os.Stat\<close> and the loader would
  return at that moment.
\<close>

section \<open>pkg/engine/loader.go\<close>

datatype load_error = ReadError string | DecodeError string

definition LoadRules :: "(string \<Rightarrow> string + Rule list) \<Rightarrow> string + string \<Rightarrow> load_error + Rule list" where
  "LoadRules decode file =
    (case file of
       Inl err \<Rightarrow> Inl (ReadError err)
     | Inr raw \<Rightarrow> (case decode raw of Inl err \<Rightarrow> Inl (DecodeError err) | Inr rules \<Rightarrow> Inr rules))"

text \<open>The loop that fills in missing user ids; \<open>i\<close> is the index of the first user of the list.\<close>

fun backfill :: "nat \<Rightarrow> User list \<Rightarrow> User list" where
  "backfill i [] = []"
| "backfill i (u # us) = (if UID u = 0 then u\<lparr>UID := wrap64 (int i + 1)\<rparr> else u) # backfill (Suc i) us"

definition LoadUsers :: "(string \<Rightarrow> string + User list) \<Rightarrow> string + string \<Rightarrow> load_error + User list" where
  "LoadUsers decode file =
    (case file of
       Inl err \<Rightarrow> Inl (ReadError err)
     | Inr raw \<Rightarrow>
         (case decode raw of Inl err \<Rightarrow> Inl (DecodeError err) | Inr users \<Rightarrow> Inr (backfill 0 users)))"

section \<open>pkg/engine/structinput.go\<close>

datatype struct_error = MarshalError string | UnmarshalError string | AtIndex nat struct_error

definition zero_user :: User where
  "zero_user = \<lparr>uFields = Map.empty, UID = 0\<rparr>"

definition UserFromStruct ::
  "(float64 \<Rightarrow> int) \<Rightarrow> ('v \<Rightarrow> string + string) \<Rightarrow> (string \<Rightarrow> string + row) \<Rightarrow> 'v \<Rightarrow> struct_error + User" where
  "UserFromStruct oor marshal decode v =
    (case marshal v of
       Inl err \<Rightarrow> Inl (MarshalError err)
     | Inr b \<Rightarrow>
         (case User_UnmarshalJSON oor zero_user (decode b) of
            Inl err \<Rightarrow> Inl (UnmarshalError err)
          | Inr u \<Rightarrow> Inr u))"

fun users_from ::
  "('v \<Rightarrow> struct_error + User) \<Rightarrow> nat \<Rightarrow> 'v list \<Rightarrow> struct_error + User list" where
  "users_from f i [] = Inr []"
| "users_from f i (v # vs) =
    (case f v of
       Inl err \<Rightarrow> Inl (AtIndex i err)
     | Inr u \<Rightarrow> bind_res (users_from f (Suc i) vs) (\<lambda>us. Inr (u # us)))"

definition UsersFromStructs ::
  "(float64 \<Rightarrow> int) \<Rightarrow> ('v \<Rightarrow> string + string) \<Rightarrow> (string \<Rightarrow> string + row) \<Rightarrow> 'v list \<Rightarrow> struct_error + User list" where
  "UsersFromStructs oor marshal decode items = users_from (UserFromStruct oor marshal decode) 0 items"

section \<open>pkg/engine/reload.go\<close>

text \<open>Times are nanoseconds; the zero value of \<open>time.Time\<close> is the first instant of the year 1. Of the
  callback the watcher records whether there is one; \<open>OnReload\<close> may set it to nil.\<close>

definition zero_time :: int where
  "zero_time = -62135596800000000000"

record ('e, 'c, 'q) Watcher =
  w_last :: int
  w_eng :: "('e, 'c, 'q) Engine"
  w_interval :: int
  w_onReload :: bool

definition NewWatcher :: "('e, 'c, 'q) Engine \<Rightarrow> int \<Rightarrow> ('e, 'c, 'q) Watcher" where
  "NewWatcher e interval = \<lparr>w_last = zero_time, w_eng = e,
    w_interval = (if interval \<le> 0 then 2000000000 else interval), w_onReload = True\<rparr>"

definition OnReload :: "('e, 'c, 'q) Watcher \<Rightarrow> bool \<Rightarrow> ('e, 'c, 'q) Watcher" where
  "OnReload w fn = w\<lparr>w_onReload := fn\<rparr>"

text \<open>
  What a tick finds: the modification time, or none when \<open>Stat\<close> fails, and what loading the file
  would return. \<open>checkOnce\<close> also returns the arguments of the callback, when it is called.
\<close>

type_synonym 'f observed = "int option \<times> ('f + Rule list)"

definition checkOnce ::
  "('e, 'c, 'q) Watcher \<Rightarrow> 'f observed \<Rightarrow> ('f + nat \<times> nat) list \<times> ('e, 'c, 'q) Watcher" where
  "checkOnce w obs =
    (case fst obs of
       None \<Rightarrow> ([], w)
     | Some mtime \<Rightarrow>
         if \<not> w_last w < mtime then ([], w)
         else let (result, e') = ReloadFromFile (w_eng w) (snd obs)
           in (if w_onReload w then [result] else [], w\<lparr>w_last := mtime, w_eng := e'\<rparr>))"

fun ticks ::
  "('e, 'c, 'q) Watcher \<Rightarrow> 'f observed list \<Rightarrow> ('f + nat \<times> nat) list \<times> ('e, 'c, 'q) Watcher" where
  "ticks w [] = ([], w)"
| "ticks w (obs # later) =
    (let (calls, w') = checkOnce w obs; (more, w'') = ticks w' later in (calls @ more, w''))"

text \<open>\<open>Run\<close> until the context is cancelled: the first \<open>Stat\<close> and then one check per tick.\<close>

definition Watcher_Run ::
  "('e, 'c, 'q) Watcher \<Rightarrow> int option \<Rightarrow> 'f observed list \<Rightarrow> ('f + nat \<times> nat) list \<times> ('e, 'c, 'q) Watcher" where
  "Watcher_Run w stat obs =
    ticks (case stat of None \<Rightarrow> w | Some mtime \<Rightarrow> w\<lparr>w_last := mtime\<rparr>) obs"

section \<open>Lemmas\<close>

text \<open>The files found at a new greatest modification time, in order.\<close>

fun news :: "int \<Rightarrow> 'f observed list \<Rightarrow> ('f + Rule list) list" where
  "news prev [] = []"
| "news prev ((stat, file) # later) =
    (case stat of
       None \<Rightarrow> news prev later
     | Some mtime \<Rightarrow> if prev < mtime then file # news mtime later else news prev later)"

fun reloads :: "('e, 'c, 'q) Engine \<Rightarrow> ('f + Rule list) list \<Rightarrow> ('e, 'c, 'q) Engine" where
  "reloads e [] = e"
| "reloads e (file # files) = reloads (snd (ReloadFromFile e file)) files"

lemma ticks_news:
  "w_eng (snd (ticks w obs)) = reloads (w_eng w) (news (w_last w) obs) \<and>
    length (fst (ticks w obs)) = (if w_onReload w then length (news (w_last w) obs) else 0) \<and>
    w_last (snd (ticks w obs)) = foldl max (w_last w) (List.map_filter fst obs)"
proof (induction obs arbitrary: w)
  case (Cons ob obs)
  obtain stat f where ob: "ob = (stat, f)" by (cases ob)
  show ?case
  proof (cases stat)
    case None
    then show ?thesis using Cons by (simp add: ob checkOnce_def split_def map_filter_simps)
  next
    case (Some mtime)
    then show ?thesis
      using Cons by (cases "w_last w < mtime")
        (auto simp: ob checkOnce_def split_def Let_def map_filter_simps max_def)
  qed
qed (simp add: map_filter_simps)

definition ok_files :: "('f + Rule list) list \<Rightarrow> Rule list list" where
  "ok_files files = List.map_filter (\<lambda>f. case f of Inr rules \<Rightarrow> Some rules | Inl _ \<Rightarrow> None) files"

lemma ok_files_simps [simp]:
  "ok_files [] = []" "ok_files (Inl e # fs) = ok_files fs" "ok_files (Inr rules # fs) = rules # ok_files fs"
  by (simp_all add: ok_files_def map_filter_simps)

lemma reloads_none: "ok_files files = [] \<Longrightarrow> reloads e files = e"
  by (induction files) (auto simp: ReloadFromFile_def ok_files_def map_filter_simps split: sum.splits)

lemma reloads_last:
  "ok_files files \<noteq> [] \<Longrightarrow>
    \<exists>e'. backend e' = backend e \<and> reloads e files = snd (ReplaceRules e' (last (ok_files files)))"
proof (induction files arbitrary: e)
  case (Cons f fs)
  show ?case
  proof (cases f)
    case (Inl err)
    then show ?thesis using Cons by (simp add: ReloadFromFile_def)
  next
    case (Inr rules)
    let ?e = "snd (ReplaceRules e rules)"
    have b: "backend ?e = backend e" by (simp add: ReplaceRules_def Let_def split_def)
    have r: "reloads e (f # fs) = reloads ?e fs" using Inr by (simp add: ReloadFromFile_def split_def Let_def)
    show ?thesis
    proof (cases "ok_files fs = []")
      case True
      then show ?thesis using Inr r reloads_none by auto
    next
      case False
      then show ?thesis using Cons.IH [OF False, of ?e] b Inr r by auto
    qed
  qed
qed simp

lemma backfill_nth:
  "length (backfill i us) = length us \<and>
    (\<forall>k < length us. backfill i us ! k = (if UID (us ! k) = 0 then (us ! k)\<lparr>UID := wrap64 (int (i + k) + 1)\<rparr> else us ! k))"
  by (induction us arbitrary: i) (auto simp: nth_Cons' less_Suc_eq_0_disj)

lemma replace_any_engine:
  "backend e = backend e' \<Longrightarrow> Match (snd (ReplaceRules e rules)) u = Match (snd (ReplaceRules e' rules)) u"
  using store.snap_by_get [OF ReplaceAll_fresh ReplaceAll_fresh,
      of "cache e" "fst (engine_compile (backend e) rules)" "cache e'" "fst (engine_compile (backend e) rules)"]
  by (simp add: ReplaceRules_def Let_def split_def Match_def matchInto_def Get_ReplaceAll)

section \<open>Properties\<close>

text \<open>C33: What the watcher does to the engine. Over any sequence of ticks the file is loaded exactly
  at the ticks that find a modification time later than every one seen before, the callback, if one
  is set, runs once per load, and afterwards every user matches as in a fresh engine with the rules of the last
  load that succeeded, or as before when none did; failed loads and missing files leave the engine
  alone.\<close>

theorem Watcher_effect:
  fixes w :: "('e, 'c, 'q) Watcher" and obs :: "'f observed list" and stat :: "int option"
  defines "start \<equiv> (case stat of None \<Rightarrow> w_last w | Some mtime \<Rightarrow> mtime)"
    and "out \<equiv> Watcher_Run w stat obs"
  shows "length (fst out) = (if w_onReload w then length (news start obs) else 0) \<and>
    w_last (snd out) = foldl max start (List.map_filter fst obs) \<and>
    Match (w_eng (snd out)) u =
      (if ok_files (news start obs) = [] then Match (w_eng w) u
       else Match (snd (ReplaceRules (NewWithBackend (backend (w_eng w))) (last (ok_files (news start obs))))) u)"
proof -
  let ?w = "case stat of None \<Rightarrow> w | Some mtime \<Rightarrow> w\<lparr>w_last := mtime\<rparr>"
  have w: "w_last ?w = start" "w_eng ?w = w_eng w" "w_onReload ?w = w_onReload w" by (auto simp: start_def split: option.split)
  note t = ticks_news [of ?w obs, unfolded w]
  have "Match (reloads (w_eng w) (news start obs)) u =
      (if ok_files (news start obs) = [] then Match (w_eng w) u
       else Match (snd (ReplaceRules (NewWithBackend (backend (w_eng w))) (last (ok_files (news start obs))))) u)"
  proof (cases "ok_files (news start obs) = []")
    case False
    then obtain e' where e': "backend e' = backend (w_eng w)"
        "reloads (w_eng w) (news start obs) = snd (ReplaceRules e' (last (ok_files (news start obs))))"
      using reloads_last by blast
    have "backend e' = backend (NewWithBackend (backend (w_eng w)) :: ('e, 'c, 'q) Engine)"
      using e'(1) by (simp add: NewWithBackend_def)
    from replace_any_engine [OF this] e'(2) False show ?thesis by simp
  qed (simp add: reloads_none)
  then show ?thesis using t unfolding out_def Watcher_Run_def by simp
qed

text \<open>A modification time that goes back, as after restoring an older copy of the file, is not a
  change for the watcher, and a load that failed is not tried again until the time moves on: after
  such a tick the engine keeps its old rules however often the timer ticks.\<close>

theorem Watcher_misses:
  fixes w :: "('e, 'c, 'q) Watcher" and err :: 'f and rules :: "Rule list"
  assumes "mtime \<le> w_last w" "w_last w < later"
  shows "ticks w (replicate n (Some mtime, Inr rules :: 'f + Rule list)) = ([], w) \<and>
    w_eng (snd (ticks w ((Some later, Inl err) # replicate n (Some later, Inr rules)))) = w_eng w"
proof -
  have still: "ticks v (replicate n (Some m, Inr rules :: 'f + Rule list)) = ([], v)"
    if "m \<le> w_last v" for v :: "('e, 'c, 'q) Watcher" and m
    using that by (induction n) (auto simp: checkOnce_def)
  show ?thesis
    using assms by (simp add: still checkOnce_def ReloadFromFile_def)
qed

theorem Watcher_misses_witness:
  "ticks \<lparr>w_last = 9, w_eng = demo_engine, w_interval = 1, w_onReload = True\<rparr> (replicate 5 (Some 3, Inr [] :: string + Rule list)) =
     ([], \<lparr>w_last = 9, w_eng = demo_engine, w_interval = 1, w_onReload = True\<rparr>) \<and>
   w_eng (snd (ticks \<lparr>w_last = 9, w_eng = demo_engine, w_interval = 1, w_onReload = True\<rparr>
     ((Some 10, Inl ''eof'') # replicate 5 (Some 10, Inr [])))) = demo_engine"
  using Watcher_misses [of 3 "\<lparr>w_last = 9, w_eng = demo_engine, w_interval = 1, w_onReload = True\<rparr>" 10 5 "[]" "''eof''"] by simp

section \<open>Writing rules and users\<close>

datatype save_error = EncodeError string | WriteError string

text \<open>The encoder and \<open>os.WriteFile\<close>, which changes the files even when it fails, are arguments.\<close>

definition writeJSON ::
  "('v \<Rightarrow> string + string) \<Rightarrow> (string \<Rightarrow> string \<Rightarrow> 'fs \<Rightarrow> string option \<times> 'fs) \<Rightarrow> string \<Rightarrow> 'v \<Rightarrow> 'fs \<Rightarrow> save_error option \<times> 'fs" where
  "writeJSON MarshalIndent WriteFile path v fs =
    (case MarshalIndent v of Inl err \<Rightarrow> (Some (EncodeError err), fs)
     | Inr raw \<Rightarrow> (case WriteFile path raw fs of (Some err, fs) \<Rightarrow> (Some (WriteError err), fs) | (None, fs) \<Rightarrow> (None, fs)))"

definition SaveRules ::
  "(Rule list \<Rightarrow> string + string) \<Rightarrow> (string \<Rightarrow> string \<Rightarrow> 'fs \<Rightarrow> string option \<times> 'fs) \<Rightarrow> string \<Rightarrow> Rule list \<Rightarrow> 'fs \<Rightarrow> save_error option \<times> 'fs" where
  "SaveRules = writeJSON"

definition SaveUsers ::
  "(User list \<Rightarrow> string + string) \<Rightarrow> (string \<Rightarrow> string \<Rightarrow> 'fs \<Rightarrow> string option \<times> 'fs) \<Rightarrow> string \<Rightarrow> User list \<Rightarrow> 'fs \<Rightarrow> save_error option \<times> 'fs" where
  "SaveUsers = writeJSON"

lemma backfill_id: "\<forall>u \<in> set us. UID u \<noteq> 0 \<Longrightarrow> backfill i us = us"
  by (induction us arbitrary: i) auto

text \<open>Where the decoder inverts the encoder and a written file reads back, saved rules are loaded as they were,
  and so are users that all have an id.\<close>

theorem save_load:
  assumes "\<And>v raw. enc v = Inr raw \<Longrightarrow> dec raw = Inr v" "\<And>v raw. encU v = Inr raw \<Longrightarrow> decU raw = Inr v"
    and "\<And>path raw fs fs'. WriteFile path raw fs = (None, fs') \<Longrightarrow> ReadFile fs' path = Inr raw"
  shows "SaveRules enc WriteFile path rules fs = (None, fs') \<Longrightarrow> LoadRules dec (ReadFile fs' path) = Inr rules"
    and "SaveUsers encU WriteFile path users fs = (None, fs') \<Longrightarrow> LoadUsers decU (ReadFile fs' path) = Inr (backfill 0 users)"
    and "SaveUsers encU WriteFile path users fs = (None, fs') \<Longrightarrow> \<forall>u \<in> set users. UID u \<noteq> 0 \<Longrightarrow>
      LoadUsers decU (ReadFile fs' path) = Inr users"
  using assms
  by (auto simp: SaveRules_def SaveUsers_def writeJSON_def LoadRules_def LoadUsers_def backfill_id split: sum.splits prod.splits option.splits)

end
