(* ===== verification/Service.thy ===== *)
theory Service
  imports Manager Loading AST_Runtime
begin

text \<open>
  The business layer: \<^verbatim>\<open>internal/service/rule_service.go\<close> over the container of
  \<^verbatim>\<open>internal/infra/manager.go\<close> and the repositories of \<^verbatim>\<open>internal/repository/rule_repository.go\<close>. The
  container's fields \<open>Engine\<close> and \<open>Manager\<close> share one engine, which is the field \<open>eng\<close> of the
  manager's record. The text of a parser error (its method \<open>Error\<close>) is an argument, since it only
  ends up in a message.

  Shown: what \<open>EvaluateAll\<close> reports and when it agrees with \<open>Match\<close>; that \<open>SelfTest\<close> leaves no
  trace when its rule id is unused, and deletes a rule that has this id; what publishing and
  rolling back do to rules that were loaded at start-up.
\<close>

section \<open>internal/repository/rule_repository.go\<close>

definition DefaultRulesPath :: string where
  "DefaultRulesPath = ''data/rules.json''"

datatype RuleRepository = FileRuleRepository string | DBRuleRepository

datatype repo_error = RepoLoad load_error | RepoNotImplemented

definition NewFileRuleRepository :: "string \<Rightarrow> RuleRepository" where
  "NewFileRuleRepository path = FileRuleRepository (if path = '''' then DefaultRulesPath else path)"

text \<open>\<open>read\<close> is \<open>os.ReadFile\<close>, \<open>decode\<close> is \<open>json.Unmarshal\<close> at a slice of rules.\<close>

definition repository_Load ::
  "(string \<Rightarrow> string + string) \<Rightarrow> (string \<Rightarrow> string + Rule list) \<Rightarrow> RuleRepository \<Rightarrow> repo_error + Rule list" where
  "repository_Load read decode r =
    (case r of
       FileRuleRepository path \<Rightarrow>
         (case LoadRules decode (read path) of Inl err \<Rightarrow> Inl (RepoLoad err) | Inr rules \<Rightarrow> Inr rules)
     | DBRuleRepository \<Rightarrow> Inl RepoNotImplemented)"

section \<open>internal/infra/manager.go\<close>

record ('e, 'c, 'q) ComManager =
  com_Manager :: "('e, 'c, 'q) Manager"
  com_RuleRepository :: RuleRepository

abbreviation com_Engine :: "('e, 'c, 'q) ComManager \<Rightarrow> ('e, 'c, 'q) Engine" where
  "com_Engine s \<equiv> eng (com_Manager s)"

definition NativeFrontend :: "parse_error Parser" where
  "NativeFrontend = \<lparr>parser_Name = ''native-sql'', parser_Parse = Parse\<rparr>"

definition NewComManagerWithEngine :: "('e, 'c, 'q) Engine \<Rightarrow> ('e, 'c, 'q) ComManager" where
  "NewComManagerWithEngine e = \<lparr>com_Manager = NewManager e,
    com_RuleRepository = NewFileRuleRepository DefaultRulesPath\<rparr>"

definition NewComManager :: "(parse_error be_error, 'c, 'q) ComManager" where
  "NewComManager = (let e = NewWithBackend (BytecodeBackend NativeFrontend) in
    \<lparr>com_Manager = NewManager e, com_RuleRepository = NewFileRuleRepository DefaultRulesPath\<rparr>)"

definition WireOracle :: "('e, 'c, 'q) ComManager \<Rightarrow> ('e, 'c, 'q) ComManager" where
  "WireOracle m = m\<lparr>com_RuleRepository := DBRuleRepository\<rparr>"

section \<open>internal/service/rule_service.go: loading, scoring, delegation\<close>

definition flagshipRule :: string where
  "flagshipRule =
    ''age BETWEEN 25 AND 40 '' @
    ''AND province IN ('' @ [squote, CHR 0xE5, CHR 0xB9, CHR 0xBF, CHR 0xE4, CHR 0xB8, CHR 0x9C,
      squote] @ '','' @ [squote, CHR 0xE6, CHR 0xB1, CHR 0x9F, CHR 0xE8, CHR 0x8B, CHR 0x8F,
      squote] @ '','' @ [squote, CHR 0xE6, CHR 0xB5, CHR 0x99, CHR 0xE6, CHR 0xB1, CHR 0x9F,
      squote] @ '') '' @
    ''AND income_level NOT IN ('' @ [squote] @ ''<5k'' @ [squote] @ '','' @ [squote] @
      ''5k-10k'' @ [squote] @ '') '' @
    ''AND favorite_category LIKE '' @ [squote, CHR 0xE6, CHR 0x95, CHR 0xB0] @ ''%'' @ [squote] @
      '' '' @
    ''AND occupation NOT LIKE '' @ [squote] @ ''%'' @ [CHR 0xE5, CHR 0xAD, CHR 0xA6, CHR 0xE7,
      CHR 0x94, CHR 0x9F] @ ''%'' @ [squote] @ '' '' @
    ''AND active_score >= 85 '' @
    ''AND credit_score BETWEEN 700 AND 850 '' @
    ''AND total_amount > 5000 '' @
    ''AND avg_order_amount <= 1000 '' @
    ''AND last_login_time IS NOT NULL '' @
    ''AND (vip_level >= 3 OR order_count >= 30) '' @
    ''AND NOT (risk_level = '' @ [squote, CHR 0xE9, CHR 0xAB, CHR 0x98, squote] @ '') '' @
    ''AND register_days >= 180 '' @
    ''AND marital_status <> '' @ [squote, CHR 0xE6, CHR 0x9C, CHR 0xAA, CHR 0xE7, CHR 0x9F,
      CHR 0xA5, squote]"

definition selfTestRuleID :: int where
  "selfTestRuleID = 990001"

definition flagshipSampleRow :: row where
  "flagshipSampleRow = [
    ''age'' \<mapsto> AInt 32,
    ''province'' \<mapsto> AString [CHR 0xE6, CHR 0xB1, CHR 0x9F, CHR 0xE8, CHR 0x8B, CHR 0x8F],
    ''income_level'' \<mapsto> AString ''20k-30k'',
    ''favorite_category'' \<mapsto> AString [CHR 0xE6, CHR 0x95, CHR 0xB0, CHR 0xE7, CHR 0xA0,
      CHR 0x81],
    ''occupation'' \<mapsto> AString [CHR 0xE5, CHR 0xB7, CHR 0xA5, CHR 0xE7, CHR 0xA8, CHR 0x8B,
      CHR 0xE5, CHR 0xB8, CHR 0x88],
    ''active_score'' \<mapsto> AFloat64 (Fin False 6368371348078592 (- 46)),
    ''credit_score'' \<mapsto> AInt 760,
    ''total_amount'' \<mapsto> AFloat64 (Fin False 6047313952768000 (- 38)),
    ''avg_order_amount'' \<mapsto> AFloat64 (Fin False 6450526856906015 (- 44)),
    ''last_login_time'' \<mapsto> AString ''2026-06-26 21:15:00'',
    ''vip_level'' \<mapsto> AInt 4,
    ''order_count'' \<mapsto> AInt 60,
    ''risk_level'' \<mapsto> AString [CHR 0xE4, CHR 0xBD, CHR 0x8E],
    ''register_days'' \<mapsto> AInt 400,
    ''marital_status'' \<mapsto> AString [CHR 0xE5, CHR 0xB7, CHR 0xB2, CHR 0xE5, CHR 0xA9,
      CHR 0x9A]]"

definition svc_LoadRules ::
  "(string \<Rightarrow> string + string) \<Rightarrow> (string \<Rightarrow> string + Rule list) \<Rightarrow> ('e, 'c, 'q) ComManager \<Rightarrow>
    (repo_error + nat \<times> nat) \<times> ('e, 'c, 'q) ComManager" where
  "svc_LoadRules read decode s =
    (case repository_Load read decode (com_RuleRepository s) of
       Inl err \<Rightarrow> (Inl err, s)
     | Inr rules \<Rightarrow>
         (let (counts, e) = Engine_LoadRules (com_Engine s) rules
          in (Inr counts, s\<lparr>com_Manager := (com_Manager s)\<lparr>eng := e\<rparr>\<rparr>)))"

definition svc_RuleCount :: "('e, 'c, 'q) ComManager \<Rightarrow> nat" where
  "svc_RuleCount s = RuleCount (com_Engine s)"

definition svc_Match :: "('e, 'c, 'q) ComManager \<Rightarrow> User \<Rightarrow> int list option" where
  "svc_Match s u = Match (com_Engine s) u"

definition RuleName :: "('e, 'c, 'q) ComManager \<Rightarrow> int \<Rightarrow> string option" where
  "RuleName s i = map_option pName (cache_Get (cache (com_Engine s)) i)"

definition svc_List :: "('e, 'c, 'q) ComManager \<Rightarrow> Rule list" where
  "svc_List s = Manager_List (com_Manager s)"

definition svc_Upsert :: "('e, 'c, 'q) ComManager \<Rightarrow> Rule \<Rightarrow> manager_error + ('e, 'c, 'q) ComManager" where
  "svc_Upsert s r = bind_res (Upsert (com_Manager s) r) (\<lambda>m. Inr (s\<lparr>com_Manager := m\<rparr>))"

definition svc_Remove :: "('e, 'c, 'q) ComManager \<Rightarrow> int \<Rightarrow> ('e, 'c, 'q) ComManager" where
  "svc_Remove s i = s\<lparr>com_Manager := Manager_Remove (com_Manager s) i\<rparr>"

definition TestDraft :: "('e, 'c, 'q) ComManager \<Rightarrow> string \<Rightarrow> row \<Rightarrow> ('e + bool) option" where
  "TestDraft s rule r = Manager_Test (com_Manager s) rule r"

definition svc_Publish :: "('e, 'c, 'q) ComManager \<Rightarrow> int \<Rightarrow> string \<Rightarrow> Version \<times> ('e, 'c, 'q) ComManager" where
  "svc_Publish s now comment =
    (let (v, m) = Publish (com_Manager s) now comment in (v, s\<lparr>com_Manager := m\<rparr>))"

definition svc_Versions :: "('e, 'c, 'q) ComManager \<Rightarrow> Version list" where
  "svc_Versions s = Versions (com_Manager s)"

definition VersionCount :: "('e, 'c, 'q) ComManager \<Rightarrow> nat" where
  "VersionCount s = length (Versions (com_Manager s))"

definition svc_Rollback :: "('e, 'c, 'q) ComManager \<Rightarrow> int \<Rightarrow> manager_error + ('e, 'c, 'q) ComManager" where
  "svc_Rollback s version = bind_res (Rollback (com_Manager s) version) (\<lambda>m. Inr (s\<lparr>com_Manager := m\<rparr>))"

section \<open>Evaluate and EvaluateAll\<close>

datatype eval_error = RuleIdNotLoaded int | EvalParse parse_error

definition Evaluate ::
  "('e, 'c, 'q) ComManager \<Rightarrow> string \<Rightarrow> int \<Rightarrow> row \<Rightarrow> eval_error + bool \<times> Reason list \<times> string" where
  "Evaluate s rule ruleID r =
    bind_res
      (if rule = '''' \<and> ruleID \<noteq> 0
       then (case cache_Get (cache (com_Engine s)) ruleID of
          None \<Rightarrow> Inl (RuleIdNotLoaded ruleID) | Some p \<Rightarrow> Inr (pSource p))
       else Inr rule)
      (\<lambda>text. let ruleText = (if text = '''' then flagshipRule else text) in
        case Parse ruleText of
          Inl err \<Rightarrow> Inl (EvalParse err)
        | Inr node \<Rightarrow> (let (passed, reasons) = Explain node r in Inr (passed, reasons, ruleText)))"

record FailedRule =
  f_Name :: string
  f_Rule :: string
  f_Reasons :: "Reason list"
  f_RuleID :: int

record EvaluateAllResult =
  PassedRuleIDs :: "int list"
  FailedRuleIDs :: "int list"
  Failed :: "FailedRule list"
  ea_UID :: int
  TotalRules :: nat
  PassedCount :: nat
  FailedCount :: nat
  Passed :: bool

text \<open>The body of the loop over the snapshot.\<close>

definition evaluate_one ::
  "(parse_error \<Rightarrow> string) \<Rightarrow> row \<Rightarrow> EvaluateAllResult \<Rightarrow> 'q Plan RuleProgram \<Rightarrow> EvaluateAllResult" where
  "evaluate_one err_text r res p =
    (case Parse (pSource p) of
       Inl err \<Rightarrow>
         res\<lparr>FailedRuleIDs := FailedRuleIDs res @ [pID p],
           Failed := Failed res @ [\<lparr>f_Name = pName p, f_Rule = pSource p,
             f_Reasons = [\<lparr>Expr_text = pSource p,
               Detail = ''rule text could not be parsed: '' @ err_text err\<rparr>], f_RuleID = pID p\<rparr>]\<rparr>
     | Inr node \<Rightarrow>
         (let (ok, reasons) = Explain node r in
          if ok then res\<lparr>PassedRuleIDs := PassedRuleIDs res @ [pID p]\<rparr>
          else res\<lparr>FailedRuleIDs := FailedRuleIDs res @ [pID p],
            Failed := Failed res @ [\<lparr>f_Name = pName p, f_Rule = pSource p, f_Reasons = reasons,
              f_RuleID = pID p\<rparr>]\<rparr>))"

definition EvaluateAll ::
  "(parse_error \<Rightarrow> string) \<Rightarrow> ('e, 'c, 'q) ComManager \<Rightarrow> int \<Rightarrow> row \<Rightarrow> EvaluateAllResult" where
  "EvaluateAll err_text s uid r =
    (let snapshot = Snapshot (cache (com_Engine s));
       start = \<lparr>PassedRuleIDs = [], FailedRuleIDs = [], Failed = [], ea_UID = uid,
         TotalRules = length snapshot, PassedCount = 0, FailedCount = 0, Passed = False\<rparr>;
       res = foldl (evaluate_one err_text r) start snapshot;
       res = res\<lparr>PassedCount := length (PassedRuleIDs res), FailedCount := length (FailedRuleIDs res)\<rparr>
     in res\<lparr>Passed := TotalRules res > 0 \<and> FailedCount res = 0\<rparr>)"

section \<open>SelfTest\<close>

record SelfTestStep =
  st_Step :: string
  st_Matched :: "int list"
  st_Rules :: nat

record SelfTestResult =
  st_SampleUser :: row
  st_Rule :: string
  Steps :: "SelfTestStep list"
  AddedRuleID :: int
  LiveAddOK :: bool
  LiveRemoveOK :: bool

datatype selftest_error = SelfTestParse parse_error | LiveAddFailed manager_error

definition contains :: "int list \<Rightarrow> int \<Rightarrow> bool" where
  "contains ids i \<longleftrightarrow> i \<in> set ids"

definition selfTestRule :: "string \<Rightarrow> Rule" where
  "selfTestRule rule = \<lparr>rName = ''selftest-complex'', rExpr = rule, rID = selfTestRuleID,
    rPriority = 0, rVersion = 0, rEnabled = True\<rparr>"

text \<open>
  The result and the container afterwards; \<open>None\<close> is a panic while matching. A nil row is \<open>None\<close>.
\<close>

definition SelfTest ::
  "('e, 'c, 'q) ComManager \<Rightarrow> string \<Rightarrow> row option \<Rightarrow>
    ((selftest_error + SelfTestResult) \<times> ('e, 'c, 'q) ComManager) option" where
  "SelfTest s rule0 row0 =
    (let rule = (if rule0 = '''' then flagshipRule else rule0);
       r = (case row0 of None \<Rightarrow> flagshipSampleRow | Some r \<Rightarrow> r);
       user = \<lparr>uFields = r, UID = 0\<rparr>
     in case Parse rule of
       Inl err \<Rightarrow> Some (Inl (SelfTestParse err), s)
     | Inr _ \<Rightarrow>
       Option.bind (Match (com_Engine s) user) (\<lambda>before.
         case svc_Upsert s (selfTestRule rule) of
           Inl err \<Rightarrow> Some (Inl (LiveAddFailed err), s)
         | Inr s1 \<Rightarrow>
           Option.bind (Match (com_Engine s1) user) (\<lambda>afterAdd.
             let s2 = svc_Remove s1 selfTestRuleID in
             Option.bind (Match (com_Engine s2) user) (\<lambda>afterRemove.
               Some (Inr \<lparr>st_SampleUser = r, st_Rule = rule,
                 Steps = [\<lparr>st_Step = ''before'', st_Matched = before, st_Rules = RuleCount (com_Engine s)\<rparr>,
                   \<lparr>st_Step = ''after_add'', st_Matched = afterAdd, st_Rules = RuleCount (com_Engine s1)\<rparr>,
                   \<lparr>st_Step = ''after_remove'', st_Matched = afterRemove, st_Rules = RuleCount (com_Engine s2)\<rparr>],
                 AddedRuleID = selfTestRuleID, LiveAddOK = contains afterAdd selfTestRuleID,
                 LiveRemoveOK = \<not> contains afterRemove selfTestRuleID\<rparr>, s2)))))"

section \<open>The built-in rule\<close>

text \<open>The tree of the built-in rule; \<open>flagship_parse\<close> lexes the text and compares the tokens.\<close>

definition flagship_tree :: Node where
  "flagship_tree = Logic ''AND'' [
    Between ''age'' (NumValue ''25'') (NumValue ''40''),
    In ''province'' [StrValue [CHR 0xE5, CHR 0xB9, CHR 0xBF, CHR 0xE4, CHR 0xB8, CHR 0x9C], StrValue [CHR 0xE6, CHR 0xB1, CHR 0x9F, CHR 0xE8, CHR 0x8B, CHR 0x8F], StrValue [CHR 0xE6, CHR 0xB5, CHR 0x99, CHR 0xE6, CHR 0xB1, CHR 0x9F]] False,
    In ''income_level'' [StrValue ''<5k'', StrValue ''5k-10k''] True,
    Like ''favorite_category'' ([CHR 0xE6, CHR 0x95, CHR 0xB0] @ ''%'') False,
    Like ''occupation'' (''%'' @ [CHR 0xE5, CHR 0xAD, CHR 0xA6, CHR 0xE7, CHR 0x94, CHR 0x9F] @ ''%'') True,
    Compare ''active_score'' ''>='' (NumValue ''85''),
    Between ''credit_score'' (NumValue ''700'') (NumValue ''850''),
    Compare ''total_amount'' ''>'' (NumValue ''5000''),
    Compare ''avg_order_amount'' ''<='' (NumValue ''1000''),
    IsNull ''last_login_time'' True,
    Logic ''OR'' [Compare ''vip_level'' ''>='' (NumValue ''3''), Compare ''order_count'' ''>='' (NumValue ''30'')],
    NotNode (Compare ''risk_level'' ''='' (StrValue [CHR 0xE9, CHR 0xAB, CHR 0x98])),
    Compare ''register_days'' ''>='' (NumValue ''180''),
    Compare ''marital_status'' ''!='' (StrValue [CHR 0xE6, CHR 0x9C, CHR 0xAA, CHR 0xE7, CHR 0x9F, CHR 0xA5])]"

lemma flagship_parse: "Parse flagshipRule = Inr flagship_tree"
proof -
  have "case lexAll flagshipRule of Inr ts \<Rightarrow> map tk ts = tks flagship_tree @ [(tEOF, [])] | Inl _ \<Rightarrow> False"
    by code_simp
  then obtain ts where "lexAll flagshipRule = Inr ts" "map tk ts = tks flagship_tree @ [(tEOF, [])]"
    by (auto split: sum.splits)
  moreover have "lexed_node flagship_tree" by code_simp
  ultimately show ?thesis by (rule Parse_tokens)
qed

lemma flagship_sample: "denote flagship_tree flagshipSampleRow"
  by code_simp

section \<open>Lemmas\<close>

lemma match_by_get:
  assumes "engine_wf e" "engine_wf e'" "backend e = backend e'"
    and "\<And>i. cache_Get (cache e) i = cache_Get (cache e') i"
  shows "Snapshot (cache e) = Snapshot (cache e')" "Match e u = Match e' u"
  using store.snap_by_get [of "cache e" "cache e'"] assms
  by (simp_all add: engine_wf_def Match_def matchInto_def)

lemma delete_update_new: "map_of al k = None \<Longrightarrow> AList.delete k (AList.update k v al) = al"
  by (induction al) (auto simp: AList.delete_eq split: if_splits)

lemma upsert_remove:
  assumes "engine_wf (eng m)" "Upsert m r = Inr m'" "rEnabled r"
  defines "m2 \<equiv> Manager_Remove m' (rID r)"
  shows "engine_wf (eng m')" "engine_wf (eng m2)" "backend (eng m2) = backend (eng m)"
    "cache_Get (cache (eng m2)) i = (if i = rID r then None else cache_Get (cache (eng m)) i)"
    "m_rules m2 = AList.delete (rID r) (m_rules m')"
    "m_rules m' = AList.update (rID r) (upsert_read m r) (m_rules m)"
proof -
  show wf: "engine_wf (eng m')"
    using engine_step_wf [OF Upsert_engine [OF assms(2)]] assms(1) by simp
  have b: "backend (eng m') = backend (eng m)"
    using engine_step_wf [OF Upsert_engine [OF assms(2)]] assms(1) by simp
  show "engine_wf (eng m2)" "backend (eng m2) = backend (eng m)"
    using engine_ops_wf(1) [OF wf, of "rID r"] b by (simp_all add: m2_def Manager_Remove_def)
  show "cache_Get (cache (eng m2)) i = (if i = rID r then None else cache_Get (cache (eng m)) i)"
    by (rule Upsert_get [OF assms(2,3)]) (simp add: m2_def Manager_Remove_def RemoveRule_def Get_Delete)
  show "m_rules m2 = AList.delete (rID r) (m_rules m')" by (simp add: m2_def Manager_Remove_def)
  show "m_rules m' = AList.update (rID r) (upsert_read m r) (m_rules m)"
    using assms(2) by (cases rule: Upsert_cases) (use assms(3) in \<open>metis Manager.select_convs(2) Manager.surjective Manager.update_convs(1,2)\<close>)+
qed

lemma selfTestRule_sel [simp]:
  "rID (selfTestRule rule) = selfTestRuleID" "rEnabled (selfTestRule rule)" "rExpr (selfTestRule rule) = rule"
  by (simp_all add: selfTestRule_def)

lemma SelfTest_cases:
  assumes "SelfTest s rule0 row0 = Some (out, s')"
  obtains (refused) e where "out = Inl e" "s' = s"
  | (ran) m1 res before added removed where "out = Inr res"
      "Upsert (com_Manager s) (selfTestRule (st_Rule res)) = Inr m1"
      "s' = s\<lparr>com_Manager := Manager_Remove m1 selfTestRuleID\<rparr>"
      "Match (com_Engine s) \<lparr>uFields = st_SampleUser res, UID = 0\<rparr> = Some before"
      "Match (eng m1) \<lparr>uFields = st_SampleUser res, UID = 0\<rparr> = Some added"
      "Match (com_Engine s') \<lparr>uFields = st_SampleUser res, UID = 0\<rparr> = Some removed"
      "map st_Matched (Steps res) = [before, added, removed]"
      "LiveAddOK res \<longleftrightarrow> selfTestRuleID \<in> set added" "LiveRemoveOK res \<longleftrightarrow> selfTestRuleID \<notin> set removed"
proof -
  define rule where "rule = (if rule0 = '''' then flagshipRule else rule0)"
  define r where "r = (case row0 of None \<Rightarrow> flagshipSampleRow | Some r \<Rightarrow> r)"
  note st = assms [unfolded SelfTest_def Let_def, folded rule_def r_def]
  show thesis
  proof (cases "Parse rule")
    case (Inl err)
    then show thesis using st refused by auto
  next
    case (Inr n)
    with st obtain before where before: "Match (com_Engine s) \<lparr>uFields = r, UID = 0\<rparr> = Some before"
      by (auto simp: bind_eq_Some_conv)
    show thesis
    proof (cases "Upsert (com_Manager s) (selfTestRule rule)")
      case up: (Inl err)
      then show thesis using st Inr before refused by (auto simp: svc_Upsert_def)
    next
      case up: (Inr m1)
      with st Inr before show thesis
        by (auto simp: svc_Upsert_def svc_Remove_def contains_def bind_eq_Some_conv intro!: ran)
    qed
  qed
qed

text \<open>A rule holds of a row when its text parses and the tree walker accepts the row.\<close>

definition rule_ok :: "row \<Rightarrow> 'q Plan RuleProgram \<Rightarrow> bool" where
  "rule_ok r p = (case Parse (pSource p) of Inr n \<Rightarrow> ast_eval n r | Inl _ \<Rightarrow> False)"

text \<open>What the loop over the snapshot adds to a result.\<close>

definition judged ::
  "row \<Rightarrow> 'q Plan RuleProgram list \<Rightarrow> EvaluateAllResult \<Rightarrow> EvaluateAllResult \<Rightarrow> bool" where
  "judged r ps res out \<longleftrightarrow>
    PassedRuleIDs out = PassedRuleIDs res @ map pID (filter (rule_ok r) ps) \<and>
    FailedRuleIDs out = FailedRuleIDs res @ map pID (filter (Not \<circ> rule_ok r) ps) \<and>
    (\<exists>fs. Failed out = Failed res @ fs \<and> map f_RuleID fs = map pID (filter (Not \<circ> rule_ok r) ps) \<and>
      list_all (\<lambda>f. f_Reasons f \<noteq> []) fs) \<and>
    TotalRules out = TotalRules res"

lemma evaluate_one_judged: "judged r [p] res (evaluate_one err_text r res p)"
proof -
  have "fst (Explain n r) = ast_eval n r" "snd (Explain n r) = [] \<longleftrightarrow> ast_eval n r" for n
    using Explain_spec(1) [of n r] failing_Nil [of n r] by (auto simp: failing_def)
  then show ?thesis
    by (auto simp: judged_def evaluate_one_def rule_ok_def split_def Let_def split: sum.splits)
qed

lemma judged_trans: "judged r ps res mid \<Longrightarrow> judged r qs mid out \<Longrightarrow> judged r (ps @ qs) res out"
  by (auto simp: judged_def)

lemma evaluate_fold: "judged r ps res (foldl (evaluate_one err_text r) res ps)"
proof (induction ps arbitrary: res)
  case (Cons p ps)
  from judged_trans [OF evaluate_one_judged Cons.IH] show ?case by simp
qed (simp add: judged_def)

lemma EvaluateAll_fold:
  fixes s :: "('e, 'c, 'q) ComManager" and uid r err_text
  defines "res \<equiv> EvaluateAll err_text s uid r" and "ps \<equiv> Snapshot (cache (com_Engine s))"
  shows "PassedRuleIDs res = map pID (filter (rule_ok r) ps)"
    "FailedRuleIDs res = map pID (filter (Not \<circ> rule_ok r) ps)"
    "map f_RuleID (Failed res) = FailedRuleIDs res" "list_all (\<lambda>f. f_Reasons f \<noteq> []) (Failed res)"
    "TotalRules res = length ps"
  using evaluate_fold [of r ps "\<lparr>PassedRuleIDs = [], FailedRuleIDs = [], Failed = [], ea_UID = uid,
      TotalRules = length ps, PassedCount = 0, FailedCount = 0, Passed = False\<rparr>" err_text]
  by (auto simp: judged_def res_def EvaluateAll_def Let_def ps_def [symmetric])

text \<open>On a lawful backend the self-test of a rule that parses and compiles runs to its end, and reports
  the addition exactly when the rule holds of the row.\<close>

context matching
begin

lemma selftest_runs:
  fixes rule0 and row0
  assumes e: "engine_reach be (com_Engine s)" "sources_ok ok (com_Engine s)"
  defines "rule \<equiv> (if rule0 = [] then flagshipRule else rule0)"
    and "r \<equiv> (case row0 of None \<Rightarrow> flagshipSampleRow | Some r \<Rightarrow> r)"
  assumes rule: "Parse rule = Inr n" "be_Compile be rule = Inr ast" "ok rule"
  shows "\<exists>res s'. SelfTest s rule0 row0 = Some (Inr res, s') \<and> LiveAddOK res = sem rule r \<and> LiveRemoveOK res"
proof -
  let ?u = "\<lparr>uFields = r, UID = 0\<rparr>" and ?rule = "selfTestRule rule"
  have wf: "engine_wf (eng (com_Manager s))" and b: "backend (com_Engine s) = be"
    using engine_reach_wf [OF e(1)] by auto
  obtain m1 where up: "Upsert (com_Manager s) ?rule = Inr m1"
    using rule(2) b by (auto simp: Upsert_def upsert_apply_def AddRule_def Let_def selfTestRuleID_def)
  obtain ast' where g: "be_Compile be rule = Inr ast'" "\<And>i. cache_Get (cache (eng m1)) i =
      (if i = selfTestRuleID then Some (program_of (upsert_read (com_Manager s) ?rule) ast')
       else cache_Get (cache (com_Engine s)) i)"
    using Upsert_get [OF up selfTestRule_sel(2)] b by auto
  have r1: "engine_reach be (eng m1)" using e(1) Upsert_engine [OF up] by (rule reach_step)
  have "pSource p = rule \<or> p \<in> stored (cache (com_Engine s))" if "p \<in> stored (cache (eng m1))" for p
    using that g(2) by (auto simp: stored_get program_of_def split: if_splits)
  then have s1: "sources_ok ok (eng m1)" using e(2) rule(3) by (auto simp: sources_ok_def)
  obtain before added where before: "Match (com_Engine s) ?u = Some before"
    and added: "Match (eng m1) ?u = Some added"
    using match_engine [OF e] match_engine [OF r1 s1] by blast
  have removed: "Match (eng (Manager_Remove m1 selfTestRuleID)) ?u = Some (filter (\<lambda>j. j \<noteq> selfTestRuleID) added)"
    using match_removed [OF r1 s1 added] by (simp add: Manager_Remove_def)
  have wf1: "engine_wf (eng m1)" "backend (eng m1) = be" using engine_reach_wf [OF r1] by auto
  have "selfTestRuleID \<in> set added \<longleftrightarrow> sem rule r"
    using Match_ids(1) [OF wf1(1) added, of selfTestRuleID] g(2) [of selfTestRuleID]
      eval_sem [OF g(1) rule(3), of r] wf1(2)
    by (simp add: program_of_def)
  then show ?thesis
    using before up added removed rule(1)
    by (simp add: SelfTest_def Let_def rule_def [symmetric] r_def [symmetric] svc_Upsert_def svc_Remove_def contains_def)
qed

end

lemma short_sources:
  assumes "engine_reach (BytecodeBackend native_Parser) e"
    and "\<forall>p \<in> set (Snapshot (cache e)). int (length (pSource p)) \<le> 500000000"
  shows "sources_ok (parsed_ok native_Parser bytecode_ok) e"
  using assms native_ok engine_reach_wf [OF assms(1)]
  by (auto simp: sources_ok_def engine_wf_def snapshot_set)

section \<open>Properties\<close>

text \<open>The gate. \<open>EvaluateAll\<close> splits the snapshot, in its order, into the rules whose text parses
  to a tree that holds of the row and the others; every failed rule is listed with at least one
  reason, the counts add up to the number of rules, and the gate is open exactly when there is a
  rule and every rule holds.\<close>

theorem EvaluateAll_gate:
  "let res = EvaluateAll err_text s uid r; ps = Snapshot (cache (com_Engine s)); ok = rule_ok r
   in PassedRuleIDs res = map pID (filter ok ps) \<and>
      FailedRuleIDs res = map pID (filter (Not \<circ> ok) ps) \<and>
      map f_RuleID (Failed res) = FailedRuleIDs res \<and> list_all (\<lambda>f. f_Reasons f \<noteq> []) (Failed res) \<and>
      PassedCount res + FailedCount res = TotalRules res \<and>
      (Passed res \<longleftrightarrow> ps \<noteq> [] \<and> list_all ok ps)"
proof -
  let ?res = "EvaluateAll err_text s uid r" and ?ps = "Snapshot (cache (com_Engine s))"
  note fold = EvaluateAll_fold [of err_text s uid r]
  have c: "PassedCount ?res = length (PassedRuleIDs ?res)" "FailedCount ?res = length (FailedRuleIDs ?res)"
    "Passed ?res \<longleftrightarrow> TotalRules ?res > 0 \<and> FailedCount ?res = 0"
    by (simp_all add: EvaluateAll_def Let_def)
  have "PassedCount ?res + FailedCount ?res = TotalRules ?res"
    using fold sum_length_filter_compl [of "rule_ok r" ?ps] by (simp add: c comp_def)
  moreover have "Passed ?res \<longleftrightarrow> ?ps \<noteq> [] \<and> list_all (rule_ok r) ?ps"
    using fold by (auto simp: c filter_empty_conv list_all_iff)
  ultimately show ?thesis using fold by (simp add: Let_def comp_def)
qed


definition demo_container :: "(parse_error be_error, unit, unit) ComManager" where
  "demo_container = NewComManagerWithEngine demo_engine"

lemma demo_container_engine: "com_Engine demo_container = demo_engine"
  by (simp add: demo_container_def NewComManagerWithEngine_def NewManager_def)


text \<open>C22: When no rule has the self-test's id, the self-test leaves no trace: afterwards the list of
  rules and the match of every user are as before, the last step of the trace equals the first
  one, and the removal is always reported as effective.\<close>

theorem SelfTest_no_trace:
  assumes "engine_reach b (com_Engine s)" "SelfTest s rule r = Some (out, s')"
    and "cache_Get (cache (com_Engine s)) selfTestRuleID = None"
    and "map_of (m_rules (com_Manager s)) selfTestRuleID = None"
  shows "svc_List s' = svc_List s \<and> svc_Match s' u = svc_Match s u \<and>
    (case out of Inr res \<Rightarrow> LiveRemoveOK res \<and> map st_Matched (Steps res) ! 2 = map st_Matched (Steps res) ! 0
     | Inl _ \<Rightarrow> s' = s)"
  using assms(2)
proof (cases rule: SelfTest_cases)
  case (ran m1 res before added removed)
  have wf: "engine_wf (eng (com_Manager s))" using engine_reach_wf [OF assms(1)] by simp
  note up = upsert_remove [OF wf ran(2) selfTestRule_sel(2), unfolded selfTestRule_sel]
  have eng: "com_Engine s' = eng (Manager_Remove m1 selfTestRuleID)" using ran(3) by simp
  have m: "Match (com_Engine s') u = Match (com_Engine s) u" for u
    unfolding eng using match_by_get(2) [OF up(2) wf up(3)] up(4) assms(3) by simp
  have "svc_List s' = svc_List s"
    using delete_update_new [OF assms(4)] up(5,6) ran(3) by (simp add: svc_List_def Manager_List_def)
  moreover have "selfTestRuleID \<notin> set removed"
    using Match_ids(1) [OF up(2) ran(6) [unfolded eng], of selfTestRuleID] up(4) by simp
  ultimately show ?thesis
    using ran(1,4,6,7,9) m by (auto simp: svc_Match_def)
qed simp

theorem SelfTest_no_trace_witness:
  "case SelfTest demo_container ''level >= 5'' (Some [''level'' \<mapsto> AInt 5]) of
     Some (Inr res, s') \<Rightarrow> svc_List s' = svc_List demo_container \<and>
       svc_Match s' (NewUser 2 Map.empty) = svc_Match demo_container (NewUser 2 Map.empty) \<and>
       LiveAddOK res \<and> LiveRemoveOK res
   | _ \<Rightarrow> False"
proof -
  let ?st = "SelfTest demo_container ''level >= 5'' (Some [''level'' \<mapsto> AInt 5])"
  have "case ?st of Some (Inr res, s') \<Rightarrow> LiveAddOK res | _ \<Rightarrow> False" by code_simp
  then obtain res s' where st: "?st = Some (Inr res, s')" "LiveAddOK res" by (auto split: option.splits sum.splits)
  have "cache_Get (cache (com_Engine demo_container)) selfTestRuleID = None"
    "map_of (m_rules (com_Manager demo_container)) selfTestRuleID = None" by code_simp+
  from SelfTest_no_trace [OF _ st(1) this] st demo_reach show ?thesis
    by (simp add: demo_container_engine)
qed

text \<open>A rule that has the self-test's id does not survive it: after a self-test that ran, the rule
  is gone from the editable set and from the live engine, whatever it was before.\<close>

theorem SelfTest_deletes_rule:
  assumes "engine_reach b (com_Engine s)" "RuleName s selfTestRuleID = Some name"
    and "SelfTest s rule r = Some (Inr res, s')"
  shows "RuleName s' selfTestRuleID = None \<and> map_of (m_rules (com_Manager s')) selfTestRuleID = None"
  using assms(3)
proof (cases rule: SelfTest_cases)
  case (ran m1 res before added removed)
  have wf: "engine_wf (eng (com_Manager s))" using engine_reach_wf [OF assms(1)] by simp
  note up = upsert_remove [OF wf ran(2) selfTestRule_sel(2), unfolded selfTestRule_sel]
  show ?thesis using up(4,5) ran(3) by (simp add: RuleName_def delete_conv')
qed simp

definition own_rule :: Rule where
  "own_rule = \<lparr>rName = ''own'', rExpr = ''level > 8'', rID = 990001, rPriority = 0, rVersion = 1, rEnabled = True\<rparr>"

theorem SelfTest_deletes_rule_witness:
  "case svc_Upsert demo_container own_rule of
     Inl _ \<Rightarrow> False
   | Inr s \<Rightarrow> RuleName s 990001 = Some ''own'' \<and>
       (case SelfTest s ''level >= 5'' (Some [''level'' \<mapsto> AInt 5]) of
          Some (Inr res, s') \<Rightarrow> RuleName s' 990001 = None | _ \<Rightarrow> False)"
proof -
  have st: "case svc_Upsert demo_container own_rule of
     Inl _ \<Rightarrow> False
   | Inr s \<Rightarrow> RuleName s 990001 = Some ''own'' \<and>
       (case SelfTest s ''level >= 5'' (Some [''level'' \<mapsto> AInt 5]) of Some (Inr res, s') \<Rightarrow> True | _ \<Rightarrow> False)"
    by code_simp
  then obtain s where s: "svc_Upsert demo_container own_rule = Inr s" by (auto split: sum.splits)
  then obtain m where m: "Upsert (com_Manager demo_container) own_rule = Inr m" "com_Manager s = m"
    by (cases "Upsert (com_Manager demo_container) own_rule") (auto simp: svc_Upsert_def)
  have "engine_reach (BytecodeBackend native_Parser) (com_Engine s)"
    using reach_step [OF demo_reach] Upsert_engine [OF m(1)] m(2) by (simp add: demo_container_engine)
  from SelfTest_deletes_rule [OF this, of "''own''" "''level >= 5''" "Some [''level'' \<mapsto> AInt 5]"] st s
  show ?thesis by (auto simp: selfTestRuleID_def split: option.splits sum.splits)
qed

text \<open>The self-test tells the truth. On a reachable engine with the project's own language and
  bytecode, the self-test of a rule that parses, compiles and fits the machine runs to its end,
  reports the addition as effective exactly when the rule holds of the row, and the removal
  always. With no rule and no row, the built-in ones are used.\<close>

theorem SelfTest_reports:
  fixes s :: "(parse_error be_error, 'c, 'q) ComManager" and rule0 :: string and row0 :: "row option"
  assumes "engine_reach (BytecodeBackend NativeFrontend) (com_Engine s)"
    and "\<forall>p \<in> set (Snapshot (cache (com_Engine s))). int (length (pSource p)) \<le> 500000000"
  defines "rule \<equiv> (if rule0 = [] then flagshipRule else rule0)"
    and "r \<equiv> (case row0 of None \<Rightarrow> flagshipSampleRow | Some r \<Rightarrow> r)"
  assumes "Parse rule = Inr n" "plain_node n" "compilable n" "stack_need n \<le> stackMax"
    and "int (length rule) \<le> 500000000"
  shows "\<exists>res s'. SelfTest s rule0 row0 = Some (Inr res, s') \<and>
    (LiveAddOK res \<longleftrightarrow> denote n r) \<and> LiveRemoveOK res"
proof -
  have nf: "NativeFrontend = native_Parser" by (simp add: NativeFrontend_def native_Parser_def)
  obtain p where "Compile (Optimize n) = Inr p"
    using Compile_compilable Optimize_compilable [OF assms(7)] by blast
  then have "be_Compile (BytecodeBackend native_Parser :: (parse_error be_error, 'c, 'q) Backend) rule = Inr (PlanProgram p)"
    using assms(5) by (simp add: BytecodeBackend_def native_Parser_def)
  moreover have "parsed_ok native_Parser bytecode_ok rule" using native_ok assms(9) by simp
  ultimately obtain res s' where "SelfTest s rule0 row0 = Some (Inr res, s')"
      "LiveAddOK res = parsed_sem native_Parser bytecode_sem rule r" "LiveRemoveOK res"
    using bytecode_matching.selftest_runs [OF assms(1) [unfolded nf] short_sources [OF assms(1) [unfolded nf] assms(2)],
        of rule0 n _ row0] assms(5) unfolding rule_def r_def by blast
  then show ?thesis
    using bytecode_sem_denote [OF Parse_sql_safe [OF assms(5,6)] assms(8)] assms(5)
    by (simp add: parsed_sem_def native_Parser_def)
qed

theorem SelfTest_reports_witness:
  "\<exists>res s'. SelfTest demo_container [] None = Some (Inr res, s') \<and> LiveAddOK res \<and> LiveRemoveOK res"
proof -
  have nf: "NativeFrontend = native_Parser" by (simp add: NativeFrontend_def native_Parser_def)
  have short: "\<forall>p \<in> set (Snapshot (cache demo_engine)). int (length (pSource p)) \<le> 500000000" by code_simp
  have tree: "plain_node flagship_tree" "compilable flagship_tree" "stack_need flagship_tree \<le> stackMax"
    by code_simp+
  have len: "int (length flagshipRule) \<le> 500000000" by (simp add: flagshipRule_def)
  from SelfTest_reports [of demo_container "[]" flagship_tree None] flagship_parse flagship_sample tree len
    demo_reach short nf show ?thesis by (simp add: demo_container_engine)
qed

text \<open>C36: Rules loaded at start-up are invisible to the operations layer. Whatever the rules file
  holds, after the container is built and the rules are loaded \<open>List\<close> is empty; a version published
  then is empty, and rolling back to it, which succeeds, removes every rule of the live engine.\<close>

theorem Startup_rollback:
  "let (counts, s) = svc_LoadRules read decode (NewComManager :: (parse_error be_error, 'c, 'q) ComManager);
     (v, s1) = svc_Publish s now comment
   in svc_List s = [] \<and> v_Count v = 0 \<and>
     (case svc_Rollback s1 (v_Version v) of
        Inl _ \<Rightarrow> False
      | Inr s2 \<Rightarrow> svc_RuleCount s2 = 0 \<and> svc_Match s2 u = Some [])"
proof -
  obtain counts s where s: "svc_LoadRules read decode (NewComManager :: (parse_error be_error, 'c, 'q) ComManager)
      = (counts, s)" by fastforce
  have m: "m_rules (com_Manager s) = []" "versions (com_Manager s) = []"
    using s by (auto simp: svc_LoadRules_def NewComManager_def NewManager_def NewWithBackend_def
        NewRuleCache_def Snapshot_def Let_def split: sum.splits prod.splits)
  have e: "snd (ReplaceRules e []) = e\<lparr>cache := ReplaceAll (cache e) []\<rparr>" for e :: "(parse_error be_error, 'c, 'q) Engine"
    by (simp add: ReplaceRules_def)
  show ?thesis
    using m s by (simp add: svc_List_def Manager_List_def svc_Publish_def Publish_def svc_Rollback_def
        Rollback_def svc_RuleCount_def RuleCount_def svc_Match_def Match_def matchInto_def e
        ReplaceAll_def PutAll_def Let_def Rebuild_def Snapshot_def cache_Len_def)
qed

end
