(* ===== verification/Statistics.thy ===== *)
theory Statistics
  imports Rule_Cache
begin

text \<open>
  The statistics of a batch run, \<^verbatim>\<open>pkg/engine/statistics.go\<close>: the record \<open>Stats\<close>, its rates, the
  ranking of the most-hit rules, the listing of hits per rule and the formatting of numbers with
  thousands separators. \<open>PerRule\<close> is an association list with distinct keys in the order in which
  a \<open>range\<close> visits it; the ranking and the listing do not depend on it. \<open>Report\<close>, which formats
  durations and rounded decimals, is not modelled.
\<close>

section \<open>Arithmetic on float64\<close>

fun f64_div :: "float64 \<Rightarrow> float64 \<Rightarrow> float64" where
  "f64_div (Fin s m e) (Fin s' m' e') =
    (if m' = 0 then (if m = 0 then NaN else Inf (s \<noteq> s'))
     else round64 (s \<noteq> s') (m * 2 ^ nat (e - e')) (m' * 2 ^ nat (e' - e)))"
| "f64_div (Fin s m e) (Inf s') = Fin (s \<noteq> s') 0 0"
| "f64_div (Inf s) (Fin s' m' e') = Inf (s \<noteq> s')"
| "f64_div _ _ = NaN"

fun f64_add :: "float64 \<Rightarrow> float64 \<Rightarrow> float64" where
  "f64_add (Fin s m e) (Fin s' m' e') =
    (let k = min e e'; v = align s m e k + align s' m' e' k in
     if v = 0 then Fin (s \<and> s') 0 0
     else round64 (v < 0) (\<bar>v\<bar> * 2 ^ nat k) (2 ^ nat (- k)))"
| "f64_add (Inf s) (Inf s') = (if s = s' then Inf s else NaN)"
| "f64_add (Inf s) (Fin _ _ _) = Inf s"
| "f64_add (Fin _ _ _) (Inf s) = Inf s"
| "f64_add _ _ = NaN"

fun f64_mul :: "float64 \<Rightarrow> float64 \<Rightarrow> float64" where
  "f64_mul (Fin s m e) (Fin s' m' e') =
    (let k = e + e' in round64 (s \<noteq> s') (m * m' * 2 ^ nat k) (2 ^ nat (- k)))"
| "f64_mul (Fin s m e) (Inf s') = (if m = 0 then NaN else Inf (s \<noteq> s'))"
| "f64_mul (Inf s) (Fin s' m' e') = (if m' = 0 then NaN else Inf (s \<noteq> s'))"
| "f64_mul (Inf s) (Inf s') = Inf (s \<noteq> s')"
| "f64_mul _ _ = NaN"

section \<open>The record and its rates\<close>

record Stats =
  PerRule :: "(int \<times> int) list"
  Users :: int
  Rules :: int
  Workers :: int
  Evaluations :: int
  Hits :: int
  Elapsed :: int

abbreviation f64_zero :: float64 where "f64_zero \<equiv> Fin False 0 0"

text \<open>\<open>time.Duration.Seconds\<close>: whole seconds plus the fraction of the nanoseconds.\<close>

definition Seconds :: "int \<Rightarrow> float64" where
  "Seconds d =
    (let sec = sgn d * (\<bar>d\<bar> div 1000000000); nsec = sgn d * (\<bar>d\<bar> mod 1000000000)
     in f64_add (float64_of_int sec) (f64_div (float64_of_int nsec) (float64_of_int 1000000000)))"

definition TPS :: "Stats \<Rightarrow> float64" where
  "TPS s = (if Elapsed s \<le> 0 then f64_zero
    else f64_div (float64_of_int (Evaluations s)) (Seconds (Elapsed s)))"

definition QPS :: "Stats \<Rightarrow> float64" where
  "QPS s = (if Elapsed s \<le> 0 then f64_zero
    else f64_div (float64_of_int (Users s)) (Seconds (Elapsed s)))"

definition HitRate :: "Stats \<Rightarrow> float64" where
  "HitRate s = (if Evaluations s = 0 then f64_zero
    else f64_div (float64_of_int (Hits s)) (float64_of_int (Evaluations s)))"

definition AvgLatencyMs :: "Stats \<Rightarrow> float64" where
  "AvgLatencyMs s = (if Users s = 0 then f64_zero
    else f64_div (f64_div (float64_of_int (Elapsed s)) (float64_of_int (Users s)))
      (float64_of_int 1000000))"

section \<open>The ranking\<close>

record ruleHit =
  hit_ID :: int
  hit_Count :: int

text \<open>Descending count, then ascending id: the order of \<open>rule_key\<close>, with the count as priority.\<close>

definition hit_key :: "ruleHit \<Rightarrow> rule_key" where
  "hit_key h = RuleKey (hit_Count h) (hit_ID h)"

definition all_hits :: "Stats \<Rightarrow> ruleHit list" where
  "all_hits s = map (\<lambda>(i, c). \<lparr>hit_ID = i, hit_Count = c\<rparr>) (PerRule s)"

definition TopRules :: "Stats \<Rightarrow> int \<Rightarrow> ruleHit list" where
  "TopRules s n =
    (let hits = sort_key hit_key (all_hits s)
     in if n > 0 \<and> int (length hits) > n then take (nat n) hits else hits)"

section \<open>Numbers with separators\<close>

text \<open>The loop over the digits: \<open>len(s)-i\<close> is the number of digits left, and \<open>first\<close> is \<open>i == 0\<close>.\<close>

fun comma_loop :: "bool \<Rightarrow> string \<Rightarrow> string" where
  "comma_loop first [] = []"
| "comma_loop first (c # cs) =
    (if \<not> first \<and> length (c # cs) mod 3 = 0 then [CHR '','', c] else [c]) @ comma_loop False cs"

definition comma :: "int \<Rightarrow> string" where
  "comma n =
    (let neg = n < 0; n' = (if neg then wrap64 (- n) else n); out = comma_loop True (Itoa n')
     in if neg then ''-'' @ out else out)"

text \<open>Left-justified padding, \<^verbatim>\<open>%-8d\<close> and \<^verbatim>\<open>%-8s\<close> (the arguments here are ASCII).\<close>

definition pad8 :: "string \<Rightarrow> string" where
  "pad8 t = t @ replicate (8 - length t) CHR '' ''"

definition RuleHits_line :: "(int \<Rightarrow> string) option \<Rightarrow> (int \<Rightarrow> int) \<Rightarrow> int \<Rightarrow> string" where
  "RuleHits_line nameOf perRule i =
    (let name = (case nameOf of None \<Rightarrow> '''' | Some f \<Rightarrow> f i) in
     if name \<noteq> '''' then ''Rule'' @ pad8 (Itoa i) @ '' Hit '' @ pad8 (comma (perRule i)) @ '' '' @ name @ [CHR 0x0A]
     else ''Rule'' @ pad8 (Itoa i) @ '' Hit '' @ comma (perRule i) @ [CHR 0x0A])"

definition per_rule :: "Stats \<Rightarrow> int \<Rightarrow> int" where
  "per_rule s i = (case map_of (PerRule s) i of None \<Rightarrow> 0 | Some c \<Rightarrow> c)"

definition RuleHits :: "Stats \<Rightarrow> (int \<Rightarrow> string) option \<Rightarrow> string" where
  "RuleHits s nameOf =
    concat (map (RuleHits_line nameOf (per_rule s)) (sort (map fst (PerRule s))))"

section \<open>The ranking is well defined\<close>

lemma hit_key_inj: "distinct (map fst (PerRule s)) \<Longrightarrow> inj_on hit_key (set (all_hits s))"
  by (auto simp: inj_on_def hit_key_def all_hits_def)

lemma all_hits_distinct: "distinct (map fst (PerRule s)) \<Longrightarrow> distinct (all_hits s)"
  unfolding all_hits_def distinct_map by (auto simp: inj_on_def)

interpretation hits_range: sorted_range hit_key "{h \<in> set (all_hits s). distinct (map fst (PerRule s))}" for s
  using hit_key_inj [of s] by unfold_locales (auto simp: inj_on_def)

lemma TopRules_order:
  assumes "distinct (map fst (PerRule s))" "mset (PerRule t) = mset (PerRule s)"
  shows "TopRules s n = TopRules t n"
proof -
  have "mset (map fst (PerRule t)) = mset (map fst (PerRule s))" using assms(2) by simp
  from mset_eq_imp_distinct_iff [OF this] have "distinct (map fst (PerRule t))" using assms(1) by simp
  then have "distinct (all_hits t)" "distinct (all_hits s)" using assms(1) by (auto intro: all_hits_distinct)
  moreover have "mset (all_hits t) = mset (all_hits s)" using assms(2) by (simp add: all_hits_def)
  then have "set (all_hits t) = set (all_hits s)" by (metis set_mset_mset)
  ultimately have "sort_key hit_key (all_hits s) = sort_key hit_key (all_hits t)"
    using assms(1) by (intro hits_range.order_irrelevant [where s = s]) auto
  then show ?thesis by (simp add: TopRules_def)
qed

lemma TopRules_prefix: "0 < n \<Longrightarrow> TopRules s n = take (nat n) (sort_key hit_key (all_hits s))"
  by (auto simp: TopRules_def Let_def)

lemma TopRules_top:
  assumes "h \<in> set (all_hits s) - set (TopRules s n)" "g \<in> set (TopRules s n)"
  shows "hit_key g \<le> hit_key h"
proof -
  let ?xs = "sort_key hit_key (all_hits s)"
  have n: "0 < n" using assms by (auto simp: TopRules_def Let_def split: if_splits)
  have "sorted (map hit_key (take (nat n) ?xs @ drop (nat n) ?xs))" by simp
  then have "\<forall>x \<in> set (take (nat n) ?xs). \<forall>y \<in> set (drop (nat n) ?xs). hit_key x \<le> hit_key y"
    unfolding map_append sorted_append by auto
  moreover have "set (all_hits s) = set (take (nat n) ?xs) \<union> set (drop (nat n) ?xs)"
    by (metis append_take_drop_id set_append set_sort)
  then have "h \<in> set (drop (nat n) ?xs)"
    using assms(1) n by (auto simp: TopRules_prefix)
  ultimately show ?thesis using assms(2) n by (simp add: TopRules_prefix)
qed

section \<open>Separators\<close>

text \<open>The reference: groups of three digits, counted from the right, joined by commas.\<close>

fun groups3 :: "string \<Rightarrow> string list" where
  "groups3 ds = (if length ds \<le> 3 then [ds] else groups3 (take (length ds - 3) ds) @ [drop (length ds - 3) ds])"

declare groups3.simps [simp del]

lemma comma_loop_append:
  assumes "length ys mod 3 = 0"
  shows "comma_loop first (xs @ ys) = comma_loop first xs @ comma_loop (xs = [] \<and> first) ys"
proof (induction xs arbitrary: first)
  case (Cons c xs)
  have "length (c # xs @ ys) mod 3 = length (c # xs) mod 3"
    using assms by (metis add.right_neutral append_Cons length_append mod_add_right_eq)
  with Cons show ?case by simp
qed (cases ys; simp)

lemma short_cases:
  assumes "length ds \<le> 3"
  obtains "ds = []" | x where "ds = [x]" | x y where "ds = [x, y]" | x y z where "ds = [x, y, z]"
proof (cases ds)
  case (Cons x t)
  then show ?thesis using assms that by (cases t; cases "tl t"; cases "tl (tl t)") auto
qed (use that in blast)

lemma comma_loop_3: "length ds = 3 \<Longrightarrow> comma_loop False ds = '','' @ ds"
  by (rule short_cases [of ds]) auto

lemma comma_loop_short: "length ds \<le> 3 \<Longrightarrow> comma_loop True ds = ds"
  by (erule short_cases) auto

lemma groups3_nonempty [simp]: "groups3 ds \<noteq> []"
  by (subst groups3.simps) simp

lemma comma_loop_groups: "comma_loop True ds = Join (groups3 ds) '',''"
proof (induction ds rule: groups3.induct)
  case (1 ds)
  show ?case
  proof (cases "length ds \<le> 3")
    case True
    then show ?thesis by (subst groups3.simps) (simp add: comma_loop_short)
  next
    case False
    let ?a = "take (length ds - 3) ds" and ?b = "drop (length ds - 3) ds"
    have b: "length ?b = 3" and a: "?a \<noteq> []" using False by auto
    have "comma_loop True ds = comma_loop True ?a @ comma_loop (?a = [] \<and> True) ?b"
      using comma_loop_append [of ?b True ?a] b by simp
    also have "\<dots> = Join (groups3 ?a) '','' @ '','' @ ?b"
      using 1 False a comma_loop_3 [OF b] by simp
    also have "\<dots> = Join (groups3 ?a @ [?b]) '',''" by (simp add: Join_append)
    also have "groups3 ?a @ [?b] = groups3 ds" using False by (subst (2) groups3.simps) simp
    finally show ?thesis .
  qed
qed

lemma groups3_concat: "concat (groups3 ds) = ds"
proof (induction ds rule: groups3.induct)
  case (1 ds)
  then show ?case by (subst groups3.simps) simp
qed

lemma groups3_shape:
  "\<exists>g gs. groups3 ds = g # gs \<and> length g \<le> 3 \<and> (ds \<noteq> [] \<longrightarrow> g \<noteq> []) \<and> list_all (\<lambda>x. length x = 3) gs"
proof (induction ds rule: groups3.induct)
  case (1 ds)
  show ?case
  proof (cases "length ds \<le> 3")
    case False
    then have "take (length ds - 3) ds \<noteq> []" by auto
    with 1 [OF False] obtain g gs where "groups3 (take (length ds - 3) ds) = g # gs" "length g \<le> 3"
        "g \<noteq> []" "list_all (\<lambda>x. length x = 3) gs"
      by auto
    with False show ?thesis by (subst groups3.simps) simp
  qed (subst groups3.simps, simp)
qed

section \<open>Properties\<close>

text \<open>\<open>comma\<close> writes the decimal digits of the number in groups of three, counted from the right
  and separated by commas: the groups after the first have exactly three digits, the first one to
  three, and together they are the digits of the number. This holds for every int64 but the
  smallest.\<close>

theorem comma_grouped:
  assumes "in_int64 n" "n \<noteq> - (2 ^ 63)"
  shows "\<exists>g gs. comma n = (if n < 0 then ''-'' else '''') @ Join (g # gs) '','' \<and>
    concat (g # gs) = Itoa \<bar>n\<bar> \<and> 1 \<le> length g \<and> length g \<le> 3 \<and> list_all (\<lambda>x. length x = 3) gs"
proof -
  obtain g gs where g: "groups3 (Itoa \<bar>n\<bar>) = g # gs" "length g \<le> 3" "g \<noteq> []"
      "list_all (\<lambda>x. length x = 3) gs"
    using groups3_shape [of "Itoa \<bar>n\<bar>"] by (auto simp: Itoa_def)
  have "wrap64 (- n) = - n" using assms by (intro wrap64_id) (auto simp: in_int64_def)
  then have "comma n = (if n < 0 then ''-'' else '''') @ Join (g # gs) '',''"
    by (auto simp: comma_def Let_def comma_loop_groups g(1) [symmetric])
  moreover have "concat (g # gs) = Itoa \<bar>n\<bar>" using groups3_concat [of "Itoa \<bar>n\<bar>"] g(1) by simp
  moreover have "1 \<le> length g" using g(3) by (cases g) auto
  ultimately show ?thesis using g by blast
qed

theorem comma_grouped_witness:
  "\<exists>g gs. comma (- 2300000) = ''-'' @ Join (g # gs) '','' \<and> concat (g # gs) = Itoa 2300000"
proof -
  have "in_int64 (- 2300000)" "(- 2300000 :: int) \<noteq> - (2 ^ 63)" by (simp_all add: in_int64_def)
  from comma_grouped [OF this] show ?thesis by auto
qed

text \<open>The smallest int64 has no positive counterpart: negating it wraps around, and \<open>comma\<close> prints
  two minus signs.\<close>

theorem comma_min_int64: "comma (- (2 ^ 63)) = ''--9,223,372,036,854,775,808''"
  by code_simp

text \<open>The ranking of the most-hit rules does not depend on the order in which the map of hits is
  visited, has at most \<open>n\<close> entries when \<open>n\<close> is positive, and no rule left out has more hits than
  one listed (or as many and a smaller id).\<close>

theorem TopRules_ranking:
  assumes "distinct (map fst (PerRule s))" "mset (PerRule t) = mset (PerRule s)"
  shows "TopRules s n = TopRules t n \<and> (0 < n \<longrightarrow> int (length (TopRules s n)) \<le> n) \<and>
    (\<forall>h \<in> set (all_hits s) - set (TopRules s n). \<forall>g \<in> set (TopRules s n).
      hit_Count h < hit_Count g \<or> (hit_Count h = hit_Count g \<and> hit_ID g \<le> hit_ID h))"
proof (intro conjI ballI impI)
  show "TopRules s n = TopRules t n" by (rule TopRules_order [OF assms])
  show "int (length (TopRules s n)) \<le> n" if "0 < n" using that by (auto simp: TopRules_prefix)
  fix h g
  assume "h \<in> set (all_hits s) - set (TopRules s n)" "g \<in> set (TopRules s n)"
  from TopRules_top [OF this]
  show "hit_Count h < hit_Count g \<or> (hit_Count h = hit_Count g \<and> hit_ID g \<le> hit_ID h)"
    by (auto simp: hit_key_def less_eq_rule_key_def less_rule_key_def split: if_splits)
qed

theorem TopRules_ranking_witness:
  "TopRules \<lparr>PerRule = [(1, 5), (2, 9), (3, 5)], Users = 9, Rules = 3, Workers = 1, Evaluations = 27,
      Hits = 19, Elapsed = 1\<rparr> 2 =
   TopRules \<lparr>PerRule = [(3, 5), (1, 5), (2, 9)], Users = 9, Rules = 3, Workers = 1, Evaluations = 27,
      Hits = 19, Elapsed = 1\<rparr> 2"
proof -
  let ?s = "\<lparr>PerRule = [(1, 5), (2, 9), (3, 5)], Users = 9, Rules = 3, Workers = 1, Evaluations = 27,
      Hits = 19, Elapsed = 1\<rparr>"
  let ?t = "\<lparr>PerRule = [(3, 5), (1, 5), (2, 9)], Users = 9, Rules = 3, Workers = 1, Evaluations = 27,
      Hits = 19, Elapsed = 1\<rparr>"
  have "distinct (map fst (PerRule ?s))" by simp
  moreover have "mset (PerRule ?t) = mset (PerRule ?s)" by simp
  ultimately show ?thesis using TopRules_ranking [of ?s ?t 2] by blast
qed

end
