(* ===== verification/Worker_Pool.thy ===== *)
theory Worker_Pool
  imports Engine Statistics
begin

text \<open>
  Batch matching by a pool of workers, \<^verbatim>\<open>pkg/engine/workerpool.go\<close>, and the engine's entry points
  \<open>RunBatch\<close> and \<open>MatchBatch\<close>. The goroutines are interleaved: \<open>pool_step\<close> is one action of the
  sender (send a job into the buffered channel, close it) or of one worker (take a job, match it
  and write its result slot and its own counters, leave when the channel is closed and empty).
  Jobs stay in a worker between taking and writing, so that any schedule is covered.

  Shown: an invariant over all interleavings; when all workers have left, the results are those
  of matching each user alone, in the order of the users, and the merged counters are the totals,
  whatever the schedule; and the pool always finishes, since every step decreases a measure and
  some step is possible until the end.
\<close>

section \<open>Counters\<close>

definition cnt :: "(int \<times> int) list \<Rightarrow> int \<Rightarrow> int" where
  "cnt m i = (case map_of m i of None \<Rightarrow> 0 | Some c \<Rightarrow> c)"

definition inc :: "(int \<times> int) list \<Rightarrow> int \<Rightarrow> (int \<times> int) list" where
  "inc m i = AList.update i (cnt m i + 1) m"

definition merge :: "(int \<times> int) list \<Rightarrow> (int \<times> int) list \<Rightarrow> (int \<times> int) list" where
  "merge acc m = foldl (\<lambda>a (i, c). AList.update i (cnt a i + c) a) acc m"

section \<open>The pool\<close>

record job =
  j_user :: User
  j_idx :: nat

record worker =
  w_job :: "job option"
  w_local :: "(int \<times> int) list"
  w_hits :: int
  w_done :: bool

record pool =
  p_next :: nat
  p_closed :: bool
  p_chan :: "job list"
  p_worker :: "nat \<Rightarrow> worker"
  p_results :: "nat \<Rightarrow> UserResult option"

text \<open>The number of workers: \<open>GOMAXPROCS\<close> when none is asked for, and never more than users.\<close>

definition pool_workers :: "nat \<Rightarrow> int \<Rightarrow> nat \<Rightarrow> nat" where
  "pool_workers gomaxprocs workers n =
    (let w = (if workers \<le> 0 then gomaxprocs else nat workers) in if n > 0 \<and> w > n then n else w)"

definition new_worker :: worker where
  "new_worker = \<lparr>w_job = None, w_local = [], w_hits = 0, w_done = False\<rparr>"

definition pool_init :: pool where
  "pool_init = \<lparr>p_next = 0, p_closed = False, p_chan = [], p_worker = (\<lambda>_. new_worker),
    p_results = (\<lambda>_. None)\<rparr>"

definition work :: "worker \<Rightarrow> int list \<Rightarrow> worker" where
  "work w ids = w\<lparr>w_job := None, w_hits := w_hits w + int (length ids),
    w_local := foldl inc (w_local w) ids\<rparr>"

text \<open>One step; \<open>W\<close> is the number of workers. A panic while matching has no successor.\<close>

inductive pool_step ::
  "('e, 'c, 'q) Engine \<Rightarrow> 'q Plan RuleProgram list \<Rightarrow> User list \<Rightarrow> nat \<Rightarrow> pool \<Rightarrow> pool \<Rightarrow> bool"
  for e rules users W where
  p_send: "p_next s < length users \<Longrightarrow> length (p_chan s) < W * 2 \<Longrightarrow>
    pool_step e rules users W s (s\<lparr>p_next := Suc (p_next s),
      p_chan := p_chan s @ [\<lparr>j_user = users ! p_next s, j_idx = p_next s\<rparr>]\<rparr>)"
| p_close: "p_next s = length users \<Longrightarrow> \<not> p_closed s \<Longrightarrow>
    pool_step e rules users W s (s\<lparr>p_closed := True\<rparr>)"
| p_take: "w < W \<Longrightarrow> w_job (p_worker s w) = None \<Longrightarrow> \<not> w_done (p_worker s w) \<Longrightarrow>
    p_chan s = j # js \<Longrightarrow>
    pool_step e rules users W s (s\<lparr>p_chan := js,
      p_worker := (p_worker s)(w := (p_worker s w)\<lparr>w_job := Some j\<rparr>)\<rparr>)"
| p_work: "w < W \<Longrightarrow> w_job (p_worker s w) = Some j \<Longrightarrow>
    matchInto e (j_user j) rules buf = Some ids \<Longrightarrow>
    pool_step e rules users W s (s\<lparr>p_worker := (p_worker s)(w := work (p_worker s w) ids),
      p_results := (p_results s)(j_idx j \<mapsto> \<lparr>RuleIDs = ids, res_UID = UID (j_user j)\<rparr>)\<rparr>)"
| p_exit: "w < W \<Longrightarrow> w_job (p_worker s w) = None \<Longrightarrow> \<not> w_done (p_worker s w) \<Longrightarrow>
    p_chan s = [] \<Longrightarrow> p_closed s \<Longrightarrow>
    pool_step e rules users W s (s\<lparr>p_worker := (p_worker s)(w := (p_worker s w)\<lparr>w_done := True\<rparr>)\<rparr>)"

definition pool_final :: "nat \<Rightarrow> pool \<Rightarrow> bool" where
  "pool_final W s \<longleftrightarrow> list_all (\<lambda>w. w_done (p_worker s w)) [0..<W]"

text \<open>What \<open>Run\<close> returns from a final state: the result slots and the merged counters.\<close>

definition zero_result :: UserResult where
  "zero_result = \<lparr>RuleIDs = [], res_UID = 0\<rparr>"

definition pool_results :: "nat \<Rightarrow> pool \<Rightarrow> UserResult list" where
  "pool_results n s = map (\<lambda>i. case p_results s i of Some r \<Rightarrow> r | None \<Rightarrow> zero_result) [0..<n]"

definition pool_stats :: "nat \<Rightarrow> nat \<Rightarrow> nat \<Rightarrow> int \<Rightarrow> pool \<Rightarrow> Stats" where
  "pool_stats n m W elapsed s =
    \<lparr>PerRule = foldl merge [] (map (\<lambda>w. w_local (p_worker s w)) [0..<W]),
     Users = int n, Rules = int m, Workers = int W, Evaluations = wrap64 (int n * int m),
     Hits = sum_list (map (\<lambda>w. w_hits (p_worker s w)) [0..<W]), Elapsed = elapsed\<rparr>"

text \<open>
  \<open>Run\<close>: with no users the results are empty and the counters zero; otherwise the pool runs until
  every worker has left. \<open>elapsed\<close> is whatever the clock shows.
\<close>

inductive pool_Run ::
  "('e, 'c, 'q) Engine \<Rightarrow> nat \<Rightarrow> int \<Rightarrow> User list \<Rightarrow> 'q Plan RuleProgram list \<Rightarrow>
    UserResult list \<times> Stats \<Rightarrow> bool"
  for e gomaxprocs workers users rules where
  run_empty: "users = [] \<Longrightarrow> pool_Run e gomaxprocs workers users rules
    ([], pool_stats 0 (length rules) (pool_workers gomaxprocs workers 0) 0 pool_init)"
| run_batch: "users \<noteq> [] \<Longrightarrow> W = pool_workers gomaxprocs workers (length users) \<Longrightarrow>
    (pool_step e rules users W)\<^sup>*\<^sup>* pool_init s \<Longrightarrow> pool_final W s \<Longrightarrow>
    pool_Run e gomaxprocs workers users rules
      (pool_results (length users) s, pool_stats (length users) (length rules) W elapsed s)"

text \<open>\<open>RunBatch\<close> reads the snapshot once; \<open>MatchBatch\<close> keeps the results only.\<close>

definition RunBatch ::
  "('e, 'c, 'q) Engine \<Rightarrow> nat \<Rightarrow> User list \<Rightarrow> int \<Rightarrow> UserResult list \<times> Stats \<Rightarrow> bool" where
  "RunBatch e gomaxprocs users workers out \<longleftrightarrow>
    pool_Run e gomaxprocs workers users (Snapshot (cache e)) out"

definition MatchBatch :: "('e, 'c, 'q) Engine \<Rightarrow> nat \<Rightarrow> User list \<Rightarrow> int \<Rightarrow> UserResult list \<Rightarrow> bool" where
  "MatchBatch e gomaxprocs users workers results \<longleftrightarrow>
    (\<exists>stats. RunBatch e gomaxprocs users workers (results, stats))"

section \<open>Lemmas on counters\<close>

lemma cnt_update: "cnt (AList.update i c m) j = (if i = j then c else cnt m j)"
  by (simp add: cnt_def update_conv')

lemma cnt_Cons: "cnt ((i, c) # m) j = (if i = j then c else cnt m j)"
  by (simp add: cnt_def)

lemma cnt_inc: "cnt (inc m i) j = cnt m j + (if i = j then 1 else 0)"
  by (simp add: inc_def cnt_update)

lemma cnt_foldl_inc: "cnt (foldl inc m ids) j = cnt m j + int (count_list ids j)"
  by (induction ids arbitrary: m) (auto simp: cnt_inc)

lemma inc_distinct: "distinct (map fst m) \<Longrightarrow> distinct (map fst (inc m i))"
  by (simp add: inc_def distinct_update)

lemma foldl_inc_distinct: "distinct (map fst m) \<Longrightarrow> distinct (map fst (foldl inc m ids))"
  by (induction ids arbitrary: m) (auto simp: inc_distinct)

lemma merge_Cons: "merge acc ((i, c) # m) = merge (AList.update i (cnt acc i + c) acc) m"
  by (simp add: merge_def)

lemma cnt_merge: "distinct (map fst m) \<Longrightarrow> cnt (merge acc m) j = cnt acc j + cnt m j"
proof (induction m arbitrary: acc)
  case (Cons p m)
  obtain i c where p: "p = (i, c)" by fastforce
  have "cnt m i = 0" using Cons.prems by (simp add: cnt_def p map_of_eq_None_iff [THEN iffD2])
  with Cons show ?case by (auto simp: p merge_Cons cnt_update cnt_Cons)
qed (simp add: merge_def cnt_def)

lemma merge_distinct: "distinct (map fst acc) \<Longrightarrow> distinct (map fst (merge acc m))"
  by (induction m arbitrary: acc) (auto simp: merge_def distinct_update split: prod.splits)

lemma cnt_foldl_merge:
  "\<forall>m \<in> set ms. distinct (map fst m) \<Longrightarrow> cnt (foldl merge acc ms) j = cnt acc j + sum_list (map (\<lambda>m. cnt m j) ms)"
  by (induction ms arbitrary: acc) (auto simp: cnt_merge)

section \<open>The invariant\<close>

definition matched :: "('e, 'c, 'q) Engine \<Rightarrow> 'q Plan RuleProgram list \<Rightarrow> User \<Rightarrow> int list" where
  "matched e rules u = (case matchInto e u rules [] of Some ids \<Rightarrow> ids | None \<Rightarrow> [])"

definition expected :: "('e, 'c, 'q) Engine \<Rightarrow> 'q Plan RuleProgram list \<Rightarrow> User \<Rightarrow> UserResult" where
  "expected e rules u = \<lparr>RuleIDs = matched e rules u, res_UID = UID u\<rparr>"

definition written :: "pool \<Rightarrow> nat set" where
  "written s = {i. p_results s i \<noteq> None}"

definition holds :: "worker \<Rightarrow> nat multiset" where
  "holds w = (case w_job w of None \<Rightarrow> {#} | Some j \<Rightarrow> {#j_idx j#})"

definition job_ok :: "User list \<Rightarrow> job \<Rightarrow> bool" where
  "job_ok users j \<longleftrightarrow> j_idx j < length users \<and> j_user j = users ! j_idx j"

text \<open>Every job sent is in the channel, in one worker, or written, and in one of them only.\<close>

definition jobs_inv :: "User list \<Rightarrow> nat \<Rightarrow> pool \<Rightarrow> bool" where
  "jobs_inv users W s \<longleftrightarrow>
    p_next s \<le> length users \<and> (p_closed s \<longrightarrow> p_next s = length users) \<and> finite (written s) \<and>
    mset (map j_idx (p_chan s)) + (\<Sum>w<W. holds (p_worker s w)) + mset_set (written s)
      = mset_set {..<p_next s} \<and>
    (\<forall>j \<in> set (p_chan s). job_ok users j) \<and>
    (\<forall>w<W. \<forall>j. w_job (p_worker s w) = Some j \<longrightarrow> job_ok users j) \<and>
    (\<forall>w<W. w_done (p_worker s w) \<longrightarrow> w_job (p_worker s w) = None \<and> p_closed s \<and> p_chan s = [])"

text \<open>What is written is right, and the workers' counters add up to it.\<close>

definition counts_inv ::
  "('e, 'c, 'q) Engine \<Rightarrow> 'q Plan RuleProgram list \<Rightarrow> User list \<Rightarrow> nat \<Rightarrow> pool \<Rightarrow> bool" where
  "counts_inv e rules users W s \<longleftrightarrow>
    (\<forall>i r. p_results s i = Some r \<longrightarrow> r = expected e rules (users ! i)) \<and>
    (\<forall>w<W. distinct (map fst (w_local (p_worker s w)))) \<and>
    (\<Sum>w<W. w_hits (p_worker s w)) = (\<Sum>i \<in> written s. int (length (matched e rules (users ! i)))) \<and>
    (\<forall>i. (\<Sum>w<W. cnt (w_local (p_worker s w)) i)
      = (\<Sum>k \<in> written s. int (count_list (matched e rules (users ! k)) i)))"

lemma sum_upd:
  fixes F :: "'a \<Rightarrow> 'b::comm_monoid_add"
  assumes "w < (W::nat)"
  shows "(\<Sum>v<W. F ((g(w := x)) v)) + F (g w) = (\<Sum>v<W. F (g v)) + F x"
proof -
  have "(\<Sum>v<W. F ((g(w := x)) v)) = F x + (\<Sum>v \<in> {..<W} - {w}. F (g v))"
    using assms by (subst sum.remove [of _ w]) auto
  moreover have "(\<Sum>v<W. F (g v)) = F (g w) + (\<Sum>v \<in> {..<W} - {w}. F (g v))"
    using assms by (intro sum.remove) auto
  ultimately show ?thesis by (simp add: ac_simps)
qed

lemma held_not_written:
  assumes "jobs_inv users W s" "w < W" "w_job (p_worker s w) = Some j"
  shows "j_idx j \<notin> written s"
proof
  let ?k = "j_idx j" and ?H = "\<Sum>v<W. holds (p_worker s v)"
  assume "?k \<in> written s"
  then have z: "count (mset_set (written s)) ?k = 1" using assms(1) by (simp add: jobs_inv_def)
  have "?H = holds (p_worker s w) + (\<Sum>v \<in> {..<W} - {w}. holds (p_worker s v))"
    using assms(2) by (intro sum.remove) auto
  then have h: "1 \<le> count ?H ?k" using assms(3) by (simp add: holds_def)
  have "mset (map j_idx (p_chan s)) + ?H + mset_set (written s) = mset_set {..<p_next s}"
    using assms(1) by (simp add: jobs_inv_def)
  then have "count ?H ?k + count (mset_set (written s)) ?k \<le> count (mset_set {..<p_next s}) ?k"
    by (metis add.assoc count_union le_add2)
  moreover have "count (mset_set {..<p_next s}) ?k \<le> 1" by (simp add: count_mset_set')
  ultimately show False using z h by linarith
qed

lemma pool_init_inv: "jobs_inv users W pool_init \<and> counts_inv e rules users W pool_init"
  by (simp add: jobs_inv_def counts_inv_def pool_init_def written_def new_worker_def holds_def cnt_def)

lemma jobs_inv_send:
  assumes "jobs_inv users W s" "p_next s < length users"
  shows "jobs_inv users W (s\<lparr>p_next := Suc (p_next s),
      p_chan := p_chan s @ [\<lparr>j_user = users ! p_next s, j_idx = p_next s\<rparr>]\<rparr>)"
  using assms by (auto simp: jobs_inv_def written_def job_ok_def lessThan_Suc)

lemma jobs_inv_take:
  assumes "jobs_inv users W s" "w < W" "w_job (p_worker s w) = None" "\<not> w_done (p_worker s w)"
    "p_chan s = j # js"
  shows "jobs_inv users W (s\<lparr>p_chan := js,
      p_worker := (p_worker s)(w := (p_worker s w)\<lparr>w_job := Some j\<rparr>)\<rparr>)"
proof -
  have "(\<Sum>v<W. holds (((p_worker s)(w := (p_worker s w)\<lparr>w_job := Some j\<rparr>)) v)) + {#}
      = (\<Sum>v<W. holds (p_worker s v)) + {#j_idx j#}"
    using sum_upd [OF assms(2), of holds "p_worker s" "(p_worker s w)\<lparr>w_job := Some j\<rparr>"] assms(3)
    by (simp add: holds_def)
  with assms show ?thesis by (auto simp: jobs_inv_def written_def)
qed

lemma jobs_inv_work:
  assumes "jobs_inv users W s" "w < W" "w_job (p_worker s w) = Some j"
  shows "jobs_inv users W (s\<lparr>p_worker := (p_worker s)(w := work (p_worker s w) ids),
      p_results := (p_results s)(j_idx j \<mapsto> r)\<rparr>)"
proof -
  let ?s = "s\<lparr>p_worker := (p_worker s)(w := work (p_worker s w) ids),
      p_results := (p_results s)(j_idx j \<mapsto> r)\<rparr>"
  let ?H' = "\<Sum>v<W. holds (p_worker ?s v)" and ?Z = "mset_set (written s)"
  let ?C = "mset (map j_idx (p_chan s))"
  have h: "?H' + {#j_idx j#} = (\<Sum>v<W. holds (p_worker s v))"
    using sum_upd [OF assms(2), of holds "p_worker s" "work (p_worker s w) ids"] assms(3)
    by (simp add: holds_def work_def)
  have wr: "written ?s = insert (j_idx j) (written s)" by (auto simp: written_def)
  have fin: "finite (written s)" using assms(1) by (simp add: jobs_inv_def)
  have z: "mset_set (written ?s) = {#j_idx j#} + ?Z"
    using held_not_written [OF assms] fin by (simp add: wr)
  have "?C + ?H' + mset_set (written ?s) = ?C + (?H' + {#j_idx j#}) + ?Z"
    unfolding z by (simp only: ac_simps)
  also have "\<dots> = mset_set {..<p_next s}"
    unfolding h using assms(1) by (simp add: jobs_inv_def)
  finally have "?C + ?H' + mset_set (written ?s) = mset_set {..<p_next s}" .
  moreover have "finite (written ?s)" using wr fin by simp
  ultimately show ?thesis
    using assms unfolding jobs_inv_def by (simp add: work_def)
qed

lemma jobs_inv_exit:
  assumes "jobs_inv users W s" "w < W" "w_job (p_worker s w) = None" "p_chan s = []" "p_closed s"
  shows "jobs_inv users W (s\<lparr>p_worker := (p_worker s)(w := (p_worker s w)\<lparr>w_done := True\<rparr>)\<rparr>)"
proof -
  have "(\<Sum>v<W. holds (((p_worker s)(w := (p_worker s w)\<lparr>w_done := True\<rparr>)) v)) + {#}
      = (\<Sum>v<W. holds (p_worker s v)) + {#}"
    using sum_upd [OF assms(2), of holds "p_worker s" "(p_worker s w)\<lparr>w_done := True\<rparr>"] assms(3)
    by (simp add: holds_def)
  with assms show ?thesis by (auto simp: jobs_inv_def written_def)
qed

lemma counts_inv_same:
  assumes "counts_inv e rules users W s" "w < W" "p_results s' = p_results s"
    "p_worker s' = (p_worker s)(w := x)" "w_local x = w_local (p_worker s w)" "w_hits x = w_hits (p_worker s w)"
  shows "counts_inv e rules users W s'"
proof -
  have "(\<Sum>v<W. F (p_worker s' v)) = (\<Sum>v<W. F (p_worker s v))"
    if "F x = F (p_worker s w)" for F :: "worker \<Rightarrow> int"
    using sum_upd [OF assms(2), of F "p_worker s" x] that assms(4) by simp
  from this [of w_hits] this [of "\<lambda>v. cnt (w_local v) _"] show ?thesis
    using assms by (simp add: counts_inv_def written_def)
qed

lemma counts_inv_work:
  assumes "jobs_inv users W s" "counts_inv e rules users W s" "w < W" "w_job (p_worker s w) = Some j"
    "matchInto e (j_user j) rules buf = Some ids"
  shows "counts_inv e rules users W (s\<lparr>p_worker := (p_worker s)(w := work (p_worker s w) ids),
      p_results := (p_results s)(j_idx j \<mapsto> \<lparr>RuleIDs = ids, res_UID = UID (j_user j)\<rparr>)\<rparr>)"
    (is "counts_inv e rules users W ?s")
proof -
  have j: "j_user j = users ! j_idx j" using assms(1,3,4) by (simp add: jobs_inv_def job_ok_def)
  have ids: "matched e rules (users ! j_idx j) = ids" using assms(5) j by (simp add: matched_def matchInto_def)
  have fin: "finite (written s)" using assms(1) by (simp add: jobs_inv_def)
  have wr: "written ?s = insert (j_idx j) (written s)" by (auto simp: written_def)
  note new = held_not_written [OF assms(1,3,4)]
  have "(\<Sum>v<W. w_hits (p_worker ?s v)) = (\<Sum>v<W. w_hits (p_worker s v)) + int (length ids)"
    using sum_upd [OF assms(3), of w_hits "p_worker s" "work (p_worker s w) ids"] by (simp add: work_def)
  moreover have "(\<Sum>v<W. cnt (w_local (p_worker ?s v)) i) = (\<Sum>v<W. cnt (w_local (p_worker s v)) i) + int (count_list ids i)" for i
    using sum_upd [OF assms(3), of "\<lambda>v. cnt (w_local v) i" "p_worker s" "work (p_worker s w) ids"]
    by (simp add: work_def cnt_foldl_inc)
  ultimately show ?thesis
    using assms(2,3) wr new fin ids j foldl_inc_distinct
    by (auto simp: counts_inv_def expected_def work_def)
qed

lemma pool_step_inv:
  "pool_step e rules users W s s' \<Longrightarrow> jobs_inv users W s \<and> counts_inv e rules users W s \<Longrightarrow>
    jobs_inv users W s' \<and> counts_inv e rules users W s'"
proof (induction rule: pool_step.induct)
  case (p_send s)
  then show ?case using jobs_inv_send by (simp add: counts_inv_def written_def)
next
  case (p_close s)
  then show ?case by (auto simp: jobs_inv_def counts_inv_def written_def)
next
  case (p_take w s j js)
  then show ?case using jobs_inv_take by (auto intro: counts_inv_same)
next
  case (p_work w s j buf ids)
  then show ?case using jobs_inv_work counts_inv_work by blast
next
  case (p_exit w s)
  then show ?case using jobs_inv_exit by (auto intro: counts_inv_same)
qed

lemma pool_reach_inv:
  "(pool_step e rules users W)\<^sup>*\<^sup>* pool_init s \<Longrightarrow> jobs_inv users W s \<and> counts_inv e rules users W s"
  by (induction rule: rtranclp_induct) (use pool_init_inv pool_step_inv in blast)+

section \<open>The final state\<close>

lemma final_written:
  assumes "jobs_inv users W s" "pool_final W s" "0 < W"
  shows "written s = {..<length users}"
proof -
  have d: "w_done (p_worker s w)" if "w < W" for w
    using assms(2) that by (simp add: pool_final_def list_all_iff)
  then have "p_chan s = []" "p_next s = length users"
    using assms(1,3) d [OF assms(3)] by (auto simp: jobs_inv_def)
  moreover have "(\<Sum>w<W. holds (p_worker s w)) = {#}"
    using assms(1) d by (intro sum.neutral) (auto simp: jobs_inv_def holds_def)
  ultimately have "mset_set (written s) = mset_set {..<length users}" "finite (written s)"
    using assms(1) by (auto simp: jobs_inv_def)
  then show ?thesis by (metis finite_lessThan finite_set_mset_mset_set)
qed

lemma sum_users: "(\<Sum>i<length users. f (users ! i)) = sum_list (map f users)"
  by (simp add: sum_list_sum_nth atLeast0LessThan)

lemma sum_list_upt: "sum_list (map f [0..<W]) = (\<Sum>w<W. f w)"
  by (simp add: interv_sum_list_conv_sum_set_nat atLeast0LessThan)

lemma pool_final_outcome:
  assumes "(pool_step e rules users W)\<^sup>*\<^sup>* pool_init s" "pool_final W s" "0 < W"
  shows "pool_results (length users) s = map (expected e rules) users \<and>
    Hits (pool_stats n m W elapsed s) = sum_list (map (\<lambda>u. int (length (matched e rules u))) users) \<and>
    (\<forall>i. cnt (PerRule (pool_stats n m W elapsed s)) i
      = sum_list (map (\<lambda>u. int (count_list (matched e rules u) i)) users))"
proof -
  have inv: "jobs_inv users W s" "counts_inv e rules users W s"
    using pool_reach_inv [OF assms(1)] by auto
  note w = final_written [OF inv(1) assms(2,3)]
  have "p_results s i = Some (expected e rules (users ! i))" if "i < length users" for i
  proof -
    have "i \<in> written s" using w that by simp
    then obtain r where "p_results s i = Some r" by (auto simp: written_def)
    with inv(2) show ?thesis by (simp add: counts_inv_def)
  qed
  then have "pool_results (length users) s = map (expected e rules) users"
    by (auto simp: pool_results_def intro!: nth_equalityI)
  moreover have "\<forall>m \<in> set (map (\<lambda>w. w_local (p_worker s w)) [0..<W]). distinct (map fst m)"
    using inv(2) by (auto simp: counts_inv_def)
  note cnt_foldl_merge [OF this, of "[]"]
  ultimately show ?thesis
    using inv(2) w sum_users [of "\<lambda>u. int (length (matched e rules u))" users]
      sum_users [of "\<lambda>u. int (count_list (matched e rules u) _)" users]
    by (simp add: pool_stats_def counts_inv_def sum_list_upt comp_def cnt_def [of "[]"])
qed

lemma pool_Run_results:
  assumes "pool_Run e gomaxprocs workers users rules (results, stats)" "0 < gomaxprocs"
  shows "results = map (expected e rules) users \<and>
    Hits stats = sum_list (map (\<lambda>u. int (length (matched e rules u))) users) \<and>
    (\<forall>i. cnt (PerRule stats) i = sum_list (map (\<lambda>u. int (count_list (matched e rules u) i)) users))"
  using assms(1)
proof (cases rule: pool_Run.cases)
  case run_empty
  have "cnt (foldl merge [] (map (\<lambda>w. w_local (p_worker pool_init w)) [0..<W])) i = 0" for W i
    by (subst cnt_foldl_merge) (auto simp: pool_init_def new_worker_def cnt_def sum_list_0 comp_def)
  with run_empty show ?thesis
    by (simp add: pool_stats_def) (simp add: pool_init_def new_worker_def comp_def)
next
  case (run_batch W s elapsed)
  then have "0 < W" using assms(2) by (auto simp: pool_workers_def Let_def)
  from pool_final_outcome [OF run_batch(5,6) this, of "length users" "length rules" elapsed] run_batch(1,2)
  show ?thesis by simp
qed

section \<open>The pool finishes\<close>

definition worker_measure :: "worker \<Rightarrow> nat" where
  "worker_measure w = (case w_job w of None \<Rightarrow> 0 | Some _ \<Rightarrow> 2) + (if w_done w then 0 else 1)"

definition pool_measure :: "User list \<Rightarrow> nat \<Rightarrow> pool \<Rightarrow> nat" where
  "pool_measure users W s = 4 * (length users - p_next s) + 3 * length (p_chan s) +
    (\<Sum>w<W. worker_measure (p_worker s w)) + (if p_closed s then 0 else 1)"

lemma measure_upd:
  "w < (W::nat) \<Longrightarrow> (\<Sum>v<W. worker_measure ((g(w := x)) v)) + worker_measure (g w)
    = (\<Sum>v<W. worker_measure (g v)) + worker_measure x"
  using sum_upd [of w W worker_measure g x] by simp

lemma pool_step_measure:
  "pool_step e rules users W s s' \<Longrightarrow> pool_measure users W s' < pool_measure users W s"
proof (induction rule: pool_step.induct)
  case (p_take w s j js)
  then show ?case
    using measure_upd [of w W "p_worker s" "(p_worker s w)\<lparr>w_job := Some j\<rparr>"]
    by (simp add: pool_measure_def worker_measure_def)
next
  case (p_work w s j buf ids)
  then show ?case
    using measure_upd [of w W "p_worker s" "work (p_worker s w) ids"]
    by (simp add: pool_measure_def worker_measure_def work_def split: if_splits)
next
  case (p_exit w s)
  then show ?case
    using measure_upd [of w W "p_worker s" "(p_worker s w)\<lparr>w_done := True\<rparr>"]
    by (simp add: pool_measure_def worker_measure_def)
qed (auto simp: pool_measure_def)

lemma pool_progress:
  assumes "jobs_inv users W s" "\<not> pool_final W s"
    and "\<And>u. u \<in> set users \<Longrightarrow> matchInto e u rules [] \<noteq> None"
  shows "\<exists>s'. pool_step e rules users W s s'"
proof -
  obtain w where w: "w < W" "\<not> w_done (p_worker s w)"
    using assms(2) by (auto simp: pool_final_def list_all_iff)
  show ?thesis
  proof (cases "w_job (p_worker s w)")
    case (Some j)
    then have "j_user j \<in> set users" using assms(1) w by (auto simp: jobs_inv_def job_ok_def)
    then obtain ids where "matchInto e (j_user j) rules [] = Some ids" using assms(3) by blast
    then show ?thesis using p_work [OF w(1) Some] by blast
  next
    case None
    show ?thesis
    proof (cases "p_chan s")
      case Nil
      consider "p_next s < length users" | "p_next s = length users" "\<not> p_closed s" | "p_closed s"
        using assms(1) by (force simp: jobs_inv_def)
      then show ?thesis
        using w Nil None p_send [of s users W] p_close [of s users] p_exit [OF w(1) None w(2) Nil]
        by cases fastforce+
    qed (use p_take [OF w(1) None w(2)] in blast)
  qed
qed

lemma pool_completes:
  assumes "\<And>u. u \<in> set users \<Longrightarrow> matchInto e u rules [] \<noteq> None"
    and "(pool_step e rules users W)\<^sup>*\<^sup>* pool_init s"
  shows "\<exists>s'. (pool_step e rules users W)\<^sup>*\<^sup>* pool_init s' \<and> pool_final W s'"
  using assms(2)
proof (induction "pool_measure users W s" arbitrary: s rule: less_induct)
  case less
  show ?case
  proof (cases "pool_final W s")
    case False
    then obtain s' where s': "pool_step e rules users W s s'"
      using pool_progress [OF _ False assms(1)] pool_reach_inv [OF less.prems] by blast
    show ?thesis
      using less.hyps [OF pool_step_measure [OF s']] less.prems s' by (meson rtranclp.rtrancl_into_rtrancl)
  qed (use less.prems in blast)
qed

lemma pool_Run_exists:
  assumes "\<And>u. u \<in> set users \<Longrightarrow> matchInto e u rules [] \<noteq> None"
  shows "\<exists>results stats. pool_Run e gomaxprocs workers users rules (results, stats)"
proof (cases "users = []")
  case True
  then show ?thesis using run_empty by blast
next
  case False
  obtain s where "(pool_step e rules users (pool_workers gomaxprocs workers (length users)))\<^sup>*\<^sup>* pool_init s"
      "pool_final (pool_workers gomaxprocs workers (length users)) s"
    using pool_completes [OF assms rtranclp.rtrancl_refl] by blast
  then show ?thesis using run_batch [OF False refl] by blast
qed

lemma demo_total:
  "u \<in> set [NewUser 1 [''level'' \<mapsto> AInt 5]] \<Longrightarrow>
    matchInto demo_engine u (Snapshot (cache demo_engine)) [] \<noteq> None"
proof -
  have "matchInto demo_engine (NewUser 1 [''level'' \<mapsto> AInt 5]) (Snapshot (cache demo_engine)) [] \<noteq> None"
    by code_simp
  then show "u \<in> set [NewUser 1 [''level'' \<mapsto> AInt 5]] \<Longrightarrow> ?thesis" by simp
qed

section \<open>Properties\<close>

text \<open>C7: Whatever the schedule of the sender and the workers, a batch run returns for every user, in
  the order of the users, exactly the result of matching that user alone; the total of hits is the
  number of matched rules over all users, and the count of each rule the number of its matches.\<close>

theorem pool_Run_deterministic:
  assumes "pool_Run e gomaxprocs workers users rules (results, stats)" "0 < gomaxprocs"
  shows "results = map (expected e rules) users \<and>
    Hits stats = sum_list (map (\<lambda>u. int (length (matched e rules u))) users) \<and>
    (\<forall>i. cnt (PerRule stats) i = sum_list (map (\<lambda>u. int (count_list (matched e rules u) i)) users))"
  by (rule pool_Run_results [OF assms])

theorem pool_Run_deterministic_witness:
  "\<exists>results stats. pool_Run demo_engine 4 0 [NewUser 1 [''level'' \<mapsto> AInt 5]] (Snapshot (cache demo_engine))
      (results, stats) \<and> results = [\<lparr>RuleIDs = [9, 7], res_UID = 1\<rparr>] \<and> Hits stats = 2"
proof -
  let ?u = "NewUser 1 [''level'' \<mapsto> AInt 5]" and ?r = "Snapshot (cache demo_engine)"
  obtain results stats where run: "pool_Run demo_engine 4 0 [?u] ?r (results, stats)"
    using pool_Run_exists [OF demo_total] by blast
  have "matched demo_engine ?r ?u = [9, 7] \<and> UID ?u = 1" by code_simp
  then show ?thesis
    using pool_Run_deterministic [OF run] run by (auto simp: expected_def)
qed

lemma pool_all_schedules:
  assumes "\<And>u. u \<in> set users \<Longrightarrow> matchInto e u rules [] \<noteq> None"
  shows "wfP (\<lambda>s' s. pool_step e rules users W s s') \<and>
    (\<forall>s. (pool_step e rules users W)\<^sup>*\<^sup>* pool_init s \<longrightarrow>
      pool_final W s \<or> (\<exists>s'. pool_step e rules users W s s'))"
proof -
  have "wfP (\<lambda>s' s. pool_step e rules users W s s')"
    by (rule wfp_if_convertible_to_nat [where f = "pool_measure users W"]) (rule pool_step_measure)
  then show ?thesis using pool_reach_inv pool_progress assms by blast
qed

text \<open>C19: The pool always finishes: no schedule is infinite (a measure decreases with every step),
  and as long as a worker has not left some step is possible, provided matching the users does
  not panic; there is no deadlock between the bounded channel, the sender and the workers.\<close>

theorem pool_terminates:
  assumes "\<forall>u \<in> set users. matchInto e u rules [] \<noteq> None"
  shows "wfP (\<lambda>s' s. pool_step e rules users W s s') \<and>
    (\<forall>s. (pool_step e rules users W)\<^sup>*\<^sup>* pool_init s \<longrightarrow>
      pool_final W s \<or> (\<exists>s'. pool_step e rules users W s s'))"
  using pool_all_schedules [of users e rules W] assms by blast

theorem pool_terminates_witness:
  "wfP (\<lambda>s' s. pool_step demo_engine (Snapshot (cache demo_engine))
     [NewUser 1 [''level'' \<mapsto> AInt 5]] 1 s s')"
proof -
  have "\<forall>u \<in> set [NewUser 1 [''level'' \<mapsto> AInt 5]].
      matchInto demo_engine u (Snapshot (cache demo_engine)) [] \<noteq> None" using demo_total by blast
  from pool_terminates [OF this] show ?thesis by blast
qed

text \<open>Batch matching over the project's rule language, on any number of workers, gives each user
  the rule ids that \<open>Match\<close> gives, never panics, and can always run to its end.\<close>

theorem MatchBatch_native:
  assumes "engine_reach (BytecodeBackend native_Parser) e" "0 < gomaxprocs"
    and "\<forall>p \<in> set (Snapshot (cache e)). int (length (pSource p)) \<le> 500000000"
    and "MatchBatch e gomaxprocs users workers results"
  shows "map (\<lambda>r. (Some (RuleIDs r), res_UID r)) results = map (\<lambda>u. (Match e u, UID u)) users"
proof -
  have "cache_fresh (cache e)" using engine_reach_wf [OF assms(1)] by (simp add: engine_wf_def)
  then have ok: "sources_ok (parsed_ok native_Parser bytecode_ok) e"
    using assms(3) native_ok by (auto simp: sources_ok_def snapshot_set)
  have "Some (matched e (Snapshot (cache e)) u) = Match e u" for u
    using bytecode_matching.match_engine [OF assms(1) ok, of u] by (simp add: matched_def Match_def)
  moreover obtain stats where "pool_Run e gomaxprocs workers users (Snapshot (cache e)) (results, stats)"
    using assms(4) by (auto simp: MatchBatch_def RunBatch_def)
  note pool_Run_results [OF this assms(2)]
  ultimately show ?thesis by (simp add: expected_def)
qed

theorem MatchBatch_native_witness:
  "\<exists>results. MatchBatch demo_engine 4 [NewUser 1 [''level'' \<mapsto> AInt 5]] 0 results \<and>
    map (\<lambda>r. (Some (RuleIDs r), res_UID r)) results = [(Some [9, 7], 1)]"
proof -
  let ?u = "NewUser 1 [''level'' \<mapsto> AInt 5]"
  obtain results where run: "MatchBatch demo_engine 4 [?u] 0 results"
    using pool_Run_exists [OF demo_total] unfolding MatchBatch_def RunBatch_def by blast
  have "\<forall>p \<in> set (Snapshot (cache demo_engine)). int (length (pSource p)) \<le> 500000000" by code_simp
  from MatchBatch_native [OF demo_reach _ this run]
  have "map (\<lambda>r. (Some (RuleIDs r), res_UID r)) results = [(Match demo_engine ?u, UID ?u)]" by simp
  moreover have "Match demo_engine ?u = Some [9, 7] \<and> UID ?u = 1" by code_simp
  ultimately show ?thesis using run by auto
qed

end
