(* ===== verification/Limiter.thy ===== *)
theory Limiter
  imports Worker_Pool
begin

text \<open>
  The cap on concurrent users, \<^verbatim>\<open>pkg/engine/limiter.go\<close>: a counting semaphore over a buffered
  channel, and batch matching with at most 200 workers. An operation that blocks has no result
  (\<open>None\<close>). \<open>sem_step\<close> interleaves any number of clients that acquire (blocking or not) and release
  what they hold.
\<close>

definition MaxConcurrentUsers :: nat where
  "MaxConcurrentUsers = 200"

record Semaphore =
  slots :: nat
  slots_cap :: nat

definition NewSemaphore :: "int \<Rightarrow> Semaphore" where
  "NewSemaphore n = \<lparr>slots = 0, slots_cap = nat (if n \<le> 0 then 1 else n)\<rparr>"

definition Acquire :: "Semaphore \<Rightarrow> Semaphore option" where
  "Acquire s = (if slots s < slots_cap s then Some (s\<lparr>slots := Suc (slots s)\<rparr>) else None)"

definition TryAcquire :: "Semaphore \<Rightarrow> bool \<times> Semaphore" where
  "TryAcquire s = (if slots s < slots_cap s then (True, s\<lparr>slots := Suc (slots s)\<rparr>) else (False, s))"

definition Release :: "Semaphore \<Rightarrow> Semaphore option" where
  "Release s = (if slots s = 0 then None else Some (s\<lparr>slots := slots s - 1\<rparr>))"

definition InFlight :: "Semaphore \<Rightarrow> nat" where
  "InFlight s = slots s"

definition Cap :: "Semaphore \<Rightarrow> nat" where
  "Cap s = slots_cap s"

section \<open>Clients\<close>

inductive sem_step :: "Semaphore \<times> nat set \<Rightarrow> Semaphore \<times> nat set \<Rightarrow> bool" where
  s_acquire: "c \<notin> hs \<Longrightarrow> Acquire s = Some s' \<Longrightarrow> sem_step (s, hs) (s', insert c hs)"
| s_try: "c \<notin> hs \<Longrightarrow> TryAcquire s = (True, s') \<Longrightarrow> sem_step (s, hs) (s', insert c hs)"
| s_try_full: "TryAcquire s = (False, s') \<Longrightarrow> sem_step (s, hs) (s', hs)"
| s_release: "c \<in> hs \<Longrightarrow> Release s = Some s' \<Longrightarrow> sem_step (s, hs) (s', hs - {c})"

definition sem_inv :: "nat \<Rightarrow> Semaphore \<times> nat set \<Rightarrow> bool" where
  "sem_inv k = (\<lambda>(s, hs). slots_cap s = k \<and> slots s \<le> k \<and> finite hs \<and> card hs = slots s)"

lemma sem_step_inv: "sem_step x y \<Longrightarrow> sem_inv k x \<Longrightarrow> sem_inv k y"
  by (induction rule: sem_step.induct)
    (auto simp: sem_inv_def Acquire_def TryAcquire_def Release_def split: if_splits)

lemma sem_reach_inv: "sem_step\<^sup>*\<^sup>* (NewSemaphore n, {}) x \<Longrightarrow> sem_inv (Cap (NewSemaphore n)) x"
proof (induction rule: rtranclp_induct)
  case base
  then show ?case by (simp add: sem_inv_def Cap_def NewSemaphore_def)
next
  case (step x y)
  then show ?case by (blast intro: sem_step_inv)
qed

section \<open>Bounded batches\<close>

definition bounded_workers :: "nat \<Rightarrow> int" where
  "bounded_workers n =
    (if n > 0 \<and> n < MaxConcurrentUsers then int n else int MaxConcurrentUsers)"

definition MatchBatchBounded ::
  "('e, 'c, 'q) Engine \<Rightarrow> nat \<Rightarrow> User list \<Rightarrow> UserResult list \<Rightarrow> bool" where
  "MatchBatchBounded e gomaxprocs users results \<longleftrightarrow>
    MatchBatch e gomaxprocs users (bounded_workers (length users)) results"

definition judging :: "nat \<Rightarrow> pool \<Rightarrow> nat set" where
  "judging W s = {w. w < W \<and> w_job (p_worker s w) \<noteq> None}"

lemma bounded_pool: "pool_workers gomaxprocs (bounded_workers n) n \<le> MaxConcurrentUsers"
  by (simp add: pool_workers_def bounded_workers_def MaxConcurrentUsers_def Let_def)

lemma judging_le: "card (judging W s) \<le> W"
  using card_mono [of "{..<W}" "judging W s"] by (auto simp: judging_def)

section \<open>Properties\<close>

text \<open>C32: Whatever the clients do, the number of slots in use is the number of holders and never
  exceeds the capacity (which is at least one), a non-blocking attempt fails exactly when all
  slots are in use, and releasing a held slot never blocks.\<close>

theorem semaphore_safe:
  assumes "sem_step\<^sup>*\<^sup>* (NewSemaphore n, {}) (s, hs)"
  shows "InFlight s = card hs \<and> card hs \<le> Cap s \<and> 1 \<le> Cap s \<and>
    (fst (TryAcquire s) \<longleftrightarrow> card hs < Cap s) \<and> (hs \<noteq> {} \<longrightarrow> Release s \<noteq> None)"
  using sem_reach_inv [OF assms]
  by (auto simp: sem_inv_def InFlight_def Cap_def NewSemaphore_def TryAcquire_def Release_def)

theorem semaphore_safe_witness:
  "InFlight \<lparr>slots = 1, slots_cap = 2\<rparr> = card {0 :: nat}"
proof -
  have "Acquire (NewSemaphore 2) = Some \<lparr>slots = 1, slots_cap = 2\<rparr>"
    by (simp add: Acquire_def NewSemaphore_def)
  then have "sem_step (NewSemaphore 2, {}) (\<lparr>slots = 1, slots_cap = 2\<rparr>, insert 0 {})"
    by (intro s_acquire) simp
  then have "sem_step\<^sup>*\<^sup>* (NewSemaphore 2, {}) (\<lparr>slots = 1, slots_cap = 2\<rparr>, {0})" by simp
  from semaphore_safe [OF this] show ?thesis by blast
qed

text \<open>A bounded batch never judges more than 200 users at the same time, at any point of any
  schedule, whatever the number of users and processors, and it returns the same results as
  matching each user alone.\<close>

theorem MatchBatchBounded_bound:
  assumes "W = pool_workers gomaxprocs (bounded_workers (length users)) (length users)"
    and "(pool_step e (Snapshot (cache e)) users W)\<^sup>*\<^sup>* pool_init s" "0 < gomaxprocs"
    and "MatchBatchBounded e gomaxprocs users results"
  shows "card (judging W s) \<le> 200 \<and> results = map (expected e (Snapshot (cache e))) users"
proof
  show "card (judging W s) \<le> 200"
    using judging_le [of W s] bounded_pool [of gomaxprocs "length users"] assms(1)
    by (simp add: MaxConcurrentUsers_def)
  show "results = map (expected e (Snapshot (cache e))) users"
    using assms(3,4) pool_Run_results unfolding MatchBatchBounded_def MatchBatch_def RunBatch_def by blast
qed

theorem MatchBatchBounded_bound_witness:
  "\<exists>results. MatchBatchBounded demo_engine 4 [NewUser 1 [''level'' \<mapsto> AInt 5]] results \<and>
    results = [expected demo_engine (Snapshot (cache demo_engine)) (NewUser 1 [''level'' \<mapsto> AInt 5])]"
proof -
  obtain results where "MatchBatchBounded demo_engine 4 [NewUser 1 [''level'' \<mapsto> AInt 5]] results"
    using pool_Run_exists [OF demo_total] unfolding MatchBatchBounded_def MatchBatch_def RunBatch_def by blast
  with MatchBatchBounded_bound [OF refl rtranclp.rtrancl_refl _ this] show ?thesis by auto
qed

end
