(* ===== verification/Handler.thy ===== *)
theory Handler
  imports Service Limiter
begin

text \<open>
  The HTTP layer: \<^verbatim>\<open>internal/handler/handler.go\<close>, \<^verbatim>\<open>scoring.go\<close>, \<^verbatim>\<open>admin.go\<close> and \<^verbatim>\<open>latency.go\<close>. A request
  arrives as the outcome of decoding its body (an error text or the decoded struct) and its path
  parameter; a response is a status with its JSON payload as a record or an error. Times measured
  inside a handler are arguments. A handler that blocks on the semaphore or panics has no result
  (\<open>None\<close>). The text pages (\<open>Editor\<close>, \<open>Metrics\<close>) are not modelled.

  Shown: the ring of latencies holds exactly the most recent samples and the percentiles are taken
  from them; every scored user gets a name for every matched rule; a batch answers as the single
  requests do; scoring leaves the rules and the semaphore as they were.
\<close>

section \<open>internal/handler/latency.go\<close>

record latencyRecorder =
  buf :: "int list"
  idx :: nat
  full :: bool

definition newLatencyRecorder :: "int \<Rightarrow> latencyRecorder" where
  "newLatencyRecorder capacity =
    \<lparr>buf = replicate (nat (if capacity \<le> 0 then 4096 else capacity)) 0, idx = 0, full = False\<rparr>"

definition Record :: "latencyRecorder \<Rightarrow> int \<Rightarrow> latencyRecorder" where
  "Record r d =
    (let r = r\<lparr>buf := (buf r)[idx r := d], idx := Suc (idx r)\<rparr> in
     if idx r = length (buf r) then r\<lparr>idx := 0, full := True\<rparr> else r)"

text \<open>The constants 0.5, 0.9 and 0.99 as the nearest float64 values.\<close>

definition quantile_50 :: float64 where "quantile_50 = round64 False 1 2"
definition quantile_90 :: float64 where "quantile_90 = round64 False 9 10"
definition quantile_99 :: float64 where "quantile_99 = round64 False 99 100"

text \<open>
  The closure \<open>q\<close>: the index into the sorted window, and the value there in milliseconds.
  \<open>Duration.Microseconds\<close> divides by 1000 towards zero.
\<close>

definition quantile_index :: "(float64 \<Rightarrow> int) \<Rightarrow> nat \<Rightarrow> float64 \<Rightarrow> nat" where
  "quantile_index oor n p =
    (let i = max (trunc64 oor (f64_add (f64_mul p (float64_of_int (int n - 1))) (round64 False 1 2))) 0
     in if i \<ge> int n then n - 1 else nat i)"

definition Microseconds :: "int \<Rightarrow> int" where
  "Microseconds d = sgn d * (\<bar>d\<bar> div 1000)"

definition quantile_of :: "(float64 \<Rightarrow> int) \<Rightarrow> int list \<Rightarrow> float64 \<Rightarrow> float64" where
  "quantile_of oor s p =
    f64_div (float64_of_int (Microseconds (s ! quantile_index oor (length s) p))) (float64_of_int 1000)"

definition window_of :: "latencyRecorder \<Rightarrow> int list" where
  "window_of r = take (if full r then length (buf r) else idx r) (buf r)"

definition Percentiles :: "(float64 \<Rightarrow> int) \<Rightarrow> latencyRecorder \<Rightarrow> float64 \<times> float64 \<times> float64 \<times> nat" where
  "Percentiles oor r =
    (let s = window_of r in
     if s = [] then (f64_zero, f64_zero, f64_zero, 0)
     else let s = sort s in
       (quantile_of oor s quantile_50, quantile_of oor s quantile_90, quantile_of oor s quantile_99, length s))"

section \<open>internal/handler/handler.go\<close>

record ('e, 'c, 'q) RuleHandler =
  svc :: "('e, 'c, 'q) ComManager"
  sem :: Semaphore
  lat :: latencyRecorder

definition NewRuleHandler :: "('e, 'c, 'q) ComManager \<Rightarrow> ('e, 'c, 'q) RuleHandler" where
  "NewRuleHandler s = \<lparr>svc = s, sem = NewSemaphore (int MaxConcurrentUsers), lat = newLatencyRecorder 4096\<rparr>"

record matchResponse =
  mr_RuleIDs :: "int list"
  mr_Names :: "string list"
  mr_UID :: int
  mr_Hits :: nat
  mr_TookMs :: float64

datatype handler_error =
    BadJSON string
  | BadPath
  | MissingRow
  | RuleNotLoaded int
  | UpsertError manager_error
  | EvalError eval_error
  | SelfTestError selftest_error
  | RollbackError manager_error

datatype ('e, 'a) response = R200 'a | R400 "handler_error + 'e" | R404 handler_error

text \<open>The loop that resolves rule names; ids without a name are left out.\<close>

definition resolve_names :: "('e, 'c, 'q) ComManager \<Rightarrow> int list \<Rightarrow> string list" where
  "resolve_names s ids = List.map_filter (RuleName s) ids"

definition scoreOne :: "('e, 'c, 'q) RuleHandler \<Rightarrow> int \<Rightarrow> User \<Rightarrow> matchResponse option" where
  "scoreOne h took u =
    map_option (\<lambda>ids. \<lparr>mr_RuleIDs = ids, mr_Names = resolve_names (svc h) ids, mr_UID = UID u,
      mr_Hits = length ids,
      mr_TookMs = f64_div (float64_of_int (Microseconds took)) (float64_of_int 1000)\<rparr>)
    (svc_Match (svc h) u)"

definition Health :: "('e, 'c, 'q) RuleHandler \<Rightarrow> bool \<times> nat" where
  "Health h = (True, svc_RuleCount (svc h))"

definition h_RuleCount :: "('e, 'c, 'q) RuleHandler \<Rightarrow> nat" where
  "h_RuleCount h = svc_RuleCount (svc h)"

section \<open>internal/handler/scoring.go\<close>

definition h_Match ::
  "('e, 'c, 'q) RuleHandler \<Rightarrow> int \<Rightarrow> int \<Rightarrow> string + User \<Rightarrow>
    (('e, matchResponse) response \<times> ('e, 'c, 'q) RuleHandler) option" where
  "h_Match h took elapsed body =
    (case body of
       Inl err \<Rightarrow> Some (R400 (Inl (BadJSON err)), h)
     | Inr u \<Rightarrow>
         Option.bind (Acquire (sem h)) (\<lambda>acquired.
         Option.bind (scoreOne h took u) (\<lambda>resp.
         Option.bind (Release acquired) (\<lambda>released.
           Some (R200 resp, h\<lparr>sem := released, lat := Record (lat h) elapsed\<rparr>)))))"

text \<open>The responses of a batch from the results of the worker pool.\<close>

definition batch_response :: "('e, 'c, 'q) ComManager \<Rightarrow> User list \<Rightarrow> UserResult list \<Rightarrow> matchResponse list" where
  "batch_response s users results =
    map (\<lambda>i. let uid = UID (users ! i); uid = (if uid = 0 then wrap64 (int i + 1) else uid);
           ids = RuleIDs (results ! i)
         in \<lparr>mr_RuleIDs = ids, mr_Names = resolve_names s ids, mr_UID = uid, mr_Hits = length ids,
             mr_TookMs = f64_zero\<rparr>)
      [0..<length users]"

text \<open>The pool is a relation, since its schedule is not fixed.\<close>

definition h_MatchBatch ::
  "('e, 'c, 'q) RuleHandler \<Rightarrow> nat \<Rightarrow> string + User list \<Rightarrow>
    ('e, matchResponse list) response \<times> ('e, 'c, 'q) RuleHandler \<Rightarrow> bool" where
  "h_MatchBatch h gomaxprocs body out \<longleftrightarrow>
    (case body of
       Inl err \<Rightarrow> out = (R400 (Inl (BadJSON err)), h)
     | Inr users \<Rightarrow>
         (\<exists>acquired results released. Acquire (sem h) = Some acquired \<and>
           MatchBatchBounded (com_Engine (svc h)) gomaxprocs users results \<and>
           Release acquired = Some released \<and>
           out = (R200 (batch_response (svc h) users results), h\<lparr>sem := released\<rparr>)))"

record evaluateRequest =
  er_Row :: row
  er_Rule :: string
  er_RuleID :: int

definition h_Evaluate ::
  "('e, 'c, 'q) RuleHandler \<Rightarrow> string + evaluateRequest \<Rightarrow> ('e, bool \<times> Reason list \<times> string) response" where
  "h_Evaluate h body =
    (case body of
       Inl err \<Rightarrow> R400 (Inl (BadJSON err))
     | Inr req \<Rightarrow>
         if er_Rule req = '''' \<and> er_RuleID req \<noteq> 0 \<and> RuleName (svc h) (er_RuleID req) = None
         then R404 (RuleNotLoaded (er_RuleID req))
         else case Evaluate (svc h) (er_Rule req) (er_RuleID req) (er_Row req) of
           Inl err \<Rightarrow> R400 (Inl (EvalError err))
         | Inr out \<Rightarrow> R200 out)"

text \<open>The decoded row is an association list, whose length the handler asks for.\<close>

definition h_EvaluateAll ::
  "(parse_error \<Rightarrow> string) \<Rightarrow> ('e, 'c, 'q) RuleHandler \<Rightarrow> string + (string \<times> any) list \<times> int \<Rightarrow>
    ('e, EvaluateAllResult) response" where
  "h_EvaluateAll err_text h body =
    (case body of
       Inl err \<Rightarrow> R400 (Inl (BadJSON err))
     | Inr (r, uid) \<Rightarrow>
         if length r = 0 then R400 (Inl MissingRow)
         else R200 (EvaluateAll err_text (svc h) uid (map_of r)))"

section \<open>internal/handler/admin.go\<close>

definition h_RuleList :: "('e, 'c, 'q) RuleHandler \<Rightarrow> Rule list" where
  "h_RuleList h = svc_List (svc h)"

definition h_RuleUpsert ::
  "('e, 'c, 'q) RuleHandler \<Rightarrow> string + Rule \<Rightarrow> ('e, int \<times> nat) response \<times> ('e, 'c, 'q) RuleHandler" where
  "h_RuleUpsert h body =
    (case body of
       Inl err \<Rightarrow> (R400 (Inl (BadJSON err)), h)
     | Inr r \<Rightarrow>
         (case svc_Upsert (svc h) r of
            Inl err \<Rightarrow> (R400 (Inl (UpsertError err)), h)
          | Inr s \<Rightarrow> (R200 (rID r, svc_RuleCount s), h\<lparr>svc := s\<rparr>)))"

definition h_RuleDelete ::
  "('e, 'c, 'q) RuleHandler \<Rightarrow> string \<Rightarrow> ('e, int \<times> nat) response \<times> ('e, 'c, 'q) RuleHandler" where
  "h_RuleDelete h param =
    (case ParseInt param of
       None \<Rightarrow> (R400 (Inl BadPath), h)
     | Some i \<Rightarrow> (let s = svc_Remove (svc h) i in (R200 (i, svc_RuleCount s), h\<lparr>svc := s\<rparr>)))"

definition h_RuleTest ::
  "('e, 'c, 'q) RuleHandler \<Rightarrow> string + row \<times> string \<Rightarrow> ('e, bool) response option" where
  "h_RuleTest h body =
    (case body of
       Inl err \<Rightarrow> Some (R400 (Inl (BadJSON err)))
     | Inr (r, rule) \<Rightarrow>
         map_option (\<lambda>out. case out of Inl err \<Rightarrow> R400 (Inr err) | Inr hit \<Rightarrow> R200 hit)
           (TestDraft (svc h) rule r))"

text \<open>The body is optional: the arguments are what decoding left in the request, a decoding error is
  ignored.\<close>

definition h_SelfTest ::
  "('e, 'c, 'q) RuleHandler \<Rightarrow> row option \<times> string \<Rightarrow>
    (('e, SelfTestResult) response \<times> ('e, 'c, 'q) RuleHandler) option" where
  "h_SelfTest h req =
    (let (r, rule) = req in
     map_option (\<lambda>(out, s). (case out of Inl err \<Rightarrow> R400 (Inl (SelfTestError err)) | Inr res \<Rightarrow> R200 res,
       h\<lparr>svc := s\<rparr>)) (SelfTest (svc h) rule r))"

definition h_VersionList :: "('e, 'c, 'q) RuleHandler \<Rightarrow> Version list" where
  "h_VersionList h = svc_Versions (svc h)"

definition h_Publish ::
  "('e, 'c, 'q) RuleHandler \<Rightarrow> int \<Rightarrow> string \<Rightarrow> (int \<times> int) \<times> ('e, 'c, 'q) RuleHandler" where
  "h_Publish h now comment =
    (let (v, s) = svc_Publish (svc h) now comment in
     ((v_Version v, v_Count v), h\<lparr>svc := s\<rparr>))"

definition h_Rollback ::
  "('e, 'c, 'q) RuleHandler \<Rightarrow> string \<Rightarrow> ('e, int \<times> nat) response \<times> ('e, 'c, 'q) RuleHandler" where
  "h_Rollback h param =
    (case ParseInt param of
       None \<Rightarrow> (R400 (Inl BadPath), h)
     | Some v \<Rightarrow>
         (case svc_Rollback (svc h) v of
            Inl err \<Rightarrow> (R404 (RollbackError err), h)
          | Inr s \<Rightarrow> (R200 (v, svc_RuleCount s), h\<lparr>svc := s\<rparr>)))"

section \<open>The ring of latencies\<close>

text \<open>The ring after recording \<open>ds\<close>: read from the index on, it is the last samples in order.\<close>

definition ring :: "latencyRecorder \<Rightarrow> int list \<Rightarrow> bool" where
  "ring r ds \<longleftrightarrow> idx r < length (buf r) \<and>
    (if full r then length (buf r) \<le> length ds \<and>
       drop (idx r) (buf r) @ take (idx r) (buf r) = drop (length ds - length (buf r)) ds
     else idx r = length ds \<and> take (idx r) (buf r) = ds)"

lemma Record_ring:
  assumes "ring r ds"
  shows "ring (Record r d) (ds @ [d]) \<and> length (buf (Record r d)) = length (buf r)"
proof -
  have i: "idx r < length (buf r)" using assms by (simp add: ring_def)
  define x where "x = take (idx r) (buf r)"
  define z where "z = drop (Suc (idx r)) (buf r)"
  have buf: "buf r = x @ (buf r ! idx r) # z" and x: "length x = idx r"
    using i by (simp_all add: x_def z_def id_take_nth_drop [symmetric])
  have new: "(buf r)[idx r := d] = x @ d # z"
    by (subst buf) (simp add: x [symmetric] list_update_append)
  have len: "length (buf r) = Suc (length x + length z)" by (subst buf) simp
  show ?thesis
  proof (cases "full r")
    case True
    have "drop (idx r) (buf r) = (buf r ! idx r) # z"
      using i by (simp add: z_def Cons_nth_drop_Suc)
    then have old: "(buf r ! idx r) # z @ x = drop (length ds - length (buf r)) ds" "length (buf r) \<le> length ds"
      using assms True by (simp_all add: ring_def x_def)
    have "z @ x = drop (Suc (length ds) - length (buf r)) ds"
      using arg_cong [OF old(1), of tl] old(2) by (simp add: tl_drop drop_Suc [symmetric] Suc_diff_le)
    then have "z @ x @ [d] = drop (length (ds @ [d]) - length (buf r)) (ds @ [d])"
      using old(2) len by simp
    then show ?thesis
      using True old(2) len x new by (auto simp: ring_def Record_def Let_def)
  next
    case False
    then have ds: "x = ds" using assms by (auto simp: ring_def x_def)
    then show ?thesis
      using False len x new by (auto simp: ring_def Record_def Let_def)
  qed
qed

lemma records_ring:
  "ring r ds \<Longrightarrow> ring (foldl Record r es) (ds @ es) \<and> length (buf (foldl Record r es)) = length (buf r)"
proof (induction es arbitrary: r ds)
  case (Cons e es)
  from Cons.IH [OF conjunct1 [OF Record_ring [OF Cons.prems]], of e] Record_ring [OF Cons.prems, of e]
  show ?case by simp
qed simp

lemma window_ring:
  assumes "ring r ds"
  shows "mset (window_of r) = mset (drop (length ds - length (buf r)) ds)"
proof (cases "full r")
  case True
  then have "mset (drop (idx r) (buf r) @ take (idx r) (buf r)) = mset (drop (length ds - length (buf r)) ds)"
    using assms by (simp add: ring_def)
  then show ?thesis
    using True by (simp add: window_of_def) (metis append_take_drop_id mset_append union_commute)
qed (use assms in \<open>auto simp: ring_def window_of_def\<close>)

lemma quantile_index_less: "0 < n \<Longrightarrow> quantile_index oor n p < n"
  by (auto simp: quantile_index_def Let_def)

definition millis :: "int \<Rightarrow> float64" where
  "millis d = f64_div (float64_of_int (Microseconds d)) (float64_of_int 1000)"

lemma quantile_sample: "s \<noteq> [] \<Longrightarrow> quantile_of oor s p \<in> millis ` set s"
  using quantile_index_less [of "length s" oor p] by (auto simp: quantile_of_def millis_def)

section \<open>Names\<close>

lemma resolve_names_all:
  assumes "engine_wf (com_Engine s)" "svc_Match s u = Some ids"
  shows "length (resolve_names s ids) = length ids"
proof -
  have "\<forall>i \<in> set ids. \<exists>n. RuleName s i = Some n"
    using Match_ids(1) [OF assms(1) assms(2) [unfolded svc_Match_def]] by (auto simp: RuleName_def)
  then show ?thesis unfolding resolve_names_def by (induction ids) (auto simp: map_filter_simps)
qed

section \<open>Properties\<close>

text \<open>The latency metrics are about the recent past: after any sequence of requests the window
  holds exactly the last samples, as many as the ring has places, the sample count is their
  number, and each percentile is the value of one of them.\<close>

theorem latency_window:
  "let r = foldl Record (newLatencyRecorder capacity) ds;
     k = nat (if capacity \<le> 0 then 4096 else capacity); recent = drop (length ds - k) ds
   in mset (window_of r) = mset recent \<and>
      (case Percentiles oor r of (p50, p90, p99, n) \<Rightarrow>
         n = min k (length ds) \<and> (ds = [] \<or> {p50, p90, p99} \<subseteq> millis ` set recent))"
proof -
  let ?r = "foldl Record (newLatencyRecorder capacity) ds"
  let ?k = "nat (if capacity \<le> 0 then 4096 else capacity)"
  have "ring (newLatencyRecorder capacity) []" "length (buf (newLatencyRecorder capacity)) = ?k" "0 < ?k"
    by (simp_all add: ring_def newLatencyRecorder_def)
  with records_ring [of "newLatencyRecorder capacity" "[]" ds]
  have "ring ?r ds" and len: "length (buf ?r) = ?k" by auto
  then have m: "mset (window_of ?r) = mset (drop (length ds - ?k) ds)" using window_ring by fastforce
  then have w: "length (window_of ?r) = min ?k (length ds)" "set (window_of ?r) = set (drop (length ds - ?k) ds)"
    by (auto dest: mset_eq_length mset_eq_setD)
  have q: "quantile_of oor (sort (window_of ?r)) p \<in> millis ` set (drop (length ds - ?k) ds)"
    if "window_of ?r \<noteq> []" for p
    using quantile_sample [of "sort (window_of ?r)" oor p] that w(2) by (metis set_empty set_sort)
  have "window_of ?r = [] \<longleftrightarrow> ds = []"
    using w(1) \<open>0 < ?k\<close> by (metis length_0_conv list.size(3) min_0R min_def not_gr_zero)
  then show ?thesis
    using m w(1) q by (cases "ds = []") (simp_all add: Let_def Percentiles_def)
qed

text \<open>C23: Scoring users in one batch request or one request each gives the same answers: the same
  rules, and a name for every rule, whatever the schedule of the workers; neither request changes
  the rules or keeps a slot of the semaphore.\<close>

theorem MatchBatch_agrees_with_Match:
  assumes "engine_reach (BytecodeBackend NativeFrontend) (com_Engine (svc h))"
    and "\<forall>p \<in> set (Snapshot (cache (com_Engine (svc h)))). int (length (pSource p)) \<le> 500000000"
    and "h_MatchBatch h gomaxprocs (Inr users) (R200 out, h')" "0 < gomaxprocs" "i < length users"
  shows "h' = h \<and> length out = length users \<and>
    (\<exists>resp h''. h_Match h took elapsed (Inr (users ! i)) = Some (R200 resp, h'') \<and>
      svc h'' = svc h \<and> sem h'' = sem h \<and>
      mr_RuleIDs (out ! i) = mr_RuleIDs resp \<and> mr_Names (out ! i) = mr_Names resp \<and>
      length (mr_Names resp) = mr_Hits resp \<and> mr_Hits (out ! i) = mr_Hits resp)"
proof -
  have nf: "NativeFrontend = native_Parser" by (simp add: NativeFrontend_def native_Parser_def)
  let ?e = "com_Engine (svc h)"
  obtain acquired results released where b: "Acquire (sem h) = Some acquired"
      "MatchBatchBounded ?e gomaxprocs users results" "Release acquired = Some released"
      "out = batch_response (svc h) users results" "h' = h\<lparr>sem := released\<rparr>"
    using assms(3) by (auto simp: h_MatchBatch_def)
  have sem: "released = sem h" using b(1,3) by (auto simp: Acquire_def Release_def split: if_splits)
  have results: "results = map (expected ?e (Snapshot (cache ?e))) users"
    using b(2) assms(4) pool_Run_results unfolding MatchBatchBounded_def MatchBatch_def RunBatch_def by blast
  obtain ids where ids: "svc_Match (svc h) (users ! i) = Some ids"
    using bytecode_matching.match_engine [OF assms(1) [unfolded nf] short_sources [OF assms(1) [unfolded nf] assms(2)]]
    by (auto simp: svc_Match_def)
  then have ri: "RuleIDs (results ! i) = ids"
    using assms(5) by (simp add: results expected_def matched_def svc_Match_def Match_def)
  have "length (resolve_names (svc h) ids) = length ids"
    using resolve_names_all [OF _ ids] engine_reach_wf [OF assms(1)] by simp
  then show ?thesis
    using b sem ids ri assms(5)
    by (auto simp: h_Match_def scoreOne_def batch_response_def Let_def)
qed

definition demo_handler :: "(parse_error be_error, unit, unit) RuleHandler" where
  "demo_handler = NewRuleHandler demo_container"

theorem MatchBatch_agrees_with_Match_witness:
  "\<exists>out. h_MatchBatch demo_handler 4 (Inr [NewUser 1 [''level'' \<mapsto> AInt 5]]) (R200 out, demo_handler) \<and>
    length out = 1 \<and> length (mr_Names (out ! 0)) = mr_Hits (out ! 0)"
proof -
  let ?us = "[NewUser 1 [''level'' \<mapsto> AInt 5]]"
  have nf: "NativeFrontend = native_Parser" by (simp add: NativeFrontend_def native_Parser_def)
  have e: "com_Engine (svc demo_handler) = demo_engine"
    by (simp add: demo_handler_def NewRuleHandler_def demo_container_engine)
  obtain results where "MatchBatchBounded demo_engine 4 ?us results"
    using pool_Run_exists [OF demo_total] unfolding MatchBatchBounded_def MatchBatch_def RunBatch_def by blast
  then have "h_MatchBatch demo_handler 4 (Inr ?us) (R200 (batch_response (svc demo_handler) ?us results),
      demo_handler\<lparr>sem := sem demo_handler\<rparr>)"
    by (auto simp: h_MatchBatch_def demo_container_engine Acquire_def Release_def demo_handler_def NewRuleHandler_def
        NewSemaphore_def MaxConcurrentUsers_def)
  then have run: "h_MatchBatch demo_handler 4 (Inr ?us) (R200 (batch_response (svc demo_handler) ?us results), demo_handler)"
    by simp
  have "\<forall>p \<in> set (Snapshot (cache demo_engine)). int (length (pSource p)) \<le> 500000000" by code_simp
  with MatchBatch_agrees_with_Match [OF _ _ run, of 0 0 0] demo_reach run show ?thesis
    by (auto simp: e nf)
qed

end
