(* ===== verification/Masking.thy ===== *)
theory Masking
  imports Go_Unicode
begin

text \<open>
  Masking of personal data in logs, \<^verbatim>\<open>internal/masking/masking.go\<close>. A Go string is a byte list;
  ranging over it visits the byte offset of every rune, which \<open>rune_offsets\<close> lists. The JSON
  decoding and encoding of a request body are arguments.

  Shown, for every byte string, well-formed or not: the masked value of a sensitive field has as
  many runes as the original, the first five are kept and the others are stars, and masking twice
  is masking once.
\<close>

section \<open>Operations\<close>

definition SensitiveFields :: "string list" where
  "SensitiveFields = [''ID'', ''BANK_ACCOUNT'', ''CARD_HOLDER_NAME'', ''VIRTUAL_WALLET_ADDRESS'',
    ''VIRTUAL_WALLET_NAME'', ''E_WALLET_ACCOUNT'', ''E_WALLET_NAME'', ''QQ'', ''WECHAT_ID'', ''LINE_ID'',
    ''FB_ID'', ''WHATSAPP'', ''ZALO'', ''TELEGRAM'', ''VIBER'', ''TWITTER'', ''EMAIL'', ''MOBILE_NUMBER'',
    ''WITHDRAWER_NAME'', ''APPLE_ID'', ''KAKAO'', ''GOOGLE'']"

function rune_offsets :: "nat \<Rightarrow> int list \<Rightarrow> nat list" where
  "rune_offsets i [] = []"
| "rune_offsets i (b # bs) =
    (let w = snd (decode_rune b bs) in i # rune_offsets (i + w) (drop (w - 1) bs))"
  by pat_completeness auto
termination
  by (relation "measure (\<lambda>(i, bs). length bs)") auto

definition mask_loop :: "nat list \<Rightarrow> nat \<Rightarrow> nat \<times> nat" where
  "mask_loop offs len = foldl (\<lambda>(count, split) i.
     let count = count + 1 in (count, if count = 6 then i else split)) (0, len) offs"

definition mask_Value :: "string \<Rightarrow> string \<Rightarrow> string" where
  "mask_Value fieldId val =
    (if fieldId \<notin> set SensitiveFields then val
     else let (count, split) = mask_loop (rune_offsets 0 (map of_char val)) (length val) in
       if count \<le> 5 then val else take split val @ replicate (count - 5) (CHR ''*''))"

record verifyItem =
  FieldID :: string
  FieldValue :: string

record verifyDataItem =
  vd_Item :: verifyItem
  vd_Bind :: bool

record submitVerifyRequest =
  CustomerName :: string
  sv_Data :: "verifyDataItem list"

definition RequestBody ::
  "(string \<Rightarrow> string + submitVerifyRequest) \<Rightarrow> (submitVerifyRequest \<Rightarrow> string + string) \<Rightarrow> string \<Rightarrow> string" where
  "RequestBody decode marshal body =
    (if body = [] then body
     else case decode body of
       Inl _ \<Rightarrow> body
     | Inr r \<Rightarrow>
         (let r' = r\<lparr>sv_Data := map (\<lambda>d. d\<lparr>vd_Item := (vd_Item d)\<lparr>FieldValue :=
             mask_Value (FieldID (vd_Item d)) (FieldValue (vd_Item d))\<rparr>\<rparr>) (sv_Data r)\<rparr>
          in case marshal r' of Inl _ \<Rightarrow> body | Inr masked \<Rightarrow> masked))"

section \<open>Offsets of runes\<close>

lemma offsets_length: "length (rune_offsets i bs) = length (decode_bytes bs)"
  by (induction i bs rule: rune_offsets.induct) (simp_all add: Let_def split_def decode_bytes.simps(2))

lemma mask_loop_eq:
  "mask_loop offs len = (length offs, if 5 < length offs then offs ! 5 else len)"
proof -
  have "foldl (\<lambda>(count, split) i. let count = count + 1 in (count, if count = 6 then i else split)) (c, len) offs
      = (c + length offs, if c \<le> 5 \<and> 5 < c + length offs then offs ! (5 - c) else len)" for c
    by (induction offs arbitrary: c len) (auto simp: Let_def nth_Cons')
  from this [of 0] show ?thesis by (simp add: mask_loop_def)
qed

text \<open>Replacing what follows a rune by a star does not change how the rune is decoded.\<close>

lemma decode_rune_star:
  assumes "snd (decode_rune b bs) \<le> Suc k"
  shows "decode_rune b (take k bs @ 42 # t) = decode_rune b bs"
proof -
  have star: "\<not> cont_byte 42" "\<not> second_lo b \<le> 42" by (auto simp: cont_byte_def second_lo_def)
  consider "b < 128 \<or> b < 194 \<or> 244 < b" | "194 \<le> b \<and> b \<le> 223" | "224 \<le> b \<and> b \<le> 239" | "240 \<le> b \<and> b \<le> 244"
    by linarith
  then show ?thesis
  proof cases
    case 2
    with assms star show ?thesis
      by (cases k; cases bs) (auto simp: decode_rune_def split: if_splits)
  next
    case 3
    then have dec: "decode_rune b cs = (case cs of b1 # b2 # _ \<Rightarrow>
        if second_lo b \<le> b1 \<and> b1 \<le> second_hi b \<and> cont_byte b2
        then ((b - 224) * 4096 + (b1 - 128) * 64 + (b2 - 128), 3) else (rune_error, 1)
      | _ \<Rightarrow> (rune_error, 1))" for cs
      by (simp add: decode_rune_def)
    show ?thesis
      using assms star unfolding dec
      by (cases k; cases "k - 1"; cases bs; cases "tl bs") (auto split: if_splits list.splits)
  next
    case 4
    then have dec: "decode_rune b cs = (case cs of b1 # b2 # b3 # _ \<Rightarrow>
        if second_lo b \<le> b1 \<and> b1 \<le> second_hi b \<and> cont_byte b2 \<and> cont_byte b3
        then ((b - 240) * 262144 + (b1 - 128) * 4096 + (b2 - 128) * 64 + (b3 - 128), 4)
        else (rune_error, 1)
      | _ \<Rightarrow> (rune_error, 1))" for cs
      by (simp add: decode_rune_def)
    show ?thesis
      using assms star unfolding dec
      by (cases k; cases "k - 1"; cases "k - 2"; cases bs; cases "tl bs"; cases "tl (tl bs)")
        (auto split: if_splits list.splits)
  qed (auto simp: decode_rune_def)
qed

lemma decode_rune_fits: "snd (decode_rune b bs) \<le> Suc (length bs)"
  by (auto simp: decode_rune_def split: list.splits)

lemma offsets_shift: "rune_offsets (i + j) bs = map ((+) i) (rune_offsets j bs)"
  by (induction j bs rule: rune_offsets.induct) (simp_all add: Let_def add.assoc)

declare rune_offsets.simps(2) [simp del]

lemma offsets_Cons:
  "rune_offsets i (b # bs) =
    i # map ((+) (i + snd (decode_rune b bs))) (rune_offsets 0 (drop (snd (decode_rune b bs) - 1) bs))"
  using offsets_shift [of "i + snd (decode_rune b bs)" 0] by (simp add: rune_offsets.simps(2) Let_def)

lemma cut_star:
  assumes "n < length (rune_offsets 0 bs)"
  defines "k \<equiv> rune_offsets 0 bs ! n"
  shows "k \<le> length bs \<and>
    decode_bytes (take k bs @ 42 # t) = take n (decode_bytes bs) @ decode_bytes (42 # t) \<and>
    rune_offsets 0 (take k bs @ 42 # t) = take n (rune_offsets 0 bs) @ rune_offsets k (42 # t)"
  using assms(1) unfolding k_def
proof (induction n arbitrary: bs)
  case 0
  then show ?case by (cases bs) (auto simp: offsets_Cons)
next
  case (Suc n)
  then obtain b bs' where bs: "bs = b # bs'" by (cases bs) auto
  define w where "w = snd (decode_rune b bs')"
  define after where "after = drop (w - 1) bs'"
  have w: "0 < w" "w - 1 \<le> length bs'"
    using decode_rune_width [of b bs'] decode_rune_fits [of b bs'] by (auto simp: w_def)
  have offs: "rune_offsets 0 bs = 0 # map ((+) w) (rune_offsets 0 after)"
    by (simp add: bs offsets_Cons w_def after_def)
  let ?k = "rune_offsets 0 after ! n"
  have n: "n < length (rune_offsets 0 after)" using Suc.prems offs by simp
  note ih = Suc.IH [OF n]
  have k: "rune_offsets 0 bs ! Suc n = w + ?k" using offs n by simp
  define cs where "cs = take (w - 1) bs' @ take ?k after @ 42 # t"
  have cut: "take (w + ?k) bs @ 42 # t = b # cs"
    using w(1) by (cases w) (auto simp: bs after_def cs_def take_add)
  have rune: "decode_rune b cs = decode_rune b bs'"
    using decode_rune_star [of b bs' "w - 1 + ?k" t] w
    unfolding take_add after_def [symmetric] by (simp add: w_def cs_def)
  have tail: "drop (w - 1) cs = take ?k after @ 42 # t" using w(2) by (simp add: cs_def)
  have "decode_bytes (take (w + ?k) bs @ 42 # t) = fst (decode_rune b bs') # decode_bytes (take ?k after @ 42 # t)"
    "rune_offsets 0 (take (w + ?k) bs @ 42 # t) = 0 # map ((+) w) (rune_offsets 0 (take ?k after @ 42 # t))"
    unfolding cut tail [symmetric] decode_bytes.simps(2) offsets_Cons rune
    by (simp_all add: split_def Let_def w_def)
  moreover have "decode_bytes bs = fst (decode_rune b bs') # decode_bytes after"
    by (simp add: bs decode_bytes.simps(2) split_def Let_def w_def after_def)
  ultimately show ?case
    using ih w offs k offsets_shift [of w ?k "42 # t"] by (auto simp: after_def bs take_map)
qed

lemma decode_stars: "decode_bytes (replicate n 42) = replicate n 42"
  by (induction n) (simp_all add: decode_bytes.simps(2) decode_rune_def)

lemma of_char_star [simp]: "of_char CHR ''*'' = (42 :: int)"
  by code_simp

text \<open>The masked value of a sensitive field with more than five runes.\<close>

lemma mask_Value_long:
  assumes "fieldId \<in> set SensitiveFields" "5 < length (runes_of val)"
  defines "k \<equiv> rune_offsets 0 (map of_char val) ! 5"
  shows "mask_Value fieldId val = take k val @ replicate (length (runes_of val) - 5) (CHR ''*'')"
    "runes_of (mask_Value fieldId val) = take 5 (runes_of val) @ replicate (length (runes_of val) - 5) 42"
    "k \<le> length val" "rune_offsets 0 (map of_char (mask_Value fieldId val)) ! 5 = k"
proof -
  let ?bs = "map of_char val :: int list" and ?m = "length (runes_of val) - 6"
  have len: "length (rune_offsets 0 ?bs) = length (runes_of val)"
    by (simp add: offsets_length runes_of_def)
  show eq: "mask_Value fieldId val = take k val @ replicate (length (runes_of val) - 5) (CHR ''*'')"
    using assms len by (simp add: mask_Value_def mask_loop_eq)
  have five: "(5 :: nat) < length (rune_offsets 0 ?bs)" using assms(2) len by simp
  have stars: "replicate (length (runes_of val) - 5) (42 :: int) = 42 # replicate ?m 42"
    using assms(2) by (simp flip: replicate_Suc add: Suc_diff_Suc)
  have stars': "decode_bytes (42 # replicate ?m 42) = 42 # replicate ?m 42"
    using decode_stars [of "Suc ?m"] by simp
  have bytes: "map of_char (mask_Value fieldId val) = take k ?bs @ 42 # replicate ?m 42"
    by (simp only: eq map_append take_map [symmetric] map_replicate of_char_star stars)
  note cut = cut_star [OF five, of "replicate ?m 42", folded k_def]
  show "runes_of (mask_Value fieldId val) = take 5 (runes_of val) @ replicate (length (runes_of val) - 5) 42"
    unfolding stars using cut stars' bytes by (simp add: runes_of_def)
  show "k \<le> length val" using cut by simp
  have "length (take 5 (rune_offsets 0 ?bs)) = 5" using five by simp
  then show "rune_offsets 0 (map of_char (mask_Value fieldId val)) ! 5 = k"
    using cut by (simp add: bytes nth_append offsets_Cons)
qed

lemma mask_Value_idem: "mask_Value fieldId (mask_Value fieldId val) = mask_Value fieldId val"
proof (cases "fieldId \<in> set SensitiveFields \<and> 5 < length (runes_of val)")
  case True
  note v = mask_Value_long [OF conjunct1 [OF True] conjunct2 [OF True]]
  let ?v = "mask_Value fieldId val"
  have len: "length (runes_of ?v) = length (runes_of val)" using v(2) True by simp
  then have "5 < length (runes_of ?v)" using True by simp
  from mask_Value_long(1) [OF conjunct1 [OF True] this] v len show ?thesis by simp
next
  case False
  then have "mask_Value fieldId val = val"
    by (auto simp: mask_Value_def mask_loop_eq offsets_length runes_of_def)
  then show ?thesis by simp
qed

section \<open>Properties\<close>

text \<open>Masking keeps the number of runes, shows the first five and hides all others, for every
  byte string; values of up to five runes and fields that are not sensitive are unchanged. Masking a
  masked value changes nothing.\<close>

theorem mask_Value_hides:
  "mask_Value fieldId (mask_Value fieldId val) = mask_Value fieldId val \<and>
   runes_of (mask_Value fieldId val) =
    (if fieldId \<in> set SensitiveFields
     then take 5 (runes_of val) @ replicate (length (runes_of val) - 5) (of_char (CHR ''*''))
     else runes_of val)"
proof (cases "fieldId \<in> set SensitiveFields \<and> 5 < length (runes_of val)")
  case True
  then show ?thesis using mask_Value_long(2) mask_Value_idem by simp
next
  case False
  then show ?thesis
    using mask_Value_idem [of fieldId val]
    by (auto simp: mask_Value_def mask_loop_eq offsets_length runes_of_def)
qed

end
