(* ===== verification/Float_RoundTrip.thy ===== *)
theory Float_RoundTrip
  imports Go_Float Complex_Main
begin

text \<open>
  Printing a float64 with \<open>strconv.FormatFloat(x, 'f', -1, 64)\<close> and reading the text with
  \<open>strconv.ParseFloat\<close> gives the number back. The front-ends print the number literals they decode
  into the text field of the intermediate representation and the compilers read them from there,
  so this is what makes a decoded number reach the comparison unchanged.

  The proof has three parts: the decimal that \<open>shortest\<close> returns lies in the rounding interval of
  the number; every fraction in the rounding interval is rounded to the number; and the printed
  text is read as that decimal.
\<close>

section \<open>Finite numbers\<close>

fun finite64 :: "float64 \<Rightarrow> bool" where
  "finite64 (Fin s m e) =
    (if m = 0 then e = 0
     else 0 < m \<and> m < 2 ^ 53 \<and> -1074 \<le> e \<and> e \<le> 971 \<and> (2 ^ 52 \<le> m \<or> e = -1074))"
| "finite64 _ = False"

text \<open>The fractions that are nearest to \<open>m * 2^e\<close>, in units of \<open>2^(e - 2)\<close>.\<close>

definition rounds_to :: "int \<Rightarrow> int \<Rightarrow> real \<Rightarrow> bool" where
  "rounds_to m e v \<longleftrightarrow>
    (of_int (lower4 m e) * 2 powi (e - 2) < v \<or> even m \<and> of_int (lower4 m e) * 2 powi (e - 2) = v) \<and>
    (v < of_int (upper4 m) * 2 powi (e - 2) \<or> even m \<and> of_int (upper4 m) * 2 powi (e - 2) = v)"

lemma powi_split: "0 < (b::real) \<Longrightarrow> b powi k = b ^ nat k / b ^ nat (- k)"
  by (auto simp: power_int_def field_simps)

lemma scaled_less:
  "of_int x * 2 powi (e - 2) < of_int d * (10::real) powi p \<longleftrightarrow>
    x * 2 ^ nat (e - 2) * 10 ^ nat (- p) < d * 10 ^ nat p * 2 ^ nat (2 - e)" (is "?l \<longleftrightarrow> ?r")
  "of_int d * (10::real) powi p < of_int x * 2 powi (e - 2) \<longleftrightarrow>
    d * 10 ^ nat p * 2 ^ nat (2 - e) < x * 2 ^ nat (e - 2) * 10 ^ nat (- p)" (is "?l' \<longleftrightarrow> ?r'")
  "of_int x * 2 powi (e - 2) = of_int d * (10::real) powi p \<longleftrightarrow>
    x * 2 ^ nat (e - 2) * 10 ^ nat (- p) = d * 10 ^ nat p * 2 ^ nat (2 - e)" (is "?m \<longleftrightarrow> ?n")
proof -
  let ?a = "of_int x * (2::real) powi (e - 2)" and ?b = "of_int d * (10::real) powi p"
  let ?c = "(2::real) ^ nat (2 - e) * 10 ^ nat (- p)"
  have c: "0 < ?c" by simp
  have a: "?a * ?c = of_int (x * 2 ^ nat (e - 2) * 10 ^ nat (- p))"
    by (simp add: powi_split [of 2])
  have b: "?b * ?c = of_int (d * 10 ^ nat p * 2 ^ nat (2 - e))"
    by (simp add: powi_split [of 10])
  show "?l \<longleftrightarrow> ?r" "?l' \<longleftrightarrow> ?r'" "?m \<longleftrightarrow> ?n"
    using mult_less_cancel_right_pos [OF c, of ?a ?b] mult_less_cancel_right_pos [OF c, of ?b ?a]
      mult_cancel_right [of ?a ?c ?b] c unfolding a b of_int_less_iff of_int_eq_iff by auto
qed

lemma dec_in_rounds:
  "dec_in_lower m e d p \<and> dec_in_upper m e d p \<longleftrightarrow> rounds_to m e (of_int d * 10 powi p)"
  unfolding dec_in_lower_def dec_in_upper_def rounds_to_def Let_def
  using scaled_less by metis

section \<open>The printed decimal lies in the rounding interval\<close>

lemma rounds_below:
  assumes "0 < m" "dec_in_lower m e d p" "of_int d * 10 powi p \<le> of_int m * (2::real) powi e"
  shows "rounds_to m e (of_int d * 10 powi p)"
proof -
  have "of_int m * (2::real) powi e < of_int (upper4 m) * 2 powi (e - 2)"
    by (simp add: upper4_def power_int_diff field_simps)
  with assms(3) have "of_int d * 10 powi p < of_int (upper4 m) * (2::real) powi (e - 2)" by simp
  then have "dec_in_upper m e d p" unfolding dec_in_upper_def Let_def using scaled_less(2) by metis
  with assms(2) dec_in_rounds show ?thesis by blast
qed

lemma rounds_above:
  assumes "0 < m" "dec_in_upper m e d p" "of_int m * (2::real) powi e < of_int d * 10 powi p"
  shows "rounds_to m e (of_int d * 10 powi p)"
proof -
  have "of_int (lower4 m e) * 2 powi (e - 2) < of_int m * (2::real) powi e"
    by (simp add: lower4_def power_int_diff field_simps)
  with assms(3) have "of_int (lower4 m e) * (2::real) powi (e - 2) < of_int d * 10 powi p" by simp
  then have "dec_in_lower m e d p" unfolding dec_in_lower_def Let_def using scaled_less(1) by metis
  with assms(2) dec_in_rounds show ?thesis by blast
qed

lemma shortest_step:
  fixes m e p :: int
  defines "a \<equiv> m * 2 ^ nat e * 10 ^ nat (- p)" and "b \<equiv> 2 ^ nat (- e) * 10 ^ nat p"
  shows "of_int (a div b) * 10 powi p \<le> of_int m * (2::real) powi e"
    and "of_int m * (2::real) powi e < of_int (a div b + 1) * 10 powi p"
proof -
  have b: "0 < b" by (simp add: b_def)
  have v: "of_int m * (2::real) powi e = (of_int a / of_int b) * 10 powi p"
    by (simp add: a_def b_def powi_split [of 2] powi_split [of 10])
  have p: "0 < (10::real) powi p" by simp
  have "of_int (a div b) \<le> (of_int a / of_int b :: real)"
    by (metis floor_divide_of_int_eq of_int_floor_le)
  then show "of_int (a div b) * 10 powi p \<le> of_int m * (2::real) powi e"
    unfolding v by (rule mult_right_mono [OF _ less_imp_le [OF p]])
  have "(of_int a / of_int b :: real) < of_int (a div b + 1)"
    by (metis floor_divide_of_int_eq floor_correct)
  then show "of_int m * (2::real) powi e < of_int (a div b + 1) * 10 powi p"
    unfolding v by (rule mult_strict_right_mono [OF _ p])
qed

lemma shortest_exact:
  fixes m e p :: int
  assumes "0 < m" "-1074 \<le> e" "p \<le> -1074"
  shows "dec_in_lower m e (m * 2 ^ nat e * 10 ^ nat (- p) div (2 ^ nat (- e) * 10 ^ nat p)) p"
proof -
  let ?a = "m * 2 ^ nat e * 10 ^ nat (- p)" and ?b = "2 ^ nat (- e) * 10 ^ nat p :: int"
  have "nat (- e) \<le> nat (- p)" using assms by simp
  then have "(2::int) ^ nat (- e) dvd 2 ^ nat (- p)" by (simp add: le_imp_power_dvd)
  also have "(2::int) ^ nat (- p) dvd 10 ^ nat (- p)" by (intro dvd_power_same) simp
  finally have "?b dvd ?a" using assms(3) by simp
  then have "of_int (?a div ?b) = (of_int ?a / of_int ?b :: real)" by (rule real_of_int_div)
  then have "of_int (?a div ?b) * 10 powi p = of_int m * (2::real) powi e"
    by (simp add: powi_split [of 2] powi_split [of 10])
  moreover have "of_int (lower4 m e) * 2 powi (e - 2) < of_int m * (2::real) powi e"
    using assms(1) by (simp add: lower4_def power_int_diff field_simps)
  ultimately show ?thesis unfolding dec_in_lower_def Let_def using scaled_less(1) by metis
qed

lemma shortest_rounds:
  assumes "0 < m" "-1074 \<le> e" "shortest m e p = (d, k)"
  shows "rounds_to m e (of_int d * 10 powi k)"
  using assms
proof (induction m e p rule: shortest.induct)
  case (1 m e p)
  let ?a = "m * 2 ^ nat e * 10 ^ nat (- p)" and ?b = "2 ^ nat (- e) * 10 ^ nat p :: int"
  let ?d = "?a div ?b"
  have down: "rounds_to m e (of_int ?d * 10 powi p)" if "dec_in_lower m e ?d p"
    using rounds_below [OF 1(2) that] shortest_step(1) by blast
  have up: "rounds_to m e (of_int (?d + 1) * 10 powi p)" if "dec_in_upper m e (?d + 1) p"
    using rounds_above [OF 1(2) that] shortest_step(2) by blast
  have re: "round_half_even ?a ?b = ?d \<or> round_half_even ?a ?b = ?d + 1"
    by (simp add: round_half_even_def Let_def)
  define L U R where "L = dec_in_lower m e ?d p" and "U = dec_in_upper m e (?d + 1) p"
    and "R = round_half_even ?a ?b"
  have eq: "shortest m e p = (if L \<and> U then (R, p) else if L then (?d, p) else if U then (?d + 1, p)
      else if p \<le> -1074 then (?d, p) else shortest m e (p - 1))"
    unfolding L_def U_def R_def by (subst shortest.simps) (simp only: Let_def)
  have L: "p \<le> -1074 \<Longrightarrow> L" unfolding L_def using shortest_exact [OF 1(2,3)] by blast
  consider (both) "L" "U" "d = R" "k = p" | (down) "L" "d = ?d" "k = p" | (up) "U" "d = ?d + 1" "k = p"
    | (rec) "\<not> L" "\<not> U" "\<not> p \<le> -1074" "shortest m e (p - 1) = (d, k)"
    using 1(4) L unfolding eq by (metis prod.inject)
  then show ?case
  proof cases
    case both
    then show ?thesis using re down up unfolding L_def U_def R_def by metis
  next
    case rec
    show ?thesis
      by (rule 1(1) [OF refl refl refl refl refl]) (use rec 1(2,3) in \<open>auto simp only: L_def U_def\<close>)
  next
    case down
    then show ?thesis using \<open>dec_in_lower m e ?d p \<Longrightarrow> rounds_to m e (of_int ?d * 10 powi p)\<close>
      unfolding L_def by metis
  next
    case up
    then show ?thesis using \<open>dec_in_upper m e (?d + 1) p \<Longrightarrow> rounds_to m e (of_int (?d + 1) * 10 powi p)\<close>
      unfolding U_def by metis
  qed
qed

section \<open>Rounding back\<close>

lemma bitlen_bounds:
  "0 < n \<Longrightarrow> 0 < bitlen n \<and> 2 ^ nat (bitlen n - 1) \<le> n \<and> n < 2 ^ nat (bitlen n)"
proof (induction n rule: bitlen.induct)
  case (1 n)
  show ?case
  proof (cases "n = 1")
    case True
    then show ?thesis by (simp add: bitlen.simps)
  next
    case False
    define k where "k = nat (bitlen (n div 2))"
    have "0 < n div 2" using 1(2) False by linarith
    then have IH: "0 < bitlen (n div 2)" "2 ^ nat (bitlen (n div 2) - 1) \<le> n div 2" "n div 2 < 2 ^ k"
      using 1(1) 1(2) unfolding k_def by auto
    have b: "bitlen n = 1 + bitlen (n div 2)" using 1(2) by (subst bitlen.simps) simp
    have p1: "(2::int) ^ nat (bitlen n - 1) = 2 * 2 ^ nat (bitlen (n div 2) - 1)"
      using IH(1) by (simp add: b flip: power_Suc)
    have p2: "(2::int) ^ nat (bitlen n) = 2 * 2 ^ k"
      using IH(1) by (simp add: b k_def nat_add_distrib)
    show ?thesis using IH b p1 p2 by linarith
  qed
qed

lemma bitlen_real:
  assumes "0 < n"
  shows "2 powi (bitlen n - 1) \<le> real_of_int n \<and> real_of_int n < 2 powi (bitlen n)"
proof -
  have b: "0 < bitlen n" "2 ^ nat (bitlen n - 1) \<le> n" "n < 2 ^ nat (bitlen n)"
    using bitlen_bounds [OF assms] by auto
  have "real_of_int (2 ^ nat (bitlen n - 1)) \<le> real_of_int n" "real_of_int n < real_of_int (2 ^ nat (bitlen n))"
    using b(2,3) by (simp_all only: of_int_le_iff of_int_less_iff)
  then show ?thesis using b(1) by (simp add: power_int_def)
qed

lemma scale2_real:
  assumes "0 < q" "scale2 p q e = (a, b)"
  shows "0 < b \<and> of_int a / of_int b = (of_int p / of_int q) * (2::real) powi (- e)"
  using assms by (auto simp: scale2_def powi_split [of 2])

lemma exponent64_spec:
  assumes "0 < p" "0 < q"
  obtains E where "exponent64 p q = max (-1074) E"
    "2 ^ 52 * 2 powi E \<le> of_int p / (of_int q :: real)" "of_int p / (of_int q :: real) < 2 ^ 53 * 2 powi E"
proof -
  define e where "e = bitlen p - bitlen q - 53"
  obtain a b where ab: "scale2 p q e = (a, b)" by (cases "scale2 p q e")
  let ?v = "of_int p / (of_int q :: real)"
  have b: "0 < b" "of_int a / of_int b = ?v * 2 powi (- e)" using scale2_real [OF assms(2) ab] by auto
  have P: "2 powi (bitlen p - 1) \<le> real_of_int p" "real_of_int p < 2 powi (bitlen p)"
    "2 powi (bitlen q - 1) \<le> real_of_int q" "real_of_int q < 2 powi (bitlen q)" "0 < real_of_int q"
    using bitlen_real [OF assms(1)] bitlen_real [OF assms(2)] assms by auto
  have "2 powi (bitlen p - 1) / 2 powi (bitlen q) < ?v"
    using P by (intro frac_less2) auto
  have pe: "(2::real) powi e = 2 powi (bitlen p) / 2 powi (bitlen q) / 2 ^ 53"
    unfolding e_def by (subst power_int_diff, simp, subst power_int_diff) simp_all
  have lo: "2 ^ 52 * 2 powi e < ?v"
    using \<open>_ < ?v\<close> unfolding pe by (simp add: power_int_diff)
  have "?v < 2 powi (bitlen p) / 2 powi (bitlen q - 1)"
    using P assms(1) by (intro frac_less) auto
  then have hi: "?v < 2 ^ 54 * 2 powi e"
    unfolding pe by (simp add: power_int_diff mult.commute)
  have cond: "2 ^ 53 * b \<le> a \<longleftrightarrow> 2 ^ 53 * 2 powi e \<le> ?v"
  proof -
    have "2 ^ 53 * b \<le> a \<longleftrightarrow> real_of_int (2 ^ 53 * b) \<le> real_of_int a" by (simp only: of_int_le_iff)
    also have "\<dots> \<longleftrightarrow> 2 ^ 53 \<le> (of_int a / of_int b :: real)" using b(1) by (simp add: field_simps)
    also have "\<dots> \<longleftrightarrow> 2 ^ 53 \<le> ?v / 2 powi e" unfolding b(2) by (simp add: power_int_minus divide_inverse)
    also have "\<dots> \<longleftrightarrow> 2 ^ 53 * 2 powi e \<le> ?v" by (rule pos_le_divide_eq) simp
    finally show ?thesis .
  qed
  have ex: "exponent64 p q = max (-1074) (if 2 ^ 53 * b \<le> a then e + 1 else e)"
    by (simp only: exponent64_def Let_def e_def [symmetric] ab prod.case)
  show thesis
  proof (cases "2 ^ 53 * b \<le> a")
    case True
    have "2 ^ 52 * 2 powi (e + 1) \<le> ?v" "?v < 2 ^ 53 * 2 powi (e + 1)"
      using cond True hi by (simp_all add: power_int_add)
    with ex True that show ?thesis by simp
  next
    case False
    then show ?thesis using ex cond lo that [of e] by simp
  qed
qed

lemma exponent_unique:
  assumes "2 ^ 52 * 2 powi E \<le> (v::real)" "v < 2 ^ 53 * 2 powi E"
    and "2 ^ 52 * 2 powi F \<le> v" "v < 2 ^ 53 * 2 powi F"
  shows "E = F"
proof -
  have key: "E' < F' + 1" if "2 ^ 52 * 2 powi E' \<le> v" "v < 2 ^ 53 * 2 powi F'" for E' F'
  proof -
    have "2 ^ 52 * 2 powi E' < 2 ^ 52 * (2::real) powi (F' + 1)"
      using that by (simp add: power_int_add)
    then have "(2::real) powi E' < 2 powi (F' + 1)" by simp
    then show ?thesis by (metis linorder_not_le one_le_numeral power_int_increasing)
  qed
  show ?thesis using key [OF assms(1,4)] key [OF assms(3,2)] by simp
qed

lemma round_half_even_nearest:
  assumes "0 < b" "(2 * m - 1) * b < 2 * a \<or> even m \<and> (2 * m - 1) * b = 2 * a"
    and "2 * a < (2 * m + 1) * b \<or> even m \<and> 2 * a = (2 * m + 1) * b"
  shows "round_half_even a b = m"
proof -
  define d r where "d = a div b" and "r = a mod b"
  have a: "a = d * b + r" and r: "0 \<le> r" "r < b" using assms(1) by (simp_all add: d_def r_def)
  have "(2 * m - 1) * b < (2 * d + 2) * b" using assms(2) r by (auto simp: a algebra_simps)
  then have "2 * m - 1 < 2 * d + 2" using assms(1) by simp
  moreover have "2 * d * b \<le> (2 * m + 1) * b" using assms(3) r by (auto simp: a algebra_simps)
  then have "2 * d \<le> 2 * m + 1" using assms(1) by simp
  ultimately consider "d = m" | "d = m - 1" by linarith
  then show ?thesis
  proof cases
    case 1
    with assms(3) have "2 * r < b \<or> even m \<and> 2 * r = b" by (auto simp: a algebra_simps)
    then show ?thesis using 1 by (auto simp: round_half_even_def Let_def simp flip: d_def r_def)
  next
    case 2
    with assms(2) have "b < 2 * r \<or> even m \<and> 2 * r = b" by (auto simp: a algebra_simps)
    then show ?thesis using 2 by (auto simp: round_half_even_def Let_def simp flip: d_def r_def)
  qed
qed

text \<open>The rounding interval in units of \<open>2^e\<close>.\<close>

lemma rounds_to_bounds:
  assumes "rounds_to m e v"
  defines "y \<equiv> v * 2 powi (- e)"
  shows "2 * of_int m - 1 < 2 * y \<or> even m \<and> 2 * of_int m - 1 = 2 * y"
    and "2 * y < 2 * of_int m + 1 \<or> even m \<and> 2 * y = 2 * of_int m + 1"
    and "m = 2 ^ 52 \<Longrightarrow> -1074 < e \<Longrightarrow> 4 * 2 ^ 52 - 1 \<le> 4 * y"
proof -
  have s: "(2::real) powi (e - 2) = 2 powi e / 4" by (simp add: power_int_diff)
  have v: "v = y * 2 powi e" by (simp add: y_def power_int_minus)
  have pos: "0 < (2::real) powi e" by simp
  have cmp: "of_int x * 2 powi (e - 2) < v \<longleftrightarrow> of_int x < 4 * y"
    "v < of_int x * 2 powi (e - 2) \<longleftrightarrow> 4 * y < of_int x"
    "of_int x * 2 powi (e - 2) = v \<longleftrightarrow> of_int x = 4 * y" for x :: int
    unfolding s v using pos by (auto simp: field_simps)
  note r = assms(1) [unfolded rounds_to_def cmp]
  have lo: "(4 * of_int m - 2 :: real) \<le> of_int (lower4 m e)" "even m \<or> of_int (lower4 m e) < 4 * y"
    using r by (auto simp: lower4_def)
  show "2 * of_int m - 1 < 2 * y \<or> even m \<and> 2 * of_int m - 1 = 2 * y" using r lo by auto
  show "2 * y < 2 * of_int m + 1 \<or> even m \<and> 2 * y = 2 * of_int m + 1" using r by (auto simp: upper4_def)
  show "m = 2 ^ 52 \<Longrightarrow> -1074 < e \<Longrightarrow> 4 * 2 ^ 52 - 1 \<le> 4 * y" using r by (auto simp: lower4_def)
qed

lemma round_scaled:
  assumes "0 < q" "scale2 p q e = (a, b)"
    and "2 * of_int m - 1 < 2 * y \<or> even m \<and> 2 * of_int m - 1 = 2 * y"
    and "2 * y < 2 * of_int m + 1 \<or> even m \<and> 2 * y = 2 * of_int m + 1"
    and "y = (of_int p / of_int q) * (2::real) powi (- e)"
  shows "round_half_even a b = m"
proof -
  have b: "0 < b" and y: "y * of_int b = of_int a"
    using scale2_real [OF assms(1,2)] assms(5) by (auto simp: field_simps)
  have rb: "0 < (of_int b :: real)" using b by simp
  have "real_of_int ((2 * m - 1) * b) < real_of_int (2 * a) \<or>
      even m \<and> real_of_int ((2 * m - 1) * b) = real_of_int (2 * a)"
    using assms(3) mult_strict_right_mono [OF _ rb, of "2 * of_int m - 1" "2 * y"] by (auto simp flip: y)
  moreover have "real_of_int (2 * a) < real_of_int ((2 * m + 1) * b) \<or>
      even m \<and> real_of_int (2 * a) = real_of_int ((2 * m + 1) * b)"
    using assms(4) mult_strict_right_mono [OF _ rb, of "2 * y" "2 * of_int m + 1"] by (auto simp flip: y)
  ultimately have "(2 * m - 1) * b < 2 * a \<or> even m \<and> (2 * m - 1) * b = 2 * a"
    "2 * a < (2 * m + 1) * b \<or> even m \<and> 2 * a = (2 * m + 1) * b"
    unfolding of_int_less_iff of_int_eq_iff by blast+
  then show ?thesis using round_half_even_nearest [OF b] by blast
qed

lemma round64_at:
  assumes "0 < p" "0 < q" "exponent64 p q = e" "scale2 p q e = (a, b)" "round_half_even a b = m"
  shows "round64 s p q = (if m = 2 ^ 53 then if 971 < e + 1 then Inf s else Fin s (2 ^ 52) (e + 1)
    else if 971 < e then Inf s else Fin s m e)"
  using assms by (simp add: round64_def Let_def)

lemma round64_rounds:
  assumes fin: "finite64 (Fin s m e)" and m: "0 < m" and pq: "0 < p" "0 < q"
    and r: "rounds_to m e (of_int p / of_int q)"
  shows "round64 s p q = Fin s m e"
proof -
  let ?v = "of_int p / of_int q :: real"
  define y where "y = ?v * 2 powi (- e)"
  note ys = rounds_to_bounds [OF r, folded y_def]
  have fm: "m < 2 ^ 53" "-1074 \<le> e" "e \<le> 971" "2 ^ 52 \<le> m \<or> e = -1074" using fin m by auto
  have v: "?v = y * 2 powi e" by (simp add: y_def power_int_minus)
  obtain E where E: "exponent64 p q = max (-1074) E" "2 ^ 52 * 2 powi E \<le> ?v" "?v < 2 ^ 53 * 2 powi E"
    using exponent64_spec [OF pq] by blast
  have "real_of_int m \<le> real_of_int (2 ^ 53 - 1)" using fm(1) by (simp only: of_int_le_iff)
  then have mi: "real_of_int m \<le> 2 ^ 53 - 1" by simp
  have yhi: "y < 2 ^ 53" using ys(2) mi by auto
  have same: ?thesis if "exponent64 p q = e"
  proof -
    obtain a b where ab: "scale2 p q e = (a, b)" by (cases "scale2 p q e")
    have "round_half_even a b = m" by (rule round_scaled [OF pq(2) ab ys(1,2) y_def])
    from round64_at [OF pq that ab this] fm(1,3) show ?thesis by simp
  qed
  show ?thesis
  proof (cases "2 ^ 52 \<le> y")
    case True
    then have "2 ^ 52 * 2 powi e \<le> ?v" "?v < 2 ^ 53 * 2 powi e" using yhi v by auto
    then have "E = e" using E(2,3) exponent_unique by blast
    then show ?thesis using same E(1) fm(2) by simp
  next
    case low: False
    show ?thesis
    proof (cases "e = -1074")
      case True
      have "E \<le> e"
      proof (rule ccontr)
        assume "\<not> E \<le> e"
        then have "(2::real) powi e \<le> 2 powi E" by (intro power_int_increasing) auto
        then have "2 ^ 52 * (2::real) powi e \<le> 2 ^ 52 * 2 powi E" by simp
        also have "\<dots> \<le> y * 2 powi e" using E(2) v by simp
        finally have "2 ^ 52 * (2::real) powi e \<le> y * 2 powi e" .
        then show False using low by simp
      qed
      then show ?thesis using same E(1) True by simp
    next
      case False
      then have e: "-1074 < e" "2 ^ 52 \<le> m" using fm by auto
      have "2 * m - 1 < 2 * 2 ^ 52"
        using ys(1) low by (auto simp: of_int_less_iff [where 'a = real, symmetric] simp del: of_int_less_iff)
      then have m52: "m = 2 ^ 52" using e(2) by simp
      note y4 = ys(3) [OF m52 e(1)]
      have v': "?v = 2 * y * 2 powi (e - 1)" using v by (simp add: power_int_diff)
      have "2 ^ 52 * 2 powi (e - 1) \<le> ?v" "?v < 2 ^ 53 * 2 powi (e - 1)"
        unfolding v' using y4 low by auto
      then have "E = e - 1" using E(2,3) exponent_unique by blast
      then have ex: "exponent64 p q = e - 1" using E(1) e(1) by simp
      obtain a b where ab: "scale2 p q (e - 1) = (a, b)" by (cases "scale2 p q (e - 1)")
      have "round_half_even a b = 2 ^ 53"
      proof (rule round_scaled [OF pq(2) ab])
        show "2 * y = (of_int p / of_int q) * (2::real) powi (- (e - 1))"
          by (simp add: y_def power_int_minus power_int_diff field_simps)
      qed (use y4 low in \<open>auto simp: not_le\<close>)
      from round64_at [OF pq ex ab this] m52 fm(3) show ?thesis by simp
    qed
  qed
qed

section \<open>Reading the printed text\<close>

lemma digit_char_val: "0 \<le> d \<Longrightarrow> d < 10 \<Longrightarrow> is_dec (digit_char d) \<and> digit_val (digit_char d) = d"
proof -
  assume "0 \<le> d" "d < 10"
  moreover have "(of_char (digit_char d) :: int) = int (of_char (digit_char d))" by (rule of_nat_of_char [symmetric])
  ultimately have "of_char (digit_char d) = 48 + d"
    unfolding digit_char_def of_char_of by simp
  then show ?thesis using \<open>0 \<le> d\<close> \<open>d < 10\<close> by (simp add: is_dec_def digit_val_def)
qed

definition dec_val :: "int \<Rightarrow> string \<Rightarrow> int" where
  "dec_val v ds = foldl (\<lambda>n c. n * 10 + digit_val c) v ds"

lemma dec_val_simps [simp]:
  "dec_val v [] = v" "dec_val v (c # cs) = dec_val (v * 10 + digit_val c) cs"
  "dec_val v (as @ bs) = dec_val (dec_val v as) bs"
  by (simp_all add: dec_val_def)

lemma dec_digits_val:
  "0 \<le> n \<Longrightarrow> list_all is_dec (dec_digits n) \<and> dec_val v (dec_digits n) = v * 10 ^ length (dec_digits n) + n"
proof (induction n arbitrary: v rule: dec_digits.induct)
  case (1 n)
  show ?case
  proof (cases "n < 10")
    case True
    then show ?thesis using 1(2) digit_char_val [of n] by (subst (1 2 3) dec_digits.simps) simp
  next
    case False
    let ?ds = "dec_digits (n div 10)"
    have d: "dec_digits n = ?ds @ [digit_char (n mod 10)]" using False by (subst dec_digits.simps) simp
    have IH: "list_all is_dec ?ds" "dec_val v ?ds = v * 10 ^ length ?ds + n div 10"
      using 1(1) [OF False] False by auto
    have c: "is_dec (digit_char (n mod 10))" "digit_val (digit_char (n mod 10)) = n mod 10"
      using digit_char_val [of "n mod 10"] by auto
    show ?thesis unfolding d using IH c by (simp add: algebra_simps)
  qed
qed

lemma zeros_val: "list_all is_dec (zeros k)" "dec_val v (zeros k) = v * 10 ^ length (zeros k)"
proof -
  have z: "is_dec CHR ''0''" "digit_val CHR ''0'' = 0" by (simp_all add: is_dec_def digit_val_def)
  show "list_all is_dec (zeros k)" by (simp add: zeros_def list_all_iff z)
  have "dec_val v (replicate n CHR ''0'') = v * 10 ^ n" for n
    by (induction n arbitrary: v) (simp_all add: z)
  then show "dec_val v (zeros k) = v * 10 ^ length (zeros k)" by (simp add: zeros_def)
qed

lemma is_dec_not: "is_dec c \<Longrightarrow> c \<noteq> CHR ''_'' \<and> c \<noteq> CHR ''.'' \<and> c \<noteq> CHR ''+'' \<and> c \<noteq> CHR ''-''"
  by (auto simp: is_dec_def)

lemma read_mant_digits:
  "list_all is_dec ds \<Longrightarrow> read_mant False m (ds @ cs) = read_mant False
    (m\<lparr>m_val := dec_val (m_val m) ds, m_frac := m_frac m + (if m_dot m then int (length ds) else 0),
       m_digits := m_digits m \<or> ds \<noteq> []\<rparr>) cs"
  by (induction ds arbitrary: m) (auto simp: is_dec_not add.assoc)

lemma fmt_dec_shape:
  assumes "0 \<le> d"
  obtains A B where "A \<noteq> []" "list_all is_dec A" "list_all is_dec B"
    "fmt_dec d k = (if 0 \<le> k then A else A @ ''.'' @ B)" "0 \<le> k \<Longrightarrow> B = []"
    "of_int (dec_val 0 (A @ B)) / 10 ^ length B = of_int d * (10::real) powi k"
proof (cases "0 \<le> k")
  case True
  let ?A = "dec_digits d @ zeros k"
  have "dec_val 0 ?A = d * 10 ^ nat k"
    using dec_digits_val [OF assms, of 0] zeros_val(2) [of d k] by (simp add: zeros_def)
  then have "of_int (dec_val 0 (?A @ [])) / 10 ^ length [] = of_int d * (10::real) powi k"
    using True by (simp add: power_int_def)
  moreover have "list_all is_dec ?A" using dec_digits_val [OF assms] zeros_val(1) by simp
  ultimately show thesis using that [of ?A "[]"] True by (simp add: fmt_dec_def Let_def)
next
  case False
  define P where "P = zeros (1 - k - int (length (dec_digits d))) @ dec_digits d"
  define n where "n = length P - nat (- k)"
  have P: "list_all is_dec P" "dec_val 0 P = d"
    using dec_digits_val [OF assms, of 0] zeros_val by (auto simp: P_def)
  have len: "nat (- k) < length P" using False by (simp add: zeros_def P_def)
  have dec: "list_all is_dec (take n P)" "list_all is_dec (drop n P)"
    using P(1) by (auto simp: list_all_iff dest: in_set_takeD in_set_dropD)
  have B: "length (drop n P) = nat (- k)" using len by (simp add: n_def)
  show thesis
  proof (rule that [of "take n P" "drop n P"])
    show "take n P \<noteq> []" using len by (auto simp: n_def)
    show "fmt_dec d k = (if 0 \<le> k then take n P else take n P @ ''.'' @ drop n P)"
      using False by (simp only: fmt_dec_def Let_def if_False P_def n_def)
    show "of_int (dec_val 0 (take n P @ drop n P)) / 10 ^ length (drop n P) = of_int d * (10::real) powi k"
      unfolding append_take_drop_id P(2) B using False by (simp add: powi_split)
  qed (use dec False in simp_all)
qed

lemma read_decimal:
  assumes "A \<noteq> []" "list_all is_dec A" "list_all is_dec B" "t = A \<and> B = [] \<or> t = A @ ''.'' @ B"
  shows "read_float ((if s then ''-'' else []) @ t) = Some (s, dec_val 0 (A @ B), 10 ^ length B)"
    and "parse_special ((if s then ''-'' else []) @ t) = None"
proof -
  obtain c cs where A: "A = c # cs" "is_dec c" using assms(1,2) by (cases A) auto
  let ?start = "\<lparr>m_val = 0, m_frac = 0, m_dot = False, m_digits = False, m_under = False\<rparr>"
  let ?m = "\<lparr>m_val = dec_val 0 (A @ B), m_frac = int (length B), m_dot = (t \<noteq> A), m_digits = True, m_under = False\<rparr>"
  have low: "lower_byte x \<noteq> 120" if "is_dec x \<or> x = CHR ''.''" for x
    using that by (auto simp: lower_byte_def is_dec_def Let_def)
  have chars: "is_dec x \<or> x = CHR ''.''" if "x \<in> set t" for x
    using assms that by (auto simp: list_all_iff)
  have hex: "\<not> (case t of z # x # _ # _ \<Rightarrow> z = CHR ''0'' \<and> lower_byte x = 120 | _ \<Rightarrow> False)"
    using low chars by (auto split: list.splits)
  have sign: "drop_sign ((if s then ''-'' else []) @ t) = (s, t)"
    using assms(4) A is_dec_not [OF A(2)] by (auto simp: drop_sign_def)
  have mant: "read_mant False ?start t = (?m, [])"
    using assms(4)
  proof
    assume t: "t = A \<and> B = []"
    have "read_mant False ?start (A @ []) = (?m, [])"
      unfolding read_mant_digits [OF assms(2), of ?start "[]"] using t assms(1) by simp
    then show ?thesis using t by simp
  next
    assume t: "t = A @ ''.'' @ B"
    have "read_mant False ?start (A @ ''.'' @ (B @ [])) = (?m, [])"
      by (subst read_mant_digits [OF assms(2)], simp only: append_Cons append_Nil read_mant.simps)
        (subst read_mant_digits [OF assms(3)], use t assms(1) in simp)
    then show ?thesis using t by simp
  qed
  show "read_float ((if s then ''-'' else []) @ t) = Some (s, dec_val 0 (A @ B), 10 ^ length B)"
    unfolding read_float_def sign Let_def prod.case using hex mant by (simp add: scale_pow_def)
  have "lower_byte c \<noteq> 105 \<and> lower_byte c \<noteq> 110" using A(2) by (auto simp: lower_byte_def is_dec_def Let_def)
  then show "parse_special ((if s then ''-'' else []) @ t) = None"
    unfolding parse_special_def sign Let_def prod.case using A assms(4)
    by (auto simp: fold_case_eq_def) (auto simp: lower_byte_def Let_def)
qed

lemma FormatFloat_shape:
  assumes "finite64 (Fin s m e)"
  obtains A B t where "FormatFloat (Fin s m e) = (if s then ''-'' else []) @ t" "A \<noteq> []"
    "list_all is_dec A" "list_all is_dec B" "t = A \<and> B = [] \<or> t = A @ ''.'' @ B"
    "m = 0 \<and> dec_val 0 (A @ B) = 0 \<or>
      0 < m \<and> 0 < dec_val 0 (A @ B) \<and> rounds_to m e (of_int (dec_val 0 (A @ B)) / of_int (10 ^ length B))"
proof (cases "m = 0")
  case True
  have "is_dec CHR ''0''" "digit_val CHR ''0'' = 0" by (simp_all add: is_dec_def digit_val_def)
  then show thesis using True that [of "''0''" "''0''" "[]"] by simp
next
  case False
  then have m: "0 < m" "-1074 \<le> e" using assms by auto
  obtain d k where dk: "shortest m e (top_pow10 m e) = (d, k)" by (cases "shortest m e (top_pow10 m e)")
  note r = shortest_rounds [OF m dk]
  have "0 < of_int (lower4 m e) * (2::real) powi (e - 2)" using m(1) by (simp add: lower4_def)
  then have v: "0 < of_int d * (10::real) powi k" using r unfolding rounds_to_def by linarith
  then have "0 < real_of_int d" by (rule zero_less_mult_pos2) simp
  then obtain A B where AB: "A \<noteq> []" "list_all is_dec A" "list_all is_dec B"
      "fmt_dec d k = (if 0 \<le> k then A else A @ ''.'' @ B)" "0 \<le> k \<Longrightarrow> B = []"
      "of_int (dec_val 0 (A @ B)) / 10 ^ length B = of_int d * (10::real) powi k"
    using fmt_dec_shape [of d k] by auto
  have "0 < (of_int (dec_val 0 (A @ B)) :: real) / 10 ^ length B" unfolding AB(6) by (rule v)
  then have "0 < dec_val 0 (A @ B)" by (simp add: zero_less_divide_iff)
  moreover have "rounds_to m e (of_int (dec_val 0 (A @ B)) / of_int (10 ^ length B))" using r AB(6) by simp
  moreover have "FormatFloat (Fin s m e) = (if s then ''-'' else []) @ fmt_dec d k" using False dk by simp
  ultimately show thesis using AB m(1) by (intro that [of "fmt_dec d k" A B]) auto
qed

lemma ParseFloat_FormatFloat:
  assumes "finite64 x"
  shows "ParseFloat (FormatFloat x) = Inr x"
proof (cases x)
  case (Fin s m e)
  obtain A B t where AB: "FormatFloat x = (if s then ''-'' else []) @ t" "A \<noteq> []"
      "list_all is_dec A" "list_all is_dec B" "t = A \<and> B = [] \<or> t = A @ ''.'' @ B"
      "m = 0 \<and> dec_val 0 (A @ B) = 0 \<or>
        0 < m \<and> 0 < dec_val 0 (A @ B) \<and> rounds_to m e (of_int (dec_val 0 (A @ B)) / of_int (10 ^ length B))"
    using FormatFloat_shape [OF assms [unfolded Fin]] unfolding Fin by blast
  note rd = read_decimal [OF AB(2-5), of s, folded AB(1)]
  have "round64 s (dec_val 0 (A @ B)) (10 ^ length B) = Fin s m e"
    using AB(6)
  proof
    assume "m = 0 \<and> dec_val 0 (A @ B) = 0"
    then show ?thesis using assms Fin by (simp add: round64_def)
  next
    assume "0 < m \<and> 0 < dec_val 0 (A @ B) \<and> rounds_to m e (of_int (dec_val 0 (A @ B)) / of_int (10 ^ length B))"
    then show ?thesis using round64_rounds [of s m e] assms Fin by simp
  qed
  then show ?thesis unfolding ParseFloat_def rd using Fin by simp
qed (use assms in auto)

lemma round64_int_finite:
  assumes "0 \<le> n" "n \<le> 2 ^ 63"
  shows "round64 s n 1 \<noteq> Inf s'"
proof (cases "n = 0")
  case True
  then show ?thesis by (simp add: round64_def)
next
  case False
  then have n: "0 < n" using assms(1) by simp
  obtain E where E: "exponent64 n 1 = max (-1074) E" "2 ^ 52 * 2 powi E \<le> of_int n / (of_int 1 :: real)"
    using exponent64_spec [OF n, of 1] by auto
  have "real_of_int n \<le> real_of_int (2 ^ 63)" using assms(2) by (simp only: of_int_le_iff)
  then have "2 ^ 52 * (2::real) powi E < 2 ^ 52 * 2 powi 12" using E(2) by simp
  then have "(2::real) powi E < 2 powi 12" by simp
  then have "E < 12" by (metis linorder_not_le one_le_numeral power_int_increasing)
  then have e: "exponent64 n 1 < 12" using E(1) by simp
  obtain a b where ab: "scale2 n 1 (exponent64 n 1) = (a, b)" by (cases "scale2 n 1 (exponent64 n 1)")
  from round64_at [OF n _ refl ab refl, of s] e show ?thesis by auto
qed

lemma ParseFloat_Itoa:
  assumes "in_int64 n"
  shows "ParseFloat (Itoa n) = Inr (float64_of_int n)"
proof -
  let ?d = "dec_digits \<bar>n\<bar>"
  have d: "list_all is_dec ?d" "dec_val 0 ?d = \<bar>n\<bar>" using dec_digits_val [of "\<bar>n\<bar>" 0] by auto
  have t: "Itoa n = (if n < 0 then ''-'' else []) @ ?d" by (simp add: Itoa_def)
  have "ParseFloat (Itoa n) = (case round64 (n < 0) \<bar>n\<bar> 1 of Inf _ \<Rightarrow> Inl ErrRange | f \<Rightarrow> Inr f)"
    unfolding t ParseFloat_def using read_decimal [of ?d "[]" ?d "n < 0"] d by simp
  moreover have "\<bar>n\<bar> \<le> 2 ^ 63" using assms by (auto simp: in_int64_def abs_if)
  ultimately show ?thesis
    using round64_int_finite [of "\<bar>n\<bar>" "n < 0"] by (simp add: float64_of_int_def split: float64.split)
qed

end
