(* ===== verification/Frontend_JSON.thy ===== *)
theory Frontend_JSON
  imports Runtimes Float_RoundTrip
begin

text \<open>
  The JSON front-end, \<^verbatim>\<open>pkg/engine/frontend_json.go\<close>, and the parser package with the same grammar,
  \<^verbatim>\<open>pkg/parser/json/json.go\<close>: a decoded rule document is lowered to the intermediate
  representation. The two files are separate implementations; each has its own definitions here
  (the second with the prefix \<open>pjson_\<close>), and they are proved to agree. Decoding the bytes into the
  struct is the argument \<open>decode\<close>, the function \<open>json.Unmarshal\<close> on the target type.

  The locale \<open>rule_frontend\<close> is what the bytecode backend relies on in every front-end: the
  operators of a lowered tree are those the compiler knows. It is interpreted here for the native
  parser and the JSON front-ends, and in the theories of the other front-ends for theirs.
\<close>

section \<open>What the compiler expects of a front-end\<close>

fun ops_ok :: "Node \<Rightarrow> bool" where
  "ops_ok (Logic op args) = ((op = ''AND'' \<or> op = ''OR'') \<and> list_all ops_ok args)"
| "ops_ok (Compare f op v) = List.member cmp_ops op"
| "ops_ok (NotNode n) = ops_ok n"
| "ops_ok _ = True"

text \<open>What remains to be checked for a tree to compile: its literals and its empty connectives.\<close>

fun literals_ok :: "Node \<Rightarrow> bool" where
  "literals_ok (Logic op args) = (args \<noteq> [] \<and> list_all literals_ok args)"
| "literals_ok (Compare f op v) = (IsString v \<or> num_ok v)"
| "literals_ok (Between f lo hi) = (num_ok lo \<and> num_ok hi)"
| "literals_ok (NotNode n) = literals_ok n"
| "literals_ok _ = True"

lemma compilable_split: "ops_ok n \<Longrightarrow> compilable n \<longleftrightarrow> literals_ok n"
  by (induction n) (auto simp: list_all_iff)

lemma wf_ops_ok: "wf_node n \<Longrightarrow> ops_ok n"
  by (induction n) (auto simp: list_all_iff)

locale rule_frontend =
  fixes fe :: "'e Parser"
  assumes parse_ops: "parser_Parse fe s = Inr n \<Longrightarrow> ops_ok n"
begin

lemma compile_fails_iff:
  assumes "parser_Parse fe s = Inr n"
  shows "(\<exists>p. Compile n = Inr p) \<longleftrightarrow> literals_ok n"
  using compilable_split [OF parse_ops [OF assms]] Compile_compilable by blast

lemma backend_compiles:
  assumes "parser_Parse fe s = Inr n" "literals_ok n"
  shows "\<exists>p. be_Compile (BytecodeBackend fe) s = Inr p"
proof -
  have "compilable n" using compilable_split [OF parse_ops [OF assms(1)]] assms(2) by simp
  then have "compilable (Optimize n)" by (rule Optimize_compilable)
  then obtain p where "Compile (Optimize n) = Inr p" using Compile_compilable by blast
  with assms(1) show ?thesis by (simp add: BytecodeBackend_def)
qed

end

section \<open>The document\<close>

datatype jsonNode = JsonNode
  (j_And: "jsonNode list") (j_Or: "jsonNode list") (j_Not: "jsonNode option")
  (j_Field: string) (j_Op: string) (j_Value: any) (j_Values: "any list")

datatype json_error =
    JsonDecode string
  | EmptyNode
  | BetweenNeeds2
  | LikeNotString
  | UnsupportedOp string
  | UnsupportedValue any

section \<open>pkg/engine/frontend\_json.go\<close>

definition jsonVal :: "any \<Rightarrow> json_error + Value" where
  "jsonVal v =
    (case v of
       AString x \<Rightarrow> Inr (StrValue x)
     | AFloat64 x \<Rightarrow> Inr (NumValue (FormatFloat x))
     | ABool x \<Rightarrow> Inr (StrValue (FormatBool x))
     | AJsonNumber x \<Rightarrow> Inr (NumValue x)
     | _ \<Rightarrow> Inl (UnsupportedValue v))"

definition json_leaf :: "jsonNode \<Rightarrow> json_error + Node" where
  "json_leaf n =
    (if j_Op n \<in> {''='', ''=='', ''!='', ''<>'', ''>'', ''>='', ''<'', ''<=''} then
       bind_res (jsonVal (j_Value n)) (\<lambda>v.
         let op = (if j_Op n = ''=='' then ''='' else if j_Op n = ''<>'' then ''!='' else j_Op n)
         in Inr (Compare (j_Field n) op v))
     else if j_Op n = ''between'' then
       (if length (j_Values n) \<noteq> 2 then Inl BetweenNeeds2
        else bind_res (jsonVal (j_Values n ! 0)) (\<lambda>lo.
          bind_res (jsonVal (j_Values n ! 1)) (\<lambda>hi. Inr (Between (j_Field n) lo hi))))
     else if j_Op n \<in> {''in'', ''not_in'', ''notin''} then
       bind_res (mapM_res jsonVal (j_Values n)) (\<lambda>vals. Inr (In (j_Field n) vals (j_Op n \<noteq> ''in'')))
     else if j_Op n \<in> {''like'', ''not_like'', ''notlike''} then
       (case j_Value n of
          AString s \<Rightarrow> Inr (Like (j_Field n) s (j_Op n \<noteq> ''like''))
        | _ \<Rightarrow> Inl LikeNotString)
     else if j_Op n = ''isnull'' then Inr (IsNull (j_Field n) False)
     else if j_Op n = ''isnotnull'' then Inr (IsNull (j_Field n) True)
     else Inl (UnsupportedOp (j_Op n)))"

definition json_logic :: "string \<Rightarrow> Node list \<Rightarrow> Node" where
  "json_logic op args = (if length args = 1 then args ! 0 else Logic op args)"

fun json_toIR :: "jsonNode \<Rightarrow> json_error + Node" where
  "json_toIR (JsonNode ands ors nt f op v vs) =
    (if ands \<noteq> [] then bind_res (mapM_res json_toIR ands) (\<lambda>args. Inr (json_logic ''AND'' args))
     else if ors \<noteq> [] then bind_res (mapM_res json_toIR ors) (\<lambda>args. Inr (json_logic ''OR'' args))
     else case nt of
       Some m \<Rightarrow> bind_res (json_toIR m) (\<lambda>arg. Inr (NotNode arg))
     | None \<Rightarrow> if f \<noteq> [] then json_leaf (JsonNode ands ors nt f op v vs) else Inl EmptyNode)"

definition JSONFrontend :: "(string \<Rightarrow> string + jsonNode) \<Rightarrow> json_error Parser" where
  "JSONFrontend decode = \<lparr>parser_Name = ''json'',
    parser_Parse = (\<lambda>rule. case decode rule of Inl e \<Rightarrow> Inl (JsonDecode e) | Inr raw \<Rightarrow> json_toIR raw)\<rparr>"

section \<open>pkg/parser/json/json.go\<close>

definition pjson_jsonVal :: "any \<Rightarrow> json_error + Value" where
  "pjson_jsonVal v =
    (case v of
       AString x \<Rightarrow> Inr (StrValue x)
     | AFloat64 x \<Rightarrow> Inr (NumValue (FormatFloat x))
     | ABool x \<Rightarrow> Inr (StrValue (FormatBool x))
     | AJsonNumber x \<Rightarrow> Inr (NumValue x)
     | _ \<Rightarrow> Inl (UnsupportedValue v))"

definition pjson_leaf :: "jsonNode \<Rightarrow> json_error + Node" where
  "pjson_leaf n =
    (if j_Op n \<in> {''='', ''=='', ''!='', ''<>'', ''>'', ''>='', ''<'', ''<=''} then
       bind_res (pjson_jsonVal (j_Value n)) (\<lambda>v.
         let op = (if j_Op n = ''=='' then ''='' else if j_Op n = ''<>'' then ''!='' else j_Op n)
         in Inr (Compare (j_Field n) op v))
     else if j_Op n = ''between'' then
       (if length (j_Values n) \<noteq> 2 then Inl BetweenNeeds2
        else bind_res (pjson_jsonVal (j_Values n ! 0)) (\<lambda>lo.
          bind_res (pjson_jsonVal (j_Values n ! 1)) (\<lambda>hi. Inr (Between (j_Field n) lo hi))))
     else if j_Op n \<in> {''in'', ''not_in'', ''notin''} then
       bind_res (mapM_res pjson_jsonVal (j_Values n)) (\<lambda>vals. Inr (In (j_Field n) vals (j_Op n \<noteq> ''in'')))
     else if j_Op n \<in> {''like'', ''not_like'', ''notlike''} then
       (case j_Value n of
          AString s \<Rightarrow> Inr (Like (j_Field n) s (j_Op n \<noteq> ''like''))
        | _ \<Rightarrow> Inl LikeNotString)
     else if j_Op n = ''isnull'' then Inr (IsNull (j_Field n) False)
     else if j_Op n = ''isnotnull'' then Inr (IsNull (j_Field n) True)
     else Inl (UnsupportedOp (j_Op n)))"

definition pjson_logic :: "string \<Rightarrow> Node list \<Rightarrow> Node" where
  "pjson_logic op args = (if length args = 1 then args ! 0 else Logic op args)"

fun pjson_toIR :: "jsonNode \<Rightarrow> json_error + Node" where
  "pjson_toIR (JsonNode ands ors nt f op v vs) =
    (if ands \<noteq> [] then bind_res (mapM_res pjson_toIR ands) (\<lambda>args. Inr (pjson_logic ''AND'' args))
     else if ors \<noteq> [] then bind_res (mapM_res pjson_toIR ors) (\<lambda>args. Inr (pjson_logic ''OR'' args))
     else case nt of
       Some m \<Rightarrow> bind_res (pjson_toIR m) (\<lambda>arg. Inr (NotNode arg))
     | None \<Rightarrow> if f \<noteq> [] then pjson_leaf (JsonNode ands ors nt f op v vs) else Inl EmptyNode)"

definition json_Parser :: "(string \<Rightarrow> string + jsonNode) \<Rightarrow> json_error Parser" where
  "json_Parser decode = \<lparr>parser_Name = ''json'',
    parser_Parse = (\<lambda>rule. case decode rule of Inl e \<Rightarrow> Inl (JsonDecode e) | Inr raw \<Rightarrow> pjson_toIR raw)\<rparr>"

section \<open>The shape of lowered documents\<close>

lemma json_leaf_wf: "json_leaf n = Inr t \<Longrightarrow> wf_node t"
  by (auto simp: json_leaf_def Let_def cmp_ops_def bind_res_Inr_iff split: if_splits any.splits)

lemma json_logic_wf:
  "list_all wf_node args \<Longrightarrow> args \<noteq> [] \<Longrightarrow> op = ''AND'' \<or> op = ''OR'' \<Longrightarrow> wf_node (json_logic op args)"
  by (cases args rule: remdups_adj.cases) (auto simp: json_logic_def)

lemma mapM_res_all:
  assumes "mapM_res f ns = Inr ts" "ns \<noteq> []" "\<And>m t. m \<in> set ns \<Longrightarrow> f m = Inr t \<Longrightarrow> P t"
  shows "list_all P ts \<and> ts \<noteq> []"
proof -
  have "P y" if "y \<in> set ts" for y using mapM_res_Inr_set [OF assms(1) that] assms(3) by blast
  then show ?thesis using assms(2) mapM_res_Inr_length [OF assms(1)] by (auto simp: list_all_iff)
qed

lemma json_toIR_cases:
  assumes "json_toIR (JsonNode as os nt f op v vs) = Inr t"
  obtains (ands) ts where "as \<noteq> []" "mapM_res json_toIR as = Inr ts" "t = json_logic ''AND'' ts"
    | (ors) ts where "as = []" "os \<noteq> []" "mapM_res json_toIR os = Inr ts" "t = json_logic ''OR'' ts"
    | (neg) m a where "as = []" "os = []" "nt = Some m" "json_toIR m = Inr a" "t = NotNode a"
    | (leaf) "as = []" "os = []" "nt = None" "json_leaf (JsonNode [] [] None f op v vs) = Inr t"
  using assms by (auto simp: bind_res_Inr_iff split: if_splits option.splits)

lemma json_toIR_wf: "json_toIR n = Inr t \<Longrightarrow> wf_node t"
proof (induction n arbitrary: t rule: json_toIR.induct)
  case (1 as os nt f op v vs)
  from 1(4) show ?case
  proof (cases rule: json_toIR_cases)
    case (ands ts)
    have "list_all wf_node ts \<and> ts \<noteq> []" by (rule mapM_res_all [OF ands(2,1)]) (rule 1(1) [OF ands(1)])
    with ands(3) show ?thesis by (simp add: json_logic_wf)
  next
    case (ors ts)
    have "list_all wf_node ts \<and> ts \<noteq> []"
      by (rule mapM_res_all [OF ors(3,2)]) (rule 1(2), simp_all add: ors)
    with ors(4) show ?thesis by (simp add: json_logic_wf)
  next
    case (neg m a)
    then show ?thesis using 1(3) by simp
  next
    case leaf
    then show ?thesis by (blast dest: json_leaf_wf)
  qed
qed

lemma pjson_parts: "pjson_jsonVal = jsonVal" "pjson_leaf = json_leaf" "pjson_logic = json_logic"
proof -
  show v: "pjson_jsonVal = jsonVal" by (rule ext) (simp only: pjson_jsonVal_def jsonVal_def)
  show "pjson_leaf = json_leaf" by (rule ext) (simp only: pjson_leaf_def json_leaf_def v)
  show "pjson_logic = json_logic" by (intro ext) (simp only: pjson_logic_def json_logic_def)
qed

lemma pjson_same: "pjson_toIR n = json_toIR n"
proof (induction n rule: json_toIR.induct)
  case (1 ands ors nt f op v vs)
  have "mapM_res pjson_toIR ands = mapM_res json_toIR ands" if "ands \<noteq> []"
    by (rule mapM_res_cong [OF refl]) (rule 1(1) [OF that])
  moreover have "mapM_res pjson_toIR ors = mapM_res json_toIR ors" if "ands = []" "ors \<noteq> []"
    by (rule mapM_res_cong [OF refl]) (rule 1(2), simp_all add: that)
  moreover have "pjson_toIR m = json_toIR m" if "ands = []" "ors = []" "nt = Some m" for m
    using 1(3) [OF _ _ that(3)] that by simp
  ultimately show ?case
    by (cases nt) (simp_all add: pjson_parts)
qed

interpretation native_fe: rule_frontend native_Parser
  using Parse_lexed lexed_node_wf wf_ops_ok by unfold_locales (auto simp: native_Parser_def)

interpretation json_fe: rule_frontend "JSONFrontend decode" for decode
  using json_toIR_wf wf_ops_ok by unfold_locales (auto simp: JSONFrontend_def split: sum.splits)

interpretation json_parser: rule_frontend "json_Parser decode" for decode
  using json_toIR_wf wf_ops_ok
  by unfold_locales (auto simp: json_Parser_def pjson_same split: sum.splits)

section \<open>The meaning of a document\<close>

text \<open>
  A reference reading of the grammar in the header of the source: what a document says of a row,
  without the intermediate representation. Numbers are compared as numbers, \<^verbatim>\<open>and\<close> wins over
  \<^verbatim>\<open>or\<close>, \<^verbatim>\<open>or\<close> over \<^verbatim>\<open>not\<close>, \<^verbatim>\<open>not\<close> over a leaf.
\<close>

definition json_lit :: "any \<Rightarrow> vm_Value" where
  "json_lit v = (case v of AString s \<Rightarrow> strV s | AFloat64 x \<Rightarrow> numV x | ABool b \<Rightarrow> strV (FormatBool b) | _ \<Rightarrow> undef)"

definition json_text :: "any \<Rightarrow> string" where
  "json_text v = (case v of AString s \<Rightarrow> s | AFloat64 x \<Rightarrow> FormatFloat x | ABool b \<Rightarrow> FormatBool b | _ \<Rightarrow> [])"

definition leaf_holds :: "string \<Rightarrow> any \<Rightarrow> any list \<Rightarrow> vm_Value \<Rightarrow> bool" where
  "leaf_holds op v vs x =
    (if op = ''between'' then between_holds x (json_lit (vs ! 0)) (json_lit (vs ! 1))
     else if op \<in> {''in'', ''not_in'', ''notin''} then
       (v_k x \<noteq> kUndef \<and> vm_asString x \<in> json_text ` set vs) \<noteq> (op \<noteq> ''in'')
     else if op \<in> {''like'', ''not_like'', ''notlike''} then
       (v_k x \<noteq> kUndef \<and> like_holds (json_text v) (vm_asString x)) \<noteq> (op \<noteq> ''like'')
     else if op = ''isnull'' then v_k x = kUndef
     else if op = ''isnotnull'' then v_k x \<noteq> kUndef
     else cmp_holds (if op = ''<>'' then ''!='' else op) x (json_lit v))"

fun json_holds :: "jsonNode \<Rightarrow> row \<Rightarrow> bool" where
  "json_holds (JsonNode ands ors nt f op v vs) r =
    (if ands \<noteq> [] then list_all (\<lambda>n. json_holds n r) ands
     else if ors \<noteq> [] then list_ex (\<lambda>n. json_holds n r) ors
     else case nt of Some m \<Rightarrow> \<not> json_holds m r | None \<Rightarrow> leaf_holds op v vs (field_val r f))"

text \<open>What \<open>json.Unmarshal\<close> can put into the \<open>any\<close> fields: its numbers are finite float64 values.\<close>

fun json_number_ok :: "any \<Rightarrow> bool" where
  "json_number_ok (AFloat64 x) = finite64 x"
| "json_number_ok (AJsonNumber s) = False"
| "json_number_ok _ = True"

fun json_decoded :: "jsonNode \<Rightarrow> bool" where
  "json_decoded (JsonNode ands ors nt f op v vs) =
    (list_all json_decoded ands \<and> list_all json_decoded ors \<and>
     (case nt of Some m \<Rightarrow> json_decoded m | None \<Rightarrow> True) \<and>
     json_number_ok v \<and> list_all json_number_ok vs)"

text \<open>The bounds of every BETWEEN that the lowering reaches are numbers.\<close>

fun json_bounds :: "jsonNode \<Rightarrow> bool" where
  "json_bounds (JsonNode ands ors nt f op v vs) =
    (if ands \<noteq> [] then list_all json_bounds ands
     else if ors \<noteq> [] then list_all json_bounds ors
     else case nt of Some m \<Rightarrow> json_bounds m
     | None \<Rightarrow> (op = ''between'' \<longrightarrow> list_all (\<lambda>x. case x of AFloat64 _ \<Rightarrow> True | _ \<Rightarrow> False) vs))"

lemma jsonVal_lit:
  assumes "jsonVal v = Inr w" "json_number_ok v"
  shows "lit_val w = json_lit v \<and> valStr w = json_text v \<and>
    (IsString w \<or> num_ok w) \<and> (num_ok w \<longleftrightarrow> (case v of AFloat64 _ \<Rightarrow> True | _ \<Rightarrow> False))"
  using assms
  by (cases v) (auto simp: jsonVal_def lit_val_def json_lit_def json_text_def valStr_def num_ok_def
      ParseFloat_FormatFloat)

lemma cmp_holds_eqeq: "cmp_holds ''=='' = cmp_holds ''=''"
  by (intro ext) (simp add: cmp_holds_def cmpOp_def)

lemma json_leaf_cases:
  assumes "json_leaf (JsonNode as os nt f op v vs) = Inr t"
  obtains (cmp) w where "op \<in> {''='', ''=='', ''!='', ''<>'', ''>'', ''>='', ''<'', ''<=''}" "jsonVal v = Inr w"
      "t = Compare f (if op = ''=='' then ''='' else if op = ''<>'' then ''!='' else op) w"
    | (btw) a b lo hi where "op = ''between''" "vs = [a, b]" "jsonVal a = Inr lo" "jsonVal b = Inr hi" "t = Between f lo hi"
    | (mem) ws where "op \<in> {''in'', ''not_in'', ''notin''}" "mapM_res jsonVal vs = Inr ws" "t = In f ws (op \<noteq> ''in'')"
    | (like) s where "op \<in> {''like'', ''not_like'', ''notlike''}" "v = AString s" "t = Like f s (op \<noteq> ''like'')"
    | (null) "op = ''isnull''" "t = IsNull f False" | (notnull) "op = ''isnotnull''" "t = IsNull f True"
proof -
  define C I L where "C = {''='', ''=='', ''!='', ''<>'', ''>'', ''>='', ''<'', ''<=''}"
    and "I = {''in'', ''not_in'', ''notin''}" and "L = {''like'', ''not_like'', ''notlike''}"
  note e = assms [unfolded json_leaf_def jsonNode.sel Let_def, folded C_def I_def L_def]
  consider "op \<in> C" | "op \<notin> C" "op = ''between''" | "op \<notin> C" "op \<noteq> ''between''" "op \<in> I"
    | "op \<notin> C" "op \<noteq> ''between''" "op \<notin> I" "op \<in> L" | "op \<notin> C" "op \<noteq> ''between''" "op \<notin> I" "op \<notin> L"
    by blast
  then show thesis
  proof cases
    case 1
    with e obtain w where "jsonVal v = Inr w" "t = Compare f (if op = ''=='' then ''='' else if op = ''<>'' then ''!='' else op) w"
      by (simp only: if_True bind_res_Inr_iff) (metis sum.inject(2))
    with 1 cmp show ?thesis unfolding C_def by blast
  next
    case 2
    with e have "length vs = 2" by (metis sum.distinct(1))
    then obtain a b where vs: "vs = [a, b]" by (auto simp: length_Suc_conv numeral_2_eq_2)
    with e 2 btw show ?thesis by (auto simp: bind_res_Inr_iff)
  next
    case 3
    with e mem show ?thesis unfolding I_def by (auto simp only: if_False if_True bind_res_Inr_iff sum.inject)
  next
    case 4
    with e like show ?thesis unfolding L_def by (cases v) (auto simp only: if_False if_True any.simps sum.inject sum.distinct)
  next
    case 5
    with e null notnull show ?thesis by (simp only: if_False) (metis sum.inject(2) sum.distinct(1))
  qed
qed

lemma leaf_holds_cmp:
  "op \<in> {''='', ''=='', ''!='', ''<>'', ''>'', ''>='', ''<'', ''<=''} \<Longrightarrow> leaf_holds op v vs x
    = cmp_holds (if op = ''=='' then ''='' else if op = ''<>'' then ''!='' else op) x (json_lit v)"
  by (elim insertE emptyE) (simp_all add: leaf_holds_def cmp_holds_eqeq)

lemma json_leaf_meaning:
  assumes "json_leaf (JsonNode [] [] None f op v vs) = Inr t" "json_number_ok v" "list_all json_number_ok vs"
  shows "denote t r = leaf_holds op v vs (field_val r f)"
    and "literals_ok t \<longleftrightarrow> (op = ''between'' \<longrightarrow> list_all (\<lambda>x. case x of AFloat64 _ \<Rightarrow> True | _ \<Rightarrow> False) vs)"
proof -
  let ?num = "\<lambda>x. case x of AFloat64 _ \<Rightarrow> True | _ \<Rightarrow> False"
  have "denote t r = leaf_holds op v vs (field_val r f) \<and> (literals_ok t \<longleftrightarrow> (op = ''between'' \<longrightarrow> list_all ?num vs))"
    using assms(1)
  proof (cases rule: json_leaf_cases)
    case (cmp w)
    have "lit_val w = json_lit v" "IsString w \<or> num_ok w" using jsonVal_lit [OF cmp(2) assms(2)] by auto
    moreover have "op \<noteq> ''between''" using cmp(1) by auto
    ultimately show ?thesis
      unfolding cmp(3) leaf_holds_cmp [OF cmp(1)] denote.simps literals_ok.simps by simp
  next
    case (btw a b lo hi)
    then show ?thesis
      using jsonVal_lit [OF btw(3)] jsonVal_lit [OF btw(4)] assms(3) by (simp add: leaf_holds_def)
  next
    case (mem ws)
    have "list_all2 (\<lambda>x y. jsonVal x = Inr y) vs ws" using mem(2) by (simp add: mapM_res_Inr_iff)
    then have "list_all2 (\<lambda>x y. json_text x = valStr y) vs ws"
      using assms(3) by (induction vs ws rule: list_all2_induct) (auto dest: jsonVal_lit)
    then have "map json_text vs = map valStr ws"
      by (induction vs ws rule: list_all2_induct) auto
    then have "valStr ` set ws = json_text ` set vs" by (metis set_map)
    then show ?thesis using mem(1,3) by (auto simp: leaf_holds_def)
  next
    case (like s)
    then show ?thesis by (auto simp: leaf_holds_def json_text_def)
  qed (auto simp: leaf_holds_def)
  then show "denote t r = leaf_holds op v vs (field_val r f)"
    "literals_ok t \<longleftrightarrow> (op = ''between'' \<longrightarrow> list_all ?num vs)" by blast+
qed

lemma json_logic_meaning:
  "denote (json_logic ''AND'' ts) r = list_all (\<lambda>t. denote t r) ts"
  "ts \<noteq> [] \<Longrightarrow> denote (json_logic ''OR'' ts) r = list_ex (\<lambda>t. denote t r) ts"
  "ts \<noteq> [] \<Longrightarrow> literals_ok (json_logic op ts) = list_all literals_ok ts"
  by (auto simp: json_logic_def length_Suc_conv)

lemma mapM_res_pred:
  "mapM_res f ns = Inr ts \<Longrightarrow> (\<And>m t. m \<in> set ns \<Longrightarrow> f m = Inr t \<Longrightarrow> P t = Q m) \<Longrightarrow>
    list_all P ts = list_all Q ns \<and> list_ex P ts = list_ex Q ns"
proof (induction ns arbitrary: ts)
  case (Cons a ns)
  obtain y ys where y: "f a = Inr y" "mapM_res f ns = Inr ys" "ts = y # ys"
    using Cons.prems(1) by (auto simp: bind_res_Inr_iff)
  have "P y = Q a" using Cons.prems(2) [OF _ y(1)] by simp
  moreover have "list_all P ys = list_all Q ns \<and> list_ex P ys = list_ex Q ns"
    using Cons.IH [OF y(2)] Cons.prems(2) by simp
  ultimately show ?case using y(3) by simp
qed simp

lemma json_toIR_meaning:
  "json_toIR n = Inr t \<Longrightarrow> json_decoded n \<Longrightarrow> denote t r = json_holds n r \<and> literals_ok t = json_bounds n"
proof (induction n arbitrary: t rule: json_toIR.induct)
  case (1 as os nt f op v vs)
  note dec = 1(5) [unfolded json_decoded.simps]
  from 1(4) show ?case
  proof (cases rule: json_toIR_cases)
    case (ands ts)
    have ne: "ts \<noteq> []" using ands(1,2) mapM_res_Inr_length by fastforce
    have IH: "denote t r = json_holds m r \<and> literals_ok t = json_bounds m"
      if "m \<in> set as" "json_toIR m = Inr t" for m t
    proof -
      have "json_decoded m" using dec that(1) by (auto simp: list_all_iff)
      then show ?thesis by (rule 1(1) [OF ands(1) that])
    qed
    have "list_all (\<lambda>t. denote t r) ts = list_all (\<lambda>m. json_holds m r) as"
      "list_all literals_ok ts = list_all json_bounds as"
      using mapM_res_pred [OF ands(2), of "\<lambda>t. denote t r" "\<lambda>m. json_holds m r"]
        mapM_res_pred [OF ands(2), of literals_ok json_bounds] IH by simp_all
    with ands ne show ?thesis by (simp add: json_logic_meaning)
  next
    case (ors ts)
    have ne: "ts \<noteq> []" using ors(2,3) mapM_res_Inr_length by fastforce
    have IH: "denote t r = json_holds m r \<and> literals_ok t = json_bounds m"
      if "m \<in> set os" "json_toIR m = Inr t" for m t
    proof -
      have "json_decoded m" using dec that(1) by (auto simp: list_all_iff)
      then show ?thesis using ors(1) by (intro 1(2) [OF _ ors(2) that]) simp_all
    qed
    have "list_ex (\<lambda>t. denote t r) ts = list_ex (\<lambda>m. json_holds m r) os"
      "list_all literals_ok ts = list_all json_bounds os"
      using mapM_res_pred [OF ors(3), of "\<lambda>t. denote t r" "\<lambda>m. json_holds m r"]
        mapM_res_pred [OF ors(3), of literals_ok json_bounds] IH by simp_all
    with ors ne show ?thesis by (simp add: json_logic_meaning)
  next
    case (neg m a)
    then show ?thesis using 1(3) dec by simp
  next
    case leaf
    then show ?thesis using json_leaf_meaning [OF leaf(4)] dec by simp
  qed
qed

section \<open>Properties\<close>

text \<open>C15: A JSON rule means what the document says. Take any document that \<open>json.Unmarshal\<close> can
  produce and that the front-end accepts, lowering it to a tree with fewer than 700 million
  conditions in which operands of a connective that print alike are equal (\<open>keys_apart\<close>, as when no
  string holds a quote). The bytecode backend compiles it exactly when the bounds of its BETWEEN
  nodes are numbers, and then returns on every row, without panicking, whether the document holds of
  the row if the optimized rule fits the machine's 256 stack slots, and false if it does not;
  numbers reach the comparison unchanged although they pass through text.\<close>

theorem JSON_rule_meaning:
  assumes "decode s = Inr doc" "json_decoded doc" "parser_Parse (JSONFrontend decode) s = Inr t"
    and "keys_apart t" "bytecode_ok t"
  shows "let be = (BytecodeBackend (JSONFrontend decode) :: (json_error be_error, 'c, 'q) Backend) in
    denote t r = json_holds doc r \<and>
    (\<exists>p. be_Compile be s = Inr p) = json_bounds doc \<and>
    (\<forall>p. be_Compile be s = Inr p \<longrightarrow> be_Eval be (be_NewContext be r) p =
      Some (stack_need (Optimize t) \<le> stackMax \<and> json_holds doc r))"
proof -
  have ir: "json_toIR doc = Inr t" using assms(1,3) by (simp add: JSONFrontend_def)
  have wf: "wf_node t" using json_toIR_wf ir by blast
  note exact = backend_exact [OF refl assms(3,4) wf_has_operands [OF wf], where 'c = 'c and 'q = 'q]
  show ?thesis
    using exact(1) exact(2) [OF _ assms(5), of _ r] json_toIR_meaning [OF ir assms(2)]
      compilable_split [OF wf_ops_ok [OF wf]]
    by (simp add: Let_def)
qed

definition demo_json :: jsonNode where
  "demo_json = JsonNode
    [JsonNode [] [] None ''age'' ''between'' ANil [AFloat64 (float64_of_int 25), AFloat64 (float64_of_int 40)],
     JsonNode [] [] None ''job'' ''not_like'' (AString ''%std%'') []] [] None [] [] ANil []"

theorem JSON_rule_meaning_witness:
  "let be = (BytecodeBackend (JSONFrontend (\<lambda>_. Inr demo_json)) :: (json_error be_error, unit, unit) Backend) in
    \<exists>p. be_Compile be [] = Inr p \<and>
      be_Eval be (be_NewContext be [''age'' \<mapsto> AInt 30, ''job'' \<mapsto> AString ''engineer'']) p = Some True"
proof -
  let ?r = "[''age'' \<mapsto> AInt 30, ''job'' \<mapsto> AString ''engineer'']"
  have "case parser_Parse (JSONFrontend (\<lambda>_. Inr demo_json)) [] of
      Inr t \<Rightarrow> keys_apart t \<and> leaves t = 2 \<and> stack_need (Optimize t) \<le> stackMax | Inl _ \<Rightarrow> False" by code_simp
  then obtain t where t: "parser_Parse (JSONFrontend (\<lambda>_. Inr demo_json)) [] = Inr t"
    "keys_apart t" "leaves t = 2" "stack_need (Optimize t) \<le> stackMax" by (auto split: sum.splits)
  have doc: "json_decoded demo_json" "json_holds demo_json ?r" "json_bounds demo_json" by code_simp+
  have "bytecode_ok t" using t(3) by (simp add: bytecode_ok_def)
  from JSON_rule_meaning [OF refl doc(1) t(1,2) this, of ?r, where 'c = unit and 'q = unit] doc t(4)
  show ?thesis by (auto simp: Let_def)
qed

text \<open>The two implementations of the JSON front-end agree: the one the engine uses and the parser
  package return the same tree or the same error for every text, and every tree is well-formed
  (connectives with at least two arguments, known operators).\<close>

theorem JSON_frontends_agree:
  "parser_Parse (json_Parser decode) s = parser_Parse (JSONFrontend decode) s \<and>
   (case parser_Parse (json_Parser decode) s of Inr t \<Rightarrow> wf_node t | Inl _ \<Rightarrow> True)"
  using json_toIR_wf
  by (auto simp: json_Parser_def JSONFrontend_def pjson_same split: sum.splits)

end
