(* ===== verification/Frontend_Code.thy ===== *)
theory Frontend_Code
  imports Frontend_JSON
begin

text \<open>
  The front-ends for the two expression languages, \<^verbatim>\<open>pkg/parser/cel/cel.go\<close> and
  \<^verbatim>\<open>pkg/parser/expr/expr.go\<close>, with their adapters in \<^verbatim>\<open>pkg/engine/frontend_stub.go\<close>: the syntax tree
  of the third-party parser is lowered to the intermediate representation. The trees are datatypes
  with the node kinds the sources tell apart and one constructor for every other kind; the parser
  itself is an argument.

  Both front-ends turn prefix, suffix and substring tests into LIKE patterns. For texts without a
  percent sign this keeps the meaning (\<open>CEL_meaning\<close>, \<open>Expr_meaning\<close>); a percent sign in the
  tested text is not escaped, so that it becomes a wildcard (\<open>Frontends_wildcard\<close>).
\<close>

section \<open>String tests as LIKE patterns\<close>

datatype str_test = TPrefix | TSuffix | TContains

fun like_of :: "str_test \<Rightarrow> string \<Rightarrow> string" where
  "like_of TPrefix core = core @ ''%''"
| "like_of TSuffix core = ''%'' @ core"
| "like_of TContains core = ''%'' @ core @ ''%''"

fun str_test_holds :: "str_test \<Rightarrow> string \<Rightarrow> string \<Rightarrow> bool" where
  "str_test_holds TPrefix core s = HasPrefix s core"
| "str_test_holds TSuffix core s = HasSuffix s core"
| "str_test_holds TContains core s = Contains s core"

lemma sql_like_end: "sql_like ''%'' s"
  using sql_like_any [of "[]" s] by simp

lemma Trim_like_of:
  assumes "CHR ''%'' \<notin> set core"
  shows "Trim (like_of k core) CHR ''%'' = core"
proof (cases "core = []")
  case True
  then show ?thesis by (cases k) (simp_all add: Trim_def)
next
  case False
  let ?P = "\<lambda>x. x = CHR ''%''"
  obtain x where x: "x \<in> set core" "\<not> ?P x" using assms False by (cases core) auto
  have c: "dropWhile ?P core = core" using assms by (cases core) auto
  have r: "dropWhile ?P (rev core) = rev core" using assms by (cases core rule: rev_cases) auto
  show ?thesis
    using dropWhile_append1 [of x core ?P "''%''", OF x] c r by (cases k) (simp_all add: Trim_def)
qed

lemma like_of_holds:
  assumes "CHR ''%'' \<notin> set core"
  shows "like_holds (like_of k core) s = str_test_holds k core s"
proof -
  have no: "CHR ''%'' \<notin> set (Trim (like_of k core) CHR ''%'')" using assms Trim_like_of by simp
  have lit: "sql_like (core @ q) t \<longleftrightarrow> (\<exists>u. t = core @ u \<and> sql_like q u)" for q t
    by (rule sql_like_lit [OF assms])
  have "sql_like (like_of k core) s = str_test_holds k core s"
  proof (cases k)
    case TPrefix
    then show ?thesis using lit [of "''%''" s] sql_like_end by (auto simp: go_string prefix_def)
  next
    case TSuffix
    then show ?thesis
      using sql_like_any [of core s] lit [of "[]"] by (auto simp: go_string suffix_def)
  next
    case TContains
    then show ?thesis
      using sql_like_any [of "core @ ''%''" s] lit [of "''%''"] sql_like_end by (auto simp: go_string sublist_def)
  qed
  with like_holds_sql [OF no] show ?thesis by simp
qed

section \<open>pkg/parser/cel/cel.go\<close>

text \<open>The operator constants of package \<open>operators\<close>, and every other function name.\<close>

datatype cel_fn =
    LogicalAnd | LogicalOr | LogicalNot
  | Equals | NotEquals | Less | LessEquals | Greater | GreaterEquals
  | InOp | Named string

datatype cel_lit = LString string | LInt int | LDouble float64 | LBool bool | LOther

datatype celExpr =
    CallKind cel_fn celExpr "celExpr list"
  | ListKind "celExpr list"
  | IdentKind string
  | LiteralKind cel_lit
  | OtherKind

datatype cel_error =
    CelParse string
  | CelUnsupportedKind
  | CelArgs string
  | CelExpectedIdent
  | CelExpectedLiteral
  | CelUnsupportedLiteral
  | CelExpectsList
  | CelUnsupportedFunction cel_fn

definition cel_identName :: "celExpr \<Rightarrow> cel_error + string" where
  "cel_identName e = (case e of IdentKind s \<Rightarrow> Inr s | _ \<Rightarrow> Inl CelExpectedIdent)"

definition cel_litVal :: "celExpr \<Rightarrow> cel_error + Value" where
  "cel_litVal e =
    (case e of
       LiteralKind l \<Rightarrow>
         (case l of
            LString x \<Rightarrow> Inr (StrValue x)
          | LInt x \<Rightarrow> Inr (NumValue (Itoa x))
          | LDouble x \<Rightarrow> Inr (NumValue (FormatFloat x))
          | LBool x \<Rightarrow> Inr (StrValue (FormatBool x))
          | LOther \<Rightarrow> Inl CelUnsupportedLiteral)
     | _ \<Rightarrow> Inl CelExpectedLiteral)"

definition cel_cmpOp :: "cel_fn \<Rightarrow> string" where
  "cel_cmpOp fn =
    (case fn of
       Equals \<Rightarrow> ''='' | NotEquals \<Rightarrow> ''!='' | Less \<Rightarrow> ''<'' | LessEquals \<Rightarrow> ''<=''
     | Greater \<Rightarrow> ''>'' | GreaterEquals \<Rightarrow> ''>='' | _ \<Rightarrow> ''='')"

fun cel_convert :: "celExpr \<Rightarrow> cel_error + Node"
  and cel_callToIR :: "cel_fn \<Rightarrow> celExpr \<Rightarrow> celExpr list \<Rightarrow> cel_error + Node" where
  "cel_convert e =
    (case e of CallKind fn target args \<Rightarrow> cel_callToIR fn target args | _ \<Rightarrow> Inl CelUnsupportedKind)"
| "cel_callToIR fn target args =
    (if fn = LogicalAnd \<or> fn = LogicalOr then
       bind_res (mapM_res cel_convert args) (\<lambda>nodes.
         Inr (Logic (if fn = LogicalOr then ''OR'' else ''AND'') nodes))
     else if fn = LogicalNot then
       (case args of
          [a] \<Rightarrow> bind_res (cel_convert a) (\<lambda>arg. Inr (NotNode arg))
        | _ \<Rightarrow> Inl (CelArgs ''!''))
     else if fn \<in> {Equals, NotEquals, Less, LessEquals, Greater, GreaterEquals} then
       (case args of
          [a, b] \<Rightarrow> bind_res (cel_identName a) (\<lambda>field.
            bind_res (cel_litVal b) (\<lambda>v. Inr (Compare field (cel_cmpOp fn) v)))
        | _ \<Rightarrow> Inl (CelArgs ''comparison''))
     else if fn = InOp then
       (case args of
          [a, b] \<Rightarrow> bind_res (cel_identName a) (\<lambda>field.
            (case b of
               ListKind elems \<Rightarrow> bind_res (mapM_res cel_litVal elems) (\<lambda>vals. Inr (In field vals False))
             | _ \<Rightarrow> Inl CelExpectsList))
        | _ \<Rightarrow> Inl (CelArgs ''in''))
     else if fn \<in> {Named ''startsWith'', Named ''endsWith'', Named ''contains''} then
       bind_res (cel_identName target) (\<lambda>field.
         (case args of
            [a] \<Rightarrow> bind_res (cel_litVal a) (\<lambda>lit.
              Inr (Like field
                (if fn = Named ''startsWith'' then Str lit @ ''%''
                 else if fn = Named ''endsWith'' then ''%'' @ Str lit
                 else ''%'' @ Str lit @ ''%'') False))
          | _ \<Rightarrow> Inl (CelArgs ''string function'')))
     else Inl (CelUnsupportedFunction fn))"

declare cel_convert.simps [simp del] cel_callToIR.simps [simp del]

definition cel_Parser :: "(string \<Rightarrow> string + celExpr) \<Rightarrow> cel_error Parser" where
  "cel_Parser env_Parse = \<lparr>parser_Name = ''cel'',
    parser_Parse = (\<lambda>rule. case env_Parse rule of Inl err \<Rightarrow> Inl (CelParse err) | Inr e \<Rightarrow> cel_convert e)\<rparr>"

definition CELFrontend :: "(string \<Rightarrow> string + celExpr) \<Rightarrow> cel_error Parser" where
  "CELFrontend env_Parse = \<lparr>parser_Name = ''cel'', parser_Parse = parser_Parse (cel_Parser env_Parse)\<rparr>"

section \<open>pkg/parser/expr/expr.go\<close>

datatype exprNode =
    BinaryNode string exprNode exprNode
  | UnaryNode string exprNode
  | CallNode exprNode "exprNode list"
  | BuiltinNode string "exprNode list"
  | IdentifierNode string
  | IntegerNode int
  | FloatNode float64
  | StringNode string
  | BoolNode bool
  | ArrayNode "exprNode list"
  | OtherNode

datatype expr_error =
    ExprParse string
  | ExprOperator string
  | ExprUnary string
  | ExprExpectsArray
  | ExprUnsupportedNode
  | ExprArgs string
  | ExprUnsupportedCall string
  | ExprExpectedIdent
  | ExprUnsupportedLiteral

definition expr_identName :: "exprNode \<Rightarrow> expr_error + string" where
  "expr_identName n = (case n of IdentifierNode s \<Rightarrow> Inr s | _ \<Rightarrow> Inl ExprExpectedIdent)"

definition expr_calleeName :: "exprNode \<Rightarrow> string" where
  "expr_calleeName n = (case n of IdentifierNode s \<Rightarrow> s | _ \<Rightarrow> [])"

definition expr_litVal :: "exprNode \<Rightarrow> expr_error + Value" where
  "expr_litVal n =
    (case n of
       IntegerNode x \<Rightarrow> Inr (NumValue (Itoa x))
     | FloatNode x \<Rightarrow> Inr (NumValue (FormatFloat x))
     | StringNode x \<Rightarrow> Inr (StrValue x)
     | BoolNode x \<Rightarrow> Inr (StrValue (FormatBool x))
     | _ \<Rightarrow> Inl ExprUnsupportedLiteral)"

definition expr_callToIR :: "string \<Rightarrow> exprNode list \<Rightarrow> expr_error + Node" where
  "expr_callToIR name args =
    (case args of
       [a, b] \<Rightarrow> bind_res (expr_identName a) (\<lambda>field.
         bind_res (expr_litVal b) (\<lambda>lit.
           let core = Str lit in
           if name \<in> {''hasPrefix'', ''startsWith''} then Inr (Like field (core @ ''%'') False)
           else if name \<in> {''hasSuffix'', ''endsWith''} then Inr (Like field (''%'' @ core) False)
           else if name = ''contains'' then Inr (Like field (''%'' @ core @ ''%'') False)
           else Inl (ExprUnsupportedCall name)))
     | _ \<Rightarrow> Inl (ExprArgs name))"

definition expr_logic :: "string \<Rightarrow> expr_error + Node \<Rightarrow> expr_error + Node \<Rightarrow> expr_error + Node" where
  "expr_logic op l r = bind_res l (\<lambda>ln. bind_res r (\<lambda>rn. Inr (Logic op [ln, rn])))"

fun expr_convert :: "exprNode \<Rightarrow> expr_error + Node" where
  "expr_convert (BinaryNode op l r) =
    (if op \<in> {''&&'', ''and''} then expr_logic ''AND'' (expr_convert l) (expr_convert r)
     else if op \<in> {''||'', ''or''} then expr_logic ''OR'' (expr_convert l) (expr_convert r)
     else if op \<in> {''=='', ''!='', ''<'', ''<='', ''>'', ''>=''} then
       bind_res (expr_identName l) (\<lambda>field.
         bind_res (expr_litVal r) (\<lambda>v. Inr (Compare field (if op = ''=='' then ''='' else op) v)))
     else if op \<in> {''in'', ''not in''} then
       bind_res (expr_identName l) (\<lambda>field.
         (case r of
            ArrayNode elems \<Rightarrow>
              bind_res (mapM_res expr_litVal elems) (\<lambda>vals. Inr (In field vals (op = ''not in'')))
          | _ \<Rightarrow> Inl ExprExpectsArray))
     else Inl (ExprOperator op))"
| "expr_convert (UnaryNode op n) =
    (if op \<in> {''!'', ''not''} then bind_res (expr_convert n) (\<lambda>arg. Inr (NotNode arg))
     else Inl (ExprUnary op))"
| "expr_convert (CallNode callee args) = expr_callToIR (expr_calleeName callee) args"
| "expr_convert (BuiltinNode name args) = expr_callToIR name args"
| "expr_convert _ = Inl ExprUnsupportedNode"

definition expr_Parser :: "(string \<Rightarrow> string + exprNode) \<Rightarrow> expr_error Parser" where
  "expr_Parser lib_Parse = \<lparr>parser_Name = ''expr'',
    parser_Parse = (\<lambda>rule. case lib_Parse rule of Inl err \<Rightarrow> Inl (ExprParse err) | Inr n \<Rightarrow> expr_convert n)\<rparr>"

definition ExprFrontend :: "(string \<Rightarrow> string + exprNode) \<Rightarrow> expr_error Parser" where
  "ExprFrontend lib_Parse = \<lparr>parser_Name = ''expr'', parser_Parse = parser_Parse (expr_Parser lib_Parse)\<rparr>"

section \<open>The meaning of an expression\<close>

text \<open>
  Reference readings of the two languages on a row: connectives, comparisons of a field with a
  literal, membership in a list of literals, and the three string tests.
\<close>

definition str_fn :: "string \<Rightarrow> str_test option" where
  "str_fn name =
    (if name \<in> {''startsWith'', ''hasPrefix''} then Some TPrefix
     else if name \<in> {''endsWith'', ''hasSuffix''} then Some TSuffix
     else if name = ''contains'' then Some TContains else None)"

definition field_test :: "str_test \<Rightarrow> string \<Rightarrow> vm_Value \<Rightarrow> bool" where
  "field_test k core x \<longleftrightarrow> v_k x \<noteq> kUndef \<and> str_test_holds k core (vm_asString x)"

definition field_in :: "string set \<Rightarrow> vm_Value \<Rightarrow> bool" where
  "field_in S x \<longleftrightarrow> v_k x \<noteq> kUndef \<and> vm_asString x \<in> S"

fun cel_lit_val :: "cel_lit \<Rightarrow> vm_Value" where
  "cel_lit_val (LString s) = strV s"
| "cel_lit_val (LInt n) = numV (float64_of_int n)"
| "cel_lit_val (LDouble x) = numV x"
| "cel_lit_val (LBool b) = strV (FormatBool b)"
| "cel_lit_val LOther = undef"

fun cel_lit_text :: "cel_lit \<Rightarrow> string" where
  "cel_lit_text (LString s) = s"
| "cel_lit_text (LInt n) = Itoa n"
| "cel_lit_text (LDouble x) = FormatFloat x"
| "cel_lit_text (LBool b) = FormatBool b"
| "cel_lit_text LOther = []"

definition cel_leaf :: "cel_fn \<Rightarrow> celExpr \<Rightarrow> celExpr list \<Rightarrow> row \<Rightarrow> bool" where
  "cel_leaf fn target args r =
    (case (fn, target, args) of
       (InOp, _, [IdentKind f, ListKind es]) \<Rightarrow>
         field_in ((\<lambda>e. case e of LiteralKind l \<Rightarrow> cel_lit_text l | _ \<Rightarrow> []) ` set es) (field_val r f)
     | (Named name, IdentKind f, [LiteralKind l]) \<Rightarrow>
         (case str_fn name of Some k \<Rightarrow> field_test k (cel_lit_text l) (field_val r f) | None \<Rightarrow> False)
     | (_, _, [IdentKind f, LiteralKind l]) \<Rightarrow> cmp_holds (cel_cmpOp fn) (field_val r f) (cel_lit_val l)
     | _ \<Rightarrow> False)"

fun cel_holds :: "celExpr \<Rightarrow> row \<Rightarrow> bool" where
  "cel_holds (CallKind fn target args) r =
    (if fn = LogicalAnd then list_all (\<lambda>a. cel_holds a r) args
     else if fn = LogicalOr then list_ex (\<lambda>a. cel_holds a r) args
     else if fn = LogicalNot then (case args of [a] \<Rightarrow> \<not> cel_holds a r | _ \<Rightarrow> False)
     else cel_leaf fn target args r)"
| "cel_holds _ r = False"

text \<open>Numbers the language can write, and string tests on texts without a percent sign.\<close>

fun cel_lit_ok :: "cel_lit \<Rightarrow> bool" where
  "cel_lit_ok (LInt n) = in_int64 n"
| "cel_lit_ok (LDouble x) = finite64 x"
| "cel_lit_ok _ = True"

fun cel_ok :: "celExpr \<Rightarrow> bool" where
  "cel_ok (CallKind fn target args) = (list_all cel_ok args \<and>
    (case fn of Named _ \<Rightarrow>
       list_all (\<lambda>a. case a of LiteralKind (LString s) \<Rightarrow> CHR ''%'' \<notin> set s | _ \<Rightarrow> False) args
     | _ \<Rightarrow> True))"
| "cel_ok (ListKind es) = list_all cel_ok es"
| "cel_ok (LiteralKind l) = cel_lit_ok l"
| "cel_ok _ = True"

lemma cel_litVal_meaning:
  assumes "cel_litVal e = Inr w" "cel_ok e"
  obtains l where "e = LiteralKind l" "lit_val w = cel_lit_val l" "valStr w = cel_lit_text l"
    "IsString w \<or> num_ok w"
  using assms
  by (cases e; cases "case e of LiteralKind l \<Rightarrow> l | _ \<Rightarrow> LOther")
    (auto simp: cel_litVal_def lit_val_def valStr_def num_ok_def ParseFloat_FormatFloat ParseFloat_Itoa)

lemma mapM_res_image:
  assumes "mapM_res f es = Inr ws" "\<And>e w. e \<in> set es \<Longrightarrow> f e = Inr w \<Longrightarrow> g w = h e"
  shows "g ` set ws = h ` set es"
  using assms
proof (induction es arbitrary: ws)
  case (Cons e es)
  then obtain w vs where "f e = Inr w" "mapM_res f es = Inr vs" "ws = w # vs" by (auto simp: bind_res_Inr_iff)
  moreover have "g w = h e" using Cons.prems(2) \<open>f e = Inr w\<close> by simp
  moreover have "g ` set vs = h ` set es" using Cons.IH [OF \<open>mapM_res f es = Inr vs\<close>] Cons.prems(2) by simp
  ultimately show ?case by simp
qed simp

lemma like_test_denote:
  "CHR ''%'' \<notin> set core \<Longrightarrow> denote (Like f (like_of k core) False) r = field_test k core (field_val r f)"
  by (simp add: like_of_holds field_test_def)

lemma cel_identName_Inr: "cel_identName e = Inr f \<longleftrightarrow> e = IdentKind f"
  by (auto simp: cel_identName_def split: celExpr.split)

lemma cel_cmp_cases:
  assumes "fn \<in> {Equals, NotEquals, Less, LessEquals, Greater, GreaterEquals}" "cel_callToIR fn target args = Inr t"
  obtains f b w where "args = [IdentKind f, b]" "cel_litVal b = Inr w" "t = Compare f (cel_cmpOp fn) w"
proof -
  obtain a b where args: "args = [a, b]"
    using assms by (auto simp: cel_callToIR.simps split: list.splits)
  then show thesis
    using assms that by (auto simp: cel_callToIR.simps bind_res_Inr_iff cel_identName_Inr)
qed

lemma cel_in_cases:
  assumes "cel_callToIR InOp target args = Inr t"
  obtains f es vals where "args = [IdentKind f, ListKind es]" "mapM_res cel_litVal es = Inr vals" "t = In f vals False"
proof -
  obtain a b where args: "args = [a, b]"
    using assms by (auto simp: cel_callToIR.simps split: list.splits)
  then show thesis
    using assms that by (cases b) (auto simp: cel_callToIR.simps bind_res_Inr_iff cel_identName_Inr)
qed

lemma cel_named_cases:
  assumes "cel_callToIR (Named name) target args = Inr t"
  obtains f a lit where "name \<in> {''startsWith'', ''endsWith'', ''contains''}" "target = IdentKind f" "args = [a]"
    "cel_litVal a = Inr lit"
    "t = Like f (if name = ''startsWith'' then Str lit @ ''%''
        else if name = ''endsWith'' then ''%'' @ Str lit else ''%'' @ Str lit @ ''%'') False"
proof -
  have n: "name \<in> {''startsWith'', ''endsWith'', ''contains''}"
    using assms by (auto simp: cel_callToIR.simps split: if_splits)
  then obtain a where "args = [a]"
    using assms by (cases args rule: remdups_adj.cases) (auto simp: cel_callToIR.simps bind_res_Inr_iff)
  then show thesis
    using assms n that by (auto simp: cel_callToIR.simps bind_res_Inr_iff cel_identName_Inr)
qed

lemma cel_cmp_meaning:
  assumes "fn \<in> {Equals, NotEquals, Less, LessEquals, Greater, GreaterEquals}"
    and "cel_callToIR fn target args = Inr t" "list_all cel_ok args"
  shows "denote t r = cel_leaf fn target args r"
  using assms(1,2)
proof (cases rule: cel_cmp_cases)
  case (1 f b w)
  then obtain l where "b = LiteralKind l" "lit_val w = cel_lit_val l"
    using cel_litVal_meaning [OF 1(2)] assms(3) by auto
  with assms(1) 1 show ?thesis by (auto simp: cel_leaf_def)
qed

lemma cel_in_meaning:
  assumes "cel_callToIR InOp target args = Inr t" "list_all cel_ok args"
  shows "denote t r = cel_leaf InOp target args r"
  using assms(1)
proof (cases rule: cel_in_cases)
  case (1 f es vals)
  have "valStr ` set vals = (\<lambda>e. case e of LiteralKind l \<Rightarrow> cel_lit_text l | _ \<Rightarrow> []) ` set es"
  proof (rule mapM_res_image [OF 1(2)])
    fix e w assume "e \<in> set es" "cel_litVal e = Inr w"
    moreover have "cel_ok e" using assms(2) 1(1) \<open>e \<in> set es\<close> by (simp add: list_all_iff)
    ultimately show "valStr w = (case e of LiteralKind l \<Rightarrow> cel_lit_text l | _ \<Rightarrow> [])"
      by (auto elim!: cel_litVal_meaning)
  qed
  then show ?thesis using 1 by (simp add: cel_leaf_def field_in_def)
qed

lemma cel_named_meaning:
  assumes "cel_callToIR (Named name) target args = Inr t" "cel_ok (CallKind (Named name) target args)"
  shows "denote t r = cel_leaf (Named name) target args r"
  using assms(1)
proof (cases rule: cel_named_cases)
  case (1 f a lit)
  obtain s where s: "a = LiteralKind (LString s)" "CHR ''%'' \<notin> set s"
    using assms(2) 1(3) by (auto split: celExpr.splits cel_lit.splits)
  then have "Str lit = s" using 1(4) by (auto simp: cel_litVal_def)
  moreover obtain k where "str_fn name = Some k"
    "(if name = ''startsWith'' then s @ ''%'' else if name = ''endsWith'' then ''%'' @ s else ''%'' @ s @ ''%'') = like_of k s"
    using 1(1) by (auto simp: str_fn_def)
  ultimately have "t = Like f (like_of k s) False" "str_fn name = Some k" using 1(5) by (simp_all only:)
  then show ?thesis
    using like_test_denote [OF s(2), of f k r] 1(2,3) s(1) by (simp add: cel_leaf_def)
qed

lemma cel_meaning:
  "cel_convert e = Inr t \<Longrightarrow> cel_ok e \<Longrightarrow> denote t r = cel_holds e r"
  "cel_callToIR fn target args = Inr t \<Longrightarrow> cel_ok (CallKind fn target args) \<Longrightarrow>
    denote t r = cel_holds (CallKind fn target args) r"
proof (induction e and fn target args arbitrary: t and t rule: cel_convert_cel_callToIR.induct)
  case (1 e)
  then show ?case by (cases e) (auto simp: cel_convert.simps)
next
  case (2 fn target args)
  have args: "list_all cel_ok args" using 2(4) by simp
  consider (logic) "fn = LogicalAnd \<or> fn = LogicalOr" | (neg) "fn = LogicalNot"
    | (cmp) "fn \<in> {Equals, NotEquals, Less, LessEquals, Greater, GreaterEquals}"
    | (mem) "fn = InOp" | (named) name where "fn = Named name" by (cases fn) auto
  then show ?case
  proof cases
    case logic
    then obtain ns where ns: "mapM_res cel_convert args = Inr ns"
        "t = Logic (if fn = LogicalOr then ''OR'' else ''AND'') ns"
      using 2(3) by (auto simp: cel_callToIR.simps bind_res_Inr_iff)
    have IH: "denote n r = cel_holds a r" if "a \<in> set args" "cel_convert a = Inr n" for a n
      using 2(1) [OF logic that] args that(1) by (auto simp: list_all_iff)
    have "list_all (\<lambda>n. denote n r) ns = list_all (\<lambda>a. cel_holds a r) args \<and>
        list_ex (\<lambda>n. denote n r) ns = list_ex (\<lambda>a. cel_holds a r) args"
      by (rule mapM_res_pred [OF ns(1)]) (use IH in blast)
    then show ?thesis using logic ns(2) by auto
  next
    case neg
    then obtain a n where "args = [a]" "cel_convert a = Inr n" "t = NotNode n"
      using 2(3) by (auto simp: cel_callToIR.simps bind_res_Inr_iff split: list.splits)
    then show ?thesis using 2(2) neg args by auto
  next
    case cmp
    then show ?thesis using cel_cmp_meaning [OF cmp 2(3) args, of r] by auto
  next
    case mem
    then show ?thesis using cel_in_meaning [OF _ args, of target t r] 2(3) by auto
  next
    case (named name)
    then show ?thesis using cel_named_meaning [of name target args t r] 2(3,4) by auto
  qed
qed

lemma cel_cmpOp_member: "List.member cmp_ops (cel_cmpOp fn)"
  by (cases fn) (simp_all add: cel_cmpOp_def cmp_ops_def)

lemma cel_ops:
  "cel_convert e = Inr t \<Longrightarrow> ops_ok t"
  "cel_callToIR fn target args = Inr t \<Longrightarrow> ops_ok t"
proof (induction e and fn target args arbitrary: t and t rule: cel_convert_cel_callToIR.induct)
  case (1 e)
  then show ?case by (cases e) (auto simp: cel_convert.simps)
next
  case (2 fn target args)
  consider (logic) "fn = LogicalAnd \<or> fn = LogicalOr" | (neg) "fn = LogicalNot"
    | (cmp) "fn \<in> {Equals, NotEquals, Less, LessEquals, Greater, GreaterEquals}"
    | (mem) "fn = InOp" | (named) name where "fn = Named name" by (cases fn) auto
  then show ?case
  proof cases
    case logic
    then obtain ns where ns: "mapM_res cel_convert args = Inr ns"
        "t = Logic (if fn = LogicalOr then ''OR'' else ''AND'') ns"
      using 2(3) by (auto simp: cel_callToIR.simps bind_res_Inr_iff)
    have "list_all ops_ok ns"
      using mapM_res_Inr_set [OF ns(1)] 2(1) [OF logic] by (auto simp: list_all_iff)
    then show ?thesis using ns(2) by simp
  next
    case neg
    then obtain a n where "args = [a]" "cel_convert a = Inr n" "t = NotNode n"
      using 2(3) by (auto simp: cel_callToIR.simps bind_res_Inr_iff split: list.splits)
    then show ?thesis using 2(2) neg by simp
  next
    case cmp
    then show ?thesis using 2(3) by (cases rule: cel_cmp_cases) (metis cel_cmpOp_member ops_ok.simps(2))
  next
    case mem
    then have "cel_callToIR InOp target args = Inr t" using 2(3) by simp
    then show ?thesis by (cases rule: cel_in_cases) simp
  next
    case (named name)
    then have "cel_callToIR (Named name) target args = Inr t" using 2(3) by simp
    then show ?thesis by (cases rule: cel_named_cases) (simp del: if_split)
  qed
qed

subsection \<open>Expr\<close>

fun expr_lit_val :: "exprNode \<Rightarrow> vm_Value" where
  "expr_lit_val (IntegerNode n) = numV (float64_of_int n)"
| "expr_lit_val (FloatNode x) = numV x"
| "expr_lit_val (StringNode s) = strV s"
| "expr_lit_val (BoolNode b) = strV (FormatBool b)"
| "expr_lit_val _ = undef"

fun expr_lit_text :: "exprNode \<Rightarrow> string" where
  "expr_lit_text (IntegerNode n) = Itoa n"
| "expr_lit_text (FloatNode x) = FormatFloat x"
| "expr_lit_text (StringNode s) = s"
| "expr_lit_text (BoolNode b) = FormatBool b"
| "expr_lit_text _ = []"

definition expr_call_holds :: "string \<Rightarrow> exprNode list \<Rightarrow> row \<Rightarrow> bool" where
  "expr_call_holds name args r =
    (case (str_fn name, args) of
       (Some k, [IdentifierNode f, l]) \<Rightarrow> field_test k (expr_lit_text l) (field_val r f)
     | _ \<Rightarrow> False)"

fun expr_holds :: "exprNode \<Rightarrow> row \<Rightarrow> bool" where
  "expr_holds (BinaryNode op l rt) r =
    (if op \<in> {''&&'', ''and''} then expr_holds l r \<and> expr_holds rt r
     else if op \<in> {''||'', ''or''} then expr_holds l r \<or> expr_holds rt r
     else case (l, rt) of
       (IdentifierNode f, ArrayNode es) \<Rightarrow>
         field_in (expr_lit_text ` set es) (field_val r f) \<noteq> (op = ''not in'')
     | (IdentifierNode f, _) \<Rightarrow> cmp_holds op (field_val r f) (expr_lit_val rt)
     | _ \<Rightarrow> False)"
| "expr_holds (UnaryNode op n) r = (\<not> expr_holds n r)"
| "expr_holds (CallNode (IdentifierNode name) args) r = expr_call_holds name args r"
| "expr_holds (BuiltinNode name args) r = expr_call_holds name args r"
| "expr_holds _ r = False"

fun expr_lit_ok :: "exprNode \<Rightarrow> bool" where
  "expr_lit_ok (IntegerNode n) = in_int64 n"
| "expr_lit_ok (FloatNode x) = finite64 x"
| "expr_lit_ok (ArrayNode es) = list_all expr_lit_ok es"
| "expr_lit_ok _ = True"

definition expr_args_ok :: "exprNode list \<Rightarrow> bool" where
  "expr_args_ok args = (case args of [_, StringNode s] \<Rightarrow> CHR ''%'' \<notin> set s | _ \<Rightarrow> False)"

fun expr_ok :: "exprNode \<Rightarrow> bool" where
  "expr_ok (BinaryNode op l r) = (expr_ok l \<and> expr_ok r \<and> expr_lit_ok r)"
| "expr_ok (UnaryNode op n) = expr_ok n"
| "expr_ok (CallNode callee args) = expr_args_ok args"
| "expr_ok (BuiltinNode name args) = expr_args_ok args"
| "expr_ok _ = True"

lemma expr_litVal_meaning:
  assumes "expr_litVal n = Inr w" "expr_lit_ok n"
  shows "lit_val w = expr_lit_val n \<and> valStr w = expr_lit_text n \<and> (IsString w \<or> num_ok w)"
  using assms
  by (cases n) (auto simp: expr_litVal_def lit_val_def valStr_def num_ok_def ParseFloat_FormatFloat ParseFloat_Itoa)

lemma expr_callToIR_two:
  "expr_callToIR name [a, b] = bind_res (expr_identName a) (\<lambda>f. bind_res (expr_litVal b) (\<lambda>lit.
    case str_fn name of Some k \<Rightarrow> Inr (Like f (like_of k (Str lit)) False) | None \<Rightarrow> Inl (ExprUnsupportedCall name)))"
proof -
  define P S where "P = {''hasPrefix'', ''startsWith''}" and "S = {''hasSuffix'', ''endsWith''}"
  have fn: "str_fn name = (if name \<in> P then Some TPrefix else if name \<in> S then Some TSuffix
      else if name = ''contains'' then Some TContains else None)"
    unfolding str_fn_def P_def S_def by (simp only: insert_commute)
  show ?thesis
    unfolding fn expr_callToIR_def list.case Let_def P_def [symmetric] S_def [symmetric]
    by (cases "name \<in> P"; cases "name \<in> S"; cases "name = ''contains''")
      (simp_all only: if_True if_False option.case like_of.simps simp_thms)
qed

lemma expr_identName_Inr: "expr_identName e = Inr f \<longleftrightarrow> e = IdentifierNode f"
  by (auto simp: expr_identName_def split: exprNode.split)

lemma expr_call_cases:
  assumes "expr_callToIR name args = Inr t"
  obtains f b lit k where "args = [IdentifierNode f, b]" "expr_litVal b = Inr lit" "str_fn name = Some k"
    "t = Like f (like_of k (Str lit)) False"
proof -
  obtain a b where args: "args = [a, b]"
    using assms by (auto simp: expr_callToIR_def split: list.splits)
  then show thesis
    using assms that unfolding args expr_callToIR_two bind_res_Inr_iff expr_identName_Inr
    by (auto split: option.split_asm)
qed

lemma expr_call_meaning:
  assumes "expr_callToIR name args = Inr t" "expr_args_ok args"
  shows "denote t r = expr_call_holds name args r"
  using assms(1)
proof (cases rule: expr_call_cases)
  case (1 f b lit k)
  obtain s where s: "b = StringNode s" "CHR ''%'' \<notin> set s"
    using assms(2) 1(1) by (cases b) (auto simp: expr_args_ok_def)
  then have "Str lit = s" using 1(2) by (auto simp: expr_litVal_def)
  then show ?thesis using like_test_denote [OF s(2), of f k r] 1 s(1) by (simp add: expr_call_holds_def)
qed

lemma expr_call_ops: "expr_callToIR name args = Inr t \<Longrightarrow> ops_ok t"
  by (erule expr_call_cases) simp

lemma expr_binary_cases:
  assumes "expr_convert (BinaryNode op l r) = Inr t"
  obtains (conj) a b where "op \<in> {''&&'', ''and''}" "expr_convert l = Inr a" "expr_convert r = Inr b" "t = Logic ''AND'' [a, b]"
    | (disj) a b where "op \<in> {''||'', ''or''}" "expr_convert l = Inr a" "expr_convert r = Inr b" "t = Logic ''OR'' [a, b]"
    | (cmp) f v where "op \<in> {''=='', ''!='', ''<'', ''<='', ''>'', ''>=''}" "l = IdentifierNode f" "expr_litVal r = Inr v"
        "t = Compare f (if op = ''=='' then ''='' else op) v"
    | (mem) f es vals where "op \<in> {''in'', ''not in''}" "l = IdentifierNode f" "r = ArrayNode es"
        "mapM_res expr_litVal es = Inr vals" "t = In f vals (op = ''not in'')"
proof -
  define A O' C I where "A = {''&&'', ''and''}" and "O' = {''||'', ''or''}"
    and "C = {''=='', ''!='', ''<'', ''<='', ''>'', ''>=''}" and "I = {''in'', ''not in''}"
  note e = assms [unfolded expr_convert.simps, folded A_def O'_def C_def I_def]
  consider "op \<in> A" | "op \<notin> A" "op \<in> O'" | "op \<notin> A" "op \<notin> O'" "op \<in> C" | "op \<notin> A" "op \<notin> O'" "op \<notin> C" "op \<in> I"
    | "op \<notin> A" "op \<notin> O'" "op \<notin> C" "op \<notin> I" by blast
  then show thesis
  proof cases
    case 1
    then show ?thesis using e conj unfolding A_def by (auto simp only: if_True expr_logic_def bind_res_Inr_iff sum.inject)
  next
    case 2
    then show ?thesis using e disj unfolding O'_def
      by (auto simp only: if_True if_False expr_logic_def bind_res_Inr_iff sum.inject)
  next
    case 3
    then show ?thesis using e cmp unfolding C_def
      by (auto simp only: if_True if_False bind_res_Inr_iff sum.inject expr_identName_Inr)
  next
    case 4
    then have "bind_res (expr_identName l) (\<lambda>field. case r of ArrayNode elems \<Rightarrow>
        bind_res (mapM_res expr_litVal elems) (\<lambda>vals. Inr (In field vals (op = ''not in''))) | _ \<Rightarrow> Inl ExprExpectsArray) = Inr t"
      using e by (simp only: if_False if_True)
    then show ?thesis using mem 4(4) unfolding I_def
      by (cases r) (auto simp only: exprNode.case bind_res_Inr_iff sum.inject sum.distinct expr_identName_Inr)
  next
    case 5
    then show ?thesis using e by (simp only: if_False sum.distinct)
  qed
qed

lemma expr_ops: "expr_convert n = Inr t \<Longrightarrow> ops_ok t"
proof (induction n arbitrary: t)
  case (BinaryNode op l r)
  from BinaryNode(3) show ?case
  proof (cases rule: expr_binary_cases)
    case (cmp f v)
    then show ?thesis by (auto simp: cmp_ops_def)
  qed (use BinaryNode(1,2) in auto)
next
  case (UnaryNode op n)
  then show ?case by (auto simp: bind_res_Inr_iff split: if_splits)
qed (auto dest: expr_call_ops)

lemma expr_meaning: "expr_convert n = Inr t \<Longrightarrow> expr_ok n \<Longrightarrow> denote t r = expr_holds n r"
proof (induction n arbitrary: t)
  case (BinaryNode op l rt)
  from BinaryNode(3) show ?case
  proof (cases rule: expr_binary_cases)
    case (conj a b)
    then show ?thesis using BinaryNode(1,2,4) by auto
  next
    case (disj a b)
    then show ?thesis using BinaryNode(1,2,4) by auto
  next
    case (cmp f v)
    have "lit_val v = expr_lit_val rt" using expr_litVal_meaning [OF cmp(3)] BinaryNode(4) by simp
    moreover have "op \<noteq> ''&&'' \<and> op \<noteq> ''and'' \<and> op \<noteq> ''||'' \<and> op \<noteq> ''or''" using cmp(1) by auto
    moreover have "\<forall>es. rt \<noteq> ArrayNode es" using cmp(3) by (auto simp: expr_litVal_def)
    ultimately show ?thesis
      using cmp(2,4) by (cases rt) (simp_all add: cmp_holds_eqeq)
  next
    case (mem f es vals)
    have "valStr ` set vals = expr_lit_text ` set es"
      by (rule mapM_res_image [OF mem(4)])
        (use expr_litVal_meaning BinaryNode(4) mem(3) in \<open>auto simp: list_all_iff\<close>)
    then show ?thesis using mem(1,2,3,5) by (auto simp: field_in_def)
  qed
next
  case (UnaryNode op n)
  then show ?case by (auto simp: bind_res_Inr_iff split: if_splits)
next
  case (CallNode callee args)
  have "expr_calleeName callee \<noteq> []"
    using CallNode(3) by (auto elim!: expr_call_cases simp: str_fn_def split: if_splits)
  then obtain name where "callee = IdentifierNode name"
    by (auto simp: expr_calleeName_def split: exprNode.splits)
  then show ?case using expr_call_meaning CallNode(3,4) by (simp add: expr_calleeName_def)
qed (auto dest: expr_call_meaning)

interpretation cel_fe: rule_frontend "cel_Parser env_Parse" for env_Parse
  using cel_ops(1) by unfold_locales (auto simp: cel_Parser_def split: sum.splits)

interpretation expr_fe: rule_frontend "expr_Parser lib_Parse" for lib_Parse
  using expr_ops by unfold_locales (auto simp: expr_Parser_def split: sum.splits)

section \<open>Properties\<close>

text \<open>What the CEL grammar gives: \<^verbatim>\<open>&&\<close> and \<^verbatim>\<open>||\<close> have operands.\<close>

fun cel_connected :: "celExpr \<Rightarrow> bool" where
  "cel_connected (CallKind fn target args) = (list_all cel_connected args \<and>
    ((fn = LogicalAnd \<or> fn = LogicalOr) \<longrightarrow> args \<noteq> []))"
| "cel_connected _ = True"

lemma cel_literals:
  "cel_convert e = Inr t \<Longrightarrow> cel_ok e \<Longrightarrow> cel_connected e \<Longrightarrow> literals_ok t \<and> has_operands t"
  "cel_callToIR fn target args = Inr t \<Longrightarrow> cel_ok (CallKind fn target args) \<Longrightarrow>
    cel_connected (CallKind fn target args) \<Longrightarrow> literals_ok t \<and> has_operands t"
proof (induction e and fn target args arbitrary: t and t rule: cel_convert_cel_callToIR.induct)
  case (1 e)
  then show ?case by (cases e) (auto simp: cel_convert.simps)
next
  case (2 fn target args)
  have args: "list_all cel_ok args" "list_all cel_connected args" using 2(4,5) by auto
  consider (logic) "fn = LogicalAnd \<or> fn = LogicalOr" | (neg) "fn = LogicalNot"
    | (cmp) "fn \<in> {Equals, NotEquals, Less, LessEquals, Greater, GreaterEquals}"
    | (mem) "fn = InOp" | (named) name where "fn = Named name" by (cases fn) auto
  then show ?case
  proof cases
    case logic
    then obtain ns where ns: "mapM_res cel_convert args = Inr ns"
        "t = Logic (if fn = LogicalOr then ''OR'' else ''AND'') ns"
      using 2(3) by (auto simp: cel_callToIR.simps bind_res_Inr_iff)
    have "args \<noteq> []" using logic 2(5) by auto
    then have "list_all (\<lambda>n. literals_ok n \<and> has_operands n) ns \<and> ns \<noteq> []"
      by (rule mapM_res_all [OF ns(1)]) (use 2(1) [OF logic] args in \<open>auto simp: list_all_iff\<close>)
    then show ?thesis using logic ns(2) by (auto simp: list_all_iff)
  next
    case neg
    then obtain a n where "args = [a]" "cel_convert a = Inr n" "t = NotNode n"
      using 2(3) by (auto simp: cel_callToIR.simps bind_res_Inr_iff split: list.splits)
    then show ?thesis using 2(2) neg args by auto
  next
    case cmp
    from cmp 2(3) show ?thesis
    proof (cases rule: cel_cmp_cases)
      case (1 f b w)
      then show ?thesis using cel_litVal_meaning [OF 1(2)] args(1) by auto
    qed
  next
    case mem
    from 2(3) [unfolded mem] show ?thesis by (cases rule: cel_in_cases) auto
  next
    case named
    from 2(3) [unfolded named] show ?thesis by (cases rule: cel_named_cases) auto
  qed
qed

text \<open>C16: A CEL rule keeps its meaning. Take any expression the CEL parser returns, with operands in
  every connective, numbers the language can write and string tests on texts without a percent sign
  (\<open>cel_connected\<close>, \<open>cel_ok\<close>), that the front-end lowers to a tree with fewer than 700 million
  conditions in which operands of a connective that print alike are equal (\<open>keys_apart\<close>). The
  bytecode backend compiles it, and returns on every row, without panicking, whether the expression
  holds of the row if the optimized rule fits the machine's 256 stack slots, and false if not.\<close>

theorem CEL_meaning:
  assumes "env_Parse s = Inr e" "cel_ok e" "cel_connected e" "parser_Parse (CELFrontend env_Parse) s = Inr t"
    and "keys_apart t" "bytecode_ok t"
  shows "let be = (BytecodeBackend (CELFrontend env_Parse) :: (cel_error be_error, 'c, 'q) Backend) in
    denote t r = cel_holds e r \<and>
    (\<exists>p. be_Compile be s = Inr p \<and> be_Eval be (be_NewContext be r) p =
      Some (stack_need (Optimize t) \<le> stackMax \<and> cel_holds e r))"
proof -
  have p: "parser_Parse (cel_Parser env_Parse) s = Inr t" using assms(4) by (simp add: CELFrontend_def)
  then have c: "cel_convert e = Inr t" using assms(1) by (simp add: cel_Parser_def)
  have lits: "literals_ok t" "has_operands t" using cel_literals(1) [OF c assms(2,3)] by auto
  then have "compilable t" using compilable_split [OF cel_fe.parse_ops [OF p]] by simp
  then show ?thesis
    using backend_exact(1) [OF refl assms(4,5) lits(2), where 'c = 'c and 'q = 'q]
      backend_exact(2) [OF refl assms(4,5) lits(2) _ assms(6), of _ r, where 'c = 'c and 'q = 'q]
      cel_meaning(1) [OF c assms(2), of r]
    by (auto simp: Let_def)
qed

definition demo_cel :: celExpr where
  "demo_cel = CallKind LogicalAnd OtherKind
    [CallKind GreaterEquals OtherKind [IdentKind ''age'', LiteralKind (LInt 18)],
     CallKind LogicalNot OtherKind
       [CallKind (Named ''startsWith'') (IdentKind ''name'') [LiteralKind (LString ''bot'')]]]"

theorem CEL_meaning_witness:
  "let be = (BytecodeBackend (CELFrontend (\<lambda>_. Inr demo_cel)) :: (cel_error be_error, unit, unit) Backend) in
    \<exists>p. be_Compile be [] = Inr p \<and>
      be_Eval be (be_NewContext be [''age'' \<mapsto> AInt 20, ''name'' \<mapsto> AString ''ann'']) p = Some True"
proof -
  let ?r = "[''age'' \<mapsto> AInt 20, ''name'' \<mapsto> AString ''ann'']"
  have "case parser_Parse (CELFrontend (\<lambda>_. Inr demo_cel)) [] of
      Inr t \<Rightarrow> keys_apart t \<and> leaves t = 2 \<and> stack_need (Optimize t) \<le> stackMax | Inl _ \<Rightarrow> False" by code_simp
  then obtain t where t: "parser_Parse (CELFrontend (\<lambda>_. Inr demo_cel)) [] = Inr t"
    "keys_apart t" "leaves t = 2" "stack_need (Optimize t) \<le> stackMax" by (auto split: sum.splits)
  have e: "cel_ok demo_cel" "cel_connected demo_cel" "cel_holds demo_cel ?r" by code_simp+
  have "bytecode_ok t" using t(3) by (simp add: bytecode_ok_def)
  from CEL_meaning [OF refl e(1,2) t(1,2) this, of ?r, where 'c = unit and 'q = unit] e(3) t(4)
  show ?thesis by (auto simp: Let_def)
qed

text \<open>An Expr rule keeps its meaning, likewise; the string tests may be written as calls and as
  builtins, by both of their names.\<close>

theorem Expr_meaning:
  assumes "lib_Parse s = Inr n" "expr_ok n" "parser_Parse (ExprFrontend lib_Parse) s = Inr t"
  shows "denote t r = expr_holds n r \<and> ((\<exists>p. Compile t = Inr p) \<longleftrightarrow> literals_ok t)"
proof -
  have p: "parser_Parse (expr_Parser lib_Parse) s = Inr t" using assms(3) by (simp add: ExprFrontend_def)
  then have "expr_convert n = Inr t" using assms(1) by (simp add: expr_Parser_def)
  then show ?thesis using expr_meaning assms(2) expr_fe.compile_fails_iff [OF p] by simp
qed

definition demo_expr :: exprNode where
  "demo_expr = BinaryNode ''or'' (BinaryNode ''in'' (IdentifierNode ''vip'') (ArrayNode [IntegerNode 3, StringNode ''x'']))
    (UnaryNode ''not'' (BuiltinNode ''hasSuffix'' [IdentifierNode ''name'', StringNode ''bot'']))"

theorem Expr_meaning_witness:
  "\<exists>t. parser_Parse (ExprFrontend (\<lambda>_. Inr demo_expr)) [] = Inr t \<and>
    denote t [''vip'' \<mapsto> AInt 3, ''name'' \<mapsto> AString ''robot'']"
proof -
  let ?r = "[''vip'' \<mapsto> AInt 3, ''name'' \<mapsto> AString ''robot'']"
  have "case parser_Parse (ExprFrontend (\<lambda>_. Inr demo_expr)) [] of Inr _ \<Rightarrow> True | Inl _ \<Rightarrow> False" by code_simp
  then obtain t where t: "parser_Parse (ExprFrontend (\<lambda>_. Inr demo_expr)) [] = Inr t" by (auto split: sum.splits)
  have "expr_ok demo_expr" "expr_holds demo_expr ?r" by code_simp+
  with Expr_meaning [OF _ _ t, of demo_expr ?r] t show ?thesis by simp
qed

text \<open>A percent sign in a string test becomes a wildcard, and a number is tested as the empty
  text: the CEL rule \<open>name.endsWith("%")\<close> and the Expr rule \<open>contains(name, 5)\<close> are true of every row
  in which the field is set, the name \<open>"ann"\<close> included.\<close>

theorem Frontends_wildcard:
  "cel_convert (CallKind (Named ''endsWith'') (IdentKind f) [LiteralKind (LString ''%'')]) = Inr (Like f ''%%'' False) \<and>
   expr_convert (BuiltinNode ''contains'' [IdentifierNode f, IntegerNode 5]) = Inr (Like f ''%%'' False) \<and>
   denote (Like f ''%%'' False) r = (v_k (field_val r f) \<noteq> kUndef) \<and>
   \<not> HasSuffix ''ann'' ''%'' \<and> \<not> Contains ''ann'' ''5''"
proof -
  have "vm_likeParts ''%%'' = (LContains, [])" by code_simp
  then have "like_holds ''%%'' s" for s by (simp add: like_holds_def Contains_def)
  moreover have "\<not> HasSuffix ''ann'' ''%''" "\<not> Contains ''ann'' ''5''" by code_simp+
  ultimately show ?thesis
    by (simp add: cel_convert.simps cel_callToIR.simps cel_identName_def cel_litVal_def
        expr_callToIR_def expr_identName_def expr_litVal_def)
qed

end
