(* ===== verification/Frontend_QL.thy ===== *)
theory Frontend_QL
  imports Frontend_JSON
begin

text \<open>
  The qlbridge front-end, \<^verbatim>\<open>pkg/engine/frontend_qlbridge.go\<close>, the parser package with the same
  conversion, \<^verbatim>\<open>pkg/parser/qlbridge/qlbridge.go\<close>, and the two functions that the qlbridge backend
  registers (\<^verbatim>\<open>pkg/engine/backend_qlbridge.go\<close>). The syntax tree of the library is a datatype with
  the node kinds and the token types the sources name, and one constructor for every other;
  \<open>expr.ParseExpression\<close> is an argument. The arguments of a node are a slice: an index beyond its
  end is the error \<open>IndexOutOfRange\<close>, a panic of the Go program.
\<close>

section \<open>The syntax tree\<close>

datatype ql_token =
    TokenLogicAnd | TokenAnd | TokenLogicOr | TokenOr | TokenIN | TokenLike | TokenBetween
  | TokenEqual | TokenEqualEqual | TokenNE | TokenGT | TokenGE | TokenLT | TokenLE
  | TokenOther nat

datatype ql_Node =
    QBoolean ql_token "ql_Node list"
  | QBinary ql_token "ql_Node list"
  | QTri ql_token "ql_Node list"
  | QIdentity string
  | QNumber string
  | QString string
  | QValue "(bool \<times> string) option"
  | QArray "ql_Node list"
  | QOther

text \<open>A value node holds nil, or whether the value is of string type and its text.\<close>

datatype ql_error =
    QlParse string
  | NotLogicOp ql_token
  | ExpectedArray
  | UnsupportedTri ql_token
  | UnsupportedOperator ql_token
  | ExpectedIdentifier
  | UnsupportedLiteral
  | UnsupportedNode
  | IndexOutOfRange

definition arg_at :: "ql_Node list \<Rightarrow> nat \<Rightarrow> ql_error + ql_Node" where
  "arg_at args i = (if i < length args then Inr (args ! i) else Inl IndexOutOfRange)"

lemma size_nth_less [termination_simp]: "i < length xs \<Longrightarrow> f (xs ! i) < Suc (size_list f xs)"
  by (meson le_imp_less_Suc nth_mem order_refl size_list_estimation')

section \<open>pkg/engine/frontend\_qlbridge.go\<close>

definition logicOp :: "ql_token \<Rightarrow> ql_error + string" where
  "logicOp t =
    (case t of
       TokenLogicAnd \<Rightarrow> Inr ''AND'' | TokenAnd \<Rightarrow> Inr ''AND''
     | TokenLogicOr \<Rightarrow> Inr ''OR'' | TokenOr \<Rightarrow> Inr ''OR''
     | _ \<Rightarrow> Inl (NotLogicOp t))"

definition cmpName :: "ql_token \<Rightarrow> ql_error + string" where
  "cmpName t =
    (case t of
       TokenEqual \<Rightarrow> Inr ''='' | TokenEqualEqual \<Rightarrow> Inr ''='' | TokenNE \<Rightarrow> Inr ''!=''
     | TokenGT \<Rightarrow> Inr ''>'' | TokenGE \<Rightarrow> Inr ''>='' | TokenLT \<Rightarrow> Inr ''<'' | TokenLE \<Rightarrow> Inr ''<=''
     | _ \<Rightarrow> Inl (UnsupportedOperator t))"

definition identName :: "ql_Node \<Rightarrow> ql_error + string" where
  "identName n = (case n of QIdentity t \<Rightarrow> Inr t | _ \<Rightarrow> Inl ExpectedIdentifier)"

definition litVal :: "ql_Node \<Rightarrow> ql_error + Value" where
  "litVal n =
    (case n of
       QNumber t \<Rightarrow> Inr (NumValue t)
     | QString t \<Rightarrow> Inr (StrValue t)
     | QValue (Some (is_string, t)) \<Rightarrow> Inr (if is_string then StrValue t else NumValue t)
     | QIdentity t \<Rightarrow> Inr (StrValue t)
     | _ \<Rightarrow> Inl UnsupportedLiteral)"

fun qlToIR :: "ql_Node \<Rightarrow> ql_error + Node" where
  "qlToIR (QBoolean t args) =
    bind_res (logicOp t) (\<lambda>op. bind_res (mapM_res qlToIR args) (\<lambda>ns. Inr (Logic op ns)))"
| "qlToIR (QBinary t args) =
    (if t \<in> {TokenLogicAnd, TokenAnd, TokenLogicOr, TokenOr} then
       bind_res (if 0 < length args then qlToIR (args ! 0) else Inl IndexOutOfRange) (\<lambda>l.
       bind_res (if 1 < length args then qlToIR (args ! 1) else Inl IndexOutOfRange) (\<lambda>r.
       bind_res (logicOp t) (\<lambda>op. Inr (Logic op [l, r]))))
     else if t = TokenIN then
       bind_res (bind_res (arg_at args 0) identName) (\<lambda>field.
       bind_res (arg_at args 1) (\<lambda>a.
         (case a of
            QArray elems \<Rightarrow> bind_res (mapM_res litVal elems) (\<lambda>vals. Inr (In field vals False))
          | _ \<Rightarrow> Inl ExpectedArray)))
     else if t = TokenLike then
       bind_res (bind_res (arg_at args 0) identName) (\<lambda>field.
       bind_res (bind_res (arg_at args 1) litVal) (\<lambda>v. Inr (Like field (Str v) False)))
     else
       bind_res (bind_res (arg_at args 0) identName) (\<lambda>field.
       bind_res (bind_res (arg_at args 1) litVal) (\<lambda>v.
       bind_res (cmpName t) (\<lambda>op. Inr (Compare field op v)))))"
| "qlToIR (QTri t args) =
    (if t \<noteq> TokenBetween \<or> length args \<noteq> 3 then Inl (UnsupportedTri t)
     else
       bind_res (identName (args ! 0)) (\<lambda>field.
       bind_res (litVal (args ! 1)) (\<lambda>lo.
       bind_res (litVal (args ! 2)) (\<lambda>hi. Inr (Between field lo hi)))))"
| "qlToIR _ = Inl UnsupportedNode"

definition QLBridgeFrontend :: "(string \<Rightarrow> string + ql_Node) \<Rightarrow> ql_error Parser" where
  "QLBridgeFrontend ParseExpression = \<lparr>parser_Name = ''qlbridge'',
    parser_Parse = (\<lambda>rule. case ParseExpression rule of Inl err \<Rightarrow> Inl (QlParse err) | Inr n \<Rightarrow> qlToIR n)\<rparr>"

section \<open>pkg/parser/qlbridge/qlbridge.go\<close>

definition pql_logicOp :: "ql_token \<Rightarrow> ql_error + string" where
  "pql_logicOp t =
    (case t of
       TokenLogicAnd \<Rightarrow> Inr ''AND'' | TokenAnd \<Rightarrow> Inr ''AND''
     | TokenLogicOr \<Rightarrow> Inr ''OR'' | TokenOr \<Rightarrow> Inr ''OR''
     | _ \<Rightarrow> Inl (NotLogicOp t))"

definition pql_cmpName :: "ql_token \<Rightarrow> ql_error + string" where
  "pql_cmpName t =
    (case t of
       TokenEqual \<Rightarrow> Inr ''='' | TokenEqualEqual \<Rightarrow> Inr ''='' | TokenNE \<Rightarrow> Inr ''!=''
     | TokenGT \<Rightarrow> Inr ''>'' | TokenGE \<Rightarrow> Inr ''>='' | TokenLT \<Rightarrow> Inr ''<'' | TokenLE \<Rightarrow> Inr ''<=''
     | _ \<Rightarrow> Inl (UnsupportedOperator t))"

definition pql_identName :: "ql_Node \<Rightarrow> ql_error + string" where
  "pql_identName n = (case n of QIdentity t \<Rightarrow> Inr t | _ \<Rightarrow> Inl ExpectedIdentifier)"

definition pql_litVal :: "ql_Node \<Rightarrow> ql_error + Value" where
  "pql_litVal n =
    (case n of
       QNumber t \<Rightarrow> Inr (NumValue t)
     | QString t \<Rightarrow> Inr (StrValue t)
     | QValue (Some (is_string, t)) \<Rightarrow> Inr (if is_string then StrValue t else NumValue t)
     | QIdentity t \<Rightarrow> Inr (StrValue t)
     | _ \<Rightarrow> Inl UnsupportedLiteral)"

fun pql_toIR :: "ql_Node \<Rightarrow> ql_error + Node" where
  "pql_toIR (QBoolean t args) =
    bind_res (pql_logicOp t) (\<lambda>op. bind_res (mapM_res pql_toIR args) (\<lambda>ns. Inr (Logic op ns)))"
| "pql_toIR (QBinary t args) =
    (if t \<in> {TokenLogicAnd, TokenAnd, TokenLogicOr, TokenOr} then
       bind_res (if 0 < length args then pql_toIR (args ! 0) else Inl IndexOutOfRange) (\<lambda>l.
       bind_res (if 1 < length args then pql_toIR (args ! 1) else Inl IndexOutOfRange) (\<lambda>r.
       bind_res (pql_logicOp t) (\<lambda>op. Inr (Logic op [l, r]))))
     else if t = TokenIN then
       bind_res (bind_res (arg_at args 0) pql_identName) (\<lambda>field.
       bind_res (arg_at args 1) (\<lambda>a.
         (case a of
            QArray elems \<Rightarrow> bind_res (mapM_res pql_litVal elems) (\<lambda>vals. Inr (In field vals False))
          | _ \<Rightarrow> Inl ExpectedArray)))
     else if t = TokenLike then
       bind_res (bind_res (arg_at args 0) pql_identName) (\<lambda>field.
       bind_res (bind_res (arg_at args 1) pql_litVal) (\<lambda>v. Inr (Like field (Str v) False)))
     else
       bind_res (bind_res (arg_at args 0) pql_identName) (\<lambda>field.
       bind_res (bind_res (arg_at args 1) pql_litVal) (\<lambda>v.
       bind_res (pql_cmpName t) (\<lambda>op. Inr (Compare field op v)))))"
| "pql_toIR (QTri t args) =
    (if t \<noteq> TokenBetween \<or> length args \<noteq> 3 then Inl (UnsupportedTri t)
     else
       bind_res (pql_identName (args ! 0)) (\<lambda>field.
       bind_res (pql_litVal (args ! 1)) (\<lambda>lo.
       bind_res (pql_litVal (args ! 2)) (\<lambda>hi. Inr (Between field lo hi)))))"
| "pql_toIR _ = Inl UnsupportedNode"

definition qlbridge_Parser :: "(string \<Rightarrow> string + ql_Node) \<Rightarrow> ql_error Parser" where
  "qlbridge_Parser ParseExpression = \<lparr>parser_Name = ''qlbridge'',
    parser_Parse = (\<lambda>rule. case ParseExpression rule of Inl err \<Rightarrow> Inl (QlParse err) | Inr n \<Rightarrow> pql_toIR n)\<rparr>"

section \<open>The functions registered with qlbridge\<close>

text \<open>An argument value: nil, or its nil and error flags and its text.\<close>

record ql_val =
  qv_Nil :: bool
  qv_Err :: bool
  qv_ToString :: string

definition no_value :: "ql_val option \<Rightarrow> bool" where
  "no_value a = (case a of None \<Rightarrow> True | Some v \<Rightarrow> qv_Nil v \<or> qv_Err v)"

definition anyNil :: "ql_val option list \<Rightarrow> bool" where
  "anyNil args = list_ex no_value args"

text \<open>\<open>Validate\<close> rejects a call with the wrong number of arguments; the evaluator gets as many.\<close>

definition hasPrefix_Validate :: "nat \<Rightarrow> bool" where
  "hasPrefix_Validate n = (n = 2)"

definition hasPrefix_eval :: "ql_val option list \<Rightarrow> bool" where
  "hasPrefix_eval args =
    (if anyNil args then False
     else HasPrefix (qv_ToString (the (args ! 0))) (qv_ToString (the (args ! 1))))"

definition inSet_Validate :: "nat \<Rightarrow> bool" where
  "inSet_Validate n = (2 \<le> n)"

definition inSet_eval :: "ql_val option list \<Rightarrow> bool" where
  "inSet_eval args =
    (if no_value (args ! 0) then False
     else list_ex (\<lambda>a. case a of None \<Rightarrow> False | Some v \<Rightarrow> qv_ToString v = qv_ToString (the (args ! 0))) (drop 1 args))"

section \<open>Lemmas\<close>

lemma litVal_err: "litVal n \<noteq> Inl IndexOutOfRange" "identName n \<noteq> Inl IndexOutOfRange"
    "logicOp t \<noteq> Inl IndexOutOfRange" "cmpName t \<noteq> Inl IndexOutOfRange"
  by (simp_all add: litVal_def identName_def logicOp_def cmpName_def
      split: ql_Node.split option.split prod.split ql_token.split)

lemma mapM_litVal_err: "mapM_res litVal xs \<noteq> Inl IndexOutOfRange"
  using mapM_res_Inl [of litVal xs IndexOutOfRange] litVal_err(1) by auto

lemma array_case_Inr:
  "(case a of QArray elems \<Rightarrow> g elems | _ \<Rightarrow> Inl ExpectedArray) = Inr t \<longleftrightarrow> (\<exists>es. a = QArray es \<and> g es = Inr t)"
  by (cases a) simp_all

lemma logicOp_Inr: "logicOp t = Inr op \<Longrightarrow> op = ''AND'' \<or> op = ''OR''"
  by (auto simp: logicOp_def split: ql_token.splits)

lemma cmpName_Inr: "cmpName t = Inr op \<Longrightarrow> List.member cmp_ops op"
  by (cases t) (auto simp: cmpName_def cmp_ops_def)

lemma ql_ops: "qlToIR n = Inr t \<Longrightarrow> ops_ok t"
proof (induction n arbitrary: t rule: qlToIR.induct)
  case (1 tok args)
  then obtain op ns where n: "logicOp tok = Inr op" "mapM_res qlToIR args = Inr ns" "t = Logic op ns"
    by (auto simp: bind_res_Inr_iff)
  have "list_all ops_ok ns"
    using mapM_res_Inr_set [OF n(2)] 1(1) [OF n(1)] by (auto simp: list_all_iff)
  then show ?case using n logicOp_Inr by simp
next
  case (2 tok args)
  show ?case
  proof (cases "tok \<in> {TokenLogicAnd, TokenAnd, TokenLogicOr, TokenOr}")
    case True
    then obtain l r op where lr: "0 < length args" "1 < length args" "qlToIR (args ! 0) = Inr l"
        "qlToIR (args ! 1) = Inr r" "logicOp tok = Inr op" "t = Logic op [l, r]"
      using 2(3) by (simp only: qlToIR.simps if_True bind_res_Inr_iff) (auto split: if_split_asm)
    then show ?thesis using 2(1,2) True logicOp_Inr by auto
  next
    case False
    then show ?thesis
      using 2(3) cmpName_Inr
      by (simp only: qlToIR.simps if_False bind_res_Inr_iff)
        (auto simp: bind_res_Inr_iff array_case_Inr split: if_split_asm)
  qed
qed (auto simp: bind_res_Inr_iff split: if_splits)

lemma pql_parts: "pql_logicOp = logicOp" "pql_cmpName = cmpName" "pql_identName = identName" "pql_litVal = litVal"
  by (intro ext, simp only: pql_logicOp_def logicOp_def pql_cmpName_def cmpName_def
      pql_identName_def identName_def pql_litVal_def litVal_def)+

lemma pql_same: "pql_toIR n = qlToIR n"
proof (induction n rule: qlToIR.induct)
  case (1 t args)
  show ?case
    unfolding pql_toIR.simps qlToIR.simps pql_parts
    by (intro bind_res_cong [OF refl] bind_res_cong [OF mapM_res_cong] refl) (use 1 in auto)
next
  case (2 t args)
  show ?case
  proof (cases "t \<in> {TokenLogicAnd, TokenAnd, TokenLogicOr, TokenOr}")
    case True
    have "pql_toIR (args ! 0) = qlToIR (args ! 0)" if "0 < length args" using 2(1) True that by simp
    moreover have "pql_toIR (args ! 1) = qlToIR (args ! 1)"
      if "1 < length args" "(if 0 < length args then qlToIR (args ! 0) else Inl IndexOutOfRange) = Inr y" for y
      using 2(2) [OF True that(2,1)] .
    ultimately show ?thesis
      unfolding pql_toIR.simps qlToIR.simps pql_parts using True
      by (simp only: if_True) (intro bind_res_cong refl; simp)
  next
    case False
    then show ?thesis unfolding pql_toIR.simps qlToIR.simps pql_parts by (simp only: if_False)
  qed
qed (simp_all only: pql_toIR.simps qlToIR.simps pql_parts)

text \<open>Trees in which binary nodes have two arguments.\<close>

fun binary_ok :: "ql_Node \<Rightarrow> bool" where
  "binary_ok (QBoolean t args) = list_all binary_ok args"
| "binary_ok (QBinary t args) = (length args = 2 \<and> list_all binary_ok args)"
| "binary_ok _ = True"

lemma ql_no_panic: "binary_ok n \<Longrightarrow> qlToIR n \<noteq> Inl IndexOutOfRange"
proof (induction n rule: qlToIR.induct)
  case (1 t args)
  have "mapM_res qlToIR args \<noteq> Inl IndexOutOfRange" if "logicOp t = Inr op" for op
    using mapM_res_Inl [of qlToIR args IndexOutOfRange] 1(1) [OF that] 1(2) by (auto simp: list_all_iff)
  then show ?case using litVal_err(3) by (auto simp: bind_res_Inl_iff)
next
  case (2 t args)
  have len: "0 < length args" "1 < length args" "args ! 0 \<in> set args" "args ! 1 \<in> set args" using 2(3) by auto
  show ?case
  proof (cases "t \<in> {TokenLogicAnd, TokenAnd, TokenLogicOr, TokenOr}")
    case True
    have "qlToIR (args ! 0) \<noteq> Inl IndexOutOfRange" using 2(1) [OF True len(1)] 2(3) len by (simp add: list_all_iff)
    moreover have "qlToIR (args ! 1) \<noteq> Inl IndexOutOfRange" if "qlToIR (args ! 0) = Inr y" for y
    proof (rule 2(2) [OF True _ len(2)])
      show "(if 0 < length args then qlToIR (args ! 0) else Inl IndexOutOfRange) = Inr y"
        using that len(1) by simp
      show "binary_ok (args ! 1)" using 2(3) len by (simp add: list_all_iff)
    qed
    ultimately show ?thesis
      unfolding qlToIR.simps using True len litVal_err(3) by (simp only: if_True) (auto intro!: bind_res_neq_Inl)
  next
    case False
    then show ?thesis
      unfolding qlToIR.simps using len litVal_err mapM_litVal_err
      by (simp only: if_False) (auto intro!: bind_res_neq_Inl simp: arg_at_def split: ql_Node.split)
  qed
qed (use litVal_err in \<open>auto intro!: bind_res_neq_Inl\<close>)

interpretation ql_fe: rule_frontend "QLBridgeFrontend ParseExpression" for ParseExpression
  using ql_ops by unfold_locales (auto simp: QLBridgeFrontend_def split: sum.splits)

section \<open>Properties\<close>

text \<open>The two implementations of the qlbridge front-end agree on every rule text, their trees only
  use operators the compiler knows (so that a compile error comes from an empty connective or a
  literal), and neither indexes beyond the arguments of a node when the library gives every binary
  node two arguments.\<close>

theorem QL_frontends_agree:
  assumes "\<And>n. ParseExpression s = Inr n \<Longrightarrow> binary_ok n"
  shows "parser_Parse (qlbridge_Parser ParseExpression) s = parser_Parse (QLBridgeFrontend ParseExpression) s \<and>
    parser_Parse (QLBridgeFrontend ParseExpression) s \<noteq> Inl IndexOutOfRange \<and>
    (case parser_Parse (QLBridgeFrontend ParseExpression) s of
       Inr t \<Rightarrow> ops_ok t \<and> ((\<exists>p. Compile t = Inr p) \<longleftrightarrow> literals_ok t) | Inl _ \<Rightarrow> True)"
  using assms ql_no_panic ql_fe.parse_ops ql_fe.compile_fails_iff [of ParseExpression s]
  by (auto simp: qlbridge_Parser_def pql_same QLBridgeFrontend_def split: sum.splits)

theorem QL_frontends_agree_witness:
  "\<exists>t. parser_Parse (qlbridge_Parser (\<lambda>_. Inr (QBinary TokenGT [QIdentity ''age'', QNumber ''18'']))) [] = Inr t \<and> ops_ok t"
proof -
  let ?P = "\<lambda>_ :: string. Inr (QBinary TokenGT [QIdentity ''age'', QNumber ''18'']) :: string + ql_Node"
  have "case parser_Parse (QLBridgeFrontend ?P) [] of Inr _ \<Rightarrow> True | Inl _ \<Rightarrow> False" by code_simp
  moreover have "binary_ok (QBinary TokenGT [QIdentity ''age'', QNumber ''18''])" by simp
  ultimately show ?thesis using QL_frontends_agree [of ?P "[]"] by (auto split: sum.splits)
qed

end
