(* ===== verification/DTable.thy ===== *)
theory DTable
  imports Frontend_JSON Engine
begin

text \<open>
  Decision tables, \<^verbatim>\<open>pkg/dtable/table.go\<close>: every row of a table becomes a rule whose text is the
  SQL rendering of the conjunction of its conditions. The rules are then loaded like any others,
  through the native parser; \<open>DTable_rules_parse\<close> shows for which tables the text is read back as
  the conjunction the row stands for, and \<open>DTable_negative\<close> that a negative number is not one the
  lexer reads. Decoding the file is the argument of \<open>DTable_Load\<close>.
\<close>

section \<open>Tables\<close>

record Cond =
  c_Field :: string
  c_Op :: string
  c_Value :: any
  c_Values :: "any list"

record Row =
  row_Enabled :: "bool option"
  row_Name :: string
  row_When :: "Cond list"
  row_Priority :: int

record Table =
  t_Name :: string
  t_Rows :: "Row list"
  t_IDBase :: int

datatype dtable_error =
    ReadFailed string
  | ParseFailed string
  | EmptyRow
  | BetweenNeeds2Values
  | LikeValueNotString
  | UnsupportedCondOp string
  | UnsupportedCondValue any
  | RowError nat string dtable_error

text \<open>\<open>file\<close> is what reading gave, \<open>decode\<close> is \<open>json.Unmarshal\<close> at the type \<open>Table\<close>.\<close>

definition DTable_Load :: "(string \<Rightarrow> string + Table) \<Rightarrow> string + string \<Rightarrow> dtable_error + Table" where
  "DTable_Load decode file =
    (case file of
       Inl err \<Rightarrow> Inl (ReadFailed err)
     | Inr raw \<Rightarrow> (case decode raw of Inl err \<Rightarrow> Inl (ParseFailed err) | Inr t \<Rightarrow> Inr t))"

definition toVal :: "any \<Rightarrow> dtable_error + Value" where
  "toVal v =
    (case v of
       AString x \<Rightarrow> Inr (StrValue x)
     | AFloat64 x \<Rightarrow> Inr (NumValue (FormatFloat x))
     | ABool x \<Rightarrow> Inr (StrValue (FormatBool x))
     | AJsonNumber x \<Rightarrow> Inr (NumValue x)
     | _ \<Rightarrow> Inl (UnsupportedCondValue v))"

definition Cond_toIR :: "Cond \<Rightarrow> dtable_error + Node" where
  "Cond_toIR c =
    (if c_Op c \<in> {''='', ''=='', ''!='', ''>'', ''>='', ''<'', ''<=''} then
       bind_res (toVal (c_Value c)) (\<lambda>v.
         Inr (Compare (c_Field c) (if c_Op c = ''=='' then ''='' else c_Op c) v))
     else if c_Op c = ''between'' then
       (if length (c_Values c) \<noteq> 2 then Inl BetweenNeeds2Values
        else bind_res (toVal (c_Values c ! 0)) (\<lambda>lo.
          bind_res (toVal (c_Values c ! 1)) (\<lambda>hi. Inr (Between (c_Field c) lo hi))))
     else if c_Op c = ''in'' then
       bind_res (mapM_res toVal (c_Values c)) (\<lambda>vals. Inr (In (c_Field c) vals False))
     else if c_Op c = ''like'' then
       (case c_Value c of AString s \<Rightarrow> Inr (Like (c_Field c) s False) | _ \<Rightarrow> Inl LikeValueNotString)
     else if c_Op c = ''isnull'' then Inr (IsNull (c_Field c) False)
     else if c_Op c = ''isnotnull'' then Inr (IsNull (c_Field c) True)
     else Inl (UnsupportedCondOp (c_Op c)))"

definition Row_toIR :: "Row \<Rightarrow> dtable_error + Node" where
  "Row_toIR r =
    (if row_When r = [] then Inl EmptyRow
     else bind_res (mapM_res Cond_toIR (row_When r)) (\<lambda>args.
       Inr (if length args = 1 then args ! 0 else Logic ''AND'' args)))"

text \<open>The loop over the rows; \<open>i\<close> is the index of the next one.\<close>

fun rules_from :: "int \<Rightarrow> nat \<Rightarrow> Row list \<Rightarrow> dtable_error + Rule list" where
  "rules_from base i [] = Inr []"
| "rules_from base i (row # rows) =
    (case Row_toIR row of
       Inl err \<Rightarrow> Inl (RowError i (row_Name row) err)
     | Inr node \<Rightarrow>
         bind_res (rules_from base (Suc i) rows) (\<lambda>rest.
           Inr (\<lparr>rName = row_Name row, rExpr = Emit node SQL, rID = wrap64 (base + int i),
              rPriority = row_Priority row, rVersion = 0,
              rEnabled = (row_Enabled row = None \<or> row_Enabled row = Some True)\<rparr> # rest)))"

definition Table_Rules :: "Table \<Rightarrow> dtable_error + Rule list" where
  "Table_Rules t = rules_from (t_IDBase t) 0 (t_Rows t)"

section \<open>The tables whose text is read back\<close>

text \<open>
  A field is an identifier, a string is UTF-8 text without quotes and backslashes, a number is
  finite and has no minus sign, and an IN list is not empty.
\<close>

fun cell_ok :: "any \<Rightarrow> bool" where
  "cell_ok (AString s) = (utf8 s \<and> plain s)"
| "cell_ok (AFloat64 (Fin s m e)) = (finite64 (Fin s m e) \<and> \<not> s)"
| "cell_ok (ABool b) = True"
| "cell_ok _ = False"

definition cond_ok :: "Cond \<Rightarrow> bool" where
  "cond_ok c \<longleftrightarrow> lex_ident (c_Field c) \<and>
    (if c_Op c \<in> {''='', ''=='', ''!='', ''>'', ''>='', ''<'', ''<='', ''like''} then cell_ok (c_Value c)
     else if c_Op c \<in> {''between'', ''in''} then c_Values c \<noteq> [] \<and> list_all cell_ok (c_Values c)
     else True)"

definition row_ok :: "Row \<Rightarrow> bool" where
  "row_ok r = list_all cond_ok (row_When r)"

text \<open>The meaning of a condition, from the cells themselves.\<close>

definition cond_holds :: "Cond \<Rightarrow> row \<Rightarrow> bool" where
  "cond_holds c r = leaf_holds (c_Op c) (c_Value c) (c_Values c) (field_val r (c_Field c))"

lemma digits_runes:
  assumes "list_all is_dec ds" "ds \<noteq> []" "list_all is_dec fs" "t = ds \<and> fs = [] \<or> t = ds @ ''.'' @ fs"
  shows "lex_number t"
proof -
  have dec: "IsDigit (of_char c) \<and> \<not> IsSpace (of_char c) \<and> (of_char c :: int) < 128" if "is_dec c" for c
    using that by (auto simp: is_dec_def IsDigit_def IsSpace_def)
  have chars: "is_dec c \<or> c = CHR ''.''" if "c \<in> set t" for c
    using assms that by (auto simp: list_all_iff)
  have asc: "ascii t" using chars dec by (force simp: ascii_def list_all_iff)
  have hd: "t \<noteq> []" "is_dec (hd t)" using assms by (auto simp: list_all_iff hd_append)
  have "IsDigit (of_char c) \<or> of_char c = (46::int)" if "c \<in> set t" for c
    using chars [OF that] dec by auto
  then show ?thesis
    using hd dec [OF hd(2)] unfolding lex_number_def Let_def runes_of_ascii [OF asc]
    by (simp add: ascii_utf8 [OF asc] list_all_iff hd_map)
qed

lemma cell_value:
  assumes "toVal v = Inr w" "cell_ok v"
  shows "lexed_value w \<and> plain_value w \<and> lit_val w = json_lit v \<and> valStr w = json_text v \<and>
    (IsString w \<or> num_ok w) \<and> (num_ok w \<longleftrightarrow> (case v of AFloat64 _ \<Rightarrow> True | _ \<Rightarrow> False))"
proof -
  have j: "jsonVal v = Inr w" using assms(1) by (cases v) (auto simp: toVal_def jsonVal_def)
  have "json_number_ok v" using assms(2) by (cases v rule: cell_ok.cases) auto
  note lit = jsonVal_lit [OF j this]
  have "lexed_value w \<and> plain_value w"
  proof (cases v rule: cell_ok.cases)
    case (2 s m e)
    then have fin: "finite64 (Fin False m e)" "w = NumValue (FormatFloat (Fin False m e))"
      using assms by (auto simp: toVal_def)
    have "lex_number (FormatFloat (Fin False m e))"
    proof (rule FormatFloat_shape [OF fin(1)])
      fix ds fs t
      assume t: "FormatFloat (Fin False m e) = (if False then ''-'' else []) @ t" and "ds \<noteq> []"
        "list_all is_dec ds" "list_all is_dec fs" "t = ds \<and> fs = [] \<or> t = ds @ ''.'' @ fs"
      then have "lex_number t" by (intro digits_runes)
      then show ?thesis unfolding t by (simp only: if_False append_Nil)
    qed
    then show ?thesis using fin(2) by (simp add: lexed_value_def plain_value_def)
  next
    case (3 b)
    have "ascii (FormatBool b) \<and> plain (FormatBool b)" by (cases b) (auto simp: ascii_def plain_def FormatBool_def)
    then show ?thesis using 3 assms(1) ascii_utf8 by (auto simp: toVal_def lexed_value_def plain_value_def)
  qed (use assms in \<open>auto simp: toVal_def lexed_value_def plain_value_def\<close>)
  with lit show ?thesis by blast
qed

lemma Cond_cases:
  assumes "Cond_toIR c = Inr t"
  obtains (cmp) w where "c_Op c \<in> {''='', ''=='', ''!='', ''>'', ''>='', ''<'', ''<=''}" "toVal (c_Value c) = Inr w"
      "t = Compare (c_Field c) (if c_Op c = ''=='' then ''='' else c_Op c) w"
    | (btw) a b lo hi where "c_Op c = ''between''" "c_Values c = [a, b]" "toVal a = Inr lo" "toVal b = Inr hi"
        "t = Between (c_Field c) lo hi"
    | (mem) ws where "c_Op c = ''in''" "mapM_res toVal (c_Values c) = Inr ws" "t = In (c_Field c) ws False"
    | (like) s where "c_Op c = ''like''" "c_Value c = AString s" "t = Like (c_Field c) s False"
    | (null) "c_Op c = ''isnull''" "t = IsNull (c_Field c) False"
    | (notnull) "c_Op c = ''isnotnull''" "t = IsNull (c_Field c) True"
proof -
  define C where "C = {''='', ''=='', ''!='', ''>'', ''>='', ''<'', ''<=''}"
  note e = assms [unfolded Cond_toIR_def, folded C_def]
  consider "c_Op c \<in> C" | "c_Op c \<notin> C" "c_Op c = ''between''" | "c_Op c \<notin> C" "c_Op c \<noteq> ''between''" by blast
  then show thesis
  proof cases
    case 1
    then show ?thesis using e cmp unfolding C_def by (auto simp only: if_True bind_res_Inr_iff sum.inject)
  next
    case 2
    with e have "length (c_Values c) = 2" by (metis sum.distinct(1))
    then obtain a b where vs: "c_Values c = [a, b]" by (auto simp: length_Suc_conv numeral_2_eq_2)
    with e 2 btw show ?thesis by (auto simp: bind_res_Inr_iff)
  next
    case 3
    with e have e': "(if c_Op c = ''in'' then bind_res (mapM_res toVal (c_Values c)) (\<lambda>vals. Inr (In (c_Field c) vals False))
       else if c_Op c = ''like'' then
         (case c_Value c of AString s \<Rightarrow> Inr (Like (c_Field c) s False) | _ \<Rightarrow> Inl LikeValueNotString)
       else if c_Op c = ''isnull'' then Inr (IsNull (c_Field c) False)
       else if c_Op c = ''isnotnull'' then Inr (IsNull (c_Field c) True)
       else Inl (UnsupportedCondOp (c_Op c))) = Inr t" by (simp only: if_False)
    then show ?thesis using mem like null notnull
      by (cases "c_Value c") (auto simp: bind_res_Inr_iff split: if_split_asm)
  qed
qed

lemma cond_value_ok:
  assumes "cond_ok c"
  shows "c_Op c \<in> {''='', ''=='', ''!='', ''>'', ''>='', ''<'', ''<=''} \<Longrightarrow> cell_ok (c_Value c)"
    and "c_Op c = ''like'' \<Longrightarrow> cell_ok (c_Value c)"
    and "c_Op c = ''between'' \<or> c_Op c = ''in'' \<Longrightarrow> c_Values c \<noteq> [] \<and> list_all cell_ok (c_Values c)"
    and "lex_ident (c_Field c)"
  using assms by (auto simp: cond_ok_def split: if_splits)

lemma cond_meaning:
  assumes "Cond_toIR c = Inr t" "cond_ok c"
  shows "sql_safe t \<and> (\<forall>r. denote t r = cond_holds c r) \<and> leaves t = 1 \<and> stack_need t \<le> 3"
  using assms(1)
proof (cases rule: Cond_cases)
  case (cmp w)
  note v = cell_value [OF cmp(2) cond_value_ok(1) [OF assms(2) cmp(1)]]
  have "c_Op c \<in> {''='', ''=='', ''!='', ''<>'', ''>'', ''>='', ''<'', ''<=''}" "c_Op c \<noteq> ''<>''" using cmp(1) by auto
  then have "cond_holds c r = cmp_holds (if c_Op c = ''=='' then ''='' else c_Op c) (field_val r (c_Field c)) (lit_val w)" for r
    using v leaf_holds_cmp by (simp add: cond_holds_def)
  moreover have "List.member cmp_ops (if c_Op c = ''=='' then ''='' else c_Op c)" using cmp(1) by (auto simp: cmp_ops_def)
  ultimately show ?thesis
    unfolding cmp(3) sql_safe_def lexed_node.simps plain_node.simps denote.simps
    using v cond_value_ok(4) [OF assms(2)] by simp
next
  case (btw a b lo hi)
  have "cell_ok a" "cell_ok b" using cond_value_ok(3) [OF assms(2)] btw(1,2) by auto
  with cell_value [OF btw(3)] cell_value [OF btw(4)] show ?thesis
    using btw(1,2,5) cond_value_ok(4) [OF assms(2)] by (simp add: sql_safe_def cond_holds_def leaf_holds_def)
next
  case (mem ws)
  have cells: "c_Values c \<noteq> []" "\<And>x. x \<in> set (c_Values c) \<Longrightarrow> cell_ok x"
    using cond_value_ok(3) [OF assms(2)] mem(1) by (auto simp: list_all_iff)
  have "list_all (\<lambda>w. lexed_value w \<and> plain_value w) ws \<and> ws \<noteq> []"
    by (rule mapM_res_all [OF mem(2) cells(1)]) (use cells(2) cell_value in blast)
  moreover have "map valStr ws = map json_text (c_Values c)"
    using mem(2) cells(2) unfolding mapM_res_Inr_iff
    by (induction rule: list_all2_induct) (auto dest: cell_value)
  then have "valStr ` set ws = json_text ` set (c_Values c)" by (metis set_map)
  ultimately show ?thesis
    using mem(1,3) cond_value_ok(4) [OF assms(2)]
    by (auto simp: sql_safe_def cond_holds_def leaf_holds_def list_all_iff)
next
  case (like s)
  have "cell_ok (AString s)" using cond_value_ok(2) [OF assms(2)] like(1,2) by simp
  then show ?thesis
    using like cond_value_ok(4) [OF assms(2)] by (simp add: sql_safe_def cond_holds_def leaf_holds_def json_text_def)
qed (use cond_value_ok(4) [OF assms(2)] in \<open>simp_all add: sql_safe_def cond_holds_def leaf_holds_def\<close>)

section \<open>Rows and tables\<close>

definition bounds_num :: "Cond \<Rightarrow> bool" where
  "bounds_num c \<longleftrightarrow> (c_Op c = ''between'' \<longrightarrow> list_all (\<lambda>x. case x of AFloat64 _ \<Rightarrow> True | _ \<Rightarrow> False) (c_Values c))"

lemma cond_compilable:
  assumes "Cond_toIR c = Inr t" "cond_ok c" "bounds_num c"
  shows "compilable t"
  using assms(1)
proof (cases rule: Cond_cases)
  case (cmp w)
  note v = cell_value [OF cmp(2) cond_value_ok(1) [OF assms(2) cmp(1)]]
  have "List.member cmp_ops (if c_Op c = ''=='' then ''='' else c_Op c)" using cmp(1) by (auto simp: cmp_ops_def)
  then show ?thesis unfolding cmp(3) compilable.simps using v by blast
next
  case (btw a b lo hi)
  have "cell_ok a" "cell_ok b" using cond_value_ok(3) [OF assms(2)] btw(1,2) by auto
  then show ?thesis
    using cell_value [OF btw(3)] cell_value [OF btw(4)] assms(3) btw(1,2,5) by (simp add: bounds_num_def)
qed simp_all

lemma Row_cases:
  assumes "Row_toIR r = Inr n"
  obtains (one) c where "row_When r = [c]" "Cond_toIR c = Inr n"
    | (many) args where "2 \<le> length args" "mapM_res Cond_toIR (row_When r) = Inr args" "n = Logic ''AND'' args"
proof -
  obtain args where args: "row_When r \<noteq> []" "mapM_res Cond_toIR (row_When r) = Inr args"
      "n = (if length args = 1 then args ! 0 else Logic ''AND'' args)"
    using assms by (auto simp: Row_toIR_def bind_res_Inr_iff split: if_split_asm)
  have len: "length args = length (row_When r)" using mapM_res_Inr_length [OF args(2)] .
  show thesis
  proof (cases "length args = 1")
    case True
    then obtain c where c: "row_When r = [c]" using len by (auto simp: length_Suc_conv)
    then show ?thesis using args True one by (auto simp: bind_res_Inr_iff)
  next
    case False
    moreover have "args \<noteq> []" using len args(1) by auto
    ultimately have "2 \<le> length args" by (cases args rule: remdups_adj.cases) auto
    then show ?thesis using many args False by simp
  qed
qed

lemma row_meaning:
  assumes "Row_toIR row = Inr n" "row_ok row"
  shows "sql_safe n \<and> (\<forall>r. denote n r = list_all (\<lambda>c. cond_holds c r) (row_When row)) \<and> stack_need n \<le> 4"
    and "list_all bounds_num (row_When row) \<Longrightarrow> compilable n"
proof -
  have "(sql_safe n \<and> (\<forall>r. denote n r = list_all (\<lambda>c. cond_holds c r) (row_When row)) \<and> stack_need n \<le> 4) \<and>
      (list_all bounds_num (row_When row) \<longrightarrow> compilable n)"
    using assms(1)
  proof (cases rule: Row_cases)
    case (one c)
    then show ?thesis
      using cond_meaning [OF one(2)] cond_compilable [OF one(2)] assms(2) by (simp add: row_ok_def)
  next
    case (many args)
    have ok: "cond_ok c" if "c \<in> set (row_When row)" for c using assms(2) that by (simp add: row_ok_def list_all_iff)
    have ne: "row_When row \<noteq> []" using many(1) mapM_res_Inr_length [OF many(2)] by auto
    have parts: "list_all (\<lambda>t. sql_safe t \<and> stack_need t \<le> 3) args \<and> args \<noteq> []"
      by (rule mapM_res_all [OF many(2) ne]) (use cond_meaning ok in blast)
    have den: "list_all (\<lambda>t. denote t r) args = list_all (\<lambda>c. cond_holds c r) (row_When row)" for r
      using mapM_res_pred [OF many(2), of "\<lambda>t. denote t r" "\<lambda>c. cond_holds c r"] cond_meaning ok by blast
    have "stack_need n \<le> 4"
    proof -
      obtain a as where a: "args = a # as" using parts by (cases args) auto
      have "fold max (map Suc (map stack_need as)) (stack_need a) \<le> 4"
        unfolding fold_max_le using parts a by (auto simp: list_all_iff)
      then show ?thesis using many(3) a by simp
    qed
    moreover have "sql_safe n" using parts many(1,3) by (auto simp: sql_safe_def list_all_iff)
    moreover have "compilable n" if b: "list_all bounds_num (row_When row)"
    proof -
      have "list_all compilable args \<and> args \<noteq> []"
        by (rule mapM_res_all [OF many(2) ne]) (use cond_compilable ok b in \<open>auto simp: list_all_iff\<close>)
      then show ?thesis using many(3) by simp
    qed
    ultimately show ?thesis using den many(3) by simp
  qed
  then show "sql_safe n \<and> (\<forall>r. denote n r = list_all (\<lambda>c. cond_holds c r) (row_When row)) \<and> stack_need n \<le> 4"
    "list_all bounds_num (row_When row) \<Longrightarrow> compilable n" by blast+
qed

lemma rules_from_nth:
  "rules_from base i rows = Inr rules \<Longrightarrow> length rules = length rows \<and>
    (\<forall>k < length rows. \<exists>n. Row_toIR (rows ! k) = Inr n \<and> rules ! k =
      \<lparr>rName = row_Name (rows ! k), rExpr = Emit n SQL, rID = wrap64 (base + int (i + k)),
       rPriority = row_Priority (rows ! k), rVersion = 0,
       rEnabled = (row_Enabled (rows ! k) = None \<or> row_Enabled (rows ! k) = Some True)\<rparr>)"
proof (induction rows arbitrary: i rules)
  case (Cons row rows)
  obtain n rest where n: "Row_toIR row = Inr n" "rules_from base (Suc i) rows = Inr rest"
    and rules: "rules = \<lparr>rName = row_Name row, rExpr = Emit n SQL, rID = wrap64 (base + int i),
       rPriority = row_Priority row, rVersion = 0,
       rEnabled = (row_Enabled row = None \<or> row_Enabled row = Some True)\<rparr> # rest"
    using Cons.prems by (auto simp: bind_res_Inr_iff split: sum.splits)
  from Cons.IH [OF n(2)] n(1) show ?case
    unfolding rules by (auto simp: nth_Cons' less_Suc_eq_0_disj algebra_simps)
qed simp

lemma Cond_leaves: "Cond_toIR c = Inr n \<Longrightarrow> leaves n = 1"
  by (auto simp: Cond_toIR_def bind_res_Inr_iff split: if_splits any.splits)

lemma row_leaves: "Row_toIR row = Inr n \<Longrightarrow> leaves n = length (row_When row)"
proof -
  have sum: "mapM_res Cond_toIR cs = Inr ns \<Longrightarrow> sum_list (map leaves ns) = length cs \<and> length ns = length cs" for cs ns
    by (induction cs arbitrary: ns) (auto simp: bind_res_Inr_iff Cond_leaves)
  assume row: "Row_toIR row = Inr n"
  then show ?thesis
  proof (cases rule: Row_cases)
    case (one c)
    then show ?thesis by (simp add: Cond_leaves)
  next
    case (many args)
    then show ?thesis using sum [of "row_When row" args] by simp
  qed
qed

section \<open>Properties\<close>

text \<open>C17: The rules of a decision table say what its rows say. Take a table for which \<open>Rules\<close> reports
  no error, whose fields are identifiers, whose strings are UTF-8 text without quotes and
  backslashes, whose numbers are finite and carry no minus sign and whose IN lists are not empty
  (\<open>row_ok\<close>). There is one rule for each row, in their order, with the row's name and priority, the
  id counted up from the base (wrapping at 64 bits), version 0, and enabled unless the row says no.
  Every rule text is accepted by the native parser and true of a row of data exactly when every
  condition of its table row holds; the bytecode backend compiles it when the BETWEEN bounds are
  numbers, and what it compiles (rows of at most 500 million conditions) evaluates to that truth
  value without panicking.\<close>

theorem DTable_rules_parse:
  assumes "Table_Rules t = Inr rules" "list_all row_ok (t_Rows t)" "k < length (t_Rows t)"
  defines "row \<equiv> t_Rows t ! k" and "rule \<equiv> rules ! k"
    and "be \<equiv> BytecodeBackend native_Parser :: native_backend"
  shows "length rules = length (t_Rows t) \<and>
    rule = \<lparr>rName = row_Name row, rExpr = rExpr rule, rID = wrap64 (t_IDBase t + int k),
      rPriority = row_Priority row, rVersion = 0, rEnabled = (row_Enabled row \<noteq> Some False)\<rparr> \<and>
    (\<exists>n. Parse (rExpr rule) = Inr n) \<and>
    text_holds (rExpr rule) r = list_all (\<lambda>c. cond_holds c r) (row_When row) \<and>
    (list_all bounds_num (row_When row) \<longrightarrow> (\<exists>p. be_Compile be (rExpr rule) = Inr p)) \<and>
    (\<forall>p. be_Compile be (rExpr rule) = Inr p \<and> int (length (row_When row)) \<le> 500000000 \<longrightarrow>
      be_Eval be (be_NewContext be r) p = Some (list_all (\<lambda>c. cond_holds c r) (row_When row)))"
proof -
  have rf: "rules_from (t_IDBase t) 0 (t_Rows t) = Inr rules" using assms(1) by (simp add: Table_Rules_def)
  obtain n where n: "Row_toIR row = Inr n" "rExpr rule = Emit n SQL"
    and rule: "rule = \<lparr>rName = row_Name row, rExpr = Emit n SQL, rID = wrap64 (t_IDBase t + int k),
      rPriority = row_Priority row, rVersion = 0, rEnabled = (row_Enabled row \<noteq> Some False)\<rparr>"
    using rules_from_nth [OF rf] assms(3) unfolding rule_def row_def
    by (cases "row_Enabled (t_Rows t ! k)") fastforce+
  have ok: "row_ok row" using assms(2,3) by (simp add: list_all_length row_def)
  note m = row_meaning [OF n(1) ok]
  have p: "Parse (rExpr rule) = Inr n" using Parse_emitSQL_safe m(1) n(2) by (simp add: Emit_def)
  then have np: "parser_Parse native_Parser (rExpr rule) = Inr n" by (simp add: native_Parser_def)
  have apart: "keys_apart n" using m(1) sql_safe_keys_apart by blast
  have "wf_node n" using Parse_lexed [OF p] by (rule lexed_node_wf)
  note exact = backend_exact [OF be_def [THEN meta_eq_to_obj_eq] np apart wf_has_operands [OF this]]
  have "stack_need (Optimize n) \<le> stackMax" using Optimize_stack [of n 4] m(1) by (simp add: stackMax_def)
  moreover have "bytecode_ok n" if "int (length (row_When row)) \<le> 500000000"
    using row_leaves [OF n(1)] that by (simp add: bytecode_ok_def)
  ultimately show ?thesis
    using exact m p rules_from_nth [OF rf] rule by simp
qed

definition demo_table :: Table where
  "demo_table = \<lparr>t_Name = ''tiers'', t_Rows =
    [\<lparr>row_Enabled = None, row_Name = ''gold'', row_When =
       [\<lparr>c_Field = ''level'', c_Op = ''between'', c_Value = ANil,
          c_Values = [AFloat64 (float64_of_int 3), AFloat64 (float64_of_int 5)]\<rparr>,
        \<lparr>c_Field = ''city'', c_Op = ''in'', c_Value = ANil, c_Values = [AString ''Rome'', AString ''Oslo'']\<rparr>],
       row_Priority = 1\<rparr>], t_IDBase = 100\<rparr>"

theorem DTable_rules_parse_witness:
  "\<exists>rules. Table_Rules demo_table = Inr rules \<and> rID (rules ! 0) = 100 \<and> rName (rules ! 0) = ''gold'' \<and>
    text_holds (rExpr (rules ! 0)) [''level'' \<mapsto> AInt 4, ''city'' \<mapsto> AString ''Oslo'']"
proof -
  let ?r = "[''level'' \<mapsto> AInt 4, ''city'' \<mapsto> AString ''Oslo'']"
  have "case Table_Rules demo_table of Inr _ \<Rightarrow> True | Inl _ \<Rightarrow> False" by code_simp
  then obtain rules where rules: "Table_Rules demo_table = Inr rules" by (auto split: sum.splits)
  have ok: "list_all row_ok (t_Rows demo_table)" "0 < length (t_Rows demo_table)"
    and c: "list_all (\<lambda>c. cond_holds c ?r) (row_When (t_Rows demo_table ! 0))"
      "wrap64 (t_IDBase demo_table + int 0) = 100" "row_Name (t_Rows demo_table ! 0) = ''gold''"
    by code_simp+
  note d = DTable_rules_parse [OF rules ok, of ?r]
  then have "text_holds (rExpr (rules ! 0)) ?r" using c(1) by blast
  moreover have "rID (rules ! 0) = 100" "rName (rules ! 0) = ''gold''"
    using d c(2,3) by (metis Rule.select_convs)+
  ultimately show ?thesis using rules by blast
qed

definition bad_cond :: "string \<Rightarrow> any \<Rightarrow> Table" where
  "bad_cond f v = \<lparr>t_Name = '''', t_Rows = [\<lparr>row_Enabled = None, row_Name = '''',
    row_When = [\<lparr>c_Field = f, c_Op = ''='', c_Value = v, c_Values = []\<rparr>], row_Priority = 0\<rparr>], t_IDBase = 1\<rparr>"

text \<open>The restrictions are needed. A condition with a negative number and one with a quote in its
  text are turned into rule texts that the native parser rejects, although \<open>Rules\<close> reports no error:
  the rules are dropped when they are loaded.\<close>

theorem DTable_negative:
  "(case Table_Rules (bad_cond ''balance'' (AFloat64 (float64_of_int (-5)))) of
      Inl _ \<Rightarrow> False
    | Inr rules \<Rightarrow> map rExpr rules = [''balance = -5''] \<and> map rEnabled rules = [True] \<and>
        (case Parse ''balance = -5'' of Inl _ \<Rightarrow> True | Inr _ \<Rightarrow> False) \<and>
        fst (Engine_LoadRules (NewWithBackend (BytecodeBackend native_Parser :: native_backend)) rules) = (0, 1)) \<and>
   (case Table_Rules (bad_cond ''name'' (AString [CHR ''O'', CHR 0x27, CHR ''B''])) of
      Inl _ \<Rightarrow> False
    | Inr rules \<Rightarrow>
        fst (Engine_LoadRules (NewWithBackend (BytecodeBackend native_Parser :: native_backend)) rules) = (0, 1))"
  by code_simp

end
