(* ===== verification/Go_Strings.thy ===== *)
theory Go_Strings
  imports Go_Prelude Go_Unicode
begin

text \<open>
  The functions of package \<^verbatim>\<open>strings\<close> that look at runes: trimming white space and changing case; and splitting
  at a byte.
\<close>

definition TrimSpace :: "string \<Rightarrow> string" where
  "TrimSpace s = (let rs = runes_of s;
      spaces = (\<lambda>l. length (concat (map encode_rune (takeWhile IsSpace l))));
      t = drop (spaces rs) s
    in take (length t - spaces (rev rs)) t)"

text \<open>\<open>strings.ToUpper\<close>, as far as a comparison with an ASCII text can tell: besides the letters
  a to z only the dotless i and the long s have an ASCII upper case.\<close>

definition upper_rune :: "rune \<Rightarrow> rune" where
  "upper_rune r =
    (if 97 \<le> r \<and> r \<le> 122 then r - 32 else if r = 0x131 then 0x49 else if r = 0x17F then 0x53 else r)"

definition ToUpper :: "string \<Rightarrow> string" where
  "ToUpper s = string_of_runes (map upper_rune (runes_of s))"

text \<open>\<open>strings.ToLower\<close>; \<open>ulow\<close> is \<open>unicode.ToLower\<close> on the runes above ASCII.\<close>

definition lower_rune :: "(rune \<Rightarrow> rune) \<Rightarrow> rune \<Rightarrow> rune" where
  "lower_rune ulow r = (if r < 128 then if 65 \<le> r \<and> r \<le> 90 then r + 32 else r else ulow r)"

definition ToLower :: "(rune \<Rightarrow> rune) \<Rightarrow> string \<Rightarrow> string" where
  "ToLower ulow s = string_of_runes (map (lower_rune ulow) (runes_of s))"

text \<open>\<open>strings.Split\<close> at one byte.\<close>

fun Split :: "string \<Rightarrow> char \<Rightarrow> string list" where
  "Split [] sep = [[]]"
| "Split (c # s) sep = (if c = sep then [] # Split s sep
     else case Split s sep of [] \<Rightarrow> [[c]] | p # ps \<Rightarrow> (c # p) # ps)"

lemma Split_nonempty [simp]: "Split s sep \<noteq> []"
  by (cases s) (simp_all split: list.split)

lemma Split_append: "Split (a @ sep # b) sep = Split a sep @ Split b sep"
  by (induction a) (auto split: list.split)

lemma Split_snoc: "c \<noteq> sep \<Longrightarrow> Split (a @ [c]) sep = butlast (Split a sep) @ [last (Split a sep) @ [c]]"
proof (induction a)
  case (Cons x a)
  then show ?case by (cases "Split a sep") (auto simp: neq_Nil_conv)
qed simp

end
