(* ===== verification/Middleware.thy ===== *)
theory Middleware
  imports Go_Strings Go_Value
begin

text \<open>
  The middleware that observes requests, \<^verbatim>\<open>internal/middleware/logger.go\<close> and \<^verbatim>\<open>metrics.go\<close>: the
  client's address, trace identifiers and the behaviour log, and the Prometheus counters. A request
  is its method, paths and headers (\<open>Get\<close> gives the empty text for an absent header); what the rest of
  the chain does with it is an argument. \<open>ParseAddr\<close> of package \<^verbatim>\<open>netip\<close> is an argument too; the
  classification of the parsed address is spelled out.
\<close>

section \<open>Addresses\<close>

text \<open>Four bytes, or sixteen bytes with a zone.\<close>

datatype Addr = V4 "8 word list" | V6 "8 word list" string

definition Is4In6 :: "8 word list \<Rightarrow> bool" where
  "Is4In6 bs \<longleftrightarrow> take 10 bs = replicate 10 0 \<and> take 2 (drop 10 bs) = [0xFF, 0xFF]"

definition Unmap :: "Addr \<Rightarrow> Addr" where
  "Unmap ip = (case ip of V6 bs zone \<Rightarrow> if Is4In6 bs then V4 (drop 12 bs) else ip | V4 bs \<Rightarrow> ip)"

definition IsLoopback :: "Addr \<Rightarrow> bool" where
  "IsLoopback ip = (case Unmap ip of V4 bs \<Rightarrow> bs ! 0 = 127 | V6 bs zone \<Rightarrow> bs = replicate 15 0 @ [1])"

definition IsMulticast :: "Addr \<Rightarrow> bool" where
  "IsMulticast ip = (case Unmap ip of V4 bs \<Rightarrow> unat (bs ! 0) div 16 = 14 | V6 bs zone \<Rightarrow> bs ! 0 = 0xFF)"

definition IsLinkLocalUnicast :: "Addr \<Rightarrow> bool" where
  "IsLinkLocalUnicast ip = (case Unmap ip of
     V4 bs \<Rightarrow> bs ! 0 = 169 \<and> bs ! 1 = 254
   | V6 bs zone \<Rightarrow> bs ! 0 = 0xFE \<and> unat (bs ! 1) div 64 = 2)"

definition IsPrivate :: "Addr \<Rightarrow> bool" where
  "IsPrivate ip = (case Unmap ip of
     V4 bs \<Rightarrow> bs ! 0 = 10 \<or> bs ! 0 = 172 \<and> unat (bs ! 1) div 16 = 1 \<or> bs ! 0 = 192 \<and> bs ! 1 = 168
   | V6 bs zone \<Rightarrow> unat (bs ! 0) div 2 = 0x7E)"

definition IsGlobalUnicast :: "Addr \<Rightarrow> bool" where
  "IsGlobalUnicast ip = (let ip = Unmap ip in
     ip \<noteq> V4 [0, 0, 0, 0] \<and> ip \<noteq> V4 [255, 255, 255, 255] \<and> ip \<noteq> V6 (replicate 16 0) [] \<and>
     \<not> IsLoopback ip \<and> \<not> IsMulticast ip \<and> \<not> IsLinkLocalUnicast ip)"

definition isPublicIP :: "(string \<Rightarrow> Addr option) \<Rightarrow> string \<Rightarrow> bool" where
  "isPublicIP ParseAddr ip = (case ParseAddr ip of
     None \<Rightarrow> False | Some addr \<Rightarrow> IsGlobalUnicast addr \<and> \<not> IsPrivate addr)"

section \<open>Requests\<close>

record request =
  rq_method :: string
  rq_path :: string
  rq_url :: string
  rq_header :: "string \<Rightarrow> string"
  rq_body :: string
  rq_ip :: string
  rq_span :: "(string \<times> string) option"

definition getClientIP :: "(string \<Rightarrow> Addr option) \<Rightarrow> request \<Rightarrow> string" where
  "getClientIP ParseAddr c = (let customerIP = TrimSpace (rq_header c ''CustomerIP'') in
     if customerIP \<noteq> [] then customerIP else
     let xff = TrimSpace (rq_header c ''X-Forwarded-For'');
         found = (if xff \<noteq> [] then List.find (isPublicIP ParseAddr) (map TrimSpace (rev (Split xff CHR '',''))) else None)
     in case found of Some ip \<Rightarrow> ip | None \<Rightarrow>
       let xrip = TrimSpace (rq_header c ''X-Real-IP'') in
       if xrip \<noteq> [] \<and> isPublicIP ParseAddr xrip then xrip else rq_ip c)"

text \<open>The first header that is set.\<close>

definition first_set :: "request \<Rightarrow> string list \<Rightarrow> string" where
  "first_set c names = (case List.find (\<lambda>h. rq_header c h \<noteq> []) names of None \<Rightarrow> [] | Some h \<Rightarrow> rq_header c h)"

definition extractTraceIDs :: "request \<Rightarrow> string \<times> string" where
  "extractTraceIDs c = (case rq_span c of
     Some ids \<Rightarrow> ids
   | None \<Rightarrow> (let traceID = first_set c [''X-App-Trace-ID'', ''X-Trace-Id'', ''uber-trace-id'', ''traceparent''];
                 spanID = rq_header c ''X-Span-Id''
       in (if traceID = [] then ''unknown'' else traceID, if spanID = [] then ''unknown'' else spanID)))"

section \<open>The behaviour log\<close>

definition skipPrefixes :: "string list" where
  "skipPrefixes = [''/test/'', ''/metrics'', ''/swagger'', ''/favicon.ico'', ''/health'', ''/livez'', ''/readyz'', ''/ping'', ''/monitor'']"

datatype level = Info | Warn | Error

record response =
  rs_status :: int
  rs_body :: string
  rs_header :: "string \<rightharpoonup> string"

definition level_of :: "int \<Rightarrow> level" where
  "level_of statusCode = (if statusCode \<ge> 500 then Error else if statusCode \<ge> 400 then Warn else Info)"

definition behaviour_line :: "(string \<Rightarrow> Addr option) \<Rightarrow> request \<Rightarrow> int \<Rightarrow> int \<Rightarrow> string" where
  "behaviour_line ParseAddr c statusCode elapsedMs = (case extractTraceIDs c of (traceID, spanID) \<Rightarrow>
     ''['' @ traceID @ ''/'' @ spanID @ ''] [API-REQUEST] URI: '' @ rq_path c @ '', Method: '' @ rq_method c
     @ '', Status: '' @ Itoa statusCode @ '', Addr: '' @ getClientIP ParseAddr c @ '', Elapsed: '' @ Itoa elapsedMs @ ''ms'')"

text \<open>What is written: the line of the arriving request, the line of the response and the behaviour line.\<close>

datatype log_entry =
    StartLine string string "string option" string
  | EndLine level string string int int string string
  | BehaviourLine level string

definition logIncomingRequest :: "(string \<Rightarrow> string) \<Rightarrow> (string \<Rightarrow> Addr option) \<Rightarrow> request \<Rightarrow> log_entry" where
  "logIncomingRequest RequestBody ParseAddr c =
    StartLine (rq_method c) (rq_url c) (if rq_body c \<noteq> [] then Some (RequestBody (rq_body c)) else None) (getClientIP ParseAddr c)"

definition logRequest :: "(string \<Rightarrow> Addr option) \<Rightarrow> request \<Rightarrow> response \<Rightarrow> int \<Rightarrow> log_entry list" where
  "logRequest ParseAddr c r elapsedMs =
    [EndLine (level_of (rs_status r)) (rq_method c) (rq_url c) (rs_status r) elapsedMs (getClientIP ParseAddr c) (rs_body r),
     BehaviourLine (level_of (rs_status r)) (behaviour_line ParseAddr c (rs_status r) elapsedMs)]"

text \<open>The middleware: the next handlers are given the trace identifier in their context.\<close>

definition log_Handle ::
  "(string \<Rightarrow> string) \<Rightarrow> (string \<Rightarrow> Addr option) \<Rightarrow> request \<Rightarrow> int \<Rightarrow> (string option \<Rightarrow> 'err option \<times> response) \<Rightarrow>
   ('err option \<times> response) \<times> log_entry list" where
  "log_Handle RequestBody ParseAddr c elapsedMs nxt =
    (if list_ex (HasPrefix (rq_path c)) skipPrefixes then (nxt None, [])
     else let traceID = (if rq_header c ''X-App-Trace-ID'' \<noteq> [] then rq_header c ''X-App-Trace-ID'' else fst (extractTraceIDs c)) in
       case nxt (Some traceID) of (err, r) \<Rightarrow>
         let r = r\<lparr>rs_header := (rs_header r)(''X-App-Trace-ID'' \<mapsto> traceID)\<rparr> in
         ((err, r), logIncomingRequest RequestBody ParseAddr c # logRequest ParseAddr c r elapsedMs))"

section \<open>Counters\<close>

text \<open>The series of the three-label metrics with the number of observations, and the gauge per method.\<close>

record FiberPrometheus =
  fp_skipPaths :: "string list"
  fp_ignoreStatusCodes :: "int list"
  fp_requests :: "string \<times> string \<times> string \<Rightarrow> nat"
  fp_active :: "string \<Rightarrow> int"

definition NewFiberPrometheus :: "string list \<Rightarrow> int list \<Rightarrow> FiberPrometheus" where
  "NewFiberPrometheus skip ignored = \<lparr>fp_skipPaths = skip, fp_ignoreStatusCodes = ignored,
     fp_requests = (\<lambda>l. 0), fp_active = (\<lambda>m. 0)\<rparr>"

text \<open>The rest of the chain: the status it sets and the matched route pattern, or a panic.\<close>

datatype served = Served int string | Panicked

definition metrics_Middleware :: "FiberPrometheus \<Rightarrow> request \<Rightarrow> (FiberPrometheus \<Rightarrow> served \<times> FiberPrometheus) \<Rightarrow> FiberPrometheus" where
  "metrics_Middleware fp c nxt =
    (if rq_path c \<in> set (fp_skipPaths fp) then snd (nxt fp)
     else let m = rq_method c;
              fp = fp\<lparr>fp_active := (fp_active fp)(m := fp_active fp m + 1)\<rparr>
       in case nxt fp of (out, fp) \<Rightarrow>
         let fp = (case out of
             Panicked \<Rightarrow> fp
           | Served status route \<Rightarrow>
               if status \<in> set (fp_ignoreStatusCodes fp) then fp
               else let l = (m, if route \<noteq> [] then route else ''unmatched'', Itoa status)
                 in fp\<lparr>fp_requests := (fp_requests fp)(l := Suc (fp_requests fp l))\<rparr>)
         in fp\<lparr>fp_active := (fp_active fp)(m := fp_active fp m - 1)\<rparr>)"

section \<open>Trimming and splitting\<close>

definition ltrim :: "('a \<Rightarrow> bool) \<Rightarrow> 'a list \<Rightarrow> 'a list" where
  "ltrim P s = dropWhile P s"

definition rtrim :: "('a \<Rightarrow> bool) \<Rightarrow> 'a list \<Rightarrow> 'a list" where
  "rtrim P s = rev (dropWhile P (rev s))"

lemma rtrim_Cons: "\<not> P x \<Longrightarrow> rtrim P (x # m) = x # rtrim P m"
  by (simp add: rtrim_def dropWhile_append)

lemma rtrim_append: "\<not> P x \<Longrightarrow> rtrim P (p @ x # m) = p @ x # rtrim P m"
  by (simp add: rtrim_def dropWhile_append)

lemma trim_all: "list_all P s \<Longrightarrow> ltrim P s = []" "list_all P s \<Longrightarrow> rtrim P s = []"
proof -
  assume "list_all P s"
  then have "\<forall>x \<in> set s. P x" "\<forall>x \<in> set (rev s). P x" by (simp_all add: list_all_iff)
  then show "ltrim P s = []" "rtrim P s = []" by (simp_all add: ltrim_def rtrim_def dropWhile_eq_Nil_conv)
qed

lemma split_first_not: "\<not> list_all P y \<Longrightarrow> \<exists>p x m. y = p @ x # m \<and> (\<forall>z \<in> set p. P z) \<and> \<not> P x"
proof (induction y)
  case (Cons a y)
  show ?case
  proof (cases "P a")
    case True
    with Cons obtain p x m where "y = p @ x # m" "\<forall>z \<in> set p. P z" "\<not> P x" by auto
    then have "a # y = (a # p) @ x # m" "\<forall>z \<in> set (a # p). P z" "\<not> P x" using True by simp_all
    then show ?thesis by blast
  next
    case False
    then have "a # y = [] @ a # y" "\<forall>z \<in> set []. P z" by simp_all
    then show ?thesis using False by blast
  qed
qed simp

lemma trim_commute: "ltrim P (rtrim P y) = rtrim P (ltrim P y)"
proof (cases "list_all P y")
  case True
  then have "ltrim P y = []" "rtrim P y = []" by (simp_all add: trim_all)
  then show ?thesis by (simp add: trim_all)
next
  case False
  then obtain p x m where y: "y = p @ x # m" "\<forall>z \<in> set p. P z" "\<not> P x"
    using split_first_not [of P y] by blast
  have l: "ltrim P (p @ x # k) = x # k" for k
    using y(2,3) by (simp add: ltrim_def dropWhile_append2)
  show ?thesis by (simp add: y(1) l rtrim_append [of P x, OF y(3)] rtrim_Cons [of P x, OF y(3)])
qed

lemma trim_absorb:
  "rtrim P (ltrim P (rtrim P y)) = rtrim P (ltrim P y)" "rtrim P (ltrim P (ltrim P y)) = rtrim P (ltrim P y)"
proof -
  have "rtrim P (rtrim P z) = rtrim P z" for z by (simp add: rtrim_def)
  then show "rtrim P (ltrim P (rtrim P y)) = rtrim P (ltrim P y)" by (simp add: trim_commute)
  show "rtrim P (ltrim P (ltrim P y)) = rtrim P (ltrim P y)" by (simp add: ltrim_def)
qed

lemma Split_rev: "Split (rev s) sep = rev (map rev (Split s sep))"
proof (induction s)
  case (Cons c s)
  show ?case
  proof (cases "c = sep")
    case True
    then show ?thesis using Cons Split_append [of "rev s" sep "[]"] by simp
  next
    case False
    obtain h t where "Split s sep = h # t" by (meson Split_nonempty list.exhaust)
    then show ?thesis using False Cons by (simp add: Split_snoc)
  qed
qed simp

lemma Split_ltrim: "\<not> P sep \<Longrightarrow> Split (ltrim P s) sep = ltrim P (hd (Split s sep)) # tl (Split s sep)"
proof (induction s)
  case (Cons c s)
  obtain h t where "Split s sep = h # t" by (meson Split_nonempty list.exhaust)
  then show ?case using Cons by (auto simp: ltrim_def)
qed (simp add: ltrim_def)

lemma Split_rtrim:
  assumes "\<not> P sep"
  shows "Split (rtrim P s) sep = butlast (Split s sep) @ [rtrim P (last (Split s sep))]"
proof -
  have "Split (rtrim P s) sep = rev (map rev (Split (ltrim P (rev s)) sep))"
    unfolding rtrim_def ltrim_def by (rule Split_rev)
  also have "\<dots> = rev (map rev (ltrim P (hd (rev (map rev (Split s sep)))) # tl (rev (map rev (Split s sep)))))"
    unfolding Split_ltrim [of P, OF assms] Split_rev ..
  also have "\<dots> = butlast (Split s sep) @ [rtrim P (last (Split s sep))]"
  proof (cases "Split s sep" rule: rev_cases)
    case (snoc xs x)
    then show ?thesis by (simp add: ltrim_def rtrim_def rev_map comp_def)
  qed simp
  finally show ?thesis .
qed

lemma map_trim_Split:
  assumes "\<not> P sep"
  shows "map (\<lambda>x. rtrim P (ltrim P x)) (Split (rtrim P (ltrim P s)) sep) = map (\<lambda>x. rtrim P (ltrim P x)) (Split s sep)"
proof -
  let ?T = "\<lambda>x. rtrim P (ltrim P x)"
  have r: "map ?T (Split (rtrim P s) sep) = map ?T (Split s sep)" for s
  proof -
    obtain xs x where "Split s sep = xs @ [x]" by (metis Split_nonempty append_butlast_last_id)
    then show ?thesis by (simp add: Split_rtrim [of P, OF assms] trim_absorb)
  qed
  have "map ?T (Split (ltrim P s) sep) = map ?T (Split s sep)"
    by (cases "Split s sep") (simp_all add: Split_ltrim [of P, OF assms] trim_absorb)
  then show ?thesis using r by simp
qed

definition is_space :: "char \<Rightarrow> bool" where
  "is_space c = IsSpace (of_char c)"

lemma TrimSpace_ascii: "ascii s \<Longrightarrow> TrimSpace s = rtrim is_space (ltrim is_space s)"
proof -
  assume a: "ascii s"
  have enc: "length (concat (map encode_rune (takeWhile IsSpace (map of_char l)))) = length (takeWhile is_space l)"
    if "ascii l" for l
    using that by (induction l) (auto simp: is_space_def encode_rune_def encode_scalar_def is_scalar_def)
  have "ascii (rev s)" using a by (simp add: ascii_def)
  note enc [OF a] enc [OF this]
  then have t: "TrimSpace s = take (length (ltrim is_space s) - length (takeWhile is_space (rev s))) (ltrim is_space s)"
    by (simp add: TrimSpace_def Let_def runes_of_ascii [OF a] rev_map ltrim_def dropWhile_eq_drop)
  show ?thesis
  proof (cases "list_all is_space s")
    case True
    then have "ltrim is_space s = []" by (rule trim_all)
    then show ?thesis unfolding t by (simp add: rtrim_def)
  next
    case False
    then obtain p x m where s: "s = p @ x # m" "\<forall>z \<in> set p. is_space z" "\<not> is_space x"
      using split_first_not [of is_space s] by blast
    have l: "ltrim is_space s = x # m" using s by (simp add: ltrim_def dropWhile_append2)
    have "takeWhile is_space (rev s) = takeWhile is_space (rev (x # m))"
      using s(1,3) by (simp add: takeWhile_append)
    moreover have "take (length k - length (takeWhile is_space (rev k))) k = rtrim is_space k" for k
      unfolding rtrim_def dropWhile_eq_drop by (simp add: rev_drop)
    from this [of "x # m"] show ?thesis unfolding t l by (simp add: calculation)
  qed
qed

section \<open>The client's address\<close>

lemma comma_no_space: "\<not> is_space CHR '',''"
  by (simp add: is_space_def IsSpace_def in_ranges_def space_ranges_def)

lemma ascii_Split: "ascii s \<Longrightarrow> x \<in> set (Split s sep) \<Longrightarrow> ascii x"
proof (induction s arbitrary: x)
  case (Cons c s)
  obtain h t where "Split s sep = h # t" by (meson Split_nonempty list.exhaust)
  then show ?case using Cons by (auto split: if_splits)
qed simp

lemma find_append_Some: "List.find P xs = Some x \<Longrightarrow> List.find P (xs @ ys) = Some x"
  by (induction xs) auto

lemma map_TrimSpace_Split:
  assumes "ascii s"
  shows "map TrimSpace (Split (TrimSpace s) CHR '','') = map TrimSpace (Split s CHR '','')"
proof -
  have sub: "set (rtrim is_space (ltrim is_space s)) \<subseteq> set s"
    by (auto simp: rtrim_def ltrim_def dest!: set_dropWhileD)
  then have a: "ascii (TrimSpace s)" using assms by (auto simp: TrimSpace_ascii ascii_def)
  have "map TrimSpace (Split k CHR '','') = map (\<lambda>x. rtrim is_space (ltrim is_space x)) (Split k CHR '','')" if "ascii k" for k
    using that ascii_Split by (intro map_cong refl TrimSpace_ascii) blast
  then show ?thesis
    using map_trim_Split [of is_space, OF comma_no_space, of s] a assms TrimSpace_ascii [OF assms] by metis
qed

text \<open>C35: The logged client address. A request that carries a \<^verbatim>\<open>CustomerIP\<close> header (not only blanks) is logged with
  the trimmed content of that header, whatever it is: whoever can set it chooses the address. Without it, the address cannot be
  forged through \<^verbatim>\<open>X-Forwarded-For\<close>: when the proxies have appended an address
  list that holds a public address to whatever the client sent there (both parts being ASCII), the logged address is the last
  public address of the appended list, whatever the client's part and the other headers hold.\<close>

theorem client_ip_logged:
  assumes "rq_header c ''X-Forwarded-For'' = forged @ '','' @ appended" "ascii forged" "ascii appended"
    and "List.find (isPublicIP ParseAddr) (map TrimSpace (rev (Split appended CHR '',''))) = Some ip"
  shows "getClientIP ParseAddr c =
      (if TrimSpace (rq_header c ''CustomerIP'') \<noteq> [] then TrimSpace (rq_header c ''CustomerIP'') else ip)
    \<and> isPublicIP ParseAddr ip"
proof -
  let ?x = "forged @ CHR '','' # appended"
  have a: "ascii ?x" using assms(2,3) by simp
  have "CHR '','' \<in> set (rtrim is_space (ltrim is_space ?x))"
    using comma_no_space by (auto simp: ltrim_def rtrim_def dropWhile_append in_set_conv_decomp)
  then have ne: "TrimSpace ?x \<noteq> []" using TrimSpace_ascii [OF a] by auto
  have "map TrimSpace (rev (Split (TrimSpace ?x) CHR '','')) =
      map TrimSpace (rev (Split appended CHR '','')) @ map TrimSpace (rev (Split forged CHR '',''))"
    using map_TrimSpace_Split [OF a] by (simp add: rev_map [symmetric] Split_append)
  then have "List.find (isPublicIP ParseAddr) (map TrimSpace (rev (Split (TrimSpace ?x) CHR '',''))) = Some ip"
    using find_append_Some [OF assms(4)] by simp
  moreover have "isPublicIP ParseAddr ip"
    using assms(4) by (metis (mono_tags, lifting) find_Some_iff)
  ultimately show ?thesis using assms(1) ne by (simp add: getClientIP_def Let_def)
qed

definition example_addr :: "string \<Rightarrow> Addr option" where
  "example_addr s = (if s = ''203.0.113.9'' then Some (V4 [203, 0, 113, 9])
     else if s = ''8.8.8.8'' then Some (V4 [8, 8, 8, 8]) else if s = ''10.0.0.7'' then Some (V4 [10, 0, 0, 7]) else None)"

theorem client_ip_logged_witness:
  "getClientIP example_addr
     \<lparr>rq_method = ''GET'', rq_path = ''/'', rq_url = ''/'',
      rq_header = (\<lambda>h. if h = ''X-Forwarded-For'' then ''8.8.8.8'' @ '','' @ '' 203.0.113.9, 10.0.0.7'' else []),
      rq_body = [], rq_ip = ''10.0.0.1'', rq_span = None\<rparr> = ''203.0.113.9''"
proof -
  have a: "ascii ''8.8.8.8''" "ascii '' 203.0.113.9, 10.0.0.7''" by (simp_all add: ascii_def)
  have t: "TrimSpace [] = []" "TrimSpace '' 203.0.113.9'' = ''203.0.113.9''" "TrimSpace '' 10.0.0.7'' = ''10.0.0.7''"
    by (simp_all add: TrimSpace_ascii ascii_def ltrim_def rtrim_def is_space_def IsSpace_def in_ranges_def space_ranges_def)
  have s: "Split '' 203.0.113.9, 10.0.0.7'' CHR '','' = ['' 203.0.113.9'', '' 10.0.0.7'']" by simp
  have p: "isPublicIP example_addr ''203.0.113.9''" "\<not> isPublicIP example_addr ''10.0.0.7''"
    by (simp_all add: isPublicIP_def example_addr_def IsGlobalUnicast_def IsPrivate_def IsLoopback_def IsMulticast_def
        IsLinkLocalUnicast_def Unmap_def)
  have "List.find (isPublicIP example_addr) (map TrimSpace (rev (Split '' 203.0.113.9, 10.0.0.7'' CHR '',''))) = Some ''203.0.113.9''"
    unfolding s list.map rev.simps append.simps t using p by simp
  then show ?thesis using a t(1) by (subst client_ip_logged [THEN conjunct1, of _ "''8.8.8.8''" "'' 203.0.113.9, 10.0.0.7''"]) simp_all
qed

section \<open>The series\<close>

text \<open>Requests served one after the other, each with what the rest of the chain does.\<close>

definition observe_all :: "FiberPrometheus \<Rightarrow> (request \<times> served) list \<Rightarrow> FiberPrometheus" where
  "observe_all fp reqs = foldl (\<lambda>fp (c, out). metrics_Middleware fp c (\<lambda>fp. (out, fp))) fp reqs"

text \<open>The labels a served request is counted under.\<close>

definition label_of :: "FiberPrometheus \<Rightarrow> request \<times> served \<Rightarrow> (string \<times> string \<times> string) option" where
  "label_of fp x = (case snd x of
     Panicked \<Rightarrow> None
   | Served status route \<Rightarrow>
       if rq_path (fst x) \<in> set (fp_skipPaths fp) \<or> status \<in> set (fp_ignoreStatusCodes fp) then None
       else Some (rq_method (fst x), if route = [] then ''unmatched'' else route, Itoa status))"

lemma metrics_Middleware_alone:
  "metrics_Middleware fp c (\<lambda>fp. (out, fp)) =
    (case label_of fp (c, out) of None \<Rightarrow> fp
     | Some l \<Rightarrow> fp\<lparr>fp_requests := (fp_requests fp)(l := Suc (fp_requests fp l))\<rparr>)"
  by (cases fp) (simp add: metrics_Middleware_def label_of_def Let_def split: served.split)

lemma observe_all_step:
  "observe_all fp (x # reqs) = observe_all (case label_of fp x of None \<Rightarrow> fp
     | Some l \<Rightarrow> fp\<lparr>fp_requests := (fp_requests fp)(l := Suc (fp_requests fp l))\<rparr>) reqs"
  by (cases x) (simp add: observe_all_def metrics_Middleware_alone)

lemma label_of_counts: "label_of (fp\<lparr>fp_requests := f\<rparr>) = label_of fp"
  by (rule ext) (simp add: label_of_def split: served.split)

lemma observe_all_counts:
  "fp_active (observe_all fp reqs) = fp_active fp \<and>
   fp_requests (observe_all fp reqs) l = fp_requests fp l + length (filter (\<lambda>x. label_of fp x = Some l) reqs)"
proof (induction reqs arbitrary: fp)
  case (Cons x reqs)
  then show ?case by (auto simp: observe_all_step label_of_counts split: option.split)
qed (simp add: observe_all_def)

text \<open>The counters are exact and their number is bounded by the routes, whatever the paths asked for: from a
  fresh instance, after any sequence of requests, no request is in flight, every series holds
  the number of requests counted under its labels (neither skipped, ignored nor panicked), and a
  series with an observation is labelled with the pattern of a matched route or with
  \<^verbatim>\<open>unmatched\<close>.\<close>

theorem metrics_series:
  "fp_active (observe_all (NewFiberPrometheus skip ignored) reqs) = (\<lambda>m. 0) \<and>
   fp_requests (observe_all (NewFiberPrometheus skip ignored) reqs) l =
     length (filter (\<lambda>x. label_of (NewFiberPrometheus skip ignored) x = Some l) reqs) \<and>
   {path. \<exists>m st. fp_requests (observe_all (NewFiberPrometheus skip ignored) reqs) (m, path, st) > 0}
     \<subseteq> {''unmatched''} \<union> {route. \<exists>c st. (c, Served st route) \<in> set reqs}"
proof -
  let ?fp = "NewFiberPrometheus skip ignored"
  have n: "fp_requests (observe_all ?fp reqs) k = length (filter (\<lambda>x. label_of ?fp x = Some k) reqs)" for k
    by (simp add: observe_all_counts) (simp add: NewFiberPrometheus_def)
  have "path \<in> {''unmatched''} \<union> {route. \<exists>c st. (c, Served st route) \<in> set reqs}"
    if pos: "fp_requests (observe_all ?fp reqs) (m, path, st) > 0" for m path st
  proof -
    from pos have "\<exists>x \<in> set reqs. label_of ?fp x = Some (m, path, st)"
      unfolding n length_greater_0_conv filter_empty_conv by blast
    then obtain c out where x: "(c, out) \<in> set reqs" "label_of ?fp (c, out) = Some (m, path, st)" by force
    from x(2) obtain s route where "out = Served s route" "path = (if route = [] then ''unmatched'' else route)"
      by (auto simp: label_of_def split: served.splits if_splits)
    with x(1) show ?thesis by auto
  qed
  then have "{path. \<exists>m st. fp_requests (observe_all ?fp reqs) (m, path, st) > 0}
      \<subseteq> {''unmatched''} \<union> {route. \<exists>c st. (c, Served st route) \<in> set reqs}" by blast
  moreover have "fp_active (observe_all ?fp reqs) = (\<lambda>m. 0)"
    using observe_all_counts [of ?fp reqs] by (simp add: NewFiberPrometheus_def)
  ultimately show ?thesis using n by blast
qed

end
