(* ===== verification/Router.thy ===== *)
theory Router
  imports Handler Middleware
begin

text \<open>
  The HTTP server of the command line: \<^verbatim>\<open>internal/router/routes.go\<close>. The routes are a table in the order
  of their registration; how the Fiber framework matches a path against a pattern is an argument,
  and so are the decisions of its two rate limiters (part of the request, as is the time) and the
  decoding of bodies. \<open>serve\<close> is one request through the table, the limiters and the handler.

  Shown: whatever a serving program has done before, a scored user gets exactly the rules in the
  engine's snapshot whose text holds of the user, which are the enabled ones of the list of rules as
  long as no rules were loaded behind the list; at most one route matches a request;
  and none of the API's own paths is on the skip list of the behaviour log.
\<close>

section \<open>The table of routes\<close>

datatype http_method = GET | POST | DELETE

datatype endpoint =
    EpHealth | EpPing | EpMetrics
  | EpMatch | EpMatchBatch | EpEvaluate | EpEvaluateAll | EpRuleCount
  | EpEditor | EpRuleList | EpRuleUpsert | EpRuleDelete | EpRuleTest | EpSelfTest
  | EpVersionList | EpPublish | EpRollback

record route =
  rt_Method :: http_method
  rt_Path :: string
  rt_readLimited :: bool
  rt_Handler :: endpoint

definition BasePath :: string where
  "BasePath = ''/tcg-rulex-engine''"

definition api_route :: "http_method \<Rightarrow> string \<Rightarrow> bool \<Rightarrow> endpoint \<Rightarrow> route" where
  "api_route m path readLimiter e = \<lparr>rt_Method = m, rt_Path = BasePath @ path, rt_readLimited = readLimiter, rt_Handler = e\<rparr>"

definition RegisterHandlers :: "route list" where
  "RegisterHandlers = [
     api_route GET ''/healthz'' False EpHealth,
     api_route GET ''/ping'' False EpPing,
     api_route GET ''/metrics'' False EpMetrics,
     api_route POST ''/match'' False EpMatch,
     api_route POST ''/match/batch'' False EpMatchBatch,
     api_route POST ''/evaluate'' False EpEvaluate,
     api_route POST ''/evaluate/all'' False EpEvaluateAll,
     api_route GET ''/rules'' True EpRuleCount,
     api_route GET ''/'' False EpEditor,
     api_route GET ''/rules/list'' True EpRuleList,
     api_route POST ''/rules'' False EpRuleUpsert,
     api_route DELETE ''/rules/:id'' False EpRuleDelete,
     api_route POST ''/rules/test'' False EpRuleTest,
     api_route POST ''/rules/selftest'' False EpSelfTest,
     api_route GET ''/versions'' True EpVersionList,
     api_route POST ''/versions'' False EpPublish,
     api_route POST ''/versions/:v/rollback'' False EpRollback]"

text \<open>Pattern and path give the parameter (the empty text for a pattern without one) or no match.\<close>

type_synonym path_match = "string \<Rightarrow> string \<Rightarrow> string option"

definition route_matches :: "path_match \<Rightarrow> http_method \<Rightarrow> string \<Rightarrow> route \<Rightarrow> bool" where
  "route_matches pm m path r \<longleftrightarrow> rt_Method r = m \<and> pm (rt_Path r) path \<noteq> None"

definition find_route :: "path_match \<Rightarrow> http_method \<Rightarrow> string \<Rightarrow> (route \<times> string) option" where
  "find_route pm m path = map_option (\<lambda>r. (r, the (pm (rt_Path r) path)))
     (List.find (route_matches pm m path) RegisterHandlers)"

section \<open>Requests and replies\<close>

record http_request =
  hq_Method :: http_method
  hq_Path :: string
  hq_Body :: string
  hq_groupLimiter :: bool
  hq_readLimiter :: bool
  hq_now :: int
  hq_took :: int
  hq_elapsed :: int

text \<open>\<open>json.Unmarshal\<close> into the variables the handlers declare.\<close>

record decoders =
  dc_User :: "string \<Rightarrow> string + User"
  dc_Users :: "string \<Rightarrow> string + User list"
  dc_Evaluate :: "string \<Rightarrow> string + evaluateRequest"
  dc_EvaluateAll :: "string \<Rightarrow> string + (string \<times> any) list \<times> int"
  dc_Rule :: "string \<Rightarrow> string + Rule"
  dc_Test :: "string \<Rightarrow> string + row \<times> string"
  dc_SelfTest :: "string \<Rightarrow> row option \<times> string"
  dc_Note :: "string \<Rightarrow> string"

datatype 'e http_reply =
    RpNotFound
  | RpTooManyRequests
  | RpHealth bool nat
  | RpPong
  | RpPage
  | RpMatch "('e, matchResponse) Handler.response"
  | RpBatch "('e, matchResponse list) Handler.response"
  | RpEvaluate "('e, bool \<times> Reason list \<times> string) Handler.response"
  | RpEvaluateAll "('e, EvaluateAllResult) Handler.response"
  | RpCount nat
  | RpRules "Rule list"
  | RpEdited "('e, int \<times> nat) Handler.response"
  | RpTest "('e, bool) Handler.response"
  | RpSelfTest "('e, SelfTestResult) Handler.response"
  | RpVersions "Version list"
  | RpPublished "int \<times> int"

text \<open>
  One handler; \<open>param\<close> is the path parameter. It is a relation, since the schedule of a batch is not
  fixed; a handler that panics or blocks has no result. The two text pages are not spelled out.
\<close>

definition run_endpoint ::
  "decoders \<Rightarrow> (parse_error \<Rightarrow> string) \<Rightarrow> nat \<Rightarrow> endpoint \<Rightarrow> string \<Rightarrow> http_request \<Rightarrow> ('e, 'c, 'q) RuleHandler \<Rightarrow>
    'e http_reply \<times> ('e, 'c, 'q) RuleHandler \<Rightarrow> bool" where
  "run_endpoint dc err_text gomaxprocs ep param q h out \<longleftrightarrow> (case ep of
     EpHealth \<Rightarrow> out = (case Health h of (ok, n) \<Rightarrow> RpHealth ok n, h)
   | EpPing \<Rightarrow> out = (RpPong, h)
   | EpMetrics \<Rightarrow> out = (RpPage, h)
   | EpMatch \<Rightarrow> (\<exists>r h'. h_Match h (hq_took q) (hq_elapsed q) (dc_User dc (hq_Body q)) = Some (r, h') \<and> out = (RpMatch r, h'))
   | EpMatchBatch \<Rightarrow> (\<exists>r h'. h_MatchBatch h gomaxprocs (dc_Users dc (hq_Body q)) (r, h') \<and> out = (RpBatch r, h'))
   | EpEvaluate \<Rightarrow> out = (RpEvaluate (h_Evaluate h (dc_Evaluate dc (hq_Body q))), h)
   | EpEvaluateAll \<Rightarrow> out = (RpEvaluateAll (h_EvaluateAll err_text h (dc_EvaluateAll dc (hq_Body q))), h)
   | EpRuleCount \<Rightarrow> out = (RpCount (h_RuleCount h), h)
   | EpEditor \<Rightarrow> out = (RpPage, h)
   | EpRuleList \<Rightarrow> out = (RpRules (h_RuleList h), h)
   | EpRuleUpsert \<Rightarrow> (case h_RuleUpsert h (dc_Rule dc (hq_Body q)) of (r, h') \<Rightarrow> out = (RpEdited r, h'))
   | EpRuleDelete \<Rightarrow> (case h_RuleDelete h param of (r, h') \<Rightarrow> out = (RpEdited r, h'))
   | EpRuleTest \<Rightarrow> (\<exists>r. h_RuleTest h (dc_Test dc (hq_Body q)) = Some r \<and> out = (RpTest r, h))
   | EpSelfTest \<Rightarrow> (\<exists>r h'. h_SelfTest h (dc_SelfTest dc (hq_Body q)) = Some (r, h') \<and> out = (RpSelfTest r, h'))
   | EpVersionList \<Rightarrow> out = (RpVersions (h_VersionList h), h)
   | EpPublish \<Rightarrow> (case h_Publish h (hq_now q) (dc_Note dc (hq_Body q)) of (r, h') \<Rightarrow> out = (RpPublished r, h'))
   | EpRollback \<Rightarrow> (case h_Rollback h param of (r, h') \<Rightarrow> out = (RpEdited r, h')))"

definition serve ::
  "path_match \<Rightarrow> decoders \<Rightarrow> (parse_error \<Rightarrow> string) \<Rightarrow> nat \<Rightarrow> http_request \<Rightarrow> ('e, 'c, 'q) RuleHandler \<Rightarrow>
    'e http_reply \<times> ('e, 'c, 'q) RuleHandler \<Rightarrow> bool" where
  "serve pm dc err_text gomaxprocs q h out \<longleftrightarrow>
    (if \<not> hq_groupLimiter q then out = (RpTooManyRequests, h)
     else case find_route pm (hq_Method q) (hq_Path q) of
       None \<Rightarrow> out = (RpNotFound, h)
     | Some (r, param) \<Rightarrow>
         if rt_readLimited r \<and> \<not> hq_readLimiter q then out = (RpTooManyRequests, h)
         else run_endpoint dc err_text gomaxprocs (rt_Handler r) param q h out)"

definition BuildHandler :: "('e, 'c, 'q) Engine \<Rightarrow> ('e, 'c, 'q) RuleHandler" where
  "BuildHandler e = NewRuleHandler (NewComManagerWithEngine e)"

section \<open>A server that has answered requests\<close>

inductive server_reach ::
  "('e, 'c, 'q) Backend \<Rightarrow> path_match \<Rightarrow> decoders \<Rightarrow> (parse_error \<Rightarrow> string) \<Rightarrow> nat \<Rightarrow> ('e, 'c, 'q) RuleHandler \<Rightarrow> bool"
  for b pm dc err_text gomaxprocs where
  server_start: "engine_reach b e \<Longrightarrow> server_reach b pm dc err_text gomaxprocs (BuildHandler e)"
| server_request: "server_reach b pm dc err_text gomaxprocs h \<Longrightarrow>
    serve pm dc err_text gomaxprocs q h (reply, h') \<Longrightarrow> server_reach b pm dc err_text gomaxprocs h'"

lemma acquire_release: "Acquire s = Some a \<Longrightarrow> Release a = Some r \<Longrightarrow> r = s"
  by (auto simp: Acquire_def Release_def split: if_splits)

lemma SelfTest_steps:
  assumes "SelfTest s rule r = Some (out, s')"
  shows "mgr_step\<^sup>*\<^sup>* (com_Manager s) (com_Manager s')"
  using assms
proof (cases rule: SelfTest_cases)
  case (ran m1 res before added removed)
  then have "mgr_step (com_Manager s) m1" "mgr_step m1 (com_Manager s')"
    by (auto intro: m_upsert m_remove)
  then show ?thesis by simp
qed simp

lemma endpoint_steps:
  assumes "run_endpoint dc err_text gomaxprocs ep param q h (reply, h')"
  shows "mgr_step\<^sup>*\<^sup>* (com_Manager (svc h)) (com_Manager (svc h')) \<and> sem h' = sem h"
proof (cases ep)
  case EpMatch
  then show ?thesis using assms
    by (auto simp: run_endpoint_def h_Match_def bind_eq_Some_conv split: sum.splits dest: acquire_release)
next
  case EpMatchBatch
  then show ?thesis using assms
    by (cases "dc_Users dc (hq_Body q)") (auto simp: run_endpoint_def h_MatchBatch_def dest: acquire_release)
next
  case EpRuleUpsert
  then show ?thesis using assms
    by (auto simp: run_endpoint_def h_RuleUpsert_def svc_Upsert_def bind_res_Inr_iff dest!: m_upsert split: sum.splits)
next
  case EpRuleDelete
  then show ?thesis using assms
    by (auto simp: run_endpoint_def h_RuleDelete_def svc_Remove_def Let_def intro: m_remove split: option.splits)
next
  case EpSelfTest
  then show ?thesis using assms
    by (auto simp: run_endpoint_def h_SelfTest_def dest: SelfTest_steps split: prod.splits)
next
  case EpPublish
  then show ?thesis using assms
    by (auto simp: run_endpoint_def h_Publish_def svc_Publish_def Let_def dest!: m_publish split: prod.splits)
next
  case EpRollback
  then show ?thesis using assms
    by (auto simp: run_endpoint_def h_Rollback_def svc_Rollback_def bind_res_Inr_iff dest!: m_rollback split: option.splits sum.splits)
qed (use assms in \<open>auto simp: run_endpoint_def\<close>)

lemma serve_steps:
  assumes "serve pm dc err_text gomaxprocs q h (reply, h')"
  shows "mgr_step\<^sup>*\<^sup>* (com_Manager (svc h)) (com_Manager (svc h')) \<and> sem h' = sem h"
  using assms by (auto simp: serve_def split: if_splits option.splits dest: endpoint_steps)

lemma server_reach_inv:
  "server_reach b pm dc err_text gomaxprocs h \<Longrightarrow> mgr_reach b (com_Manager (svc h)) \<and> sem h = NewSemaphore (int MaxConcurrentUsers)"
proof (induction rule: server_reach.induct)
  case (server_start e)
  then show ?case by (simp add: BuildHandler_def NewRuleHandler_def NewComManagerWithEngine_def mgr_new)
next
  case (server_request h q reply h')
  then show ?case using serve_steps mgr_reach_steps by metis
qed

section \<open>Scoring against the list of rules\<close>

definition book_rules :: "(string \<Rightarrow> row \<Rightarrow> bool) \<Rightarrow> Rule list \<Rightarrow> row \<Rightarrow> Rule list" where
  "book_rules holds_of rules fs = filter (\<lambda>r. rEnabled r \<and> holds_of (rExpr r) fs) (sort_key rule_prio rules)"

lemma names_of_list:
  assumes "mgr_inv (com_Manager s)" "set rs \<subseteq> {r \<in> set (svc_List s). rEnabled r}"
  shows "resolve_names s (map rID rs) = map rName rs"
proof -
  let ?m = "com_Manager s" and ?b = "backend (eng (com_Manager s))"
  have "RuleName s (rID r) = Some (rName r)" if "r \<in> set rs" for r
  proof -
    have r: "r \<in> set (Manager_List ?m)" "rEnabled r" using assms(2) that by (auto simp: svc_List_def)
    then have "compiles ?b r" using assms(1) List_wf [of ?b ?m] by (auto simp: mgr_inv_def)
    then obtain ast where "compiled ?b r = Some (program_of r ast)" using compiles_compiled by blast
    moreover have "map_of (m_rules ?m) (rID r) = Some r"
      using rules_lookup [of ?b ?m "rID r" r] assms(1) r by (simp add: mgr_inv_def)
    ultimately have "cache_Get (cache (eng ?m)) (rID r) = Some (program_of r ast)"
      using assms(1) by (simp add: mgr_inv_def in_sync_def)
    then show ?thesis by (simp add: RuleName_def program_of_def)
  qed
  then show ?thesis unfolding resolve_names_def by (induction rs) (auto simp: map_filter_simps)
qed

section \<open>Servers whose rules are also loaded behind the list\<close>

text \<open>
  The two programs that serve. The command line builds the handler over an engine that has its
  rules (\<open>RunServer\<close>, \<open>BuildHandler\<close>); the API service builds its container first and loads the
  rules into the engine afterwards, and with \<^verbatim>\<open>-watch\<close> the watcher of the command line reloads the
  engine from the rule file while it serves. Loading and reloading change the engine but not the
  list of the manager; the flag says that neither has happened. Requests are answered one at a
  time; the watcher's reloads come between requests.
\<close>

definition watcher_reload ::
  "('e, 'c, 'q) RuleHandler \<Rightarrow> 'f + Rule list \<Rightarrow> ('e, 'c, 'q) RuleHandler" where
  "watcher_reload h file = h\<lparr>svc := (svc h)\<lparr>com_Manager := (com_Manager (svc h))\<lparr>eng :=
     snd (ReloadFromFile (com_Engine (svc h)) file)\<rparr>\<rparr>\<rparr>"

inductive live_server ::
  "('e, 'c, 'q) Backend \<Rightarrow> path_match \<Rightarrow> decoders \<Rightarrow> (parse_error \<Rightarrow> string) \<Rightarrow> nat \<Rightarrow> bool \<Rightarrow>
    ('e, 'c, 'q) RuleHandler \<Rightarrow> bool"
  for b pm dc err_text gomaxprocs where
  live_start: "engine_reach b e \<Longrightarrow> live_server b pm dc err_text gomaxprocs True (BuildHandler e)"
| live_load: "live_server b pm dc err_text gomaxprocs synced h \<Longrightarrow> svc_LoadRules read decode (svc h) = (res, s) \<Longrightarrow>
    live_server b pm dc err_text gomaxprocs False (h\<lparr>svc := s\<rparr>)"
| live_reload: "live_server b pm dc err_text gomaxprocs synced h \<Longrightarrow>
    live_server b pm dc err_text gomaxprocs False (watcher_reload h (file :: string + Rule list))"
| live_request: "live_server b pm dc err_text gomaxprocs synced h \<Longrightarrow>
    serve pm dc err_text gomaxprocs q h (reply, h') \<Longrightarrow> live_server b pm dc err_text gomaxprocs synced h'"

lemma live_synced:
  "live_server b pm dc err_text gomaxprocs synced h \<Longrightarrow> synced \<Longrightarrow> server_reach b pm dc err_text gomaxprocs h"
  by (induction rule: live_server.induct) (auto intro: server_start server_request)

text \<open>The API service: a container over an empty engine, then the rules of the repository.\<close>

lemma api_start:
  fixes start :: "(parse_error be_error, 'c, 'q) ComManager"
  assumes "start = NewComManager"
  shows "live_server (BytecodeBackend native_Parser) pm dc err_text gomaxprocs False
    (NewRuleHandler (snd (svc_LoadRules read decode start)))"
proof -
  let ?h = "BuildHandler (NewWithBackend (BytecodeBackend native_Parser)) :: (parse_error be_error, 'c, 'q) RuleHandler"
  have "start = svc ?h"
    unfolding assms by (simp add: NewComManager_def BuildHandler_def NewRuleHandler_def
        NewComManagerWithEngine_def NativeFrontend_def native_Parser_def)
  moreover have "NewRuleHandler s = ?h\<lparr>svc := s\<rparr>" for s :: "(parse_error be_error, 'c, 'q) ComManager"
    by (simp add: NewRuleHandler_def BuildHandler_def)
  ultimately show ?thesis
    using live_load [OF live_start [OF reach_new [of "BytecodeBackend native_Parser"]] surjective_pairing] by simp
qed

lemma mgr_steps_engine: "mgr_step\<^sup>*\<^sup>* m m' \<Longrightarrow> engine_step\<^sup>*\<^sup>* (eng m) (eng m')"
proof (induction rule: rtranclp_induct)
  case (step m' m'')
  show ?case by (rule rtranclp_trans [OF step.IH mgr_step_engine [OF step.hyps(2)]])
qed simp

lemma reload_reach: "engine_reach b e \<Longrightarrow> engine_reach b (snd (ReloadFromFile e loaded))"
  by (auto simp: ReloadFromFile_def split_def Let_def
      intro!: reach_step [OF _ step_replace [OF surjective_pairing]] split: sum.split)

lemma live_server_inv:
  "live_server b pm dc err_text gomaxprocs synced h \<Longrightarrow>
    engine_reach b (com_Engine (svc h)) \<and> sem h = NewSemaphore (int MaxConcurrentUsers)"
proof (induction rule: live_server.induct)
  case (live_start e)
  then show ?case by (simp add: BuildHandler_def NewRuleHandler_def NewComManagerWithEngine_def NewManager_def)
next
  case (live_load synced h read decode res s)
  have "engine_step (com_Engine (svc h)) (com_Engine s) \<or> com_Engine s = com_Engine (svc h)"
    using live_load(2) by (auto simp: svc_LoadRules_def split: sum.splits prod.splits intro: step_load)
  with live_load show ?case by (auto intro: reach_step)
next
  case (live_reload synced h loaded)
  then show ?case by (simp add: watcher_reload_def reload_reach)
next
  case (live_request synced h q reply h')
  from serve_steps [OF live_request(2)]
  have "engine_step\<^sup>*\<^sup>* (com_Engine (svc h)) (com_Engine (svc h'))" "sem h' = sem h"
    using mgr_steps_engine by auto
  with live_request(3) show ?case using engine_reach_steps [of "com_Engine (svc h)" "com_Engine (svc h')"] by simp
qed

text \<open>The programs of the engine's snapshot whose text holds of a row.\<close>

definition fired :: "('e, 'c, 'q) RuleHandler \<Rightarrow> row \<Rightarrow> 'q Plan RuleProgram list" where
  "fired h fs = filter (\<lambda>p. text_holds (pSource p) fs) (Snapshot (cache (com_Engine (svc h))))"

lemma fired_names:
  assumes "cache_fresh (cache (com_Engine s))" "set ps \<subseteq> set (Snapshot (cache (com_Engine s)))"
  shows "resolve_names s (map pID ps) = map pName ps"
proof -
  have "RuleName s (pID p) = Some (pName p)" if "p \<in> set ps" for p
    using that assms snapshot_set [OF assms(1)] by (auto simp: RuleName_def stored_def)
  then show ?thesis unfolding resolve_names_def by (induction ps) (auto simp: map_filter_simps)
qed

lemma fired_book:
  assumes "mgr_inv (com_Manager (svc h))"
  shows "map pID (fired h fs) = map rID (book_rules text_holds (h_RuleList h) fs)"
    and "map pName (fired h fs) = map rName (book_rules text_holds (h_RuleList h) fs)"
proof -
  let ?m = "com_Manager (svc h)"
  let ?f = "the_program (backend (eng ?m))"
  have prog: "pID (?f r) = rID r \<and> pSource (?f r) = rExpr r \<and> pName (?f r) = rName r"
    if "r \<in> set (Manager_List ?m)" "rEnabled r" for r
  proof -
    have "compiles (backend (eng ?m)) r"
      using assms List_wf [of "backend (eng ?m)" ?m] that by (auto simp: mgr_inv_def)
    then obtain ast where "?f r = program_of r ast"
      using compiles_compiled by (fastforce simp: the_program_def)
    then show ?thesis by (simp add: program_of_def)
  qed
  have "fired h fs = map ?f (book_rules text_holds (h_RuleList h) fs)"
    unfolding fired_def snapshot_programs [OF assms] book_rules_def h_RuleList_def svc_List_def
    using prog by (auto simp: filter_map comp_def intro!: arg_cong [where f = "map ?f"] filter_cong)
  then show "map pID (fired h fs) = map rID (book_rules text_holds (h_RuleList h) fs)"
    "map pName (fired h fs) = map rName (book_rules text_holds (h_RuleList h) fs)"
    using prog by (auto simp: book_rules_def h_RuleList_def svc_List_def)
qed

text \<open>C12: What a serving program answers to a request to score a user, one request at a time, with
  the bytecode backend over the project's rule language and rules that fit the machine's stack and
  whose operands are told apart by their SQL text (\<open>text_exact\<close>). Whatever it has done before
  (rules loaded at start, reloads by the watcher, edits, removals, publications, rollbacks,
  self-tests, batches, refused and unknown requests), the answer is determined and holds exactly
  the rules in the engine's snapshot whose text holds of the user, with their names, in its order;
  no slot is kept and the list of rules stays as it is. As long as nothing was loaded behind the
  manager's back, these are exactly the rules that the list shows as enabled and whose text holds,
  by descending priority and ascending id.\<close>

theorem server_refines_rule_book:
  fixes h :: "(parse_error be_error, 'c, 'q) RuleHandler"
  assumes "live_server (BytecodeBackend native_Parser) pm dc err_text gomaxprocs synced h"
    and "\<forall>p \<in> set (Snapshot (cache (com_Engine (svc h)))). text_exact (pSource p)"
    and "hq_groupLimiter q" "find_route pm (hq_Method q) (hq_Path q) = Some (r, param)" "rt_Handler r = EpMatch"
    and "\<not> rt_readLimited r" "dc_User dc (hq_Body q) = Inr u"
  shows "\<exists>resp h'. (\<forall>out. serve pm dc err_text gomaxprocs q h out \<longleftrightarrow> out = (RpMatch (R200 resp), h'))
    \<and> mr_RuleIDs resp = map pID (fired h (uFields u)) \<and> mr_Names resp = map pName (fired h (uFields u))
    \<and> (synced \<longrightarrow> mr_RuleIDs resp = map rID (book_rules text_holds (h_RuleList h) (uFields u))
        \<and> mr_Names resp = map rName (book_rules text_holds (h_RuleList h) (uFields u)))
    \<and> h_RuleList h' = h_RuleList h \<and> sem h' = sem h"
proof -
  let ?b = "BytecodeBackend native_Parser :: (parse_error be_error, 'c, 'q) Backend"
  let ?e = "com_Engine (svc h)"
  have reach: "engine_reach ?b ?e" and sem: "sem h = NewSemaphore (int MaxConcurrentUsers)"
    using live_server_inv [OF assms(1)] by auto
  have fresh: "cache_fresh (cache ?e)" using engine_reach_wf [OF reach] by (simp add: engine_wf_def)
  have "sources_ok (parsed_ok native_Parser bytecode_ok) ?e"
    using assms(2) text_exact_ok snapshot_set [OF fresh] by (simp add: sources_ok_def)
  from bytecode_matching.match_engine [OF reach this]
  have match: "svc_Match (svc h) u = Some (map pID (fired h (uFields u)))"
    using assms(2) text_exact_sem
    by (auto simp: svc_Match_def hits_def fired_def intro!: arg_cong [where f = "map pID"] filter_cong)
  have names: "resolve_names (svc h) (map pID (fired h (uFields u))) = map pName (fired h (uFields u))"
    using fresh by (rule fired_names) (auto simp: fired_def)
  have book: "map pID (fired h (uFields u)) = map rID (book_rules text_holds (h_RuleList h) (uFields u))"
    "map pName (fired h (uFields u)) = map rName (book_rules text_holds (h_RuleList h) (uFields u))" if "synced"
    using fired_book server_reach_inv [OF live_synced [OF assms(1) that]] mgr_reach_inv by blast+
  obtain a where a: "Acquire (sem h) = Some a" "Release a = Some (sem h)"
    unfolding sem by (simp add: Acquire_def Release_def NewSemaphore_def MaxConcurrentUsers_def)
  obtain resp where score: "scoreOne h (hq_took q) u = Some resp"
      "mr_RuleIDs resp = map pID (fired h (uFields u))" "mr_Names resp = map pName (fired h (uFields u))"
    using match names by (simp add: scoreOne_def)
  let ?h' = "h\<lparr>sem := sem h, lat := Record (lat h) (hq_elapsed q)\<rparr>"
  have "h_Match h (hq_took q) (hq_elapsed q) (Inr u) = Some (R200 resp, ?h')"
    using a score(1) by (simp add: h_Match_def)
  then have "serve pm dc err_text gomaxprocs q h out \<longleftrightarrow> out = (RpMatch (R200 resp), ?h')" for out
    using assms(3-7) by (simp add: serve_def run_endpoint_def)
  moreover have "h_RuleList ?h' = h_RuleList h" "sem ?h' = sem h" by (simp_all add: h_RuleList_def)
  ultimately show ?thesis using score(2,3) book by (intro exI [of _ resp] exI [of _ ?h']) auto
qed

definition demo_decoders :: decoders where
  "demo_decoders = \<lparr>dc_User = (\<lambda>s. Inr (NewUser 1 [''level'' \<mapsto> AInt (of_nat (length s))])), dc_Users = Inl, dc_Evaluate = Inl,
     dc_EvaluateAll = Inl, dc_Rule = Inl, dc_Test = Inl, dc_SelfTest = (\<lambda>s. (None, s)), dc_Note = (\<lambda>s. s)\<rparr>"

definition demo_request :: http_request where
  "demo_request = \<lparr>hq_Method = POST, hq_Path = BasePath @ ''/match'', hq_Body = ''level'', hq_groupLimiter = True,
     hq_readLimiter = True, hq_now = 0, hq_took = 0, hq_elapsed = 0\<rparr>"

text \<open>A server whose rule file was replaced by a file with one of its two rules: it answers by that
  rule, while its list still shows both.\<close>

definition demo_live :: "(parse_error be_error, unit, unit) RuleHandler" where
  "demo_live = watcher_reload (BuildHandler demo_engine) (Inr [demo_rules ! 0] :: string + Rule list)"

theorem server_refines_rule_book_witness:
  "\<exists>resp h'. serve (\<lambda>p s. if p = s then Some [] else None) demo_decoders (\<lambda>_. []) 4 demo_request
      demo_live (RpMatch (R200 resp), h') \<and> mr_RuleIDs resp = [7] \<and> length (h_RuleList demo_live) = 2"
proof -
  let ?pm = "\<lambda>p s. if p = s then Some [] else None"
  have s: "live_server (BytecodeBackend native_Parser) ?pm demo_decoders (\<lambda>_. []) 4 False demo_live"
    unfolding demo_live_def by (rule live_reload [OF live_start [OF demo_reach]])
  have l: "\<forall>p \<in> set (Snapshot (cache (com_Engine (svc demo_live)))). text_exact (pSource p)" by code_simp
  have f: "find_route ?pm (hq_Method demo_request) (hq_Path demo_request) = Some (api_route POST ''/match'' False EpMatch, [])"
    by code_simp
  have b: "map pID (fired demo_live (uFields (NewUser 1 [''level'' \<mapsto> AInt 5]))) = [7]" by code_simp
  have n: "length (h_RuleList demo_live) = 2" by code_simp
  from server_refines_rule_book [OF s l _ f, of "NewUser 1 [''level'' \<mapsto> AInt 5]"] show ?thesis
    unfolding b n by (auto simp: demo_request_def demo_decoders_def api_route_def)
qed

section \<open>The routes\<close>

text \<open>What the framework documents for strict and case-sensitive routing: a pattern matches a path segment by
  segment, a segment that starts with a colon standing for any one that is not empty.\<close>

definition is_param :: "string \<Rightarrow> bool" where
  "is_param p \<longleftrightarrow> take 1 p = '':''"

definition segments_agree :: "string \<Rightarrow> string \<Rightarrow> bool" where
  "segments_agree pattern path \<longleftrightarrow> list_all2 (\<lambda>p s. if is_param p then s \<noteq> [] else s = p)
     (Split pattern CHR ''/'') (Split path CHR ''/'')"

definition patterns_overlap :: "string \<Rightarrow> string \<Rightarrow> bool" where
  "patterns_overlap a b \<longleftrightarrow> list_all2 (\<lambda>p s. is_param p \<or> is_param s \<or> p = s) (Split a CHR ''/'') (Split b CHR ''/'')"

lemma agree_overlap: "segments_agree a path \<Longrightarrow> segments_agree b path \<Longrightarrow> patterns_overlap a b"
  unfolding segments_agree_def patterns_overlap_def list_all2_conv_all_nth by metis

lemma routes_apart:
  "\<forall>r \<in> set RegisterHandlers. \<forall>r' \<in> set RegisterHandlers. rt_Method r = rt_Method r' \<and> patterns_overlap (rt_Path r) (rt_Path r') \<longrightarrow> r = r'"
  by code_simp

text \<open>At most one route matches a request, so that the order of registration does not matter.\<close>

theorem routes_unambiguous:
  assumes "\<And>p path. pm p path \<noteq> None \<Longrightarrow> segments_agree p path"
    and "r \<in> set RegisterHandlers" "r' \<in> set RegisterHandlers" "route_matches pm m path r" "route_matches pm m path r'"
  shows "r = r'"
  using assms agree_overlap routes_apart unfolding route_matches_def by metis

text \<open>The behaviour log skips no path of the API: its skip list names the probes at the root, while the API
  registers them below its base path, so that every scrape of a probe is logged.\<close>

theorem skip_list_misses_api:
  "\<not> list_ex (HasPrefix (BasePath @ path)) skipPrefixes"
  by (simp add: skipPrefixes_def BasePath_def HasPrefix_def)

end
