(* ===== verification/Sample_Data.thy ===== *)
theory Sample_Data
  imports IR_RoundTrip Rule_Model
begin

text \<open>
  Sample rules and the user store, \<^verbatim>\<open>internal/datasource\<close>. The random generator is state passed
  through two arguments, \<open>IntN\<close> (a number below a bound) and \<open>Perm\<close> (a permutation of the numbers
  below a bound), so that the text of a rule is a function of the numbers drawn. The loop that
  collects predicates on distinct fields draws again when a field repeats; it is a partial
  function, and it is shown what it returns, and that it can only fail to return when the generator
  keeps drawing the same few fields for ever.
\<close>

section \<open>Value pools\<close>

text \<open>Texts outside ASCII are written by their code points.\<close>

definition provinces :: "string list" where
  "provinces = map string_of_runes
    [[0x5E7F, 0x4E1C], [0x6C5F, 0x82CF], [0x6D59, 0x6C5F], [0x4E0A, 0x6D77], [0x5317, 0x4EAC],
     [0x56DB, 0x5DDD], [0x5C71, 0x4E1C], [0x6E56, 0x5317], [0x798F, 0x5EFA], [0x6E56, 0x5357]]"

definition genders :: "string list" where
  "genders = map string_of_runes [[0x7537], [0x5973]]"

definition incomeLevels :: "string list" where
  "incomeLevels = [''<5k'', ''5k-10k'', ''10k-20k'', ''15k-20k'', ''20k-30k'', ''30k+'']"

definition riskLevels :: "string list" where
  "riskLevels = map string_of_runes [[0x4F4E], [0x4E2D], [0x9AD8]]"

definition category_prefix :: string where
  "category_prefix = string_of_runes [0x6570] @ ''%''"

section \<open>Drawing\<close>

type_synonym 'g int_n = "'g \<Rightarrow> nat \<Rightarrow> nat \<times> 'g"
type_synonym 'g perm_n = "'g \<Rightarrow> nat \<Rightarrow> nat list \<times> 'g"

definition pick :: "'g int_n \<Rightarrow> 'g \<Rightarrow> 'a list \<Rightarrow> 'a \<times> 'g" where
  "pick IntN g xs = (case IntN g (length xs) of (i, g) \<Rightarrow> (xs ! i, g))"

definition pickN :: "'g perm_n \<Rightarrow> 'g \<Rightarrow> string list \<Rightarrow> nat \<Rightarrow> string list \<times> 'g" where
  "pickN Perm g xs k = (if k \<ge> length xs then (xs, g)
     else case Perm g (length xs) of (p, g) \<Rightarrow> (map (\<lambda>j. xs ! j) (take k p), g))"

definition inList :: "string list \<Rightarrow> string" where
  "inList xs = Join (map (\<lambda>x. [squote] @ x @ [squote]) xs) '',''"

definition num_pred :: "string \<Rightarrow> string \<Rightarrow> nat \<Rightarrow> string" where
  "num_pred f op n = f @ '' '' @ op @ '' '' @ Itoa (int n)"

definition str_pred :: "string \<Rightarrow> string \<Rightarrow> string" where
  "str_pred f s = f @ '' = '' @ [squote] @ s @ [squote]"

definition in_pred :: "string \<Rightarrow> string list \<Rightarrow> string" where
  "in_pred f xs = f @ '' IN ('' @ inList xs @ '')''"

definition between_pred :: "string \<Rightarrow> nat \<Rightarrow> nat \<Rightarrow> string" where
  "between_pred f lo hi = f @ '' BETWEEN '' @ Itoa (int lo) @ '' AND '' @ Itoa (int hi)"

definition like_pred :: "string \<Rightarrow> string \<Rightarrow> string" where
  "like_pred f pat = f @ '' LIKE '' @ [squote] @ pat @ [squote]"

definition predicate :: "'g int_n \<Rightarrow> 'g perm_n \<Rightarrow> 'g \<Rightarrow> (string \<times> string) \<times> 'g" where
  "predicate IntN Perm g = (case IntN g 11 of (c, g) \<Rightarrow>
     if c = 0 then (case IntN g 30 of (a, g) \<Rightarrow> case IntN g 20 of (b, g) \<Rightarrow>
       ((between_pred ''age'' (18 + a) (18 + a + 5 + b), ''age''), g))
     else if c = 1 then (case IntN g 3 of (n, g) \<Rightarrow> case pickN Perm g provinces (1 + n) of (xs, g) \<Rightarrow>
       ((in_pred ''province'' xs, ''province''), g))
     else if c = 2 then (case IntN g 3 of (n, g) \<Rightarrow> case pickN Perm g incomeLevels (1 + n) of (xs, g) \<Rightarrow>
       ((in_pred ''income_level'' xs, ''income_level''), g))
     else if c = 3 then ((like_pred ''favorite_category'' category_prefix, ''favorite_category''), g)
     else if c = 4 then (case IntN g 50 of (n, g) \<Rightarrow> ((num_pred ''active_score'' ''>='' (50 + n), ''active_score''), g))
     else if c = 5 then (case IntN g 4 of (n, g) \<Rightarrow> ((num_pred ''vip_level'' ''>='' (1 + n), ''vip_level''), g))
     else if c = 6 then (case pick IntN g genders of (s, g) \<Rightarrow> ((str_pred ''gender'' s, ''gender''), g))
     else if c = 7 then (case IntN g 60 of (n, g) \<Rightarrow> ((num_pred ''total_amount'' ''>'' (1000 * n), ''total_amount''), g))
     else if c = 8 then (case IntN g 25 of (n, g) \<Rightarrow> ((num_pred ''login_days_30d'' ''>='' n, ''login_days_30d''), g))
     else if c = 9 then (case pick IntN g riskLevels of (s, g) \<Rightarrow> ((str_pred ''risk_level'' s, ''risk_level''), g))
     else (case IntN g 350 of (n, g) \<Rightarrow> ((num_pred ''credit_score'' ''<'' (500 + n), ''credit_score''), g)))"

section \<open>Rules\<close>

text \<open>The loop over predicates; \<open>seen\<close> holds the keys in the order of \<open>preds\<close>.\<close>

partial_function (option) pred_loop ::
  "('g \<Rightarrow> (string \<times> string) \<times> 'g) \<Rightarrow> nat \<Rightarrow> string list \<Rightarrow> string list \<Rightarrow> 'g \<Rightarrow>
   (string list \<times> string list \<times> 'g) option" where
  [code]: "pred_loop pr nPred preds seen g =
    (if length preds < nPred then
       (let ((p, key), g') = pr g in
        if key \<in> set seen then pred_loop pr nPred preds seen g'
        else pred_loop pr nPred (preds @ [p]) (seen @ [key]) g')
     else Some (preds, seen, g))"

text \<open>\<^verbatim>\<open>%05d\<close>.\<close>

definition pad5 :: "nat \<Rightarrow> string" where
  "pad5 n = (let d = Itoa (int n) in replicate (5 - length d) (CHR ''0'') @ d)"

definition gen_rule :: "'g int_n \<Rightarrow> 'g perm_n \<Rightarrow> nat \<Rightarrow> 'g \<Rightarrow> (Rule \<times> 'g) option" where
  "gen_rule IntN Perm i g = (case IntN g 4 of (n, g) \<Rightarrow>
     (case pred_loop (predicate IntN Perm) (2 + n) [] [] g of
        None \<Rightarrow> None
      | Some (preds, seen, g) \<Rightarrow> (case IntN g 20 of (pri, g) \<Rightarrow>
          Some (\<lparr>rName = ''rule_'' @ pad5 i, rExpr = Join preds '' AND '', rID = 10000 + int i,
            rPriority = int pri, rVersion = 0, rEnabled = True\<rparr>, g))))"

fun gen_rules :: "'g int_n \<Rightarrow> 'g perm_n \<Rightarrow> nat list \<Rightarrow> 'g \<Rightarrow> (Rule list \<times> 'g) option" where
  "gen_rules IntN Perm [] g = Some ([], g)"
| "gen_rules IntN Perm (i # is) g = (case gen_rule IntN Perm i g of
     None \<Rightarrow> None
   | Some (r, g) \<Rightarrow> (case gen_rules IntN Perm is g of
       None \<Rightarrow> None | Some (rs, g) \<Rightarrow> Some (r # rs, g)))"

definition gen_Rules :: "'g int_n \<Rightarrow> 'g perm_n \<Rightarrow> nat \<Rightarrow> 'g \<Rightarrow> (Rule list \<times> 'g) option" where
  "gen_Rules IntN Perm n g = gen_rules IntN Perm [0..<n] g"

section \<open>The user store\<close>

record UserStore =
  us_index :: "int \<rightharpoonup> nat"
  us_users :: "User list"

definition NewUserStore :: UserStore where
  "NewUserStore = \<lparr>us_index = Map.empty, us_users = []\<rparr>"

definition store_Add :: "UserStore \<Rightarrow> User \<Rightarrow> UserStore" where
  "store_Add s u = s\<lparr>us_index := (us_index s)(UID u \<mapsto> length (us_users s)), us_users := us_users s @ [u]\<rparr>"

definition store_AddAll :: "UserStore \<Rightarrow> User list \<Rightarrow> UserStore" where
  "store_AddAll s users = foldl store_Add s users"

definition NewUserStoreFrom :: "User list \<Rightarrow> UserStore" where
  "NewUserStoreFrom users = store_AddAll NewUserStore users"

text \<open>\<open>None\<close> when the user is missing; the index of a store points into its slice.\<close>

definition store_Get :: "UserStore \<Rightarrow> int \<Rightarrow> User option" where
  "store_Get s uid = (case us_index s uid of None \<Rightarrow> None | Some i \<Rightarrow> Some (us_users s ! i))"

definition store_All :: "UserStore \<Rightarrow> User list" where
  "store_All s = us_users s"

definition store_Len :: "UserStore \<Rightarrow> nat" where
  "store_Len s = length (us_users s)"

section \<open>Every predicate parses\<close>

lemma dec_digits_range: "c \<in> set (dec_digits n) \<Longrightarrow> 48 \<le> (of_char c :: int) \<and> (of_char c :: int) \<le> 57"
proof (induction n rule: dec_digits.induct)
  case (1 n)
  have d: "of_char (digit_char m) = (48 + m :: int)" if "0 \<le> m" "m < 10" for m
  proof -
    have "(of_char (digit_char m) :: nat) = 48 + nat m"
      using that by (simp add: digit_char_def of_char_of)
    then have "int (of_char (digit_char m)) = 48 + m" using that by simp
    then show ?thesis by (simp only: of_nat_of_char)
  qed
  show ?case
  proof (cases "n < 10")
    case True
    then show ?thesis using 1(2) d [of "max 0 n"] by (subst (asm) dec_digits.simps) auto
  next
    case False
    then have "c \<in> set (dec_digits (n div 10)) \<or> c = digit_char (n mod 10)"
      using 1(2) by (subst (asm) dec_digits.simps) auto
    then show ?thesis using 1(1) False d [of "n mod 10"] by auto
  qed
qed

lemma lex_number_Itoa: "lex_number (Itoa (int n))"
proof -
  let ?s = "dec_digits (int n)"
  have a: "ascii ?s" by (auto simp: ascii_def dest: dec_digits_range)
  have "IsDigit r \<and> \<not> IsSpace r" if "48 \<le> r" "r \<le> 57" for r
    using that by (simp add: IsDigit_def IsSpace_def in_ranges_def digit_ranges_def space_ranges_def)
  then have "list_all (\<lambda>r. IsDigit r \<and> \<not> IsSpace r) (map of_char ?s)"
    using dec_digits_range by (auto simp: list_all_iff)
  then show ?thesis
    using a by (cases ?s) (auto simp: Itoa_def lex_number_def ascii_utf8 runes_of_ascii list_all_iff)
qed

lemma num_value: "lexed_value (NumValue (Itoa (int n)))" "plain_value (NumValue (Itoa (int n)))"
  "sqlVal (NumValue (Itoa (int n))) = Itoa (int n)"
  by (simp_all add: lexed_value_def NumValue_def lex_number_Itoa plain_value_def sqlVal_def)

lemma str_value: "lexed_value (StrValue s) = utf8 s" "plain_value (StrValue s) = plain s"
  "sqlVal (StrValue s) = [squote] @ s @ [squote]"
  by (simp_all add: lexed_value_def StrValue_def plain_value_def sqlVal_def)

lemma pools_ok:
  "\<forall>s \<in> set provinces. utf8 s \<and> plain s" "\<forall>s \<in> set genders. utf8 s \<and> plain s"
  "\<forall>s \<in> set incomeLevels. utf8 s \<and> plain s" "\<forall>s \<in> set riskLevels. utf8 s \<and> plain s"
  "utf8 category_prefix" "plain category_prefix"
  by code_simp+

lemma fields_ok:
  "lex_ident ''age''" "lex_ident ''province''" "lex_ident ''income_level''" "lex_ident ''favorite_category''"
  "lex_ident ''active_score''" "lex_ident ''vip_level''" "lex_ident ''gender''" "lex_ident ''total_amount''"
  "lex_ident ''login_days_30d''" "lex_ident ''risk_level''" "lex_ident ''credit_score''"
  by code_simp+

text \<open>A text that is one predicate on a field.\<close>

definition is_pred :: "string \<Rightarrow> string \<Rightarrow> Node \<Rightarrow> bool" where
  "is_pred t key n \<longleftrightarrow> boseg t (tks n) \<and> lexed_node n \<and> plain_node n \<and> is_leaf n \<and> node_fields n = {key}"

lemma num_pred_ok:
  assumes "lex_ident f" "List.member cmp_ops op"
  shows "is_pred (num_pred f op n) f (Compare f op (NumValue (Itoa (int n))))"
  using assms boseg_emit [of "Compare f op (NumValue (Itoa (int n)))"]
  by (simp add: is_pred_def num_pred_def num_value)

lemma str_pred_ok:
  assumes "lex_ident f" "utf8 s" "plain s"
  shows "is_pred (str_pred f s) f (Compare f ''='' (StrValue s))"
  using assms boseg_emit [of "Compare f ''='' (StrValue s)"]
  by (simp add: is_pred_def str_pred_def str_value cmp_ops_def)

lemma in_pred_ok:
  assumes "lex_ident f" "xs \<noteq> []" "\<forall>s \<in> set xs. utf8 s \<and> plain s"
  shows "is_pred (in_pred f xs) f (In f (map StrValue xs) False)"
proof -
  have "bseg (squote # x @ [squote]) [(tString, x)]" if "utf8 x" "plain x" for x
    using bseg_string [OF that] by simp
  then have "boseg (inList xs) (Join (map (\<lambda>x. [vtk (StrValue x)]) xs) [(tComma, '','')])"
    unfolding inList_def
    using assms(2,3) bseg_const(4)
    by (intro boseg_Join) (auto simp: vtk_def StrValue_def bfollow_def intro!: bseg_imp_boseg)
  then have "boseg (inList xs) (vals_tks (map StrValue xs))"
    by (simp add: vals_tks_def comp_def)
  then have "boseg (f @ '' '' @ ''IN'' @ '' '' @ (CHR ''('' # inList xs @ '')''))
      ([(tIdent, f)] @ [(tIn, ''IN'')] @ paren_tks (vals_tks (map StrValue xs)))"
    by (intro boseg_sp boseg_ident boseg_keyword boseg_paren assms(1))
  then show ?thesis
    using assms by (simp add: is_pred_def in_pred_def list_all_iff str_value)
qed

lemma between_pred_ok:
  assumes "lex_ident f"
  shows "is_pred (between_pred f a b) f (Between f (NumValue (Itoa (int a))) (NumValue (Itoa (int b))))"
  using assms boseg_emit [of "Between f (NumValue (Itoa (int a))) (NumValue (Itoa (int b)))"]
  by (simp add: is_pred_def between_pred_def num_value)

lemma like_pred_ok:
  assumes "lex_ident f" "utf8 p" "plain p"
  shows "is_pred (like_pred f p) f (Like f p False)"
  using assms boseg_emit [of "Like f p False"] by (simp add: is_pred_def like_pred_def)

text \<open>What the library promises of its generator.\<close>

definition rng_ok :: "'g int_n \<Rightarrow> 'g perm_n \<Rightarrow> bool" where
  "rng_ok IntN Perm \<longleftrightarrow> (\<forall>g n. 0 < n \<longrightarrow> fst (IntN g n) < n)
    \<and> (\<forall>g n. mset (fst (Perm g n)) = mset [0..<n])"

lemma pick_in: "rng_ok IntN Perm \<Longrightarrow> xs \<noteq> [] \<Longrightarrow> pick IntN g xs = (x, g') \<Longrightarrow> x \<in> set xs"
  by (auto simp: pick_def rng_ok_def split: prod.splits) (metis fst_conv length_greater_0_conv nth_mem)

lemma pickN_in:
  assumes "rng_ok IntN Perm" "pickN Perm g xs (Suc k) = (ys, g')" "xs \<noteq> []"
  shows "ys \<noteq> [] \<and> set ys \<subseteq> set xs"
proof (cases "Suc k \<ge> length xs")
  case True
  then show ?thesis using assms(2,3) by (auto simp: pickN_def)
next
  case False
  obtain p g1 where p: "Perm g (length xs) = (p, g1)" by fastforce
  then have m: "mset p = mset [0..<length xs]" using assms(1) by (metis rng_ok_def fst_conv)
  then have "set p = {0..<length xs}" "length p = length xs"
    using mset_eq_setD [OF m] mset_eq_length [OF m] by auto
  then show ?thesis
    using False assms(2,3) p by (auto simp: pickN_def dest!: in_set_takeD)
qed

lemma predicate_ok:
  assumes "rng_ok IntN Perm" "predicate IntN Perm g = ((t, key), g')"
  shows "\<exists>n. is_pred t key n"
proof -
  note pools = provinces_def genders_def incomeLevels_def riskLevels_def
  have ne: "provinces \<noteq> []" "genders \<noteq> []" "incomeLevels \<noteq> []" "riskLevels \<noteq> []" by (simp_all add: pools)
  have ops: "List.member cmp_ops ''>=''" "List.member cmp_ops ''>''" "List.member cmp_ops ''<''"
    by (simp_all add: cmp_ops_def)
  have num: "\<exists>n. is_pred (num_pred f op k) f n" if "lex_ident f" "List.member cmp_ops op" for f op k
    using num_pred_ok [OF that] by blast
  have bet: "\<exists>n. is_pred (between_pred ''age'' a b) ''age'' n" for a b
    using between_pred_ok [OF fields_ok(1)] by blast
  have lik: "\<exists>n. is_pred (like_pred ''favorite_category'' category_prefix) ''favorite_category'' n"
    using like_pred_ok [OF fields_ok(4) pools_ok(5,6)] by blast
  have str: "\<exists>n. is_pred (str_pred f x) f n"
    if "lex_ident f" "pick IntN g xs = (x, g')" "xs \<noteq> []" "\<forall>s \<in> set xs. utf8 s \<and> plain s" for f x g g' xs
    using str_pred_ok that pick_in [OF assms(1) that(3,2)] by blast
  have inp: "\<exists>n. is_pred (in_pred f ys) f n"
    if "lex_ident f" "pickN Perm g xs (Suc k) = (ys, g')" "xs \<noteq> []" "\<forall>s \<in> set xs. utf8 s \<and> plain s" for f ys g g' xs k
    using in_pred_ok that pickN_in [OF assms(1) that(2,3)] by blast
  show ?thesis
    using assms(2) unfolding predicate_def
    by (auto split: prod.splits if_splits intro: num bet lik fields_ok ops
        inp [OF fields_ok(2) _ ne(1) pools_ok(1)] inp [OF fields_ok(3) _ ne(3) pools_ok(3)]
        str [OF fields_ok(7) _ ne(2) pools_ok(2)] str [OF fields_ok(10) _ ne(4) pools_ok(4)])
qed

section \<open>Every rule parses\<close>

text \<open>The fields of the templates.\<close>

definition rule_keys :: "string list" where
  "rule_keys = [''age'', ''province'', ''income_level'', ''favorite_category'', ''active_score'', ''vip_level'',
     ''gender'', ''total_amount'', ''login_days_30d'', ''risk_level'', ''credit_score'']"

lemma predicate_key: "predicate IntN Perm g = ((t, key), g') \<Longrightarrow> key \<in> set rule_keys"
  unfolding predicate_def rule_keys_def by (auto split: prod.splits if_splits)


text \<open>The state after \<open>n\<close> draws, and a state from which every draw is on one of the fields \<open>ks\<close>.\<close>

definition draws :: "('g \<Rightarrow> (string \<times> string) \<times> 'g) \<Rightarrow> nat \<Rightarrow> 'g \<Rightarrow> 'g" where
  "draws pr n g = ((\<lambda>g. snd (pr g)) ^^ n) g"

definition stuck :: "('g \<Rightarrow> (string \<times> string) \<times> 'g) \<Rightarrow> string list \<Rightarrow> 'g \<Rightarrow> bool" where
  "stuck pr ks g \<longleftrightarrow> (\<forall>n. snd (fst (pr (draws pr n g))) \<in> set ks)"

lemma pred_loop_draw:
  assumes "length preds < nPred"
  shows "pred_loop pr nPred preds seen g = (if snd (fst (pr g)) \<in> set seen
    then pred_loop pr nPred preds seen (snd (pr g))
    else pred_loop pr nPred (preds @ [fst (fst (pr g))]) (seen @ [snd (fst (pr g))]) (snd (pr g)))"
proof -
  obtain p k g2 where "pr g = ((p, k), g2)" by (metis prod.exhaust)
  then show ?thesis using assms by (subst pred_loop.simps) simp
qed

lemma pred_loop_skip:
  assumes "length preds < nPred"
  shows "snd (fst (pr (draws pr n g))) \<notin> set seen \<Longrightarrow>
    \<exists>g1. snd (fst (pr g1)) \<notin> set seen \<and> pred_loop pr nPred preds seen g =
      pred_loop pr nPred (preds @ [fst (fst (pr g1))]) (seen @ [snd (fst (pr g1))]) (snd (pr g1))"
proof (induction n arbitrary: g)
  case 0
  then show ?case
    using assms by (intro exI [of _ g]) (simp add: pred_loop_draw draws_def)
next
  case (Suc n)
  show ?case
  proof (cases "snd (fst (pr g)) \<in> set seen")
    case True
    have "pred_loop pr nPred preds seen g = pred_loop pr nPred preds seen (snd (pr g))"
      using True pred_loop_draw [OF assms, of pr seen g] by simp
    moreover have "snd (fst (pr (draws pr n (snd (pr g))))) \<notin> set seen"
      using Suc(2) by (simp only: draws_def funpow_Suc_right comp_apply not_False_eq_True)
    ultimately show ?thesis using Suc(1) by auto
  next
    case False
    then show ?thesis
      using assms by (intro exI [of _ g]) (simp add: pred_loop_draw)
  qed
qed

text \<open>The state of the loop: predicates drawn from the generator on distinct fields.\<close>

definition drawn :: "('g \<Rightarrow> (string \<times> string) \<times> 'g) \<Rightarrow> string list \<Rightarrow> string list \<Rightarrow> bool" where
  "drawn pr preds seen \<longleftrightarrow> distinct seen \<and> list_all2 (\<lambda>p k. \<exists>g. fst (pr g) = (p, k)) preds seen"

text \<open>What the loop returns, and the only way in which it does not return.\<close>

definition loop_post ::
  "('g \<Rightarrow> (string \<times> string) \<times> 'g) \<Rightarrow> nat \<Rightarrow> string list \<Rightarrow> string list \<Rightarrow> string list \<times> string list \<times> 'g \<Rightarrow> bool" where
  "loop_post pr nPred preds seen res \<longleftrightarrow> (drawn pr preds seen \<and> length preds \<le> nPred \<longrightarrow>
    drawn pr (fst res) (fst (snd res)) \<and> length (fst res) = nPred)"

lemma pred_loop_post: "pred_loop pr nPred preds seen g = Some res \<Longrightarrow> loop_post pr nPred preds seen res"
proof (rule pred_loop.raw_induct [where P = "\<lambda>pr nPred preds seen g res. loop_post pr nPred preds seen res"])
  fix loop and pr :: "'g \<Rightarrow> (string \<times> string) \<times> 'g" and nPred preds seen g res
  assume ih: "\<And>pr nPred preds seen g res. loop pr nPred preds seen g = Some res \<Longrightarrow> loop_post pr nPred preds seen res"
    and body: "(if length preds < nPred then let ((p, key), g') = pr g in
       if key \<in> set seen then loop pr nPred preds seen g' else loop pr nPred (preds @ [p]) (seen @ [key]) g'
     else Some (preds, seen, g)) = Some res"
  obtain p key g1 where d: "pr g = ((p, key), g1)" by (metis prod.exhaust)
  consider (full) "\<not> length preds < nPred" | (again) "length preds < nPred" "key \<in> set seen"
    | (new) "length preds < nPred" "key \<notin> set seen" by blast
  then show "loop_post pr nPred preds seen res"
  proof cases
    case full
    then show ?thesis using body by (auto simp: loop_post_def)
  next
    case again
    then show ?thesis using body d ih [of pr nPred preds seen g1 res] by simp
  next
    case new
    then have "drawn pr (preds @ [p]) (seen @ [key])" if "drawn pr preds seen"
      using that d by (auto simp: drawn_def intro!: list_all2_appendI exI [of _ g])
    then show ?thesis
      using new body d ih [of pr nPred "preds @ [p]" "seen @ [key]" g1 res] by (simp add: loop_post_def)
  qed
qed

lemma pred_loop_drawn:
  assumes "pred_loop pr nPred preds seen g = Some (preds', seen', g')" "drawn pr preds seen" "length preds \<le> nPred"
  shows "drawn pr preds' seen' \<and> length preds' = nPred"
  using pred_loop_post [OF assms(1)] assms(2,3) by (simp add: loop_post_def)

lemma pred_loop_returns:
  assumes "\<And>ks g. length ks \<le> 4 \<Longrightarrow> \<not> stuck pr ks g" "nPred \<le> 5"
  shows "drawn pr preds seen \<Longrightarrow> length preds \<le> nPred \<Longrightarrow>
    \<exists>preds' seen' g'. pred_loop pr nPred preds seen g = Some (preds', seen', g')
      \<and> drawn pr preds' seen' \<and> length preds' = nPred"
proof (induction "nPred - length preds" arbitrary: preds seen g)
  case 0
  then show ?case by (subst pred_loop.simps) simp
next
  case (Suc d)
  have len: "length seen = length preds" using Suc(3) by (auto simp: drawn_def dest: list_all2_lengthD)
  then have "length seen \<le> 4" using Suc(2) assms(2) by simp
  then obtain n where "snd (fst (pr (draws pr n g))) \<notin> set seen"
    using assms(1) unfolding stuck_def by blast
  then obtain g1 where g1: "snd (fst (pr g1)) \<notin> set seen" "pred_loop pr nPred preds seen g =
      pred_loop pr nPred (preds @ [fst (fst (pr g1))]) (seen @ [snd (fst (pr g1))]) (snd (pr g1))"
    using pred_loop_skip [of preds nPred pr n g seen] Suc(2) by (metis zero_less_Suc zero_less_diff)
  have "drawn pr (preds @ [fst (fst (pr g1))]) (seen @ [snd (fst (pr g1))])"
    using Suc(3) g1(1) by (auto simp: drawn_def intro!: list_all2_appendI exI [of _ g1])
  then show ?case
    using Suc(1) [of "preds @ [fst (fst (pr g1))]" "seen @ [snd (fst (pr g1))]" "snd (pr g1)"] Suc(2) g1(2) by simp
qed

lemma Parse_conjunction:
  assumes "list_all2 (\<lambda>p n. boseg p (tks n)) ps ns" "list_all lexed_node ns" "list_all is_leaf ns" "2 \<le> length ns"
  shows "Parse (Join ps '' AND '') = Inr (Logic ''AND'' ns)"
proof -
  have "is_leaf n \<Longrightarrow> \<not> is_logic n" for n by (cases n) simp_all
  then have leaf: "\<not> is_logic n" if "n \<in> set ns" for n
    using that assms(3) by (auto simp: list_all_iff)
  have zip: "map fst (zip ps ns) = ps" "map snd (zip ps ns) = ns"
    using list_all2_lengthD [OF assms(1)] by simp_all
  have "boseg (Join (map fst (zip ps ns)) ('' '' @ ''AND'' @ '' ''))
      (Join (map (\<lambda>x. tks (snd x)) (zip ps ns)) [op_tk ''AND''])"
    using assms(1,4) boseg_logic_sep [of "''AND''"]
    by (intro boseg_Join) (auto simp: list_all2_iff bfollow_def)
  moreover have "map (\<lambda>x. tks (snd x)) (zip ps ns) = map (\<lambda>a. if is_logic a then paren_tks (tks a) else tks a) ns"
    using leaf zip(2) by (metis (mono_tags, lifting) list.map_comp map_cong comp_apply)
  ultimately have b: "boseg (Join ps '' AND '') (tks (Logic ''AND'' ns))"
    by (simp add: zip(1))
  then have "lexes (runes_of (Join ps '' AND '') @ []) (tks (Logic ''AND'' ns) @ [(tEOF, [])])"
    using lexes_Nil unfolding boseg_def oseg_def follow_def by blast
  then obtain ts where "lexAll (Join ps '' AND '') = Inr ts" "map tk ts = tks (Logic ''AND'' ns) @ [(tEOF, [])]"
    by (auto simp: lexes_def lexAll_def newLexer_def)
  then show ?thesis
    using assms(2,4) by (intro Parse_tokens) auto
qed

text \<open>What a generated rule is: an enabled rule with the number of its position whose text parses to a
  conjunction of two to five single predicates, without quotes in their strings, on different fields
  of the templates.\<close>

definition sample_rule :: "nat \<Rightarrow> Rule \<Rightarrow> bool" where
  "sample_rule i r \<longleftrightarrow> rID r = 10000 + int i \<and> rName r = ''rule_'' @ pad5 i \<and> rEnabled r
    \<and> 0 \<le> rPriority r \<and> rPriority r < 20
    \<and> (\<exists>ns ks. Parse (rExpr r) = Inr (Logic ''AND'' ns) \<and> 2 \<le> length ns \<and> length ns \<le> 5
         \<and> list_all is_leaf ns \<and> list_all plain_node ns \<and> distinct ks \<and> set ks \<subseteq> set rule_keys \<and> map node_fields ns = map (\<lambda>k. {k}) ks)"

lemma drawn_parses:
  assumes "rng_ok IntN Perm" "drawn (predicate IntN Perm) preds seen" "2 \<le> length preds"
  shows "\<exists>ns. Parse (Join preds '' AND '') = Inr (Logic ''AND'' ns) \<and> length ns = length preds
    \<and> list_all is_leaf ns \<and> list_all plain_node ns \<and> map node_fields ns = map (\<lambda>k. {k}) seen"
proof -
  have "list_all2 (\<lambda>p k. \<exists>n. is_pred p k n) preds seen"
    using assms(2) predicate_ok [OF assms(1)] unfolding drawn_def
    by (auto elim!: list_all2_mono) (metis prod.collapse)
  then have len: "length seen = length preds" and "\<forall>i < length preds. \<exists>n. is_pred (preds ! i) (seen ! i) n"
    by (simp_all add: list_all2_conv_all_nth)
  then obtain ns where ns: "length ns = length preds"
    "\<forall>i < length preds. is_pred (preds ! i) (seen ! i) (ns ! i)"
    unfolding Skolem_list_nth by blast
  then have "list_all2 (\<lambda>p n. boseg p (tks n)) preds ns" "list_all lexed_node ns" "list_all is_leaf ns" "list_all plain_node ns"
    "map node_fields ns = map (\<lambda>k. {k}) seen"
    using len by (auto simp: is_pred_def list_all2_conv_all_nth list_all_length intro: nth_equalityI)
  then show ?thesis using ns(1) assms(3) Parse_conjunction [of preds ns] by auto
qed

lemma drawn_keys: "drawn (predicate IntN Perm) preds seen \<Longrightarrow> set seen \<subseteq> set rule_keys"
  unfolding drawn_def
  by (clarsimp simp: list_all2_conv_all_nth in_set_conv_nth) (metis predicate_key prod.collapse nth_mem in_set_conv_nth)

lemma gen_rule_sample:
  assumes "rng_ok IntN Perm" "gen_rule IntN Perm i g = Some (r, g')"
  shows "sample_rule i r"
proof -
  obtain n g1 where n: "IntN g 4 = (n, g1)" by fastforce
  have below: "fst (IntN g k) < k" if "0 < k" for g k using assms(1) that by (simp add: rng_ok_def)
  have "n < 4" using below [of 4 g] n by simp
  obtain preds seen g2 where loop: "pred_loop (predicate IntN Perm) (2 + n) [] [] g1 = Some (preds, seen, g2)"
    using assms(2) n by (auto simp: gen_rule_def split: option.splits)
  then have l: "drawn (predicate IntN Perm) preds seen" "length preds = 2 + n"
    using pred_loop_drawn [OF loop] by (auto simp: drawn_def)
  obtain pri g3 where pri: "IntN g2 20 = (pri, g3)" by fastforce
  then have "pri < 20" using below [of 20 g2] by simp
  moreover have "distinct seen" "set seen \<subseteq> set rule_keys" using drawn_keys [OF l(1)] l(1) by (simp_all add: drawn_def)
  ultimately show ?thesis
    using n l loop pri \<open>n < 4\<close> drawn_parses [OF assms(1) l(1)] assms(2)
    by (auto simp: gen_rule_def sample_rule_def)
qed

lemma gen_rules_sample:
  assumes "rng_ok IntN Perm"
  shows "gen_rules IntN Perm is g = Some (rs, g') \<Longrightarrow> list_all2 sample_rule is rs"
  using gen_rule_sample [OF assms]
  by (induction "is" arbitrary: g rs) (fastforce split: option.splits prod.splits)+

lemma gen_rule_returns:
  assumes "rng_ok IntN Perm" "gen_rule IntN Perm i g = None"
  shows "\<exists>ks g. length ks \<le> 4 \<and> stuck (predicate IntN Perm) ks g"
proof (rule ccontr)
  assume "\<not> (\<exists>ks g. length ks \<le> 4 \<and> stuck (predicate IntN Perm) ks g)"
  then have fair: "\<not> stuck (predicate IntN Perm) ks g" if "length ks \<le> 4" for ks g using that by blast
  obtain n g1 where n: "IntN g 4 = (n, g1)" by fastforce
  have "fst (IntN g 4) < 4" using assms(1) by (simp add: rng_ok_def)
  then have "2 + n \<le> 5" using n by simp
  from pred_loop_returns [OF fair this, of "[]" "[]" g1] obtain res
    where "pred_loop (predicate IntN Perm) (2 + n) [] [] g1 = Some res" by (auto simp: drawn_def)
  then show False using assms(2) n by (auto simp: gen_rule_def split: prod.splits)
qed

lemma gen_rules_returns:
  assumes "rng_ok IntN Perm"
  shows "gen_rules IntN Perm is g = None \<Longrightarrow> \<exists>ks g. length ks \<le> 4 \<and> stuck (predicate IntN Perm) ks g"
  using gen_rule_returns [OF assms] by (induction "is" arbitrary: g) (auto split: option.splits)

text \<open>Every rule the generator returns is well formed: asked for \<open>n\<close> rules it gives \<open>n\<close> enabled
  rules numbered from 10000 in order, and the text of each is accepted by the rule parser as the
  conjunction of two to five single predicates on different fields, nothing being swallowed or
  regrouped by the quoting, the \<^verbatim>\<open>BETWEEN ... AND\<close> or the value lists. The only way in which it does
  not return is that, from some state on, every draw is on one of at most four fields. Of the
  random library it is used that a number drawn is below its bound and that a permutation is one.\<close>

theorem gen_Rules_parse:
  assumes "rng_ok IntN Perm"
  shows "case gen_Rules IntN Perm n g of
    Some (rs, g') \<Rightarrow> list_all2 sample_rule [0..<n] rs
  | None \<Rightarrow> (\<exists>ks g. length ks \<le> 4 \<and> stuck (predicate IntN Perm) ks g)"
  using gen_rules_sample [OF assms] gen_rules_returns [OF assms]
  by (auto simp: gen_Rules_def split: option.split)

text \<open>A generator that walks through the eleven templates.\<close>

definition walk_IntN :: "nat int_n" where
  "walk_IntN g n = (if n = 11 then (g mod 11, Suc g) else (0, g))"

definition walk_Perm :: "nat perm_n" where
  "walk_Perm g n = ([0..<n], g)"

lemma walk_ok: "rng_ok walk_IntN walk_Perm"
  by (simp add: rng_ok_def walk_IntN_def walk_Perm_def)

lemma walk_predicate:
  "snd (fst (predicate walk_IntN walk_Perm g)) = rule_keys ! (g mod 11)"
  "snd (predicate walk_IntN walk_Perm g) = Suc g"
proof -
  have "m \<in> {0, 1, 2, 3, 4, 5, 6, 7, 8, 9, 10}" if "m < 11" for m :: nat
    using that by (simp add: less_Suc_eq eval_nat_numeral)
  then have c: "g mod 11 \<in> {0, 1, 2, 3, 4, 5, 6, 7, 8, 9, 10}" by simp
  show "snd (fst (predicate walk_IntN walk_Perm g)) = rule_keys ! (g mod 11)"
    using c by (auto simp: predicate_def walk_IntN_def walk_Perm_def rule_keys_def pickN_def pick_def split: prod.splits)
  show "snd (predicate walk_IntN walk_Perm g) = Suc g"
    using c by (auto simp: predicate_def walk_IntN_def walk_Perm_def pickN_def pick_def genders_def riskLevels_def split: prod.splits)
qed

lemma walk_moves:
  assumes "length ks \<le> 4"
  shows "\<not> stuck (predicate walk_IntN walk_Perm) ks g"
proof -
  have it: "draws (predicate walk_IntN walk_Perm) n g = n + g" for n g
    unfolding draws_def by (induction n) (simp_all add: walk_predicate)
  have "\<exists>n. rule_keys ! ((n + g) mod 11) \<notin> set ks" if "length ks \<le> 4" for g ks
  proof -
    have "length rule_keys = 11" "card (set rule_keys) = 11" by code_simp+
    then have "\<not> set rule_keys \<subseteq> set ks"
      using that card_mono [of "set ks" "set rule_keys"] card_length [of ks] by fastforce
    then obtain j where j: "j < 11" "rule_keys ! j \<notin> set ks"
      using card_length [of rule_keys] \<open>length rule_keys = 11\<close> by (metis in_set_conv_nth subsetI)
    have "j + 10 * g + g = j + g * 11" by simp
    then have "(j + 10 * g + g) mod 11 = j" using j(1) by (simp only: mod_mult_self1 mod_less)
    then show ?thesis using j(2) by (metis)
  qed
  then show ?thesis using assms by (simp add: stuck_def it walk_predicate)
qed

theorem gen_Rules_parse_witness:
  "\<exists>rs g'. gen_Rules walk_IntN walk_Perm 3 7 = Some (rs, g') \<and> list_all2 sample_rule [0..<3] rs"
  using gen_Rules_parse [OF walk_ok, of 3 7] walk_moves by (auto split: option.splits)

section \<open>The store finds the last user added\<close>

lemma store_AddAll_index:
  "us_users (store_AddAll s users) = us_users s @ users"
  by (induction users arbitrary: s) (simp_all add: store_AddAll_def store_Add_def)

text \<open>The index of a store points, for every identifier in its slice, to the last user with it.\<close>

definition store_wf :: "UserStore \<Rightarrow> bool" where
  "store_wf s \<longleftrightarrow> (\<forall>uid. store_Get s uid = List.find (\<lambda>u. UID u = uid) (rev (us_users s)))
    \<and> (\<forall>uid i. us_index s uid = Some i \<longrightarrow> i < length (us_users s))"

lemma store_Add_wf: "store_wf s \<Longrightarrow> store_wf (store_Add s u)"
  unfolding store_wf_def store_Add_def store_Get_def
  by (auto simp: nth_append less_SucI split: option.splits) (metis option.distinct(1))

lemma NewUserStoreFrom_wf: "store_wf (NewUserStoreFrom users)"
proof -
  have "store_wf s \<Longrightarrow> store_wf (store_AddAll s users)" for s
    by (induction users arbitrary: s) (simp_all add: store_AddAll_def store_Add_wf)
  then show ?thesis
    by (simp add: NewUserStoreFrom_def NewUserStore_def store_wf_def store_Get_def)
qed

text \<open>A store built from a slice of users, and any store grown from it, refines the slice: looking up an
  identifier gives the last user added with it and fails only when none was, \<open>All\<close> gives the users in
  the order they were added and \<open>Len\<close> their number.\<close>

theorem UserStore_refines:
  "let s = store_AddAll (NewUserStoreFrom users) others in
    store_Get s uid = List.find (\<lambda>u. UID u = uid) (rev (users @ others))
    \<and> store_All s = users @ others \<and> store_Len s = length users + length others"
proof -
  have "store_AddAll (NewUserStoreFrom users) others = NewUserStoreFrom (users @ others)"
    by (simp add: NewUserStoreFrom_def store_AddAll_def)
  moreover have "us_users (NewUserStoreFrom (users @ others)) = users @ others"
    by (simp add: NewUserStoreFrom_def store_AddAll_index NewUserStore_def)
  ultimately show ?thesis
    using NewUserStoreFrom_wf [of "users @ others"]
    by (simp add: Let_def store_wf_def store_All_def store_Len_def)
qed

end
