(* ===== verification/Sample_Users.thy ===== *)
theory Sample_Users
  imports Sample_Data Statistics
begin

text \<open>
  Sample users, the method \<open>Users\<close> of \<^verbatim>\<open>internal/datasource/generator.go\<close>. A user's fields are drawn
  column by column in the order of the map literal; a column is its name with a function that draws
  its value. \<open>Float64\<close> stands for the generator's number below one. The fields of a sample user are
  shown to cover every field a sample rule can ask for, with the dynamic type the rule expects.
\<close>

section \<open>Value pools\<close>

definition cities :: "(string \<times> string list) list" where
  "cities = map (\<lambda>(p, cs). (string_of_runes p, map string_of_runes cs))
    [([0x5E7F, 0x4E1C], [[0x6DF1, 0x5733], [0x5E7F, 0x5DDE], [0x4E1C, 0x839E]]),
     ([0x6C5F, 0x82CF], [[0x5357, 0x4EAC], [0x82CF, 0x5DDE], [0x65E0, 0x9521]]),
     ([0x6D59, 0x6C5F], [[0x676D, 0x5DDE], [0x5B81, 0x6CE2], [0x6E29, 0x5DDE]]),
     ([0x4E0A, 0x6D77], [[0x4E0A, 0x6D77]]),
     ([0x5317, 0x4EAC], [[0x5317, 0x4EAC]]),
     ([0x56DB, 0x5DDD], [[0x6210, 0x90FD], [0x7EF5, 0x9633]]),
     ([0x5C71, 0x4E1C], [[0x6D4E, 0x5357], [0x9752, 0x5C9B]]),
     ([0x6E56, 0x5317], [[0x6B66, 0x6C49], [0x5B9C, 0x660C]]),
     ([0x798F, 0x5EFA], [[0x798F, 0x5DDE], [0x53A6, 0x95E8]]),
     ([0x6E56, 0x5357], [[0x957F, 0x6C99], [0x682A, 0x6D32]])]"

definition occupations :: "string list" where
  "occupations = map string_of_runes
    [[0x7A0B, 0x5E8F, 0x5458], [0x6559, 0x5E08], [0x9500, 0x552E], [0x5B66, 0x751F], 
     [0x4EA7, 0x54C1, 0x7ECF, 0x7406], [0x8BBE, 0x8BA1, 0x5E08], [0x533B, 0x751F], 
     [0x5F8B, 0x5E08], [0x81EA, 0x7531, 0x804C, 0x4E1A], [0x516C, 0x52A1, 0x5458]]"

definition educations :: "string list" where
  "educations = map string_of_runes
    [[0x9AD8, 0x4E2D], [0x5927, 0x4E13], [0x672C, 0x79D1], [0x7855, 0x58EB], [0x535A, 0x58EB]]"

definition maritalStatus :: "string list" where
  "maritalStatus = map string_of_runes
    [[0x672A, 0x5A5A], [0x5DF2, 0x5A5A], [0x79BB, 0x5F02]]"

definition categories :: "string list" where
  "categories = map string_of_runes
    [[0x6570, 0x7801], [0x6570, 0x7801, 0x4EA7, 0x54C1], [0x56FE, 0x4E66], [0x6C7D, 0x8F66], 
     [0x7F8E, 0x5986], [0x5BB6, 0x7535], [0x670D, 0x9970], [0x98DF, 0x54C1], [0x6BCD, 0x5A74], 
     [0x8FD0, 0x52A8]]"

definition deviceTypes :: "string list" where
  "deviceTypes = [''iPhone'', ''Android'', ''iPad'', ''Windows'', ''Mac'']"

definition osTypes :: "string list" where
  "osTypes = [''iOS'', ''Android'', ''Windows'', ''macOS'']"

definition browsers :: "string list" where
  "browsers = [''Safari'', ''Chrome'', ''Edge'', ''Firefox'']"

definition appVersions :: "string list" where
  "appVersions = [''8.0.0'', ''8.1.5'', ''8.2.0'', ''8.2.1'', ''9.0.0'']"

definition tagPool :: "string list" where
  "tagPool = map string_of_runes
    [[0x9AD8, 0x4EF7, 0x503C], [0x6570, 0x7801, 0x7231, 0x597D, 0x8005], [0x591C, 0x732B, 0x5B50], 
     [0x4EB2, 0x5B50], [0x6559, 0x80B2], [0x9AD8, 0x9891, 0x767B, 0x5F55], [0x5546, 0x52A1], 
     [0x5FE0, 0x8BDA, 0x7528, 0x6237], [0x5B66, 0x751F], [0x4EF7, 0x683C, 0x654F, 0x611F], 
     [0x4F1A, 0x5458], [0x667A, 0x80FD, 0x5BB6, 0x5C45], [0x9AD8, 0x51C0, 0x503C], 
     [0x9AD8, 0x6D88, 0x8D39]]"

section \<open>Drawing a user\<close>

definition f64_const :: "int \<Rightarrow> float64" where
  "f64_const k = float64_of_int k"

definition round2 :: "(float64 \<Rightarrow> int) \<Rightarrow> float64 \<Rightarrow> float64" where
  "round2 oor f = f64_div (float64_of_int (trunc64 oor (f64_add (f64_mul f (f64_const 100)) (round64 False 1 2))))
     (f64_const 100)"

type_synonym 'g float_n = "'g \<Rightarrow> float64 \<times> 'g"
type_synonym 'g column = "string \<times> ('g \<Rightarrow> any \<times> 'g)"

definition col :: "string \<Rightarrow> any \<Rightarrow> 'g column" where
  "col name v = (name, \<lambda>g. (v, g))"

definition col_pick :: "'g int_n \<Rightarrow> string \<Rightarrow> string list \<Rightarrow> 'g column" where
  "col_pick IntN name xs = (name, \<lambda>g. case pick IntN g xs of (x, g) \<Rightarrow> (AString x, g))"

definition col_int :: "'g int_n \<Rightarrow> string \<Rightarrow> nat \<Rightarrow> nat \<Rightarrow> 'g column" where
  "col_int IntN name base n = (name, \<lambda>g. case IntN g n of (k, g) \<Rightarrow> (AInt (of_nat (base + k)), g))"

definition col_score :: "(float64 \<Rightarrow> int) \<Rightarrow> 'g float_n \<Rightarrow> string \<Rightarrow> 'g column" where
  "col_score oor Float64 name = (name, \<lambda>g. case Float64 g of (x, g) \<Rightarrow> (AFloat64 (round2 oor (f64_mul x (f64_const 100))), g))"

definition pad6 :: "nat \<Rightarrow> string" where
  "pad6 n = (let d = Itoa (int n) in replicate (6 - length d) (CHR ''0'') @ d)"

definition user_columns ::
  "(float64 \<Rightarrow> int) \<Rightarrow> 'g int_n \<Rightarrow> 'g float_n \<Rightarrow> nat \<Rightarrow> string \<Rightarrow> string \<Rightarrow> nat \<Rightarrow> float64 \<Rightarrow> 'g column list" where
  "user_columns oor IntN Float64 i prov city orderCount avg =
    [col ''uid'' (AInt64 (of_nat (i + 1))),
     col ''username'' (AString (''user'' @ pad6 (i + 1))),
     col_pick IntN ''gender'' genders,
     col_int IntN ''age'' 18 50,
     col ''province'' (AString prov),
     col ''city'' (AString city),
     col_pick IntN ''occupation'' occupations,
     col_pick IntN ''education'' educations,
     col_pick IntN ''marital_status'' maritalStatus,
     col_pick IntN ''income_level'' incomeLevels,
     col_int IntN ''vip_level'' 0 6,
     col_int IntN ''register_days'' 0 2000,
     col_int IntN ''login_days_30d'' 0 31,
     col ''order_count'' (AInt (of_nat orderCount)),
     col ''total_amount'' (AFloat64 (round2 oor (f64_mul (float64_of_int (int orderCount)) avg))),
     col ''avg_order_amount'' (AFloat64 (round2 oor avg)),
     col_pick IntN ''favorite_category'' categories,
     col_pick IntN ''device_type'' deviceTypes,
     col_pick IntN ''os_type'' osTypes,
     col_pick IntN ''browser'' browsers,
     col_pick IntN ''app_version'' appVersions,
     col_score oor Float64 ''active_score'',
     col_int IntN ''credit_score'' 400 450,
     col_pick IntN ''risk_level'' riskLevels,
     col_pick IntN ''tag1'' tagPool,
     col_pick IntN ''tag2'' tagPool,
     col_pick IntN ''tag3'' tagPool]"

fun draw_columns :: "'g column list \<Rightarrow> 'g \<Rightarrow> (string \<times> any) list \<times> 'g" where
  "draw_columns [] g = ([], g)"
| "draw_columns ((name, f) # cs) g = (case f g of (v, g) \<Rightarrow>
     case draw_columns cs g of (kvs, g) \<Rightarrow> ((name, v) # kvs, g))"

definition gen_user ::
  "(float64 \<Rightarrow> int) \<Rightarrow> 'g int_n \<Rightarrow> 'g float_n \<Rightarrow> nat \<Rightarrow> 'g \<Rightarrow> User \<times> 'g" where
  "gen_user oor IntN Float64 i g = (case pick IntN g provinces of (prov, g) \<Rightarrow>
     case pick IntN g (the (map_of cities prov)) of (city, g) \<Rightarrow>
     case IntN g 400 of (orderCount, g) \<Rightarrow>
     case Float64 g of (x, g) \<Rightarrow>
     let avg = f64_add (f64_const 50) (f64_mul x (f64_const 500)) in
     case draw_columns (user_columns oor IntN Float64 i prov city orderCount avg) g of (kvs, g) \<Rightarrow>
     (\<lparr>uFields = map_of kvs, UID = int i + 1\<rparr>, g))"

fun gen_users :: "(float64 \<Rightarrow> int) \<Rightarrow> 'g int_n \<Rightarrow> 'g float_n \<Rightarrow> nat list \<Rightarrow> 'g \<Rightarrow> User list \<times> 'g" where
  "gen_users oor IntN Float64 [] g = ([], g)"
| "gen_users oor IntN Float64 (i # is) g = (case gen_user oor IntN Float64 i g of (u, g) \<Rightarrow>
     case gen_users oor IntN Float64 is g of (us, g) \<Rightarrow> (u # us, g))"

definition gen_Users :: "(float64 \<Rightarrow> int) \<Rightarrow> 'g int_n \<Rightarrow> 'g float_n \<Rightarrow> nat \<Rightarrow> 'g \<Rightarrow> User list \<times> 'g" where
  "gen_Users oor IntN Float64 n g = gen_users oor IntN Float64 [0..<n] g"

section \<open>The columns of a sample user\<close>

text \<open>What a column may hold: the pools and the ranges of the literal. The columns that are computed with
  floats are only said to hold one, and the three that depend on the user are fixed by \<open>sample_user\<close>.\<close>

datatype col_type = InPool "string list" | IntFrom nat nat | FloatCol | Other

definition user_schema :: "(string \<times> col_type) list" where
  "user_schema =
    [(''uid'', Other), (''username'', Other), (''gender'', InPool genders), (''age'', IntFrom 18 50),
     (''province'', InPool provinces), (''city'', Other), (''occupation'', InPool occupations),
     (''education'', InPool educations), (''marital_status'', InPool maritalStatus),
     (''income_level'', InPool incomeLevels), (''vip_level'', IntFrom 0 6), (''register_days'', IntFrom 0 2000),
     (''login_days_30d'', IntFrom 0 31), (''order_count'', IntFrom 0 400), (''total_amount'', FloatCol),
     (''avg_order_amount'', FloatCol), (''favorite_category'', InPool categories), (''device_type'', InPool deviceTypes),
     (''os_type'', InPool osTypes), (''browser'', InPool browsers), (''app_version'', InPool appVersions),
     (''active_score'', FloatCol), (''credit_score'', IntFrom 400 450), (''risk_level'', InPool riskLevels),
     (''tag1'', InPool tagPool), (''tag2'', InPool tagPool), (''tag3'', InPool tagPool)]"

fun has_type :: "any \<Rightarrow> col_type \<Rightarrow> bool" where
  "has_type v (InPool xs) \<longleftrightarrow> (\<exists>s \<in> set xs. v = AString s)"
| "has_type v (IntFrom base n) \<longleftrightarrow> (\<exists>k < n. v = AInt (of_nat (base + k)))"
| "has_type v FloatCol \<longleftrightarrow> (\<exists>x. v = AFloat64 x)"
| "has_type v Other \<longleftrightarrow> True"

definition col_ok :: "'g column \<Rightarrow> string \<times> col_type \<Rightarrow> bool" where
  "col_ok c t \<longleftrightarrow> fst c = fst t \<and> (\<forall>g. has_type (fst (snd c g)) (snd t))"

lemma draw_columns_ok:
  "list_all2 col_ok cs ts \<Longrightarrow> draw_columns cs g = (kvs, g') \<Longrightarrow>
    list_all2 (\<lambda>kv t. fst kv = fst t \<and> has_type (snd kv) (snd t)) kvs ts"
proof (induction cs ts arbitrary: g kvs rule: list_all2_induct)
  case (Cons c cs t ts)
  obtain name f where c: "c = (name, f)" by fastforce
  then show ?case using Cons by (auto simp: col_ok_def split: prod.splits) (metis fst_conv)
qed simp

lemma pool_col_ok:
  assumes "rng_ok IntN Perm" "xs \<noteq> []"
  shows "col_ok (col_pick IntN name xs) (name, InPool xs)"
  using assms pick_in [OF assms] by (auto simp: col_ok_def col_pick_def split: prod.splits)

lemma int_col_ok:
  assumes "rng_ok IntN Perm" "0 < n"
  shows "col_ok (col_int IntN name base n) (name, IntFrom base n)"
proof -
  have "fst (IntN g n) < n" for g using assms by (simp add: rng_ok_def)
  then show ?thesis by (auto simp: col_ok_def col_int_def split: prod.splits) (metis fst_conv)
qed

lemma const_col_ok: "col_ok (col name v) (name, t) \<longleftrightarrow> has_type v t"
  by (simp add: col_ok_def col_def)

lemma user_columns_ok:
  assumes "rng_ok IntN Perm" "prov \<in> set provinces" "orderCount < 400"
  shows "list_all2 col_ok (user_columns oor IntN Float64 i prov city orderCount avg) user_schema"
proof -
  have "xs \<noteq> [] \<Longrightarrow> col_ok (col_pick IntN name xs) (name, InPool xs)" for name xs
    by (rule pool_col_ok [OF assms(1)])
  moreover have "0 < n \<Longrightarrow> col_ok (col_int IntN name base n) (name, IntFrom base n)" for name base n
    by (rule int_col_ok [OF assms(1)])
  moreover have "genders \<noteq> []" "occupations \<noteq> []" "educations \<noteq> []" "maritalStatus \<noteq> []" "incomeLevels \<noteq> []"
      "categories \<noteq> []" "deviceTypes \<noteq> []" "osTypes \<noteq> []" "browsers \<noteq> []" "appVersions \<noteq> []" "riskLevels \<noteq> []" "tagPool \<noteq> []"
    by (simp_all add: genders_def occupations_def educations_def maritalStatus_def incomeLevels_def categories_def
        deviceTypes_def osTypes_def browsers_def appVersions_def riskLevels_def tagPool_def)
  moreover have "col_ok (col_score oor Float64 name) (name, FloatCol)" for name
    by (auto simp: col_ok_def col_score_def split: prod.splits)
  ultimately show ?thesis
    using assms(2,3) unfolding user_columns_def user_schema_def by (auto simp: const_col_ok)
qed

text \<open>A sample user: number \<open>i\<close>, the columns of the schema with values of their types, the name with the
  padded number, and a city of the user's province.\<close>

definition sample_user :: "nat \<Rightarrow> User \<Rightarrow> bool" where
  "sample_user i u \<longleftrightarrow> UID u = int i + 1 \<and> dom (uFields u) = set (map fst user_schema)
    \<and> (\<forall>(k, t) \<in> set user_schema. \<exists>v. uFields u k = Some v \<and> has_type v t)
    \<and> uFields u ''uid'' = Some (AInt64 (of_nat (i + 1)))
    \<and> uFields u ''username'' = Some (AString (''user'' @ pad6 (i + 1)))
    \<and> (\<exists>p c. uFields u ''province'' = Some (AString p) \<and> uFields u ''city'' = Some (AString c) \<and> c \<in> set (the (map_of cities p)))"

lemma map_of_typed:
  assumes "list_all2 (\<lambda>kv t. fst kv = fst t \<and> P (snd kv) (snd t)) kvs ts" "distinct (map fst ts)"
  shows "dom (map_of kvs) = set (map fst ts)" "\<forall>(k, t) \<in> set ts. \<exists>v. map_of kvs k = Some v \<and> P v t"
proof -
  have keys: "map fst kvs = map fst ts"
    using assms(1) by (induction rule: list_all2_induct) auto
  then show "dom (map_of kvs) = set (map fst ts)" by (metis dom_map_of_conv_image_fst list.set_map)
  have dist: "distinct (map fst kvs)" using keys assms(2) by simp
  have "\<exists>v. map_of kvs k = Some v \<and> P v t" if mem: "(k, t) \<in> set ts" for k t
  proof -
    obtain j where j: "j < length ts" "ts ! j = (k, t)" using mem by (auto simp: in_set_conv_nth)
    then have "j < length kvs" "fst (kvs ! j) = k" "P (snd (kvs ! j)) t"
      using assms(1) by (auto simp: list_all2_conv_all_nth)
    then show ?thesis using dist by (metis map_of_is_SomeI nth_mem prod.collapse)
  qed
  then show "\<forall>(k, t) \<in> set ts. \<exists>v. map_of kvs k = Some v \<and> P v t" by blast
qed

lemma schema_distinct: "distinct (map fst user_schema)"
  by (simp add: user_schema_def)

lemma cities_ok: "list_all (\<lambda>p. case map_of cities p of Some cs \<Rightarrow> cs \<noteq> [] | None \<Rightarrow> False) provinces"
  by code_simp

lemma gen_user_sample:
  assumes "rng_ok IntN Perm"
  shows "sample_user i (fst (gen_user oor IntN Float64 i g))"
proof -
  obtain prov g1 where prov: "pick IntN g provinces = (prov, g1)" by fastforce
  obtain city g2 where city: "pick IntN g1 (the (map_of cities prov)) = (city, g2)" by fastforce
  obtain orders g3 where orders: "IntN g2 400 = (orders, g3)" by fastforce
  obtain x g4 where x: "Float64 g3 = (x, g4)" by fastforce
  define avg where "avg = f64_add (f64_const 50) (f64_mul x (f64_const 500))"
  define cs where "cs = user_columns oor IntN Float64 i prov city orders avg"
  obtain kvs g5 where kvs: "draw_columns cs g4 = (kvs, g5)" by fastforce
  have u: "fst (gen_user oor IntN Float64 i g) = \<lparr>uFields = map_of kvs, UID = int i + 1\<rparr>"
    using prov city orders x kvs by (simp add: gen_user_def cs_def avg_def Let_def)
  have "provinces \<noteq> []" by (simp add: provinces_def)
  then have p: "prov \<in> set provinces" using pick_in [OF assms _ prov] by simp
  then have "the (map_of cities prov) \<noteq> []" using cities_ok by (auto simp: list_all_iff split: option.splits)
  then have c: "city \<in> set (the (map_of cities prov))" using pick_in [OF assms _ city] by simp
  have "orders < 400" using assms orders by (metis rng_ok_def fst_conv zero_less_numeral)
  then have typed: "list_all2 (\<lambda>kv t. fst kv = fst t \<and> has_type (snd kv) (snd t)) kvs user_schema"
    using draw_columns_ok [OF user_columns_ok [OF assms p] kvs [unfolded cs_def]] by simp
  have "map_of kvs ''uid'' = Some (AInt64 (of_nat (i + 1)))"
      "map_of kvs ''username'' = Some (AString (''user'' @ pad6 (i + 1)))" "map_of kvs ''province'' = Some (AString prov)"
      "map_of kvs ''city'' = Some (AString city)"
    using kvs by (auto simp: cs_def user_columns_def col_def col_pick_def col_int_def split: prod.splits)
  then show ?thesis
    using u c map_of_typed [OF typed schema_distinct] by (auto simp: sample_user_def)
qed

lemma gen_users_sample:
  assumes "rng_ok IntN Perm"
  shows "list_all2 sample_user is (fst (gen_users oor IntN Float64 is g))"
  using gen_user_sample [OF assms, of _ oor Float64]
  by (induction "is" arbitrary: g) (auto split: prod.splits, metis fst_conv, metis fst_conv)

lemma rule_fields_typed: "set rule_keys \<subseteq> set (map fst user_schema)"
  by (simp add: rule_keys_def user_schema_def)

text \<open>Sample users and sample rules fit together: the generator returns the users numbered from 1, each
  with every column of the schema, the number and the padded name, a city of the user's province, a
  value of its pool or range in the columns drawn from one, and some float in the three computed
  ones; and every field tested by a sample rule that was returned is a column of every sample user.\<close>

theorem sample_data_typed:
  assumes "rng_ok IntN Perm"
    and "gen_Rules IntN Perm m g1 = Some (rs, g1')" "gen_Users oor IntN Float64 n g2 = (us, g2')"
  shows "list_all2 sample_user [0..<n] us
    \<and> (\<forall>r \<in> set rs. \<forall>u \<in> set us. \<exists>t. Parse (rExpr r) = Inr t \<and> node_fields t \<subseteq> dom (uFields u))"
proof -
  have us: "list_all2 sample_user [0..<n] us"
    using gen_users_sample [OF assms(1), of "[0..<n]" oor Float64 g2] assms(3) by (simp add: gen_Users_def)
  have rs: "list_all2 sample_rule [0..<m] rs"
    using gen_rules_sample [OF assms(1), of "[0..<m]" g1] assms(2) by (simp add: gen_Rules_def)
  have "\<exists>t. Parse (rExpr r) = Inr t \<and> node_fields t \<subseteq> dom (uFields u)" if mem: "r \<in> set rs" "u \<in> set us" for r u
  proof -
    obtain i where "sample_user i u" using us mem(2) by (metis in_set_conv_nth list_all2_nthD2)
    then have u: "dom (uFields u) = set (map fst user_schema)" by (simp add: sample_user_def)
    obtain j where "sample_rule j r" using rs mem(1) by (metis in_set_conv_nth list_all2_nthD2)
    then obtain ns ks where ns: "Parse (rExpr r) = Inr (Logic ''AND'' ns)" "set ks \<subseteq> set rule_keys"
        "map node_fields ns = map (\<lambda>k. {k}) ks"
      unfolding sample_rule_def by blast
    have "node_fields (Logic ''AND'' ns) = \<Union> (set (map node_fields ns))" by simp
    then have "node_fields (Logic ''AND'' ns) = set ks" unfolding ns(3) by simp
    then show ?thesis using ns(1,2) u rule_fields_typed by (metis subset_trans)
  qed
  then show ?thesis using us by blast
qed

theorem sample_data_typed_witness:
  "\<exists>rs (us :: User list). (\<exists>g. gen_Rules walk_IntN walk_Perm 2 7 = Some (rs, g)) \<and> length us = 3
    \<and> (\<forall>r \<in> set rs. \<forall>u \<in> set us. \<exists>t. Parse (rExpr r) = Inr t \<and> node_fields t \<subseteq> dom (uFields u))"
proof -
  obtain rs g where rs: "gen_Rules walk_IntN walk_Perm 2 7 = Some (rs, g)"
    using gen_rules_returns [OF walk_ok, of "[0..<2]" 7] walk_moves
    by (cases "gen_Rules walk_IntN walk_Perm 2 7") (auto simp: gen_Rules_def)
  obtain us g' where us: "gen_Users (\<lambda>_. 0) walk_IntN (\<lambda>g. (Fin False 1 (- 1), g)) 3 5 = (us, g')" by fastforce
  note typed = sample_data_typed [OF walk_ok rs us]
  moreover have "length us = 3" using typed by (auto dest!: list_all2_lengthD)
  ultimately show ?thesis using rs by blast
qed

end
