(* ===== verification/Cli.thy ===== *)
theory Cli
  imports Sample_Users Go_Strings Loading Manager Worker_Pool Frontend_Code Frontend_QL
begin

text \<open>
  The command line tool, \<^verbatim>\<open>internal/cli/run.go\<close>: choosing an engine, the four sub-commands and their
  dispatch. What a command prints is a list of items; a text that the library formats from a value
  this development keeps abstract (an error, the report of a batch) is an item holding that value.
  Files, decoders, the random generator and the third-party parsers are fields of \<open>cli_env\<close>. A
  command gives what it printed and the error it returned; \<open>CliPanic\<close> stands for a panic.
\<close>

section \<open>Configuration\<close>

record cli_Config =
  cfg_Serve :: string
  cfg_UsersFile :: string
  cfg_Frontend :: string
  cfg_RulesFile :: string
  cfg_Backend :: string
  cfg_Export :: string
  cfg_GenUsers :: int
  cfg_TopN :: int
  cfg_Seed :: int
  cfg_Workers :: int
  cfg_GenRules :: int
  cfg_Demo :: bool
  cfg_Watch :: bool

definition DefaultConfig :: cli_Config where
  "DefaultConfig = \<lparr>cfg_Serve = '''', cfg_UsersFile = '''', cfg_Frontend = ''qlbridge'', cfg_RulesFile = '''',
    cfg_Backend = ''bytecode'', cfg_Export = '''', cfg_GenUsers = 10000, cfg_TopN = 10, cfg_Seed = 42,
    cfg_Workers = 32, cfg_GenRules = 10000, cfg_Demo = False, cfg_Watch = False\<rparr>"

section \<open>The environment\<close>

datatype fe_error =
    NativeErr parse_error | JsonErr json_error | CelErr cel_error | ExprErr expr_error | QlErr ql_error

datatype 'e engine_error = BytecodeErr "fe_error be_error" | QlVmErr 'e

record ('g, 'e, 'c, 'q, 'v) cli_env =
  env_ReadFile :: "string \<Rightarrow> string + string"
  env_decodeRules :: "string \<Rightarrow> string + Rule list"
  env_decodeUsers :: "string \<Rightarrow> string + User list"
  env_NewGenerator :: "int \<Rightarrow> 'g"
  env_IntN :: "'g int_n"
  env_Perm :: "'g perm_n"
  env_Float64 :: "'g float_n"
  env_oor :: "float64 \<Rightarrow> int"
  env_NumCPU :: nat
  env_GOMAXPROCS :: nat
  env_ulow :: "rune \<Rightarrow> rune"
  lib_json :: "string \<Rightarrow> string + jsonNode"
  lib_cel :: "string \<Rightarrow> string + celExpr"
  lib_expr :: "string \<Rightarrow> string + exprNode"
  lib_ql :: "string \<Rightarrow> string + ql_Node"
  lib_qlvm :: "('e, 'c, 'q, 'v) ql_lib"

datatype cli_error = LoadErr load_error | UnknownDSL string | CliPanic

datatype cli_out = Out string | OutConvertError string parse_error | OutReport Stats | OutError string cli_error

text \<open>Parsers and backends with their errors in one type.\<close>

definition as_fe :: "('e \<Rightarrow> fe_error) \<Rightarrow> 'e Parser \<Rightarrow> fe_error Parser" where
  "as_fe f ps = \<lparr>parser_Name = parser_Name ps,
     parser_Parse = (\<lambda>s. case parser_Parse ps s of Inl e \<Rightarrow> Inl (f e) | Inr n \<Rightarrow> Inr n)\<rparr>"

definition as_be :: "('e \<Rightarrow> 'f) \<Rightarrow> ('e, 'c, 'q) Backend \<Rightarrow> ('f, 'c, 'q) Backend" where
  "as_be f b = \<lparr>be_Name = be_Name b,
     be_Compile = (\<lambda>s. case be_Compile b s of Inl e \<Rightarrow> Inl (f e) | Inr p \<Rightarrow> Inr p),
     be_NewContext = be_NewContext b, be_Eval = be_Eval b\<rparr>"

section \<open>Engines\<close>

definition newEngine ::
  "('g, 'e, 'c, 'q, 'v) cli_env \<Rightarrow> cli_Config \<Rightarrow> ('e engine_error, 'c, 'q) Engine" where
  "newEngine env cfg =
    (if cfg_Backend cfg = ''qlbridge'' then NewWithBackend (as_be QlVmErr (QLBridgeBackend (lib_qlvm env)))
     else let fe = (if cfg_Frontend cfg = ''native'' then as_fe NativeErr native_Parser
       else if cfg_Frontend cfg = ''json'' then as_fe JsonErr (JSONFrontend (lib_json env))
       else if cfg_Frontend cfg = ''cel'' then as_fe CelErr (CELFrontend (lib_cel env))
       else if cfg_Frontend cfg = ''expr'' then as_fe ExprErr (ExprFrontend (lib_expr env))
       else as_fe QlErr (QLBridgeFrontend (lib_ql env)))
     in NewWithBackend (as_be BytecodeErr (BytecodeBackend fe)))"

text \<open>Loading or generating; \<open>None\<close> stands for a generator that never returns.\<close>

definition loadOrGenRules ::
  "('g, 'e, 'c, 'q, 'v) cli_env \<Rightarrow> cli_Config \<Rightarrow> 'g \<Rightarrow> ((cli_error + Rule list) \<times> 'g) option" where
  "loadOrGenRules env cfg g =
    (if cfg_RulesFile cfg \<noteq> '''' then
       Some (case LoadRules (env_decodeRules env) (env_ReadFile env (cfg_RulesFile cfg)) of
         Inl e \<Rightarrow> Inl (LoadErr e) | Inr rules \<Rightarrow> Inr rules, g)
     else if cfg_GenRules cfg < 0 then Some (Inl CliPanic, g)
     else map_option (\<lambda>(rules, g). (Inr rules, g)) (gen_Rules (env_IntN env) (env_Perm env) (nat (cfg_GenRules cfg)) g))"

definition loadOrGenUsers ::
  "('g, 'e, 'c, 'q, 'v) cli_env \<Rightarrow> cli_Config \<Rightarrow> 'g \<Rightarrow> (cli_error + User list) \<times> 'g" where
  "loadOrGenUsers env cfg g =
    (if cfg_UsersFile cfg \<noteq> '''' then
       (case LoadUsers (env_decodeUsers env) (env_ReadFile env (cfg_UsersFile cfg)) of
         Inl e \<Rightarrow> Inl (LoadErr e) | Inr users \<Rightarrow> Inr users, g)
     else if cfg_GenUsers cfg < 0 then (Inl CliPanic, g)
     else case gen_Users (env_oor env) (env_IntN env) (env_Float64 env) (nat (cfg_GenUsers cfg)) g of
       (users, g) \<Rightarrow> (Inr users, g))"

section \<open>Sub-commands\<close>

abbreviation nl :: string where "nl \<equiv> [CHR 0x0A]"

definition decimal :: "nat \<Rightarrow> string" where
  "decimal n = Itoa (int n)"

text \<open>\<^verbatim>\<open>-serve\<close>: what is printed, and the engine and watcher that are handed to the router.\<close>

definition RunServer ::
  "('g, 'e, 'c, 'q, 'v) cli_env \<Rightarrow> cli_Config \<Rightarrow> (cli_out list \<times>
    (cli_error + (('e engine_error, 'c, 'q) Engine \<times> ('e engine_error, 'c, 'q) Watcher option))) option" where
  "RunServer env cfg = (let
      en = (if cfg_Backend cfg = ''qlbridge'' then NewWithBackend (as_be QlVmErr (QLBridgeBackend (lib_qlvm env)))
             else NewWithBackend (as_be BytecodeErr (BytecodeBackend (as_fe NativeErr native_Parser))))
    in case loadOrGenRules env cfg (env_NewGenerator env (cfg_Seed cfg)) of
      None \<Rightarrow> None
    | Some (Inl e, g) \<Rightarrow> Some ([], Inl e)
    | Some (Inr rules, g) \<Rightarrow> (case Engine_LoadRules en rules of ((loaded, failed), en) \<Rightarrow>
        let banner = Out (''Backend='' @ be_Name (backend en) @ ''  Rule Cache Ready. (compiled='' @ decimal loaded
              @ '' failed='' @ decimal failed @ '')'' @ nl);
            watched = cfg_Watch cfg \<and> cfg_RulesFile cfg \<noteq> ''''
        in Some (banner # (if watched then [Out (''watching '' @ cfg_RulesFile cfg @ '' for changes (hot reload)'' @ nl)] else []),
             Inr (en, if watched then Some (NewWatcher en 2000000000) else None))))"

text \<open>\<^verbatim>\<open>-export\<close>.\<close>

definition DSL_name :: "DSL \<Rightarrow> string" where
  "DSL_name d = (case d of SQL \<Rightarrow> ''sql'' | Aviator \<Rightarrow> ''aviator'' | CEL \<Rightarrow> ''cel'' | Expr \<Rightarrow> ''expr'')"

definition pad4 :: "string \<Rightarrow> string" where
  "pad4 s = s @ replicate (4 - length s) (CHR '' '')"

definition export_rule :: "DSL \<Rightarrow> Rule \<Rightarrow> cli_out list" where
  "export_rule d r =
    [Out (''# rule '' @ Itoa (rID r) @ '' '' @ rName r @ nl), Out (''SQL : '' @ rExpr r @ nl),
     case Convert (rExpr r) d of
       Inl cerr \<Rightarrow> OutConvertError (pad4 (DSL_name d)) cerr
     | Inr out \<Rightarrow> Out (pad4 (DSL_name d) @ '': '' @ out @ nl @ nl)]"

definition RunExport :: "('g, 'e, 'c, 'q, 'v) cli_env \<Rightarrow> cli_Config \<Rightarrow> cli_out list \<times> cli_error option" where
  "RunExport env cfg = (case List.find (\<lambda>d. DSL_name d = ToLower (env_ulow env) (cfg_Export cfg)) AllDSLs of
     None \<Rightarrow> ([], Some (UnknownDSL (cfg_Export cfg)))
   | Some d \<Rightarrow> (let path = (if cfg_RulesFile cfg = '''' then ''data/rules.json'' else cfg_RulesFile cfg) in
       case LoadRules (env_decodeRules env) (env_ReadFile env path) of
         Inl e \<Rightarrow> ([], Some (LoadErr e))
       | Inr rules \<Rightarrow>
           (Out (''# converting '' @ decimal (length rules) @ '' rules from '' @ path @ '' to '' @ DSL_name d @ nl @ nl)
             # concat (map (export_rule d) rules), None)))"

text \<open>The default: a batch. \<open>load_time\<close> is the printed duration of loading.\<close>

definition pad12 :: "string \<Rightarrow> string" where
  "pad12 s = s @ replicate (12 - length (runes_of s)) (CHR '' '')"

definition name_of :: "('e, 'c, 'q) Engine \<Rightarrow> int \<Rightarrow> string" where
  "name_of en i = (case cache_Get (cache en) i of Some p \<Rightarrow> pName p | None \<Rightarrow> '''')"

definition printTopRules :: "('e, 'c, 'q) Engine \<Rightarrow> Stats \<Rightarrow> int \<Rightarrow> cli_out list" where
  "printTopRules en stats n =
    (if n \<le> 0 \<or> PerRule stats = [] then []
     else Out (nl @ ''Top '' @ Itoa n @ '' rules by hits:'' @ nl) #
       map (\<lambda>rh. Out (''  #'' @ Itoa (hit_ID rh) @ '' '' @ pad12 (name_of en (hit_ID rh)) @ '' hits=''
         @ comma (hit_Count rh) @ nl)) (TopRules stats n))"

definition load_text :: "nat \<Rightarrow> int list \<Rightarrow> string" where
  "load_text n what = string_of_runes [0x52A0, 0x8F7D] @ decimal n @ string_of_runes what @ ''...'' @ nl"

inductive cli_Run ::
  "('g, 'e, 'c, 'q, 'v) cli_env \<Rightarrow> cli_Config \<Rightarrow> cli_out list \<times> cli_error option \<Rightarrow> bool"
  for env :: "('g, 'e, 'c, 'q, 'v) cli_env" and cfg :: cli_Config where
  run_rules_failed:
    "loadOrGenRules env cfg (env_NewGenerator env (cfg_Seed cfg)) = Some (Inl e, g) \<Longrightarrow>
     start = [Out (''CPU='' @ decimal (env_NumCPU env) @ '' GOMAXPROCS='' @ decimal (env_GOMAXPROCS env) @ nl),
       Out (''Backend='' @ be_Name (backend (newEngine env cfg)) @ nl)] \<Longrightarrow>
     cli_Run env cfg (start, Some e)"
| run_users_failed:
    "loadOrGenRules env cfg (env_NewGenerator env (cfg_Seed cfg)) = Some (Inr rules, g) \<Longrightarrow>
     Engine_LoadRules (newEngine env cfg) rules = ((loaded, failed), en) \<Longrightarrow>
     loadOrGenUsers env cfg g = (Inl e, g') \<Longrightarrow>
     start = [Out (''CPU='' @ decimal (env_NumCPU env) @ '' GOMAXPROCS='' @ decimal (env_GOMAXPROCS env) @ nl),
       Out (''Backend='' @ be_Name (backend (newEngine env cfg)) @ nl),
       Out (load_text (length rules) [0x6761, 0x89C4, 0x5219]),
       Out (''Rule Cache Ready. (compiled='' @ decimal loaded @ '' failed='' @ decimal failed @ '' in '' @ load_time @ '')'' @ nl)] \<Longrightarrow>
     cli_Run env cfg (start, Some e)"
| run_batch:
    "loadOrGenRules env cfg (env_NewGenerator env (cfg_Seed cfg)) = Some (Inr rules, g) \<Longrightarrow>
     Engine_LoadRules (newEngine env cfg) rules = ((loaded, failed), en) \<Longrightarrow>
     loadOrGenUsers env cfg g = (Inr users, g') \<Longrightarrow>
     RunBatch en (env_GOMAXPROCS env) users (cfg_Workers cfg) (results, stats) \<Longrightarrow>
     start = [Out (''CPU='' @ decimal (env_NumCPU env) @ '' GOMAXPROCS='' @ decimal (env_GOMAXPROCS env) @ nl),
       Out (''Backend='' @ be_Name (backend (newEngine env cfg)) @ nl),
       Out (load_text (length rules) [0x6761, 0x89C4, 0x5219]),
       Out (''Rule Cache Ready. (compiled='' @ decimal loaded @ '' failed='' @ decimal failed @ '' in '' @ load_time @ '')'' @ nl),
       Out (load_text (length users) [0x4E2A, 0x7528, 0x6237]),
       Out (string_of_runes [0x5F00, 0x59CB, 0x5339, 0x914D] @ ''...'' @ nl), OutReport stats] \<Longrightarrow>
     cli_Run env cfg (start @ (if RuleCount en \<le> 50 then
         [Out (nl @ ''=== '' @ string_of_runes [0x547D, 0x4E2D, 0x7EDF, 0x8BA1] @ '' (Statistics) ==='' @ nl),
          Out (RuleHits stats (Some (name_of en)))]
       else printTopRules en stats (cfg_TopN cfg)), None)"

inductive_cases cli_RunE [consumes 1, case_names run_rules_failed run_users_failed run_batch]:
  "cli_Run env cfg (out, err)"

text \<open>\<^verbatim>\<open>-demo\<close>.\<close>

definition user_label :: "User \<Rightarrow> string" where
  "user_label u = (let label = (case row_get (uFields u) ''username'' of AString s \<Rightarrow> s | _ \<Rightarrow> '''') in
     if label = '''' then ''uid='' @ Itoa (UID u) else label)"

definition user_word :: string where
  "user_word = string_of_runes [0x7528, 0x6237, 0x20]"

definition miss_line :: "string \<Rightarrow> cli_out" where
  "miss_line label = Out (user_word @ label @ string_of_runes [0x3A, 0x20, 0x2717, 0x20, 0x672A, 0x547D, 0x4E2D] @ nl)"

definition hit_line :: "int \<Rightarrow> string \<Rightarrow> cli_out" where
  "hit_line i name = Out (string_of_runes [0x20, 0x20, 0x2713, 0x20, 0x23] @ Itoa i @ '' ['' @ name @ '']'' @ nl)"

definition demo_user :: "('e, 'c, 'q) Engine \<Rightarrow> User \<Rightarrow> cli_out list option" where
  "demo_user en u = (case Match en u of
     None \<Rightarrow> None
   | Some ids \<Rightarrow> Some (if ids = [] then [miss_line (user_label u)]
       else Out (user_word @ user_label u @ '':'' @ nl) # map (\<lambda>i. hit_line i (name_of en i)) ids))"

fun demo_users :: "('e, 'c, 'q) Engine \<Rightarrow> User list \<Rightarrow> cli_out list \<times> cli_error option" where
  "demo_users en [] = ([], None)"
| "demo_users en (u # us) = (case demo_user en u of
     None \<Rightarrow> ([], Some CliPanic)
   | Some out \<Rightarrow> (case demo_users en us of (outs, err) \<Rightarrow> (out @ outs, err)))"

definition demo_title :: cli_out where
  "demo_title = Out (nl @ ''=== '' @ string_of_runes [0x5B9E, 0x65F6, 0x89C4, 0x5219, 0x5339, 0x914D, 0x7ED3, 0x679C] @ '' ==='' @ nl)"

definition demo_banner :: "string \<Rightarrow> nat \<Rightarrow> nat \<Rightarrow> cli_out" where
  "demo_banner name loaded failed = Out (''Backend='' @ name @ ''  front-end=native-sql  loaded '' @ decimal loaded
     @ '' rules (failed='' @ decimal failed @ '')'' @ nl)"

definition RunDemo :: "('g, 'e, 'c, 'q, 'v) cli_env \<Rightarrow> cli_out list \<times> cli_error option" where
  "RunDemo env = (let en = (NewWithBackend (BytecodeBackend native_Parser) :: (parse_error be_error, unit, unit) Engine) in
     case LoadRulesFromFile en (LoadRules (env_decodeRules env) (env_ReadFile env ''data/rules.json'')) of
       (Inl e, en) \<Rightarrow> ([], Some (LoadErr e))
     | (Inr (loaded, failed), en) \<Rightarrow> (let banner = demo_banner (be_Name (backend en)) loaded failed in
         case LoadUsers (env_decodeUsers env) (env_ReadFile env ''data/users.json'') of
           Inl e \<Rightarrow> ([banner], Some (LoadErr e))
         | Inr users \<Rightarrow> (case demo_users en users of (outs, err) \<Rightarrow> (banner # demo_title # outs, err))))"

text \<open>The dispatch after the flags have been parsed into a configuration; the server's outcome is not
  printed. A panic ends the process.\<close>

definition report_error :: "string \<Rightarrow> cli_out list \<times> cli_error option \<Rightarrow> cli_out list" where
  "report_error what r = (case r of (outs, err) \<Rightarrow> outs @
     (case err of None \<Rightarrow> [] | Some CliPanic \<Rightarrow> [] | Some e \<Rightarrow> [OutError what e]))"

datatype 'a cli_command = CmdDemo "cli_out list" | CmdExport "cli_out list" | CmdServe 'a | CmdBatch "cli_out list"

inductive RunCLI ::
  "('g, 'e, 'c, 'q, 'v) cli_env \<Rightarrow> cli_Config \<Rightarrow> (cli_out list \<times>
    (cli_error + (('e engine_error, 'c, 'q) Engine \<times> ('e engine_error, 'c, 'q) Watcher option))) cli_command \<Rightarrow> bool"
  for env :: "('g, 'e, 'c, 'q, 'v) cli_env" and cfg :: cli_Config where
  cli_demo: "cfg_Demo cfg \<Longrightarrow> RunCLI env cfg (CmdDemo (report_error ''demo error:'' (RunDemo env)))"
| cli_export: "\<not> cfg_Demo cfg \<Longrightarrow> cfg_Export cfg \<noteq> '''' \<Longrightarrow>
    RunCLI env cfg (CmdExport (report_error ''export error:'' (RunExport env cfg)))"
| cli_serve: "\<not> cfg_Demo cfg \<Longrightarrow> cfg_Export cfg = '''' \<Longrightarrow> cfg_Serve cfg \<noteq> '''' \<Longrightarrow> RunServer env cfg = Some r \<Longrightarrow>
    RunCLI env cfg (CmdServe r)"
| cli_batch: "\<not> cfg_Demo cfg \<Longrightarrow> cfg_Export cfg = '''' \<Longrightarrow> cfg_Serve cfg = '''' \<Longrightarrow> cli_Run env cfg r \<Longrightarrow>
    RunCLI env cfg (CmdBatch (report_error ''error:'' r))"

section \<open>A freshly loaded engine\<close>

lemma engine_compile_programs: "fst (engine_compile b rules) = map (the_program b) (filter (compiles b) rules)"
  by (induction rules) (auto simp: Let_def the_program_def compiled_def split: prod.split sum.split)

lemma the_program_name: "compiles b r \<Longrightarrow> pName (the_program b r) = rName r"
  by (auto simp: compiles_def the_program_def compiled_def program_of_def split: sum.splits)

lemma last_prog_mem: "distinct (map pID ps) \<Longrightarrow> last_prog ps (pID p) = Some p \<longleftrightarrow> p \<in> set ps"
  by (auto simp: last_prog_distinct map_of_eq_Some_iff comp_def)

lemma sort_prio_strict:
  "distinct (map rID rules) \<Longrightarrow> sorted_wrt (\<lambda>r s. rule_prio r < rule_prio s) (sort_key rule_prio rules)"
proof -
  assume d: "distinct (map rID rules)"
  have "sorted (map rule_prio (sort_key rule_prio rules))" by simp
  moreover have "distinct (map rule_prio (sort_key rule_prio rules))"
    using d by (auto simp: distinct_map inj_on_def rule_prio_def)
  ultimately have "sorted_wrt (<) (map rule_prio (sort_key rule_prio rules))" by (simp only: strict_sorted_iff)
  then show ?thesis by (simp only: sorted_wrt_map)
qed

definition loaded_engine :: "('e, 'c, 'q) Backend \<Rightarrow> Rule list \<Rightarrow> ('e, 'c, 'q) Engine" where
  "loaded_engine b rules = snd (Engine_LoadRules (NewWithBackend b) rules)"

lemma loaded_engine_cache:
  "cache (loaded_engine b rules) = PutAll NewRuleCache (map (the_program b) (filter (compiles b) rules))"
  "backend (loaded_engine b rules) = b"
  by (simp_all add: loaded_engine_def Engine_LoadRules_def NewWithBackend_def Let_def split_def engine_compile_programs)

lemma loaded_engine_reach: "engine_reach b (loaded_engine b rules)"
  unfolding loaded_engine_def by (rule reach_step [OF reach_new]) (rule step_load, rule surjective_pairing)

lemma loaded_stored:
  assumes "distinct (map rID rules)"
  shows "cache_Get (cache (loaded_engine b rules)) (pID p) = Some p \<longleftrightarrow>
    p \<in> the_program b ` {r \<in> set rules. compiles b r}"
proof -
  let ?ps = "map (the_program b) (filter (compiles b) rules)"
  have ids: "map pID ?ps = map rID (filter (compiles b) rules)"
    using the_program_fields [of b] by simp
  have "distinct (map pID ?ps)" unfolding ids by (rule distinct_map_filter [OF assms])
  from last_prog_mem [OF this, of p] show ?thesis
    by (auto simp: loaded_engine_cache Get_PutAll split: option.split) (auto simp: NewRuleCache_def cache_Get_def)
qed

lemma loaded_snapshot:
  assumes "distinct (map rID rules)"
  shows "Snapshot (cache (loaded_engine b rules)) = map (the_program b) (filter (compiles b) (sort_key rule_prio rules))"
proof (rule strict_key_unique [where key = prog_key])
  let ?L = "filter (compiles b) (sort_key rule_prio rules)"
  have fresh: "cache_fresh (cache (loaded_engine b rules))"
    using engine_reach_wf [OF loaded_engine_reach [of b rules]] by (simp add: engine_wf_def)
  show "sorted_wrt (\<lambda>p q. prog_key p < prog_key q) (Snapshot (cache (loaded_engine b rules)))"
    by (rule snapshot_sorted [OF fresh])
  have "sorted_wrt (\<lambda>r s. rule_prio r < rule_prio s) ?L"
    by (rule sorted_wrt_filter [OF sort_prio_strict [OF assms]])
  then show "sorted_wrt (\<lambda>p q. prog_key p < prog_key q) (map (the_program b) ?L)"
    unfolding sorted_wrt_map by (rule sorted_wrt_mono_rel [rotated]) (simp add: the_program_fields)
  show "set (Snapshot (cache (loaded_engine b rules))) = set (map (the_program b) ?L)"
    using snapshot_set [OF fresh] loaded_stored [OF assms] by (auto simp: stored_def)
qed

lemma program_fields_loaded:
  "r \<in> set (filter (compiles b) (sort_key rule_prio rules)) \<Longrightarrow>
    pID (the_program b r) = rID r \<and> pSource (the_program b r) = rExpr r \<and> pName (the_program b r) = rName r"
  using the_program_fields [of b r] the_program_name [of b r] by auto

context matching
begin

lemma match_loaded:
  assumes "distinct (map rID rules)" "\<forall>r \<in> set rules. ok (rExpr r)"
  shows "Match (loaded_engine be rules) u = Some (map rID
    (filter (\<lambda>r. compiles be r \<and> sem (rExpr r) (uFields u)) (sort_key rule_prio rules)))"
proof -
  let ?L = "filter (compiles be) (sort_key rule_prio rules)"
  have "sources_ok ok (loaded_engine be rules)"
    unfolding sources_ok_def stored_def loaded_stored [OF assms(1)]
    using the_program_fields [of be] assms(2) by auto
  from match_engine [OF loaded_engine_reach this, of u]
  have "Match (loaded_engine be rules) u = Some (hits sem (map (the_program be) ?L) u)"
    by (simp add: loaded_snapshot [OF assms(1)])
  moreover have "filter (\<lambda>r. sem (pSource (the_program be r)) (uFields u)) ?L = filter (\<lambda>r. sem (rExpr r) (uFields u)) ?L"
    by (rule filter_cong [OF refl]) (simp only: program_fields_loaded)
  ultimately show ?thesis
    using program_fields_loaded [of _ be rules]
    by (auto simp: hits_def filter_map comp_def conj_commute intro!: map_cong)
qed

end


section \<open>The demonstration\<close>

text \<open>The rules of a file that a user satisfies, by descending priority and ascending id.\<close>

definition satisfied :: "Rule list \<Rightarrow> User \<Rightarrow> Rule list" where
  "satisfied rules u = filter (\<lambda>r. compiles (BytecodeBackend native_Parser :: native_backend) r
     \<and> parsed_sem native_Parser bytecode_sem (rExpr r) (uFields u)) (sort_key rule_prio rules)"



definition demo_cli :: "(nat, unit, unit, unit, unit) cli_env" where
  "demo_cli = \<lparr>env_ReadFile = Inr, env_decodeRules = (\<lambda>s. Inr demo_rules),
    env_decodeUsers = (\<lambda>s. Inr [NewUser 1 [''level'' \<mapsto> AInt 5], NewUser 2 [''username'' \<mapsto> AString ''bob'']]),
    env_NewGenerator = nat, env_IntN = walk_IntN, env_Perm = walk_Perm, env_Float64 = (\<lambda>g. (Fin False 1 (- 1), g)),
    env_oor = (\<lambda>x. 0), env_NumCPU = 8, env_GOMAXPROCS = 4, env_ulow = id,
    lib_json = Inl, lib_cel = Inl, lib_expr = Inl, lib_ql = Inl,
    lib_qlvm = \<lparr>ql_ParseExpression = (\<lambda>s. Inl ()), ql_NewContext = (\<lambda>r. ()), ql_Eval = (\<lambda>c q. (None, False)),
      ql_Nil = (\<lambda>v. True), ql_Err = (\<lambda>v. False), ql_ValueToBool = (\<lambda>v. (False, False))\<rparr>\<rparr>"


section \<open>The export\<close>

text \<open>Exporting rules as SQL loses nothing: every rule of the file is printed in order with its id, its name
  and its text, and with an SQL text that the rule parser reads back as the very tree of the rule
  (for rules whose strings hold no quotes and backslashes); a rule that does not parse is printed
  with its error and does not stop the export.\<close>

theorem RunExport_sql:
  assumes "ToLower (env_ulow env) (cfg_Export cfg) = ''sql''"
    and "LoadRules (env_decodeRules env)
      (env_ReadFile env (if cfg_RulesFile cfg = '''' then ''data/rules.json'' else cfg_RulesFile cfg)) = Inr rules"
  shows "\<exists>header blocks. RunExport env cfg = (header # concat blocks, None) \<and> list_all2 (\<lambda>r b. \<exists>last.
      b = [Out (''# rule '' @ Itoa (rID r) @ '' '' @ rName r @ nl), Out (''SQL : '' @ rExpr r @ nl), last]
      \<and> (case Parse (rExpr r) of
          Inl e \<Rightarrow> last = OutConvertError ''sql '' e
        | Inr n \<Rightarrow> \<exists>sql. last = Out (''sql : '' @ sql @ nl @ nl) \<and> (plain_node n \<longrightarrow> Parse sql = Inr n))) rules blocks"
proof -
  have "Parse (emitSQL n) = Inr n" if "Parse s = Inr n" "plain_node n" for s n
    using Parse_emitSQL_safe that Parse_lexed [OF that(1)] by (simp add: sql_safe_def)
  then have "list_all2 (\<lambda>r b. \<exists>last.
      b = [Out (''# rule '' @ Itoa (rID r) @ '' '' @ rName r @ nl), Out (''SQL : '' @ rExpr r @ nl), last]
      \<and> (case Parse (rExpr r) of
          Inl e \<Rightarrow> last = OutConvertError ''sql '' e
        | Inr n \<Rightarrow> \<exists>sql. last = Out (''sql : '' @ sql @ nl @ nl) \<and> (plain_node n \<longrightarrow> Parse sql = Inr n))) rs (map (export_rule SQL) rs)" for rs
    by (induction rs) (auto simp: export_rule_def Convert_def Emit_def DSL_name_def pad4_def split: sum.split)
  moreover have "List.find (\<lambda>d. DSL_name d = ''sql'') AllDSLs = Some SQL"
    by (simp add: AllDSLs_def DSL_name_def)
  ultimately show ?thesis using assms by (auto simp: RunExport_def Let_def)
qed

theorem RunExport_sql_witness:
  "\<exists>header blocks. RunExport demo_cli (DefaultConfig\<lparr>cfg_Export := ''SQL''\<rparr>) = (header # concat blocks, None) \<and> length blocks = 3"
proof -
  have "ToLower id ''SQL'' = ''sql''" by code_simp
  then have a: "ToLower (env_ulow demo_cli) (cfg_Export (DefaultConfig\<lparr>cfg_Export := ''SQL''\<rparr>)) = ''sql''"
    by (simp add: demo_cli_def)
  have b: "LoadRules (env_decodeRules demo_cli) (env_ReadFile demo_cli
      (if cfg_RulesFile (DefaultConfig\<lparr>cfg_Export := ''SQL''\<rparr>) = '''' then ''data/rules.json''
       else cfg_RulesFile (DefaultConfig\<lparr>cfg_Export := ''SQL''\<rparr>))) = Inr demo_rules"
    by (simp add: demo_cli_def LoadRules_def)
  have "length demo_rules = 3" by (simp add: demo_rules_def)
  moreover obtain header blocks where "RunExport demo_cli (DefaultConfig\<lparr>cfg_Export := ''SQL''\<rparr>) = (header # concat blocks, None)"
      "length demo_rules = length blocks"
    using RunExport_sql [OF a b] list_all2_lengthD by blast
  ultimately show ?thesis by metis
qed

section \<open>The benchmark\<close>

interpretation cli_matching: matching "as_be f (BytecodeBackend fe)" "parsed_ok fe bytecode_ok" "parsed_sem fe bytecode_sem"
  for f :: "'e be_error \<Rightarrow> 'f" and fe :: "'e Parser"
  using bytecode_be.eval_sem by unfold_locales (auto simp: as_be_def split: sum.splits)

text \<open>Generated rules fit the machine, and their conditions are told apart by their text.\<close>

lemma sample_rules_exact:
  assumes "sample_rule i r"
  shows "text_exact (rExpr r)"
proof -
  obtain ns where ns: "Parse (rExpr r) = Inr (Logic ''AND'' ns)" "length ns \<le> 5" "list_all is_leaf ns"
      "list_all plain_node ns"
    using assms unfolding sample_rule_def by blast
  have one: "leaves n = 1 \<and> stack_need n \<le> 3" if "is_leaf n" for n using that by (cases n) simp_all
  then have "leaves (Logic ''AND'' ns) = length ns"
    using ns(3) by (induction ns) auto
  moreover have "stack_fits stackMax ns"
    using ns(3) one by (cases ns) (fastforce simp: list_all_iff stackMax_def)+
  then have "stack_need (Logic ''AND'' ns) \<le> stackMax"
    unfolding stack_need_Logic .
  moreover have "keys_apart (Logic ''AND'' ns)"
    using Parse_lexed [OF ns(1)] ns(4) by (intro sql_safe_keys_apart) (simp add: sql_safe_def)
  ultimately show ?thesis using ns(1,2) by (simp add: text_exact_def)
qed

lemma sample_ids: "list_all2 sample_rule [0..<n] rs \<Longrightarrow> distinct (map rID rs)"
proof -
  assume a: "list_all2 sample_rule [0..<n] rs"
  then have "map rID rs = map (\<lambda>i. 10000 + int i) [0..<n]"
    by (auto simp: list_all2_conv_all_nth sample_rule_def intro!: nth_equalityI)
  then show ?thesis by (simp add: distinct_map inj_on_def)
qed

lemma compiles_cli [simp]:
  "compiles (as_be f (BytecodeBackend (as_fe g native_Parser))) r \<longleftrightarrow>
    compiles (BytecodeBackend native_Parser :: native_backend) r"
  by (simp add: compiles_def as_be_def BytecodeBackend_def as_fe_def split: sum.split)

lemma parsed_sem_fe [simp]: "parsed_sem (as_fe g ps) sem = parsed_sem ps sem"
  by (simp add: fun_eq_iff parsed_sem_def as_fe_def split: sum.split)

text \<open>The backend of a run with \<^verbatim>\<open>-frontend native\<close>.\<close>

abbreviation native_cli :: "('e engine_error, 'c, 'q) Backend" where
  "native_cli \<equiv> as_be BytecodeErr (BytecodeBackend (as_fe NativeErr native_Parser))"

text \<open>The rules that compile and whose text holds of a user, by descending priority and ascending id.\<close>

definition holding :: "Rule list \<Rightarrow> User \<Rightarrow> Rule list" where
  "holding rules u = filter (\<lambda>r. compiles (BytecodeBackend native_Parser :: native_backend) r
     \<and> text_holds (rExpr r) (uFields u)) (sort_key rule_prio rules)"

lemma native_match:
  assumes "distinct (map rID rules)" "\<forall>r \<in> set rules. text_exact (rExpr r)"
  shows "Match (loaded_engine native_cli rules) u = Some (map rID (holding rules u))"
proof -
  have "parsed_ok (as_fe NativeErr native_Parser) bytecode_ok (rExpr r)" if "r \<in> set rules" for r
    using text_exact_ok [of "rExpr r"] assms(2) that by (auto simp: parsed_ok_def as_fe_def split: sum.splits)
  then have "\<forall>r \<in> set rules. parsed_ok (as_fe NativeErr native_Parser) bytecode_ok (rExpr r)" by blast
  from cli_matching.match_loaded [OF assms(1) this, where f = BytecodeErr and u = u]
  have "Match (loaded_engine native_cli rules) u = Some (map rID (satisfied rules u))"
    by (simp add: satisfied_def)
  also have "satisfied rules u = holding rules u"
    using assms(2) text_exact_sem by (auto simp: satisfied_def holding_def intro!: filter_cong)
  finally show ?thesis .
qed

lemma generated_rules:
  assumes "cfg_RulesFile cfg = ''''" "rng_ok (env_IntN env) (env_Perm env)"
    and "loadOrGenRules env cfg g = Some (Inr rules, g')"
  shows "distinct (map rID rules) \<and> (\<forall>r \<in> set rules. text_exact (rExpr r)) \<and> int (length rules) = cfg_GenRules cfg"
proof -
  have n: "0 \<le> cfg_GenRules cfg" and "gen_Rules (env_IntN env) (env_Perm env) (nat (cfg_GenRules cfg)) g = Some (rules, g')"
    using assms(1,3) by (auto simp: loadOrGenRules_def split: if_splits)
  then have "list_all2 sample_rule [0..<nat (cfg_GenRules cfg)] rules"
    using gen_rules_sample [OF assms(2)] by (simp add: gen_Rules_def)
  then show ?thesis
    using n sample_ids sample_rules_exact by (fastforce simp: list_all2_conv_all_nth in_set_conv_nth)
qed

text \<open>C14: A benchmark with the native front end and the bytecode machine completes under every schedule.
  Whenever loading or generating has returned rules and users, the rules having distinct ids and
  texts that fit the machine's stack and whose operands are told apart (\<open>text_exact\<close>; generated
  rules are such, \<open>generated_rules\<close>), and with at least one processor: no schedule of the batch is
  infinite, none is stuck before every worker has left, a run to the end exists, and every run ends
  without an error in a report whose hits are the pairs of a user and a rule that compiles and whose
  text holds of the user.\<close>

theorem benchmark_completes:
  fixes env :: "('g, 'e, 'c, 'q, 'v) cli_env" and rules :: "Rule list" and users :: "User list"
    and cfg :: cli_Config
  defines "en \<equiv> loaded_engine native_cli rules :: ('e engine_error, 'c, 'q) Engine"
    and "W \<equiv> pool_workers (env_GOMAXPROCS env) (cfg_Workers cfg) (length users)"
  assumes "cfg_Backend cfg \<noteq> ''qlbridge''" "cfg_Frontend cfg = ''native''" "0 < env_GOMAXPROCS env"
    and "loadOrGenRules env cfg (env_NewGenerator env (cfg_Seed cfg)) = Some (Inr rules, g)"
    and "loadOrGenUsers env cfg g = (Inr users, g')"
    and "distinct (map rID rules)" "\<forall>r \<in> set rules. text_exact (rExpr r)"
  shows "wfP (\<lambda>s' s. pool_step en (Snapshot (cache en)) users W s s')
    \<and> (\<forall>s. (pool_step en (Snapshot (cache en)) users W)\<^sup>*\<^sup>* pool_init s \<longrightarrow>
        pool_final W s \<or> (\<exists>s'. pool_step en (Snapshot (cache en)) users W s s'))
    \<and> (\<exists>out. cli_Run env cfg (out, None))
    \<and> (\<forall>out err. cli_Run env cfg (out, err) \<longrightarrow> err = None \<and> (\<exists>stats. OutReport stats \<in> set out
        \<and> Hits stats = sum_list (map (\<lambda>u. int (length (holding rules u))) users)))"
proof -
  have new: "newEngine env cfg = NewWithBackend native_cli"
    using assms(3,4) by (simp add: newEngine_def)
  obtain loaded failed where load: "Engine_LoadRules (newEngine env cfg) rules = ((loaded, failed), en)"
    unfolding new en_def by (metis loaded_engine_def prod.collapse)
  have match: "matchInto en u (Snapshot (cache en)) [] = Some (map rID (holding rules u))" for u
    using native_match [OF assms(8,9), of u] unfolding en_def by (simp add: Match_def)
  then obtain results stats where batch: "RunBatch en (env_GOMAXPROCS env) users (cfg_Workers cfg) (results, stats)"
    using pool_Run_exists [of users en "Snapshot (cache en)"] unfolding RunBatch_def by blast
  have hits: "Hits stats = sum_list (map (\<lambda>u. int (length (holding rules u))) users)"
    if "RunBatch en (env_GOMAXPROCS env) users (cfg_Workers cfg) (results, stats)" for results stats
    using pool_Run_results [OF that [unfolded RunBatch_def] assms(5)] match by (simp add: matched_def)
  have "err = None \<and> (\<exists>stats. OutReport stats \<in> set out
      \<and> Hits stats = sum_list (map (\<lambda>u. int (length (holding rules u))) users))"
    if "cli_Run env cfg (out, err)" for out err
    using that
  proof (cases rule: cli_RunE)
    case batch: (run_batch rs h l f en' us h' res stats tm)
    then have "RunBatch en (env_GOMAXPROCS env) users (cfg_Workers cfg) (res, stats)" using assms(6,7) load by simp
    from hits [OF this] batch show ?thesis by auto
  qed (use assms(6,7) load in auto)
  moreover have "\<exists>out. cli_Run env cfg (out, None)"
    using cli_Run.run_batch [OF assms(6) load assms(7) batch refl] by blast
  moreover have "matchInto en u (Snapshot (cache en)) [] \<noteq> None" for u using match by simp
  ultimately show ?thesis using pool_all_schedules [of users en "Snapshot (cache en)" W] by blast
qed

theorem benchmark_completes_witness:
  "\<exists>out stats. cli_Run demo_cli (DefaultConfig\<lparr>cfg_Frontend := ''native'', cfg_GenRules := 3, cfg_GenUsers := 2\<rparr>) (out, None)
    \<and> OutReport stats \<in> set out"
proof -
  let ?cfg = "DefaultConfig\<lparr>cfg_Frontend := ''native'', cfg_GenRules := 3, cfg_GenUsers := 2\<rparr>"
  have cfg: "cfg_RulesFile ?cfg = ''''" "cfg_Backend ?cfg \<noteq> ''qlbridge''" "cfg_Frontend ?cfg = ''native''"
      "0 < env_GOMAXPROCS demo_cli" "rng_ok (env_IntN demo_cli) (env_Perm demo_cli)"
    by (simp_all add: DefaultConfig_def demo_cli_def walk_ok)
  obtain rules g where rules: "loadOrGenRules demo_cli ?cfg (env_NewGenerator demo_cli (cfg_Seed ?cfg)) = Some (Inr rules, g)"
    using gen_rules_returns [OF walk_ok, of "[0..<3]" 42] walk_moves
    by (cases "gen_Rules walk_IntN walk_Perm 3 42")
      (auto simp: loadOrGenRules_def demo_cli_def DefaultConfig_def gen_Rules_def)
  obtain users g' where "gen_Users (\<lambda>x. 0) walk_IntN (Pair (Fin False 1 (- 1))) 2 g = (users, g')" by fastforce
  then have users: "loadOrGenUsers demo_cli ?cfg g = (Inr users, g')"
    by (simp add: loadOrGenUsers_def demo_cli_def DefaultConfig_def)
  have "distinct (map rID rules)" "\<forall>r \<in> set rules. text_exact (rExpr r)"
    using generated_rules [OF cfg(1,5) rules] by auto
  from benchmark_completes [OF cfg(2,3,4) rules users this] show ?thesis by blast
qed

end
