(* ===== verification/App_Errors.thy ===== *)
theory App_Errors
  imports Go_Strings
begin

text \<open>
  Application errors, \<^verbatim>\<open>internal/apperror\<close>, and the two places where a request's failure becomes a
  response: \<open>ErrorHandler\<close> and \<open>Recover\<close> of \<^verbatim>\<open>internal/middleware\<close>, with the response constructors of
  \<^verbatim>\<open>internal/types/resp\<close>. A Go error is a tree: an application error may have a cause, \<^verbatim>\<open>fmt.Errorf\<close> with
  \<^verbatim>\<open>%w\<close> wraps an error between two texts. \<open>errors.Is\<close> walks down such a tree, a type switch looks at its
  root only; the theorems show what each of the two finds.
\<close>

section \<open>Codes\<close>

text \<open>The values of the constants, in the order of the file.\<close>

definition ErrorCodes :: "string list" where
  "ErrorCodes = [
    ''unknown_err'', ''param_err'', ''req_param_err'', ''format_error'', ''upload_error'',
    ''json_err'', ''auth_err'', ''sign_err'', ''frequency_err'', ''network_timeout'',
    ''status_err'', ''amount_invalid'', ''data_not_found'', ''data_has_existed'',
    ''insert_failed'', ''update_failed'', ''delete_failed'', ''no_data_update'',
    ''db_bind_param_error'', ''sql_execution_fail'', ''merchant_not_found'',
    ''merchant_already_exist'', ''merchant_is_null'', ''merchant_not_exist'',
    ''field_config_not_exist'', ''validation_record_not_exist'', ''exceed_limit'',
    ''task_submit_fail'', ''invalid_param'', ''invalid_date_param'', ''time_range_error'',
    ''no_log_record'', ''invalid_operand'', ''ucs_client_err'', ''uss_client_err'',
    ''tac_client_err'', ''pss_client_err'', ''wps_client_err'', ''mcs_client_err'',
    ''customer_merchant_error'', ''uss_customer_fetch_failed'',
    ''uss_customer_fetch_personal_info_failed'', ''uss_player_count_of_merchant_failed'',
    ''uss_password_reset_failed'', ''mcs_verify_player_info_failed'', ''wps_email_sms_failed'',
    ''parse_json_failed'', ''question_limit_exceeded'', ''redis_not_found'',
    ''phone_already_bound'', ''email_already_bound'', ''help_center_request_param_invalid'',
    ''help_center_persist_failed'', ''time_usage_request_param_invalid'',
    ''time_usage_query_failed'']"

definition Modules :: "string list" where
  "Modules = [
    ''oracle'', ''redis'', ''security_question'', ''customer'', ''profile'', ''non'', ''merchant'',
    ''remember'', ''password'', ''customer_permission'', ''sort'', ''mail'', ''dynamic_field'',
    ''relay'', ''register'']"

definition ModuleNone :: string where
  "ModuleNone = ''non''"

definition SysErr :: string where
  "SysErr = ''unknown_err''"

section \<open>Errors\<close>

datatype go_err =
    AppError (ae_Module: string) (ae_ErrorCode: string) (ae_Message: string) (ae_Cause: "go_err option")
  | HTTPErr (hx_ErrorCode: string) (hx_Message: string)
  | Wrapped string go_err string
  | Plain string

definition buildMessage :: "string \<Rightarrow> string" where
  "buildMessage desc = (if TrimSpace desc = '''' then ''unknown error'' else desc)"

definition app_New :: "string \<Rightarrow> string \<Rightarrow> string \<Rightarrow> go_err option \<Rightarrow> go_err" where
  "app_New module code desc cause = AppError module code (buildMessage desc) cause"

definition NewSimple :: "string \<Rightarrow> string \<Rightarrow> go_err" where
  "NewSimple code desc = app_New ModuleNone code desc None"

fun err_text :: "go_err \<Rightarrow> string" where
  "err_text (AppError m c msg cause) = (case cause of
     Some e \<Rightarrow> m @ '':'' @ c @ '' '' @ msg @ '' ('' @ err_text e @ '')''
   | None \<Rightarrow> m @ '':'' @ c @ '' '' @ msg)"
| "err_text (HTTPErr c msg) = msg"
| "err_text (Wrapped pre e post) = pre @ err_text e @ post"
| "err_text (Plain s) = s"

definition app_Wrap :: "string \<Rightarrow> go_err \<Rightarrow> go_err" where
  "app_Wrap code cause = AppError ModuleNone code (err_text cause) (Some cause)"

definition NewHTTPError :: "string \<Rightarrow> string \<Rightarrow> go_err" where
  "NewHTTPError errorCode message = HTTPErr errorCode message"

definition NewHTTPErrorFromCode :: "string \<Rightarrow> string \<Rightarrow> go_err" where
  "NewHTTPErrorFromCode code message = HTTPErr code message"

text \<open>The method \<open>Is\<close> of an application error.\<close>

fun app_Is :: "go_err \<Rightarrow> go_err \<Rightarrow> bool" where
  "app_Is (AppError m c msg cause) (AppError m' c' msg' cause') =
    (if c \<noteq> c' then False else if m' = ModuleNone then True else m = m')"
| "app_Is e t = False"

fun app_Unwrap :: "go_err \<Rightarrow> go_err option" where
  "app_Unwrap (AppError m c msg cause) = cause"
| "app_Unwrap (Wrapped pre e post) = Some e"
| "app_Unwrap e = None"

text \<open>\<open>errors.Is\<close> for a target that is an application error. Comparing the pointers first adds nothing:
  an application error matches itself.\<close>

fun errors_Is :: "go_err \<Rightarrow> go_err \<Rightarrow> bool" where
  "errors_Is (AppError m c msg cause) t = (app_Is (AppError m c msg cause) t \<or>
     (case cause of None \<Rightarrow> False | Some e \<Rightarrow> errors_Is e t))"
| "errors_Is (Wrapped pre e post) t = errors_Is e t"
| "errors_Is (HTTPErr c msg) t = False"
| "errors_Is (Plain s) t = False"

section \<open>Sentinels\<close>

definition ErrMerchantNotFound :: go_err where
  "ErrMerchantNotFound = NewSimple ''merchant_not_found'' ''merchant not found''"

definition ErrUssCustomerFetchFailed :: go_err where
  "ErrUssCustomerFetchFailed = NewSimple ''uss_customer_fetch_failed'' ''uss customer fetch failed''"

definition ErrUssPlayerCountOfMerchantFailed :: go_err where
  "ErrUssPlayerCountOfMerchantFailed = NewSimple ''uss_player_count_of_merchant_failed'' ''uss player count of merchant failed''"

definition ErrUssCustomerFetchPersonalInfoFailed :: go_err where
  "ErrUssCustomerFetchPersonalInfoFailed = NewSimple ''uss_customer_fetch_personal_info_failed'' ''uss customer fetch personal information failed''"

definition ErrUssPasswordResetFailed :: go_err where
  "ErrUssPasswordResetFailed = NewSimple ''uss_password_reset_failed'' ''uss password reset failed''"

definition ErrMcsVerifyPlayerInfoFailed :: go_err where
  "ErrMcsVerifyPlayerInfoFailed = NewSimple ''mcs_verify_player_info_failed'' ''mcs verify player info failed''"

definition ErrParseJSONFailed :: go_err where
  "ErrParseJSONFailed = NewSimple ''parse_json_failed'' ''parse json failed''"

definition ErrQuestionLimitExceeded :: go_err where
  "ErrQuestionLimitExceeded = NewSimple ''question_limit_exceeded'' ''question limit exceeded''"

definition ErrRedisNotFound :: go_err where
  "ErrRedisNotFound = NewSimple ''redis_not_found'' ''redis instance not found''"

definition ErrWpsEmailSmsFailed :: go_err where
  "ErrWpsEmailSmsFailed = NewSimple ''wps_email_sms_failed'' ''wps email sms api failed''"

definition ErrPhoneAlreadyBound :: go_err where
  "ErrPhoneAlreadyBound = NewSimple ''phone_already_bound'' ''phone already bound''"

definition ErrEmailAlreadyBound :: go_err where
  "ErrEmailAlreadyBound = NewSimple ''email_already_bound'' ''email already bound''"

definition ErrHelpCenterRequestParam :: go_err where
  "ErrHelpCenterRequestParam = NewSimple ''help_center_request_param_invalid'' ''help-center request param invalid''"

definition ErrHelpCenterPersistFailed :: go_err where
  "ErrHelpCenterPersistFailed = NewSimple ''help_center_persist_failed'' ''help-center persist failed''"

definition ErrTimeUsageRequestParam :: go_err where
  "ErrTimeUsageRequestParam = NewSimple ''time_usage_request_param_invalid'' ''time-usage request param invalid''"

definition ErrTimeUsageQueryFailed :: go_err where
  "ErrTimeUsageQueryFailed = NewSimple ''time_usage_query_failed'' ''time-usage query failed''"

definition sentinels :: "go_err list" where
  "sentinels = [ErrMerchantNotFound, ErrUssCustomerFetchFailed, ErrUssPlayerCountOfMerchantFailed, ErrUssCustomerFetchPersonalInfoFailed,
     ErrUssPasswordResetFailed, ErrMcsVerifyPlayerInfoFailed, ErrParseJSONFailed, ErrQuestionLimitExceeded,
     ErrRedisNotFound, ErrWpsEmailSmsFailed, ErrPhoneAlreadyBound, ErrEmailAlreadyBound,
     ErrHelpCenterRequestParam, ErrHelpCenterPersistFailed, ErrTimeUsageRequestParam, ErrTimeUsageQueryFailed]"

lemmas sentinel_defs = ErrMerchantNotFound_def ErrUssCustomerFetchFailed_def ErrUssPlayerCountOfMerchantFailed_def ErrUssCustomerFetchPersonalInfoFailed_def
  ErrUssPasswordResetFailed_def ErrMcsVerifyPlayerInfoFailed_def ErrParseJSONFailed_def ErrQuestionLimitExceeded_def
  ErrRedisNotFound_def ErrWpsEmailSmsFailed_def ErrPhoneAlreadyBound_def ErrEmailAlreadyBound_def
  ErrHelpCenterRequestParam_def ErrHelpCenterPersistFailed_def ErrTimeUsageRequestParam_def ErrTimeUsageQueryFailed_def

section \<open>Responses\<close>

record BaseResponse =
  br_Message :: string
  br_ErrorCode :: string
  br_Success :: bool

datatype log_level = LogInfo | LogWarn | LogErr

record reply =
  rp_status :: int
  rp_body :: BaseResponse
  rp_log :: "log_level option"

definition isIgnoreErrorCode :: "string \<Rightarrow> bool" where
  "isIgnoreErrorCode code \<longleftrightarrow> code \<in> {SysErr}"

definition ErrorHandler :: "(rune \<Rightarrow> rune) \<Rightarrow> go_err option \<Rightarrow> reply" where
  "ErrorHandler ulow err = (case err of
     Some (AppError m c msg cause) \<Rightarrow>
       \<lparr>rp_status = 500, rp_body = \<lparr>br_Message = msg, br_ErrorCode = ''ucs-fe.'' @ m @ ''.'' @ ToLower ulow c,
          br_Success = False\<rparr>, rp_log = Some LogErr\<rparr>
   | Some (HTTPErr c msg) \<Rightarrow>
       \<lparr>rp_status = 500, rp_body = \<lparr>br_Message = msg, br_ErrorCode = c, br_Success = False\<rparr>,
        rp_log = Some (if isIgnoreErrorCode c then LogInfo else LogWarn)\<rparr>
   | _ \<Rightarrow>
       \<lparr>rp_status = 500, rp_body = \<lparr>br_Message = (case err of None \<Rightarrow> ''unknown'' | Some e \<Rightarrow> err_text e),
          br_ErrorCode = ''ucs-fe.non.unknown_err'', br_Success = False\<rparr>, rp_log = None\<rparr>)"

text \<open>What the next handler does: it returns with an error or none and the response it set, or panics. A
  recovered panic sets the response and reports no error.\<close>

datatype next_outcome = NextReturns "go_err option" reply | NextPanics

definition mw_Recover :: "next_outcome \<Rightarrow> go_err option \<times> reply" where
  "mw_Recover out = (case out of
     NextReturns err r \<Rightarrow> (err, r)
   | NextPanics \<Rightarrow> (None, \<lparr>rp_status = 500, rp_body = \<lparr>br_Message = ''Internal server error'',
       br_ErrorCode = ''ucs-fe.non.internal_error'', br_Success = False\<rparr>, rp_log = Some LogErr\<rparr>))"

record ErrResponse =
  er_ErrorCode :: string
  er_Message :: string
  er_Success :: bool

definition NewErrResponse :: "string \<Rightarrow> string \<Rightarrow> ErrResponse" where
  "NewErrResponse errorCode message = \<lparr>er_ErrorCode = errorCode, er_Message = message, er_Success = False\<rparr>"

record 'a CommonResponse =
  cm_Data :: "'a option"
  cm_Message :: string
  cm_Code :: int

definition resp_Success :: "'a \<Rightarrow> bool \<times> 'a CommonResponse" where
  "resp_Success data = (True, \<lparr>cm_Data = Some data, cm_Message = ''success'', cm_Code = 0\<rparr>)"

definition resp_Fail :: "int \<Rightarrow> string \<Rightarrow> bool \<times> 'a CommonResponse" where
  "resp_Fail code msg = (False, \<lparr>cm_Data = None, cm_Message = msg, cm_Code = code\<rparr>)"

record CodeMessage =
  co_Code :: string
  co_Message :: string

definition NewErrInternalServer :: "string \<Rightarrow> CodeMessage" where
  "NewErrInternalServer msg = \<lparr>co_Code = ''INTERNAL_ERROR'', co_Message = msg\<rparr>"

definition NewErrMissingParam :: "string \<Rightarrow> CodeMessage" where
  "NewErrMissingParam fld = \<lparr>co_Code = ''MISSING_PARAM'', co_Message = fld @ '' is required''\<rparr>"

definition NewErrNotFound :: "string \<Rightarrow> CodeMessage" where
  "NewErrNotFound resource = \<lparr>co_Code = ''NOT_FOUND'', co_Message = resource @ '' not found''\<rparr>"

section \<open>What errors.Is finds\<close>

text \<open>The ways the services build on an error: more text around it, or another application error that
  has it as its cause.\<close>

datatype layer = WithText string string | WithCode string string string

fun add_layer :: "layer \<Rightarrow> go_err \<Rightarrow> go_err" where
  "add_layer (WithText pre post) e = Wrapped pre e post"
| "add_layer (WithCode m c desc) e = app_New m c desc (Some e)"

fun layer_codes :: "layer list \<Rightarrow> string set" where
  "layer_codes [] = {}"
| "layer_codes (WithText pre post # ls) = layer_codes ls"
| "layer_codes (WithCode m c desc # ls) = insert c (layer_codes ls)"

lemma errors_Is_layers:
  "errors_Is (foldr add_layer ls e) (NewSimple code desc) \<longleftrightarrow>
    code \<in> layer_codes ls \<or> errors_Is e (NewSimple code desc)"
  by (induction ls rule: layer_codes.induct) (auto simp: app_New_def NewSimple_def)

lemma NewSimple_Is: "errors_Is (NewSimple c d) (NewSimple c' d') \<longleftrightarrow> c = c'"
  by (simp add: NewSimple_def app_New_def)

text \<open>The sentinels with the codes they carry.\<close>

lemma sentinels_simple: "list_all (\<lambda>s. \<exists>d. s = NewSimple (ae_ErrorCode s) d) sentinels"
  by (auto simp: sentinels_def sentinel_defs NewSimple_def app_New_def)

lemma sentinel_codes_distinct: "distinct (map ae_ErrorCode sentinels)"
  by (simp add: sentinels_def sentinel_defs NewSimple_def app_New_def)

text \<open>A service may add text to a sentinel error or make it the cause of other application errors, in any
  number and order: \<open>errors.Is\<close> still finds the sentinel, and it finds another sentinel only if one of
  the added errors carries that sentinel's code. In particular no two sentinels are confused.\<close>

theorem sentinel_matching:
  assumes "s \<in> set sentinels" "t \<in> set sentinels"
  shows "errors_Is (foldr add_layer ls s) t \<longleftrightarrow> t = s \<or> ae_ErrorCode t \<in> layer_codes ls"
proof -
  obtain d d' where d: "s = NewSimple (ae_ErrorCode s) d" "t = NewSimple (ae_ErrorCode t) d'"
    using assms sentinels_simple unfolding list_all_iff by blast
  have "ae_ErrorCode s = ae_ErrorCode t \<longleftrightarrow> s = t"
    using assms sentinel_codes_distinct by (auto simp: distinct_map inj_on_def)
  moreover have "errors_Is s t \<longleftrightarrow> ae_ErrorCode s = ae_ErrorCode t"
    using d NewSimple_Is by metis
  ultimately show ?thesis
    using d errors_Is_layers by metis
qed

theorem sentinel_matching_witness:
  "errors_Is (Wrapped ''lookup: '' (Wrapped ''db: '' ErrMerchantNotFound []) '' (retry)'') ErrMerchantNotFound
    \<and> \<not> errors_Is (Wrapped ''lookup: '' (Wrapped ''db: '' ErrMerchantNotFound []) '' (retry)'') ErrRedisNotFound"
proof -
  have "ErrMerchantNotFound \<in> set sentinels" "ErrRedisNotFound \<in> set sentinels"
    by (simp_all add: sentinels_def)
  moreover have "ErrRedisNotFound \<noteq> ErrMerchantNotFound"
    by (simp add: sentinel_defs NewSimple_def app_New_def)
  ultimately show ?thesis
    using sentinel_matching [of ErrMerchantNotFound _ "[WithText ''lookup: '' '' (retry)'', WithText ''db: '' []]"]
    by auto
qed

section \<open>What the client sees\<close>

lemma codes_ok:
  "list_all (\<lambda>c. ascii c \<and> list_all (\<lambda>x. x \<noteq> CHR ''.'' \<and> \<not> (65 \<le> (of_char x :: nat) \<and> (of_char x :: nat) \<le> 90)) c) ErrorCodes"
  "list_all (list_all (\<lambda>x. x \<noteq> CHR ''.'')) Modules"
  by code_simp+

lemma ToLower_ascii:
  assumes "ascii s" "\<forall>x \<in> set s. \<not> (65 \<le> (of_char x :: nat) \<and> (of_char x :: nat) \<le> 90)"
  shows "ToLower ulow s = s"
proof -
  have "lower_rune ulow (of_char x) = of_char x" if "x \<in> set s" for x
  proof -
    have "(of_char x :: int) = int (of_char x)" by (simp only: of_nat_of_char)
    then show ?thesis using assms that by (auto simp: lower_rune_def ascii_def)
  qed
  then have "map (lower_rune ulow) (runes_of s) = map of_char s"
    by (simp add: runes_of_ascii [OF assms(1)])
  then show ?thesis by (simp add: ToLower_def string_of_runes_ascii assms(1))
qed

lemma ToLower_code: "c \<in> set ErrorCodes \<Longrightarrow> ToLower ulow c = c"
  using codes_ok(1) by (intro ToLower_ascii) (auto simp: list_all_iff)

lemma sentinel_codes_listed: "list_all (\<lambda>s. ae_ErrorCode s \<in> set ErrorCodes) sentinels"
  by (simp add: sentinels_def sentinel_defs NewSimple_def app_New_def ErrorCodes_def)

lemma split_at:
  "x \<notin> set a \<Longrightarrow> x \<notin> set a' \<Longrightarrow> a @ x # b = a' @ x # b' \<longleftrightarrow> a = a' \<and> b = b'"
proof (induction a arbitrary: a')
  case Nil
  then show ?case by (cases a') auto
next
  case (Cons y a)
  then show ?case by (cases a') auto
qed

text \<open>The code in the response to an application error with one of the listed modules and codes identifies
  the module and the code, and it is the prefix, the module and the code joined by dots.\<close>

theorem ErrorHandler_code_unique:
  assumes "m \<in> set Modules" "m' \<in> set Modules" "c \<in> set ErrorCodes" "c' \<in> set ErrorCodes"
  shows "br_ErrorCode (rp_body (ErrorHandler ulow (Some (AppError m c msg cause)))) = ''ucs-fe.'' @ Join [m, c] ''.''
    \<and> (br_ErrorCode (rp_body (ErrorHandler ulow (Some (AppError m c msg cause)))) =
      br_ErrorCode (rp_body (ErrorHandler ulow (Some (AppError m' c' msg' cause')))) \<longleftrightarrow> m = m' \<and> c = c')"
proof -
  have "CHR ''.'' \<notin> set m" "CHR ''.'' \<notin> set m'"
    using assms(1,2) codes_ok(2) by (auto simp: list_all_iff)
  then show ?thesis
    using split_at [of "CHR ''.''" m m' c c'] by (simp add: ErrorHandler_def ToLower_code assms(3,4))
qed

theorem ErrorHandler_code_unique_witness:
  "br_ErrorCode (rp_body (ErrorHandler id (Some (AppError ''redis'' ''redis_not_found'' ''m'' None)))) =
      ''ucs-fe.redis.redis_not_found''"
  using ErrorHandler_code_unique [of "''redis''" "''redis''" "''redis_not_found''" "''redis_not_found''" id "''m''" None]
  by (simp add: Modules_def ErrorCodes_def)

text \<open>C40: A sentinel error wrapped with text is still found by \<open>errors.Is\<close>, but the error handler of the HTTP
  server, which switches on the type of the outermost error, answers with the code of unknown errors
  and logs nothing; the sentinel itself is answered with its own code and logged as an error.\<close>

theorem ErrorHandler_wrapped:
  assumes "s \<in> set sentinels"
  shows "errors_Is (Wrapped pre s post) s
    \<and> ErrorHandler ulow (Some (Wrapped pre s post)) = \<lparr>rp_status = 500, rp_body = \<lparr>br_Message = pre @ err_text s @ post,
        br_ErrorCode = ''ucs-fe.non.unknown_err'', br_Success = False\<rparr>, rp_log = None\<rparr>
    \<and> ErrorHandler ulow (Some s) = \<lparr>rp_status = 500, rp_body = \<lparr>br_Message = ae_Message s,
        br_ErrorCode = ''ucs-fe.non.'' @ ae_ErrorCode s, br_Success = False\<rparr>, rp_log = Some LogErr\<rparr>"
proof -
  obtain c d where s: "s = NewSimple c d"
    using assms sentinels_simple unfolding list_all_iff by blast
  moreover have "ToLower ulow (ae_ErrorCode s) = ae_ErrorCode s"
    using assms sentinel_codes_listed by (auto simp: list_all_iff intro: ToLower_code)
  ultimately show ?thesis
    by (simp add: ErrorHandler_def NewSimple_def app_New_def ModuleNone_def)
qed

theorem ErrorHandler_wrapped_witness:
  "errors_Is (Wrapped ''svc: '' ErrMerchantNotFound []) ErrMerchantNotFound
    \<and> br_ErrorCode (rp_body (ErrorHandler id (Some (Wrapped ''svc: '' ErrMerchantNotFound [])))) = ''ucs-fe.non.unknown_err''"
  using ErrorHandler_wrapped [of ErrMerchantNotFound "''svc: ''" "[]" id] by (simp add: sentinels_def)

end
