(* ===== verification/Kafka_Config.thy ===== *)
theory Kafka_Config
  imports Go_Strings
begin

text \<open>
  The Kafka settings and the options the clients are built from: \<^verbatim>\<open>pkg/kafka/config.go\<close>, the
  option builders of \<^verbatim>\<open>pkg/kafka/producer.go\<close> and the settings half of
  \<^verbatim>\<open>pkg/kafka/consumer.go\<close>. Records hold the fields the code reads under the source's names with a
  prefix (\<open>p_\<close> producer, \<open>pt_\<close> producer topic, \<open>c_\<close> consumer, \<open>ct_\<close> consumer topic). Go's \<open>int\<close>
  and \<open>time.Duration\<close> (nanoseconds) are integers with 64-bit wrap-around written out where the
  code multiplies or adds.

  The Kafka client library is not part of the repository: an option of its API is a value of
  \<open>kgo_opt\<close>, and what the library and the operating system return (\<open>kgo.NewClient\<close>, \<open>Ping\<close>,
  \<open>os.ReadFile\<close>, the parsers of certificates) are arguments.
\<close>

section \<open>Durations and defaults\<close>

abbreviation Millisecond :: int where "Millisecond \<equiv> 1000000"
abbreviation Second :: int where "Second \<equiv> 1000000000"

text \<open>\<open>time.Duration(ms) * time.Millisecond\<close>.\<close>

definition millis_dur :: "int \<Rightarrow> int" where
  "millis_dur ms = wrap64 (ms * Millisecond)"

definition msToDur :: "int \<Rightarrow> int \<Rightarrow> int" where
  "msToDur ms def = (if ms > 0 then millis_dur ms else def)"

definition intOr :: "int \<Rightarrow> int \<Rightarrow> int" where
  "intOr v def = (if v > 0 then v else def)"

definition int32Or :: "int \<Rightarrow> int \<Rightarrow> int" where
  "int32Or v def = (if v > 0 then v else def)"

definition strOr :: "string \<Rightarrow> string \<Rightarrow> string" where
  "strOr v def = (if v \<noteq> '''' then v else def)"

section \<open>Producer settings\<close>

record ProducerTLSConfig =
  tls_CAFile :: string
  tls_CertFile :: string
  tls_KeyFile :: string
  tls_Enable :: bool
  tls_InsecureSkipVerify :: bool

record ProducerSASLConfig =
  sasl_Mechanism :: string
  sasl_User :: string
  sasl_Pass :: string
  sasl_PassFile :: string
  sasl_Enable :: bool

record ProducerTopicConfig =
  pt_Acks :: string
  pt_Compression :: string
  pt_Retries :: int
  pt_RetryBackoffMs :: int
  pt_LingerMs :: int
  pt_BatchSize :: int
  pt_MaxMessageBytes :: int

record ProducerConfig =
  p_Topics :: "string \<rightharpoonup> ProducerTopicConfig"
  p_ClientID :: string
  p_Topic :: string
  p_Compression :: string
  p_SASL :: ProducerSASLConfig
  p_TLS :: ProducerTLSConfig
  p_Brokers :: "string list"
  p_DefaultTopics :: "string list"
  p_RecordRetries :: int
  p_MaxBufferedRecords :: int
  p_RequiredAcks :: int
  p_MetricsLogIntervalMs :: int
  p_RetryQueueCap :: int
  p_RequestTimeoutMs :: int
  p_DeliveryTimeoutMs :: int
  p_FlushTimeoutMs :: int
  p_LingerMs :: int
  p_MaxBufferedBytes :: int
  p_MaxInFlight :: int
  p_BatchMaxBytes :: int
  p_HardDeliveryBound :: bool
  p_EnableIdempotence :: bool

definition p_batchMaxBytes :: "ProducerConfig \<Rightarrow> int" where
  "p_batchMaxBytes c = (if p_BatchMaxBytes c > 0 then p_BatchMaxBytes c else 1024 * 1024)"

definition EffectiveTopicConfig :: "ProducerConfig \<Rightarrow> string \<Rightarrow> ProducerTopicConfig" where
  "EffectiveTopicConfig c topic = (let
      base = \<lparr>pt_Acks = '''', pt_Compression = p_Compression c, pt_Retries = 0,
        pt_RetryBackoffMs = 0, pt_LingerMs = p_LingerMs c, pt_BatchSize = 0,
        pt_MaxMessageBytes = p_batchMaxBytes c\<rparr>
    in case p_Topics c topic of None \<Rightarrow> base | Some ov \<Rightarrow> (let
      base = (if pt_Compression ov \<noteq> '''' then base\<lparr>pt_Compression := pt_Compression ov\<rparr> else base);
      base = (if pt_MaxMessageBytes ov > 0
        then base\<lparr>pt_MaxMessageBytes := pt_MaxMessageBytes ov\<rparr> else base);
      base = (if pt_LingerMs ov > 0 then base\<lparr>pt_LingerMs := pt_LingerMs ov\<rparr> else base);
      base = (if pt_BatchSize ov > 0 then base\<lparr>pt_BatchSize := pt_BatchSize ov\<rparr> else base);
      base = (if pt_Acks ov \<noteq> '''' then base\<lparr>pt_Acks := pt_Acks ov\<rparr> else base);
      base = (if pt_Retries ov > 0 then base\<lparr>pt_Retries := pt_Retries ov\<rparr> else base);
      base = (if pt_RetryBackoffMs ov > 0
        then base\<lparr>pt_RetryBackoffMs := pt_RetryBackoffMs ov\<rparr> else base)
      in base))"

definition RequestTimeout :: "ProducerConfig \<Rightarrow> int" where
  "RequestTimeout c =
    (if p_RequestTimeoutMs c > 0 then millis_dur (p_RequestTimeoutMs c) else 30 * Second)"

definition defaultTopic :: "ProducerConfig \<Rightarrow> string" where
  "defaultTopic c =
    (if p_Topic c \<noteq> '''' then p_Topic c
     else case p_DefaultTopics c of t # _ \<Rightarrow> t | [] \<Rightarrow> '''')"

definition DeliveryTimeout :: "ProducerConfig \<Rightarrow> int" where
  "DeliveryTimeout c =
    (if p_DeliveryTimeoutMs c > 0 then millis_dur (p_DeliveryTimeoutMs c) else 30 * Second)"

definition FlushTimeout :: "ProducerConfig \<Rightarrow> int" where
  "FlushTimeout c =
    (if p_FlushTimeoutMs c > 0 then millis_dur (p_FlushTimeoutMs c)
     else wrap64 (DeliveryTimeout c + 5 * Second))"

definition recordRetries :: "ProducerConfig \<Rightarrow> ProducerTopicConfig \<Rightarrow> int" where
  "recordRetries c t =
    (if pt_Retries t > 0 then pt_Retries t
     else if p_RecordRetries c > 0 then p_RecordRetries c else 5)"

datatype acks = NoAck | LeaderAck | AllISRAcks

definition requiredAcks :: "ProducerTopicConfig \<Rightarrow> acks" where
  "requiredAcks t =
    (if pt_Acks t = ''0'' then NoAck else if pt_Acks t = ''1'' then LeaderAck else AllISRAcks)"

datatype codec = NoCompression | GzipCompression | SnappyCompression | Lz4Compression | ZstdCompression

definition compressionCodec :: "ProducerTopicConfig \<Rightarrow> codec list" where
  "compressionCodec t = (let c = pt_Compression t in
    if c = ''gzip'' then [GzipCompression]
    else if c = ''snappy'' then [SnappyCompression]
    else if c = ''lz4'' then [Lz4Compression]
    else if c = ''zstd'' then [ZstdCompression]
    else [NoCompression])"

definition t_batchMaxBytes :: "ProducerTopicConfig \<Rightarrow> int" where
  "t_batchMaxBytes t = (if pt_MaxMessageBytes t > 0 then pt_MaxMessageBytes t else 1024 * 1024)"

definition lingerDuration :: "ProducerTopicConfig \<Rightarrow> int" where
  "lingerDuration t = (if pt_LingerMs t > 0 then millis_dur (pt_LingerMs t) else 5 * Millisecond)"

text \<open>The function \<open>retryBackoff\<close> returns; both products are 64-bit.\<close>

definition retryBackoff :: "ProducerTopicConfig \<Rightarrow> int \<Rightarrow> int" where
  "retryBackoff t tries = (let
      backoffMs = (if pt_RetryBackoffMs t \<le> 0 then 100 else pt_RetryBackoffMs t);
      d = wrap64 (wrap64 (tries * backoffMs) * Millisecond)
    in if d > 3 * Second then 3 * Second else d)"

section \<open>Options of the client library\<close>

datatype sasl_mech = SaslPlain string string | ScramSha256 string string | ScramSha512 string string

record 'cert tls_Config =
  tc_InsecureSkipVerify :: bool
  tc_RootCAs :: "string option"
  tc_Certificates :: "'cert list"

datatype kgo_offset = AtStart | AtEnd

datatype 'cert kgo_opt =
    kgo_SeedBrokers "string list"
  | kgo_ClientID string
  | kgo_WithLogger
  | kgo_DefaultProduceTopic string
  | kgo_MetadataMaxAge int
  | kgo_MetadataMinAge int
  | kgo_DialTimeout int
  | kgo_ProducerBatchCompression "codec list"
  | kgo_ProducerBatchMaxBytes int
  | kgo_ProducerLinger int
  | kgo_RecordRetries int
  | kgo_RetryBackoffFn "int \<Rightarrow> int"
  | kgo_RecordDeliveryTimeout int
  | kgo_ProduceRequestTimeout int
  | kgo_StickyKeyPartitioner
  | kgo_RequiredAcks acks
  | kgo_AllowIdempotentProduceCancellation
  | kgo_DisableIdempotentWrite
  | kgo_MaxBufferedRecords int
  | kgo_MaxBufferedBytes int
  | kgo_DialTLSConfig "'cert tls_Config"
  | kgo_SASL sasl_mech
  | kgo_ConsumerGroup string
  | kgo_ConsumeTopics string
  | kgo_ConsumeResetOffset kgo_offset
  | kgo_DisableAutoCommit
  | kgo_BlockRebalanceOnPoll
  | kgo_CooperativeStickyBalancer
  | kgo_OnPartitionsRevoked
  | kgo_OnPartitionsAssigned
  | kgo_SessionTimeout int
  | kgo_HeartbeatInterval int
  | kgo_RebalanceTimeout int
  | kgo_FetchMinBytes int
  | kgo_FetchMaxWait int
  | kgo_FetchMaxBytes int
  | kgo_FetchMaxPartitionBytes int
  | kgo_MaxConcurrentFetches int

datatype 'e opts_error =
    ReadCAFile 'e | NoCertificatesParsed string | CertKeyTogether | LoadKeyPair 'e
  | ReadPassFile 'e | UserPassEmpty | UnsupportedMechanism string

definition buildTLSConfig ::
  "(string \<Rightarrow> 'e + string) \<Rightarrow> (string \<Rightarrow> bool) \<Rightarrow> (string \<Rightarrow> string \<Rightarrow> 'e + 'cert) \<Rightarrow>
   ProducerTLSConfig \<Rightarrow> 'e opts_error + 'cert tls_Config option" where
  "buildTLSConfig ReadFile AppendCertsFromPEM LoadX509KeyPair t =
    (if \<not> tls_Enable t then Inr None else
     bind_res
       (if tls_CAFile t \<noteq> '''' then
          (case ReadFile (tls_CAFile t) of
             Inl e \<Rightarrow> Inl (ReadCAFile e)
           | Inr ca \<Rightarrow> if \<not> AppendCertsFromPEM ca then Inl (NoCertificatesParsed (tls_CAFile t))
                      else Inr (Some ca))
        else Inr None)
       (\<lambda>cas.
     if (tls_CertFile t = '''') \<noteq> (tls_KeyFile t = '''') then Inl CertKeyTogether else
     bind_res
       (if tls_CertFile t \<noteq> '''' \<and> tls_KeyFile t \<noteq> '''' then
          (case LoadX509KeyPair (tls_CertFile t) (tls_KeyFile t) of
             Inl e \<Rightarrow> Inl (LoadKeyPair e) | Inr cert \<Rightarrow> Inr [cert])
        else Inr [])
       (\<lambda>certs. Inr (Some \<lparr>tc_InsecureSkipVerify = tls_InsecureSkipVerify t, tc_RootCAs = cas,
          tc_Certificates = certs\<rparr>))))"

definition buildSASL ::
  "(string \<Rightarrow> 'e + string) \<Rightarrow> ProducerSASLConfig \<Rightarrow> 'e opts_error + sasl_mech option" where
  "buildSASL ReadFile s =
    (if \<not> sasl_Enable s then Inr None else
     bind_res
       (if sasl_PassFile s \<noteq> '''' then
          (case ReadFile (sasl_PassFile s) of
             Inl e \<Rightarrow> Inl (ReadPassFile e) | Inr b \<Rightarrow> Inr (TrimSpace b))
        else Inr (sasl_Pass s))
       (\<lambda>pass.
     if sasl_User s = '''' \<or> pass = '''' then Inl UserPassEmpty else
     let mech = ToUpper (TrimSpace (sasl_Mechanism s)) in
     if mech = ''PLAIN'' then Inr (Some (SaslPlain (sasl_User s) pass))
     else if mech = ''SCRAM-SHA-256'' then Inr (Some (ScramSha256 (sasl_User s) pass))
     else if mech = ''SCRAM-SHA-512'' then Inr (Some (ScramSha512 (sasl_User s) pass))
     else Inl (UnsupportedMechanism (sasl_Mechanism s))))"

definition buildProducerOpts ::
  "(string \<Rightarrow> 'e + string) \<Rightarrow> (string \<Rightarrow> bool) \<Rightarrow> (string \<Rightarrow> string \<Rightarrow> 'e + 'cert) \<Rightarrow>
   ProducerConfig \<Rightarrow> 'e opts_error + 'cert kgo_opt list" where
  "buildProducerOpts ReadFile AppendCertsFromPEM LoadX509KeyPair cfg = (let
      topicCfg = EffectiveTopicConfig cfg (defaultTopic cfg)
    in
    bind_res (buildTLSConfig ReadFile AppendCertsFromPEM LoadX509KeyPair (p_TLS cfg)) (\<lambda>tlsCfg.
    bind_res (buildSASL ReadFile (p_SASL cfg)) (\<lambda>mech.
      Inr ([kgo_SeedBrokers (p_Brokers cfg), kgo_DefaultProduceTopic (defaultTopic cfg),
         kgo_WithLogger, kgo_MetadataMaxAge (60 * Second), kgo_MetadataMinAge (5 * Second),
         kgo_DialTimeout (10 * Second),
         kgo_ProducerBatchCompression (compressionCodec topicCfg),
         kgo_ProducerBatchMaxBytes (t_batchMaxBytes topicCfg),
         kgo_ProducerLinger (lingerDuration topicCfg),
         kgo_RecordRetries (recordRetries cfg topicCfg),
         kgo_RetryBackoffFn (retryBackoff topicCfg),
         kgo_RecordDeliveryTimeout (DeliveryTimeout cfg),
         kgo_ProduceRequestTimeout (RequestTimeout cfg),
         kgo_StickyKeyPartitioner]
       @ (if p_EnableIdempotence cfg
          then kgo_RequiredAcks AllISRAcks #
            (if p_HardDeliveryBound cfg then [kgo_AllowIdempotentProduceCancellation] else [])
          else [kgo_RequiredAcks (requiredAcks topicCfg), kgo_DisableIdempotentWrite])
       @ (if p_ClientID cfg \<noteq> '''' then [kgo_ClientID (p_ClientID cfg)] else [])
       @ (if p_MaxBufferedRecords cfg > 0
          then [kgo_MaxBufferedRecords (p_MaxBufferedRecords cfg)] else [])
       @ (if p_MaxBufferedBytes cfg > 0
          then [kgo_MaxBufferedBytes (p_MaxBufferedBytes cfg)] else [])
       @ (case tlsCfg of Some tc \<Rightarrow> [kgo_DialTLSConfig tc] | None \<Rightarrow> [])
       @ (case mech of Some m \<Rightarrow> [kgo_SASL m] | None \<Rightarrow> [])))))"

section \<open>Consumer settings\<close>

record ConsumerTopicConfig =
  ct_ClientID :: string
  ct_GroupID :: string
  ct_AutoOffsetReset :: string
  ct_FetchMaxBytes :: int
  ct_FetchMaxPartitionBytes :: int
  ct_FetchMinBytes :: int
  ct_FetchMaxWaitMs :: int
  ct_MaxConcurrentFetches :: int
  ct_FetchErrorBackoffMs :: int
  ct_MaxWorkers :: int
  ct_MaxRetries :: int
  ct_CommitMaxRetry :: int
  ct_CommitBatchSize :: int
  ct_CommitChanCap :: int
  ct_CommitTimeoutMs :: int
  ct_CommitBlockWarnMs :: int
  ct_SessionTimeoutMs :: int
  ct_HeartbeatIntervalMs :: int
  ct_RebalanceTimeoutMs :: int
  ct_ShutdownTimeoutMs :: int
  ct_RevokeFlushTimeoutMs :: int

text \<open>The map of the topics holds pointers: an entry may be nil (\<open>Some None\<close>).\<close>

record ConsumerConfig =
  c_Topics :: "string \<rightharpoonup> ConsumerTopicConfig option"
  c_ClientID :: string
  c_GroupID :: string
  c_AutoOffsetReset :: string
  c_Brokers :: "string list"
  c_DefaultTopics :: "string list"
  c_MaxPollRecords :: int
  c_FetchMaxBytes :: int
  c_FetchMaxPartitionBytes :: int
  c_FetchMinBytes :: int
  c_FetchMaxWaitMs :: int
  c_SessionTimeoutMs :: int
  c_HeartbeatIntervalMs :: int
  c_RebalanceTimeoutMs :: int
  c_CommitTimeoutMs :: int
  c_ShutdownTimeoutMs :: int
  c_RevokeFlushTimeoutMs :: int
  c_MaxWorkers :: int

definition normalizeOffsetReset :: "string \<Rightarrow> string" where
  "normalizeOffsetReset v =
    (if v = ''newest'' then ''latest''
     else if v = ''oldest'' then ''earliest''
     else if v = '''' then ''latest''
     else v)"

definition EffectiveTopicConsumerConfig :: "ConsumerConfig \<Rightarrow> string \<Rightarrow> ConsumerTopicConfig" where
  "EffectiveTopicConsumerConfig c topic = (let
      base = \<lparr>ct_ClientID = c_ClientID c, ct_GroupID = c_GroupID c,
        ct_AutoOffsetReset = normalizeOffsetReset (c_AutoOffsetReset c),
        ct_FetchMaxBytes = c_FetchMaxBytes c,
        ct_FetchMaxPartitionBytes = c_FetchMaxPartitionBytes c,
        ct_FetchMinBytes = c_FetchMinBytes c, ct_FetchMaxWaitMs = c_FetchMaxWaitMs c,
        ct_MaxConcurrentFetches = 0, ct_FetchErrorBackoffMs = 0, ct_MaxWorkers = c_MaxWorkers c,
        ct_MaxRetries = 0, ct_CommitMaxRetry = 0, ct_CommitBatchSize = 0, ct_CommitChanCap = 0,
        ct_CommitTimeoutMs = c_CommitTimeoutMs c, ct_CommitBlockWarnMs = 0,
        ct_SessionTimeoutMs = c_SessionTimeoutMs c,
        ct_HeartbeatIntervalMs = c_HeartbeatIntervalMs c,
        ct_RebalanceTimeoutMs = c_RebalanceTimeoutMs c,
        ct_ShutdownTimeoutMs = c_ShutdownTimeoutMs c,
        ct_RevokeFlushTimeoutMs = c_RevokeFlushTimeoutMs c\<rparr>
    in case c_Topics c topic of None \<Rightarrow> base | Some None \<Rightarrow> base | Some (Some ov) \<Rightarrow>
      \<lparr>ct_ClientID = strOr (ct_ClientID ov) (ct_ClientID base),
       ct_GroupID = strOr (ct_GroupID ov) (ct_GroupID base),
       ct_AutoOffsetReset =
         (if ct_AutoOffsetReset ov \<noteq> '''' then normalizeOffsetReset (ct_AutoOffsetReset ov)
          else ct_AutoOffsetReset base),
       ct_FetchMaxBytes = int32Or (ct_FetchMaxBytes ov) (ct_FetchMaxBytes base),
       ct_FetchMaxPartitionBytes =
         int32Or (ct_FetchMaxPartitionBytes ov) (ct_FetchMaxPartitionBytes base),
       ct_FetchMinBytes = int32Or (ct_FetchMinBytes ov) (ct_FetchMinBytes base),
       ct_FetchMaxWaitMs = intOr (ct_FetchMaxWaitMs ov) (ct_FetchMaxWaitMs base),
       ct_MaxConcurrentFetches = ct_MaxConcurrentFetches ov,
       ct_FetchErrorBackoffMs = ct_FetchErrorBackoffMs ov,
       ct_MaxWorkers = intOr (ct_MaxWorkers ov) (ct_MaxWorkers base),
       ct_MaxRetries = ct_MaxRetries ov,
       ct_CommitMaxRetry = ct_CommitMaxRetry ov,
       ct_CommitBatchSize = ct_CommitBatchSize ov,
       ct_CommitChanCap = ct_CommitChanCap ov,
       ct_CommitTimeoutMs = intOr (ct_CommitTimeoutMs ov) (ct_CommitTimeoutMs base),
       ct_CommitBlockWarnMs = ct_CommitBlockWarnMs ov,
       ct_SessionTimeoutMs = intOr (ct_SessionTimeoutMs ov) (ct_SessionTimeoutMs base),
       ct_HeartbeatIntervalMs = intOr (ct_HeartbeatIntervalMs ov) (ct_HeartbeatIntervalMs base),
       ct_RebalanceTimeoutMs = intOr (ct_RebalanceTimeoutMs ov) (ct_RebalanceTimeoutMs base),
       ct_ShutdownTimeoutMs = intOr (ct_ShutdownTimeoutMs ov) (ct_ShutdownTimeoutMs base),
       ct_RevokeFlushTimeoutMs =
         intOr (ct_RevokeFlushTimeoutMs ov) (ct_RevokeFlushTimeoutMs base)\<rparr>)"

definition SessionTimeout :: "ConsumerConfig \<Rightarrow> int" where
  "SessionTimeout c =
    (if c_SessionTimeoutMs c > 0 then millis_dur (c_SessionTimeoutMs c) else 10 * Second)"

definition HeartbeatInterval :: "ConsumerConfig \<Rightarrow> int" where
  "HeartbeatInterval c =
    (if c_HeartbeatIntervalMs c > 0 then millis_dur (c_HeartbeatIntervalMs c) else 3 * Second)"

definition FetchMaxBytesOrDefault :: "ConsumerConfig \<Rightarrow> int" where
  "FetchMaxBytesOrDefault c =
    (if c_FetchMaxBytes c > 0 then c_FetchMaxBytes c else 50 * 1024 * 1024)"

definition MaxPollRecordsOrDefault :: "ConsumerConfig \<Rightarrow> int" where
  "MaxPollRecordsOrDefault c = (if c_MaxPollRecords c > 0 then c_MaxPollRecords c else 100)"

definition offsetResetToKgo :: "string \<Rightarrow> kgo_offset" where
  "offsetResetToKgo autoOffsetReset = (if autoOffsetReset = ''earliest'' then AtStart else AtEnd)"

definition fetchMaxWait :: "ConsumerTopicConfig \<Rightarrow> int" where
  "fetchMaxWait t =
    (if ct_FetchMaxWaitMs t > 0 then millis_dur (ct_FetchMaxWaitMs t) else 500 * Millisecond)"

definition buildConsumerOpts ::
  "ConsumerConfig \<Rightarrow> ConsumerTopicConfig \<Rightarrow> string \<Rightarrow> string \<Rightarrow> 'cert kgo_opt list" where
  "buildConsumerOpts c tc topicName groupID =
    [kgo_SeedBrokers (c_Brokers c), kgo_ClientID (ct_ClientID tc), kgo_WithLogger,
     kgo_ConsumerGroup groupID, kgo_ConsumeTopics topicName,
     kgo_ConsumeResetOffset (offsetResetToKgo (ct_AutoOffsetReset tc)),
     kgo_DisableAutoCommit, kgo_BlockRebalanceOnPoll, kgo_CooperativeStickyBalancer,
     kgo_OnPartitionsRevoked, kgo_OnPartitionsAssigned,
     kgo_SessionTimeout (msToDur (ct_SessionTimeoutMs tc) (30 * Second)),
     kgo_HeartbeatInterval (msToDur (ct_HeartbeatIntervalMs tc) (3 * Second)),
     kgo_RebalanceTimeout (msToDur (ct_RebalanceTimeoutMs tc) (60 * Second)),
     kgo_FetchMinBytes (int32Or (ct_FetchMinBytes tc) 1),
     kgo_FetchMaxWait (fetchMaxWait tc),
     kgo_FetchMaxBytes (int32Or (ct_FetchMaxBytes tc) (10 * 2 ^ 20)),
     kgo_FetchMaxPartitionBytes (int32Or (ct_FetchMaxPartitionBytes tc) (10 * 2 ^ 20)),
     kgo_MaxConcurrentFetches (intOr (ct_MaxConcurrentFetches tc) 8)]"

section \<open>The producer\<close>

datatype 'a outcome = ProcessExit | Returned 'a

record 'cl Producer =
  pr_client :: 'cl
  pr_cfg :: ProducerConfig

definition NewProducer ::
  "(string \<Rightarrow> 'e + string) \<Rightarrow> (string \<Rightarrow> bool) \<Rightarrow> (string \<Rightarrow> string \<Rightarrow> 'e + 'cert) \<Rightarrow>
   ('cert kgo_opt list \<Rightarrow> 'e + 'cl) \<Rightarrow> ('cl \<Rightarrow> 'e option) \<Rightarrow>
   ProducerConfig option \<Rightarrow> 'cl Producer option outcome" where
  "NewProducer ReadFile AppendCertsFromPEM LoadX509KeyPair NewClient Ping cfg =
    (case cfg of None \<Rightarrow> ProcessExit | Some cfg \<Rightarrow>
     if p_Brokers cfg = [] then ProcessExit else Returned
     (case buildProducerOpts ReadFile AppendCertsFromPEM LoadX509KeyPair cfg of
        Inl e \<Rightarrow> None
      | Inr opts \<Rightarrow> (case NewClient opts of
          Inl e \<Rightarrow> None
        | Inr client \<Rightarrow> (case Ping client of
            Some e \<Rightarrow> None
          | None \<Rightarrow> Some \<lparr>pr_client = client, pr_cfg = cfg\<rparr>))))"

text \<open>\<open>InitProducer\<close> reads and writes the global \<open>KafkaProducer\<close> and may write the default topic
  into the configuration it is called on; it returns both and the producer.\<close>

definition InitProducer ::
  "(ProducerConfig option \<Rightarrow> 'cl Producer option outcome) \<Rightarrow> 'cl Producer option \<Rightarrow> ProducerConfig \<Rightarrow>
   ('cl Producer option \<times> ProducerConfig) outcome" where
  "InitProducer new KafkaProducer k =
    (case KafkaProducer of Some p \<Rightarrow> Returned (Some p, k) | None \<Rightarrow> (let
      k = (if p_Topic k = '''' \<and> p_DefaultTopics k \<noteq> []
           then k\<lparr>p_Topic := hd (p_DefaultTopics k)\<rparr> else k)
     in if p_Brokers k \<noteq> [] then
          (case new (Some k) of ProcessExit \<Rightarrow> ProcessExit | Returned p \<Rightarrow> Returned (p, k))
        else Returned (None, k)))"

record kgo_Record =
  rec_Topic :: string
  rec_Partition :: int
  rec_Offset :: int
  rec_Key :: string
  rec_Value :: string
  rec_Timestamp :: int

definition produce_record :: "int \<Rightarrow> string \<Rightarrow> string \<Rightarrow> string \<Rightarrow> kgo_Record" where
  "produce_record now topic key val = \<lparr>rec_Topic = topic, rec_Partition = 0, rec_Offset = 0,
     rec_Key = key, rec_Value = val, rec_Timestamp = now\<rparr>"

datatype 'e send_error = SyncProduceFailed string string 'e

text \<open>\<open>ProduceSync\<close> is the library's call with the error of its first record.\<close>

definition SendMessageSync ::
  "('cl \<Rightarrow> kgo_Record \<Rightarrow> 'e option) \<Rightarrow> 'cl Producer \<Rightarrow> int \<Rightarrow> string \<Rightarrow> string \<Rightarrow> string \<Rightarrow>
   'e send_error option" where
  "SendMessageSync ProduceSync p now topic key val =
    (case ProduceSync (pr_client p) (produce_record now topic key val) of
       Some e \<Rightarrow> Some (SyncProduceFailed topic key e) | None \<Rightarrow> None)"

section \<open>Lemmas\<close>

definition is_RequiredAcks :: "'cert kgo_opt \<Rightarrow> bool" where
  "is_RequiredAcks o1 = (case o1 of kgo_RequiredAcks _ \<Rightarrow> True | _ \<Rightarrow> False)"

text \<open>The milliseconds whose duration does not wrap around: about 292 years.\<close>

definition ms_ok :: "int \<Rightarrow> bool" where
  "ms_ok ms \<longleftrightarrow> ms \<le> 9223372036854"

lemma millis_dur_ok: "0 < ms \<Longrightarrow> ms_ok ms \<Longrightarrow> millis_dur ms = ms * Millisecond"
  by (simp add: millis_dur_def ms_ok_def in_int64_def)

lemma msToDur_pos: "ms_ok ms \<Longrightarrow> 0 < def \<Longrightarrow> 0 < msToDur ms def"
  by (simp add: msToDur_def millis_dur_ok)

lemma intOr_pos: "0 < def \<Longrightarrow> 0 < intOr v def"
  by (simp add: intOr_def)

lemma int32Or_pos: "0 < def \<Longrightarrow> 0 < int32Or v def"
  by (simp add: int32Or_def)

lemma normalizeOffsetReset_idem [simp]:
  "normalizeOffsetReset (normalizeOffsetReset v) = normalizeOffsetReset v"
  by (simp add: normalizeOffsetReset_def)

lemma offsetReset_start:
  "offsetResetToKgo (normalizeOffsetReset v) = AtStart \<longleftrightarrow> v \<in> {''oldest'', ''earliest''}"
  by (auto simp: offsetResetToKgo_def normalizeOffsetReset_def)

text \<open>Both effective configurations field by field, an override that is not zero before the
  global value.\<close>

lemma EffectiveTopicConfig_simps:
  "pt_Acks (EffectiveTopicConfig c t) = (case p_Topics c t of None \<Rightarrow> '''' | Some ov \<Rightarrow> pt_Acks ov)"
  "pt_Compression (EffectiveTopicConfig c t) =
    (case p_Topics c t of None \<Rightarrow> p_Compression c | Some ov \<Rightarrow> strOr (pt_Compression ov) (p_Compression c))"
  "pt_LingerMs (EffectiveTopicConfig c t) =
    (case p_Topics c t of None \<Rightarrow> p_LingerMs c | Some ov \<Rightarrow> intOr (pt_LingerMs ov) (p_LingerMs c))"
  "pt_MaxMessageBytes (EffectiveTopicConfig c t) =
    (case p_Topics c t of None \<Rightarrow> p_batchMaxBytes c
     | Some ov \<Rightarrow> int32Or (pt_MaxMessageBytes ov) (p_batchMaxBytes c))"
  "pt_Retries (EffectiveTopicConfig c t) =
    (case p_Topics c t of None \<Rightarrow> 0 | Some ov \<Rightarrow> max 0 (pt_Retries ov))"
  by (simp_all add: EffectiveTopicConfig_def Let_def strOr_def intOr_def int32Or_def split: option.split)

lemma buildSASL_enabled:
  "buildSASL rf s = Inr m \<Longrightarrow> (m \<noteq> None) = sasl_Enable s"
  by (auto simp: buildSASL_def Let_def split: if_splits sum.splits)

lemma buildTLS_enabled:
  "buildTLSConfig rf ap ld t = Inr tc \<Longrightarrow> (tc \<noteq> None) = tls_Enable t"
  by (auto simp: buildTLSConfig_def split: if_splits sum.splits)

definition mech_user :: "sasl_mech \<Rightarrow> string" where
  "mech_user m = (case m of SaslPlain u p \<Rightarrow> u | ScramSha256 u p \<Rightarrow> u | ScramSha512 u p \<Rightarrow> u)"

definition mech_pass :: "sasl_mech \<Rightarrow> string" where
  "mech_pass m = (case m of SaslPlain u p \<Rightarrow> p | ScramSha256 u p \<Rightarrow> p | ScramSha512 u p \<Rightarrow> p)"

lemma buildSASL_credentials:
  "buildSASL rf s = Inr (Some m) \<Longrightarrow> mech_user m = sasl_User s \<and> mech_user m \<noteq> '''' \<and> mech_pass m \<noteq> ''''"
  by (auto simp: buildSASL_def Let_def mech_user_def mech_pass_def split: if_splits sum.splits)

lemma buildProducerOpts_cases:
  assumes "buildProducerOpts rf ap ld cfg = Inr opts"
  obtains tc m where "buildTLSConfig rf ap ld (p_TLS cfg) = Inr tc" "buildSASL rf (p_SASL cfg) = Inr m"
  using assms by (auto simp: buildProducerOpts_def Let_def bind_res_Inr_iff)

lemma requiredAcks_all:
  "requiredAcks (EffectiveTopicConfig cfg t) = AllISRAcks \<longleftrightarrow>
    (\<forall>ov. p_Topics cfg t = Some ov \<longrightarrow> pt_Acks ov \<notin> {''0'', ''1''})"
  by (auto simp: requiredAcks_def EffectiveTopicConfig_simps split: option.splits)

text \<open>Whenever the options of the producer can be built, they hold exactly one required-acks
  option. It asks for all in-sync replicas if idempotent writes are on, or if the default topic has no
  override with acks 0 or 1; idempotent writes are disabled exactly when the setting is off, and
  in-flight records may be cancelled exactly when both settings ask for it. The client authenticates
  exactly when SASL is enabled, with a user and a password that are not empty, and dials TLS
  exactly when TLS is enabled.\<close>

theorem producer_reliability:
  assumes "buildProducerOpts rf ap ld cfg = Inr opts"
  shows "(\<exists>a. filter is_RequiredAcks opts = [kgo_RequiredAcks a] \<and>
      (a = AllISRAcks \<longleftrightarrow> p_EnableIdempotence cfg \<or>
        (\<forall>ov. p_Topics cfg (defaultTopic cfg) = Some ov \<longrightarrow> pt_Acks ov \<notin> {''0'', ''1''})))
    \<and> (kgo_DisableIdempotentWrite \<in> set opts \<longleftrightarrow> \<not> p_EnableIdempotence cfg)
    \<and> (kgo_AllowIdempotentProduceCancellation \<in> set opts
        \<longleftrightarrow> p_EnableIdempotence cfg \<and> p_HardDeliveryBound cfg)
    \<and> ((\<exists>m. kgo_SASL m \<in> set opts) \<longleftrightarrow> sasl_Enable (p_SASL cfg))
    \<and> (\<forall>m. kgo_SASL m \<in> set opts \<longrightarrow> mech_user m \<noteq> '''' \<and> mech_pass m \<noteq> '''')
    \<and> ((\<exists>tc. kgo_DialTLSConfig tc \<in> set opts) \<longleftrightarrow> tls_Enable (p_TLS cfg))"
proof -
  obtain tc m where tc: "buildTLSConfig rf ap ld (p_TLS cfg) = Inr tc"
    and m: "buildSASL rf (p_SASL cfg) = Inr m"
    using buildProducerOpts_cases [OF assms] .
  note opts = assms [unfolded buildProducerOpts_def Let_def tc m bind_res_simps sum.inject, symmetric]
  let ?a = "if p_EnableIdempotence cfg then AllISRAcks
    else requiredAcks (EffectiveTopicConfig cfg (defaultTopic cfg))"
  have "filter is_RequiredAcks opts = [kgo_RequiredAcks ?a]"
    unfolding opts by (simp add: is_RequiredAcks_def split: option.split)
  then have acks: "\<exists>a. filter is_RequiredAcks opts = [kgo_RequiredAcks a] \<and>
      (a = AllISRAcks \<longleftrightarrow> p_EnableIdempotence cfg \<or>
        (\<forall>ov. p_Topics cfg (defaultTopic cfg) = Some ov \<longrightarrow> pt_Acks ov \<notin> {''0'', ''1''}))"
    by (simp add: requiredAcks_all)
  have sasl: "kgo_SASL x \<in> set opts \<longleftrightarrow> m = Some x" for x
    unfolding opts by (auto split: option.split)
  have tls: "kgo_DialTLSConfig x \<in> set opts \<longleftrightarrow> tc = Some x" for x
    unfolding opts by (auto split: option.split)
  have "kgo_DisableIdempotentWrite \<in> set opts \<longleftrightarrow> \<not> p_EnableIdempotence cfg"
    and "kgo_AllowIdempotentProduceCancellation \<in> set opts
        \<longleftrightarrow> p_EnableIdempotence cfg \<and> p_HardDeliveryBound cfg"
    unfolding opts by (simp_all split: option.split)
  then show ?thesis
    using acks sasl tls buildSASL_enabled [OF m] buildTLS_enabled [OF tc]
      buildSASL_credentials [of rf "p_SASL cfg"] m by auto
qed

definition demo_producer :: ProducerConfig where
  "demo_producer = \<lparr>p_Topics = [''t'' \<mapsto> \<lparr>pt_Acks = ''1'', pt_Compression = '''', pt_Retries = 0,
     pt_RetryBackoffMs = 0, pt_LingerMs = 0, pt_BatchSize = 0, pt_MaxMessageBytes = 0\<rparr>],
    p_ClientID = ''c'', p_Topic = '''', p_Compression = ''lz4'',
    p_SASL = \<lparr>sasl_Mechanism = '' plain'', sasl_User = ''u'', sasl_Pass = ''p'',
      sasl_PassFile = '''', sasl_Enable = True\<rparr>,
    p_TLS = \<lparr>tls_CAFile = '''', tls_CertFile = '''', tls_KeyFile = '''', tls_Enable = False,
      tls_InsecureSkipVerify = False\<rparr>,
    p_Brokers = [''b''], p_DefaultTopics = [''t''], p_RecordRetries = 0, p_MaxBufferedRecords = 0,
    p_RequiredAcks = - 1, p_MetricsLogIntervalMs = 0, p_RetryQueueCap = 0, p_RequestTimeoutMs = 0,
    p_DeliveryTimeoutMs = 0, p_FlushTimeoutMs = 0, p_LingerMs = 0, p_MaxBufferedBytes = 0,
    p_MaxInFlight = 0, p_BatchMaxBytes = 0, p_HardDeliveryBound = False,
    p_EnableIdempotence = False\<rparr>"

lemma mech_demo: "ToUpper (TrimSpace '' plain'') = ''PLAIN''"
  by code_simp

lemma demo_producer_opts:
  "\<exists>opts. buildProducerOpts (\<lambda>f. Inl ()) (\<lambda>s. True) (\<lambda>c k. Inr ()) demo_producer = Inr opts"
  by (simp add: buildProducerOpts_def demo_producer_def buildTLSConfig_def buildSASL_def mech_demo Let_def)

theorem producer_reliability_witness:
  "\<exists>opts. buildProducerOpts (\<lambda>f. Inl ()) (\<lambda>s. True) (\<lambda>c k. Inr ()) demo_producer = Inr opts
    \<and> kgo_DisableIdempotentWrite \<in> set opts \<and> (\<exists>m. kgo_SASL m \<in> set opts)"
proof -
  obtain opts where o: "buildProducerOpts (\<lambda>f. Inl ()) (\<lambda>s. True) (\<lambda>c k. Inr ()) demo_producer = Inr opts"
    using demo_producer_opts ..
  show ?thesis
    using producer_reliability [OF o] o by (auto simp: demo_producer_def)
qed

text \<open>The wait before retry number \<open>tries\<close> is \<open>tries\<close> times the topic's back-off (100 ms if none is
  set), cut at 3 seconds, for every number of tries whose product stays within 64 bits; it is
  linear in the tries.\<close>

theorem retryBackoff_linear:
  assumes "0 \<le> tries" "tries * (if pt_RetryBackoffMs t \<le> 0 then 100 else pt_RetryBackoffMs t) \<le> 9223372036854"
  shows "retryBackoff t tries =
    min (tries * (if pt_RetryBackoffMs t \<le> 0 then 100 else pt_RetryBackoffMs t) * Millisecond) (3 * Second)"
proof -
  let ?b = "if pt_RetryBackoffMs t \<le> 0 then 100 else pt_RetryBackoffMs t"
  have "0 \<le> tries * ?b" using assms(1) by simp
  then have "wrap64 (tries * ?b) = tries * ?b" "wrap64 (tries * ?b * Millisecond) = tries * ?b * Millisecond"
    using assms(2) by (simp_all add: in_int64_def)
  then show ?thesis
    unfolding retryBackoff_def Let_def by simp
qed

theorem retryBackoff_linear_witness:
  "retryBackoff (EffectiveTopicConfig demo_producer ''t'') 7 = 700 * Millisecond"
  using retryBackoff_linear [of 7 "EffectiveTopicConfig demo_producer ''t''"]
  by (simp add: EffectiveTopicConfig_def demo_producer_def)

text \<open>The global \<open>required_acks\<close> has no effect on the options.\<close>

lemma RequiredAcks_topic_unused:
  "EffectiveTopicConfig (cfg\<lparr>p_RequiredAcks := n\<rparr>) t = EffectiveTopicConfig cfg t"
  "recordRetries (cfg\<lparr>p_RequiredAcks := n\<rparr>) tc = recordRetries cfg tc"
  "defaultTopic (cfg\<lparr>p_RequiredAcks := n\<rparr>) = defaultTopic cfg"
  "DeliveryTimeout (cfg\<lparr>p_RequiredAcks := n\<rparr>) = DeliveryTimeout cfg"
  "RequestTimeout (cfg\<lparr>p_RequiredAcks := n\<rparr>) = RequestTimeout cfg"
  by (simp_all add: EffectiveTopicConfig_def p_batchMaxBytes_def recordRetries_def defaultTopic_def
      DeliveryTimeout_def RequestTimeout_def)

lemma RequiredAcks_unused:
  "buildProducerOpts rf ap ld (cfg\<lparr>p_RequiredAcks := n\<rparr>) = buildProducerOpts rf ap ld cfg"
  unfolding buildProducerOpts_def RequiredAcks_topic_unused by simp

text \<open>Once a producer exists, initialising again returns it and builds nothing.\<close>

lemma InitProducer_once:
  "InitProducer new kp k = Returned (Some p, k') \<Longrightarrow> InitProducer new' (Some p) k' = Returned (Some p, k')"
  by (simp add: InitProducer_def)

text \<open>A configuration with brokers never ends the process.\<close>

lemma InitProducer_returns:
  "InitProducer (NewProducer rf ap ld nc ping) kp k \<noteq> ProcessExit"
  by (auto simp: InitProducer_def NewProducer_def Let_def split: option.splits outcome.splits if_splits)

section \<open>Asynchronous sending and closing\<close>

text \<open>The record and the callback are handed to the client; the callback logs the topic, the key and the error.\<close>

definition SendMessage ::
  "('cl \<Rightarrow> kgo_Record \<Rightarrow> (kgo_Record \<Rightarrow> 'e option \<Rightarrow> (string \<times> string \<times> 'e) list) \<Rightarrow> 'cl) \<Rightarrow>
   'cl Producer \<Rightarrow> int \<Rightarrow> string \<Rightarrow> string \<Rightarrow> string \<Rightarrow> 'cl Producer" where
  "SendMessage Produce p now topic key val =
    p\<lparr>pr_client := Produce (pr_client p) (produce_record now topic key val)
       (\<lambda>r err. case err of None \<Rightarrow> [] | Some e \<Rightarrow> [(rec_Topic r, rec_Key r, e)])\<rparr>"

text \<open>\<open>Close\<close> flushes within the flush timeout, warns about an error, and closes the client in any case.\<close>

definition Producer_Close ::
  "(int \<Rightarrow> 'cl \<Rightarrow> 'e option \<times> 'cl) \<Rightarrow> ('cl \<Rightarrow> 'cl) \<Rightarrow> 'cl Producer \<Rightarrow> 'e list \<times> 'cl Producer" where
  "Producer_Close client_Flush client_Close p =
    (case client_Flush (FlushTimeout (pr_cfg p)) (pr_client p) of (err, cl) \<Rightarrow>
       ((case err of None \<Rightarrow> [] | Some e \<Rightarrow> [e]), p\<lparr>pr_client := client_Close cl\<rparr>))"

text \<open>With a client that keeps what it is given until it is flushed: every message sent is delivered by \<open>Close\<close>, in
  the order of sending, when the flush succeeds.\<close>

theorem Close_delivers:
  fixes send :: "kgo_Record list \<times> kgo_Record list \<Rightarrow> kgo_Record \<Rightarrow> (kgo_Record \<Rightarrow> 'e option \<Rightarrow> (string \<times> string \<times> 'e) list) \<Rightarrow> kgo_Record list \<times> kgo_Record list"
  assumes "\<And>cl r f. send cl r f = (fst cl @ [r], snd cl)"
    and "\<And>d cl. fl d cl = (None :: 'e option, ([], snd cl @ fst cl))"
  shows "snd (pr_client (snd (Producer_Close fl (\<lambda>cl. cl) (foldl (\<lambda>p (now, topic, key, val). SendMessage send p now topic key val) p msgs))))
    = snd (pr_client p) @ fst (pr_client p) @ map (\<lambda>(now, topic, key, val). produce_record now topic key val) msgs"
proof -
  have "pr_client (foldl (\<lambda>p (now, topic, key, val). SendMessage send p now topic key val) p msgs)
      = (fst (pr_client p) @ map (\<lambda>(now, topic, key, val). produce_record now topic key val) msgs, snd (pr_client p))" for p
    by (induction msgs arbitrary: p) (auto simp: SendMessage_def assms(1))
  then show ?thesis by (simp add: Producer_Close_def assms(2))
qed

end
