(* ===== verification/Kafka_Commit.thy ===== *)
theory Kafka_Commit
  imports Kafka_Config
begin

text \<open>
  The sequential parts of a consumer group, \<^verbatim>\<open>pkg/kafka/consumer.go\<close>: records grouped by
  partition, and the commit of one batch with bounded retries, exponential back-off and jitter.
  The outcomes of the library's commit call, the random numbers and whether the context is
  cancelled during a wait are functions of the attempt.
\<close>

section \<open>Partitions\<close>

record topicPartition =
  tp_topic :: string
  tp_partition :: int

definition part_of :: "kgo_Record \<Rightarrow> topicPartition" where
  "part_of r = \<lparr>tp_topic = rec_Topic r, tp_partition = rec_Partition r\<rparr>"

definition groupByTopicPartition :: "kgo_Record list \<Rightarrow> topicPartition \<rightharpoonup> kgo_Record list" where
  "groupByTopicPartition records = foldl (\<lambda>batches r. let key = part_of r in
     batches(key \<mapsto> (case batches key of None \<Rightarrow> [] | Some rs \<Rightarrow> rs) @ [r])) Map.empty records"

text \<open>The records of one partition, in order.\<close>

definition of_part :: "topicPartition \<Rightarrow> kgo_Record list \<Rightarrow> kgo_Record list" where
  "of_part k rs = filter (\<lambda>r. part_of r = k) rs"

lemma of_part_simps [simp]:
  "of_part k [] = []"
  "of_part k (xs @ ys) = of_part k xs @ of_part k ys"
  by (simp_all add: of_part_def)

lemma set_of_part [simp]: "set (of_part k rs) = {r \<in> set rs. part_of r = k}"
  by (simp add: of_part_def)

lemma of_part_all: "\<forall>r\<in>set rs. part_of r = k \<Longrightarrow> of_part k rs = rs"
  by (simp add: of_part_def)

lemma of_part_none: "\<forall>r\<in>set rs. part_of r \<noteq> k \<Longrightarrow> of_part k rs = []"
  by (simp add: of_part_def)

lemma groupBy_of_part:
  "groupByTopicPartition rs k = (if of_part k rs = [] then None else Some (of_part k rs))"
proof (induction rs rule: rev_induct)
  case (snoc r rs)
  then show ?case
    by (auto simp: groupByTopicPartition_def Let_def of_part_def split: option.splits if_splits)
qed (simp add: groupByTopicPartition_def)

lemma groupBy_finite: "finite (dom (groupByTopicPartition rs))"
proof -
  have "dom (groupByTopicPartition rs) \<subseteq> part_of ` set rs"
    by (force simp: groupBy_of_part of_part_def filter_empty_conv split: if_splits)
  then show ?thesis by (rule finite_subset) simp
qed

section \<open>Committing one batch\<close>

datatype commit_outcome = Committed | GaveUp | Aborted | NothingToCommit

record commit_metrics =
  m_success :: nat
  m_retries :: nat
  m_failures :: nat
  m_consecutive :: nat

definition metricCommitSuccess :: "bool \<Rightarrow> commit_metrics \<Rightarrow> commit_metrics" where
  "metricCommitSuccess enabled m =
    (if enabled then m\<lparr>m_success := Suc (m_success m), m_consecutive := 0\<rparr> else m)"

definition metricCommitRetry :: "bool \<Rightarrow> commit_metrics \<Rightarrow> commit_metrics" where
  "metricCommitRetry enabled m = (if enabled then m\<lparr>m_retries := Suc (m_retries m)\<rparr> else m)"

definition metricCommitFailure :: "bool \<Rightarrow> commit_metrics \<Rightarrow> commit_metrics" where
  "metricCommitFailure enabled m =
    (if enabled then m\<lparr>m_failures := Suc (m_failures m), m_consecutive := Suc (m_consecutive m)\<rparr>
     else m)"

record commit_run =
  cr_outcome :: commit_outcome
  cr_attempts :: nat
  cr_waits :: "int list"
  cr_metrics :: commit_metrics

text \<open>What the commit of one batch meets: the error of the library's call at each attempt, the
  random number below a bound, and whether the context is seen cancelled in the wait after it.\<close>

record commit_env =
  CommitRecords :: "nat \<Rightarrow> bool"
  Int63n :: "nat \<Rightarrow> int \<Rightarrow> int"
  ctx_Done :: "nat \<Rightarrow> bool"

text \<open>The loop from a given attempt and back-off on; \<open>rec\<close> holds the attempts and waits so far.\<close>

function commit_loop :: "bool \<Rightarrow> int \<Rightarrow> commit_env \<Rightarrow> nat \<Rightarrow> int \<Rightarrow> commit_run \<Rightarrow> commit_run" where
  "commit_loop enabled maxRetry env attempt backoff run =
    (if int attempt > maxRetry then run else
     let run = run\<lparr>cr_attempts := Suc (cr_attempts run)\<rparr> in
     if CommitRecords env attempt
     then run\<lparr>cr_outcome := Committed, cr_metrics := metricCommitSuccess enabled (cr_metrics run)\<rparr>
     else if int attempt = maxRetry
     then run\<lparr>cr_outcome := GaveUp, cr_metrics := metricCommitFailure enabled (cr_metrics run)\<rparr>
     else let
       jitter = Int63n env attempt (backoff div 2 + 1);
       run = run\<lparr>cr_metrics := metricCommitRetry enabled (cr_metrics run),
                 cr_waits := cr_waits run @ [backoff + jitter]\<rparr>
     in if ctx_Done env attempt then run\<lparr>cr_outcome := Aborted\<rparr>
        else commit_loop enabled maxRetry env (Suc attempt)
          (if backoff < 10 * Second then backoff * 2 else backoff) run)"
  by pat_completeness auto
termination
  by (relation "measure (\<lambda>(enabled, maxRetry, env, attempt, backoff, run). nat (maxRetry + 1 - int attempt))") auto

declare commit_loop.simps [simp del]

definition commitWithRetry ::
  "bool \<Rightarrow> int \<Rightarrow> commit_env \<Rightarrow> commit_metrics \<Rightarrow> kgo_Record list \<Rightarrow> commit_run" where
  "commitWithRetry enabled commitMaxRetry env m records = (let
      run = \<lparr>cr_outcome = NothingToCommit, cr_attempts = 0, cr_waits = [], cr_metrics = m\<rparr>
    in if records = [] then run
       else commit_loop enabled commitMaxRetry env 0 (100 * Millisecond) run)"

section \<open>Bounds of the retries\<close>

text \<open>The back-off before the jitter: 100 ms, doubled while it is below 10 s, hence at most
  12.8 s.\<close>

definition backoff_at :: "nat \<Rightarrow> int" where
  "backoff_at i = 100 * Millisecond * 2 ^ min i 7"

lemma backoff_at_0 [simp]: "backoff_at 0 = 100 * Millisecond"
  by (simp add: backoff_at_def)

lemma backoff_at_pos [simp]: "0 < backoff_at i"
  by (simp add: backoff_at_def)

lemma backoff_at_Suc:
  "(if backoff_at i < 10 * Second then backoff_at i * 2 else backoff_at i) = backoff_at (Suc i)"
proof (cases "i < 7")
  case True
  then have "i \<in> {0, 1, 2, 3, 4, 5, 6}" by auto
  then show ?thesis by (auto simp: backoff_at_def)
next
  case False
  then show ?thesis by (simp add: backoff_at_def)
qed

text \<open>The documented range of the random numbers.\<close>

definition Int63n_ok :: "commit_env \<Rightarrow> bool" where
  "Int63n_ok env \<longleftrightarrow> (\<forall>a n. 0 < n \<longrightarrow> 0 \<le> Int63n env a n \<and> Int63n env a n < n)"

definition wait_ok :: "nat \<Rightarrow> int \<Rightarrow> bool" where
  "wait_ok i w \<longleftrightarrow> backoff_at i \<le> w \<and> w \<le> backoff_at i + backoff_at i div 2"

text \<open>One round that fails and is not the last.\<close>

lemma commit_loop_retry:
  assumes "int attempt < maxRetry" "\<not> CommitRecords env attempt" "\<not> ctx_Done env attempt"
  shows "commit_loop enabled maxRetry env attempt backoff run =
    commit_loop enabled maxRetry env (Suc attempt)
      (if backoff < 10 * Second then backoff * 2 else backoff)
      (run\<lparr>cr_attempts := Suc (cr_attempts run),
        cr_metrics := metricCommitRetry enabled (cr_metrics run),
        cr_waits := cr_waits run @ [backoff + Int63n env attempt (backoff div 2 + 1)]\<rparr>)"
  using assms by (subst commit_loop.simps) (simp add: Let_def)

text \<open>The waits start at an attempt and end one short of the attempts, unless the last one was
  cut off.\<close>

lemma commit_loop_bounds:
  "Int63n_ok env \<Longrightarrow> int attempt \<le> maxRetry \<Longrightarrow> backoff = backoff_at attempt \<Longrightarrow>
    \<exists>n ws. cr_attempts (commit_loop enabled maxRetry env attempt backoff run) = cr_attempts run + Suc n
      \<and> int (attempt + n) \<le> maxRetry
      \<and> cr_waits (commit_loop enabled maxRetry env attempt backoff run) = cr_waits run @ ws
      \<and> length ws = (if cr_outcome (commit_loop enabled maxRetry env attempt backoff run) = Aborted
          then Suc n else n)
      \<and> (\<forall>i < length ws. wait_ok (attempt + i) (ws ! i))"
proof (induction enabled maxRetry env attempt backoff run rule: commit_loop.induct)
  case (1 enabled maxRetry env attempt backoff run)
  let ?run = "run\<lparr>cr_attempts := Suc (cr_attempts run),
    cr_metrics := metricCommitRetry enabled (cr_metrics run),
    cr_waits := cr_waits run @ [backoff + Int63n env attempt (backoff div 2 + 1)]\<rparr>"
  have j: "wait_ok attempt (backoff + Int63n env attempt (backoff div 2 + 1))"
    using "1.prems"(1,3) backoff_at_pos [of attempt, THEN less_imp_le]
    by (auto simp: wait_ok_def Int63n_ok_def pos_imp_zdiv_nonneg_iff
        dest!: spec [of _ attempt] spec [of _ "backoff div 2 + 1"])
  show ?case
  proof (cases "CommitRecords env attempt \<or> int attempt = maxRetry \<or> ctx_Done env attempt")
    case True
    then show ?thesis
      using "1.prems" j
      by (subst (1 2 3) commit_loop.simps) (auto simp: Let_def)
  next
    case False
    then have eq: "commit_loop enabled maxRetry env attempt backoff run =
        commit_loop enabled maxRetry env (Suc attempt) (backoff_at (Suc attempt)) ?run"
      using commit_loop_retry [of attempt maxRetry env enabled backoff run] "1.prems"
      unfolding "1.prems"(3) backoff_at_Suc by simp
    obtain n ws where
      "cr_attempts (commit_loop enabled maxRetry env attempt backoff run) = cr_attempts ?run + Suc n"
      "int (Suc attempt + n) \<le> maxRetry"
      "cr_waits (commit_loop enabled maxRetry env attempt backoff run) = cr_waits ?run @ ws"
      "length ws = (if cr_outcome (commit_loop enabled maxRetry env attempt backoff run) = Aborted
          then Suc n else n)"
      "\<forall>i < length ws. wait_ok (Suc attempt + i) (ws ! i)"
      using "1.IH" [OF _ refl _ _ refl refl] False "1.prems" backoff_at_Suc [of attempt]
      unfolding eq by (auto simp: Let_def)
    moreover have "\<forall>i < length ((backoff + Int63n env attempt (backoff div 2 + 1)) # ws).
        wait_ok (attempt + i) (((backoff + Int63n env attempt (backoff div 2 + 1)) # ws) ! i)"
      using j calculation(5) by (auto simp: nth_Cons split: nat.splits)
    ultimately show ?thesis
      by (intro exI [of _ "Suc n"] exI [of _ "(backoff + Int63n env attempt (backoff div 2 + 1)) # ws"]) simp
  qed
qed

text \<open>Which of the outcomes the loop ends with.\<close>

lemma commit_loop_outcome:
  "int attempt \<le> maxRetry \<Longrightarrow>
    (cr_outcome (commit_loop enabled maxRetry env attempt backoff run) = Committed \<longleftrightarrow>
      (\<exists>a \<ge> attempt. int a \<le> maxRetry \<and> CommitRecords env a \<and>
        (\<forall>b. attempt \<le> b \<and> b < a \<longrightarrow> \<not> CommitRecords env b \<and> \<not> ctx_Done env b)))"
proof (induction enabled maxRetry env attempt backoff run rule: commit_loop.induct)
  case (1 enabled maxRetry env attempt backoff run)
  show ?case
  proof (cases "CommitRecords env attempt \<or> int attempt = maxRetry \<or> ctx_Done env attempt")
    case True
    have "a = attempt" if "attempt \<le> a" "int a \<le> maxRetry"
      "\<forall>b. attempt \<le> b \<and> b < a \<longrightarrow> \<not> CommitRecords env b \<and> \<not> ctx_Done env b" for a
      using that True by (cases "a = attempt") auto
    then have "(\<exists>a \<ge> attempt. int a \<le> maxRetry \<and> CommitRecords env a \<and>
        (\<forall>b. attempt \<le> b \<and> b < a \<longrightarrow> \<not> CommitRecords env b \<and> \<not> ctx_Done env b))
      \<longleftrightarrow> CommitRecords env attempt"
      using "1.prems" by auto
    then show ?thesis
      using True "1.prems" by (subst commit_loop.simps) (auto simp: Let_def)
  next
    case False
    let ?run = "run\<lparr>cr_attempts := Suc (cr_attempts run),
      cr_metrics := metricCommitRetry enabled (cr_metrics run),
      cr_waits := cr_waits run @ [backoff + Int63n env attempt (backoff div 2 + 1)]\<rparr>"
    let ?b = "if backoff < 10 * Second then backoff * 2 else backoff"
    have eq: "commit_loop enabled maxRetry env attempt backoff run =
        commit_loop enabled maxRetry env (Suc attempt) ?b ?run"
      using False "1.prems" by (intro commit_loop_retry) auto
    have "cr_outcome (commit_loop enabled maxRetry env (Suc attempt) ?b ?run) = Committed \<longleftrightarrow>
      (\<exists>a \<ge> Suc attempt. int a \<le> maxRetry \<and> CommitRecords env a \<and>
        (\<forall>b. Suc attempt \<le> b \<and> b < a \<longrightarrow> \<not> CommitRecords env b \<and> \<not> ctx_Done env b))"
      using "1.IH" [OF _ refl _ _ refl refl] False "1.prems" by (auto simp: Let_def)
    also have "\<dots> \<longleftrightarrow> (\<exists>a \<ge> attempt. int a \<le> maxRetry \<and> CommitRecords env a \<and>
        (\<forall>b. attempt \<le> b \<and> b < a \<longrightarrow> \<not> CommitRecords env b \<and> \<not> ctx_Done env b))"
      using False by (metis Suc_leD Suc_leI le_eq_less_or_eq)
    finally show ?thesis unfolding eq .
  qed
qed

lemma commitWithRetry_loop:
  "rs \<noteq> [] \<Longrightarrow> commitWithRetry enabled mx env m rs = commit_loop enabled mx env 0 (backoff_at 0)
    \<lparr>cr_outcome = NothingToCommit, cr_attempts = 0, cr_waits = [], cr_metrics = m\<rparr>"
  by (simp add: commitWithRetry_def)

text \<open>C26: Committing a batch makes at least one and at most \<open>commitMaxRetry + 1\<close> attempts. It
  succeeds exactly when some attempt within that bound succeeds and none of the waits before it is cut
  off by the context; an attempt follows every wait but one that is cut off, and the wait after
  attempt \<open>i\<close> lies between the back-off \<open>100ms * 2^min(i,7)\<close> (so never above 12.8 s) and one and a
  half times that.\<close>

theorem commitWithRetry_bounds:
  assumes "records \<noteq> []" "0 \<le> commitMaxRetry" "Int63n_ok env"
  shows "let run = commitWithRetry enabled commitMaxRetry env m records in
      1 \<le> cr_attempts run \<and> int (cr_attempts run) \<le> commitMaxRetry + 1
    \<and> (cr_outcome run = Committed \<longleftrightarrow> (\<exists>a. int a \<le> commitMaxRetry \<and> CommitRecords env a \<and>
        (\<forall>b < a. \<not> CommitRecords env b \<and> \<not> ctx_Done env b)))
    \<and> length (cr_waits run) = (if cr_outcome run = Aborted then cr_attempts run else cr_attempts run - 1)
    \<and> (\<forall>i < length (cr_waits run). backoff_at i \<le> cr_waits run ! i
        \<and> cr_waits run ! i \<le> backoff_at i + backoff_at i div 2)"
  using commit_loop_bounds [OF assms(3), of 0 commitMaxRetry "backoff_at 0" enabled
      "\<lparr>cr_outcome = NothingToCommit, cr_attempts = 0, cr_waits = [], cr_metrics = m\<rparr>"]
    commit_loop_outcome [of 0 commitMaxRetry enabled env "backoff_at 0"
      "\<lparr>cr_outcome = NothingToCommit, cr_attempts = 0, cr_waits = [], cr_metrics = m\<rparr>"] assms(1,2)
  by (auto simp: commitWithRetry_loop Let_def wait_ok_def)

definition demo_record :: "int \<Rightarrow> kgo_Record" where
  "demo_record n = \<lparr>rec_Topic = ''t'', rec_Partition = 0, rec_Offset = n, rec_Key = '''',
    rec_Value = ''v'', rec_Timestamp = 0\<rparr>"

definition demo_env :: commit_env where
  "demo_env = \<lparr>CommitRecords = (\<lambda>a. a = 2), Int63n = (\<lambda>a n. n div 2), ctx_Done = (\<lambda>a. False)\<rparr>"

lemma demo_env_ok: "Int63n_ok demo_env"
  by (auto simp: Int63n_ok_def demo_env_def)

theorem commitWithRetry_bounds_witness:
  "cr_outcome (commitWithRetry True 3 demo_env
      \<lparr>m_success = 0, m_retries = 0, m_failures = 0, m_consecutive = 0\<rparr> [demo_record 0]) = Committed"
proof -
  have "\<exists>a. int a \<le> 3 \<and> CommitRecords demo_env a \<and>
      (\<forall>b < a. \<not> CommitRecords demo_env b \<and> \<not> ctx_Done demo_env b)"
    by (auto simp: demo_env_def intro!: exI [of _ 2])
  then show ?thesis
    using commitWithRetry_bounds [of "[demo_record 0]" 3 demo_env True
      "\<lparr>m_success = 0, m_retries = 0, m_failures = 0, m_consecutive = 0\<rparr>"] demo_env_ok
    by (simp add: Let_def)
qed

end
