(* ===== verification/Kafka_Consumer.thy ===== *)
theory Kafka_Consumer
  imports Kafka_Commit
begin

text \<open>
  A running consumer group, \<^verbatim>\<open>pkg/kafka/consumer.go\<close>: the poll loop, one worker per fetched
  partition behind a semaphore, the commit channel and the commit worker. Goroutines interleave,
  so the group is a step relation on an explicit state. The poll loop has a program counter
  (\<open>poll_pc\<close>), as has each partition worker (\<open>worker_pc\<close>); the channel is a FIFO list with a
  capacity. Logs of what was fetched, handled and committed are part of the state and are never read
  by a step.

  The Kafka client is the environment: a poll returns any records, any error, and may run
  \<open>onPartitionsRevoked\<close> inside \<open>AllowRebalance\<close>, which is where the comments of the source place it.
  Timers may fire at any time. A handler that panics is a handler that returns, because
  \<open>safeHandler\<close> recovers.
\<close>

section \<open>State\<close>

record commitTask =
  t_sync :: "nat option"
  t_key :: topicPartition
  t_records :: "kgo_Record list"

text \<open>What \<open>subscribe\<close> fixes for a group.\<close>

record ConsumerGrp =
  cg_group :: string
  cg_topic :: string
  cg_maxWorkers :: int
  cg_maxPollRecords :: int
  cg_commitBatchSize :: int
  cg_commitChanCap :: int
  cg_commitMaxRetry :: int
  cg_commitTimeout :: int
  cg_commitBlockWarn :: int
  cg_revokeFlushTO :: int
  cg_shutdownTO :: int
  cg_fetchErrBackoff :: int

text \<open>A partition worker: waiting for the semaphore, at the head of the record loop, inside the
  handler, inside \<open>enqueueCommit\<close> (from the loop, or for the safety flush), behind the loop, or
  returned. \<open>w_todo\<close> starts with the record in the handler.\<close>

datatype worker_pc = WSem | WLoop | WHandling | WEnqueue | WEnd | WFlush | WDone

record partWorker =
  w_pc :: worker_pc
  w_todo :: "kgo_Record list"
  w_processed :: "kgo_Record list"

text \<open>The poll loop: at the head of its loop, inside \<open>PollRecords\<close>, waiting for the workers of a
  fetch, inside \<open>AllowRebalance\<close>, waiting for a flush barrier, inside \<open>shutdown\<close> before and after
  the channel is closed, or returned (\<open>True\<close>: the commit worker was seen to exit).\<close>

datatype poll_pc = PCheck | PPoll | PWork | PAllow | PFlush nat | PStop | PDrain | PExit bool

datatype committer = CIdle | CBusy commitTask | CExited

record cgState =
  ctxDone :: bool
  closing :: bool
  chanClosed :: bool
  commitCh :: "commitTask list"
  semUsed :: nat
  poll :: poll_pc
  workers :: "topicPartition \<rightharpoonup> partWorker"
  committer :: committer
  barriers :: nat
  synced :: "nat set"
  fetched :: "kgo_Record list"
  skipped :: "kgo_Record list"
  handled :: "kgo_Record list"
  committed :: "kgo_Record list"

definition cg_start :: cgState where
  "cg_start = \<lparr>ctxDone = False, closing = False, chanClosed = False, commitCh = [], semUsed = 0,
    poll = PCheck, workers = Map.empty, committer = CIdle, barriers = 0, synced = {},
    fetched = [], skipped = [], handled = [], committed = []\<rparr>"

section \<open>Operations\<close>

text \<open>The \<open>select\<close> of \<open>enqueueCommit\<close>: the send, possible while the channel has room, or the
  context's end, possible once it is done. \<open>None\<close>: the choice is not ready.\<close>

datatype choice = ChooseSend | ChooseDone

definition enqueueCommit ::
  "ConsumerGrp \<Rightarrow> cgState \<Rightarrow> bool \<Rightarrow> topicPartition \<Rightarrow> kgo_Record list \<Rightarrow> choice \<Rightarrow> cgState option" where
  "enqueueCommit cg s done key records ch =
    (if records = [] \<or> closing s then Some s else
     case ch of
       ChooseSend \<Rightarrow>
         if int (length (commitCh s)) < cg_commitChanCap cg
         then Some (s\<lparr>commitCh := commitCh s @ [\<lparr>t_sync = None, t_key = key, t_records = records\<rparr>]\<rparr>)
         else None
     | ChooseDone \<Rightarrow> if done then Some s else None)"

definition set_worker :: "cgState \<Rightarrow> topicPartition \<Rightarrow> partWorker \<Rightarrow> cgState" where
  "set_worker s k w = s\<lparr>workers := (workers s)(k \<mapsto> w)\<rparr>"

text \<open>The goroutines \<open>processFetchedRecords\<close> starts.\<close>

definition spawn :: "kgo_Record list \<Rightarrow> topicPartition \<rightharpoonup> partWorker" where
  "spawn records = (\<lambda>k. map_option (\<lambda>rs. \<lparr>w_pc = WSem, w_todo = rs, w_processed = []\<rparr>)
     (groupByTopicPartition records k))"

text \<open>The end of a worker gives its slot back.\<close>

definition finish_worker :: "cgState \<Rightarrow> topicPartition \<Rightarrow> partWorker \<Rightarrow> cgState" where
  "finish_worker s k w = (set_worker s k (w\<lparr>w_pc := WDone, w_processed := []\<rparr>))\<lparr>semUsed := semUsed s - 1\<rparr>"

text \<open>The steps of \<open>processPartition\<close> and of the goroutine around it.\<close>

inductive worker_step :: "ConsumerGrp \<Rightarrow> topicPartition \<Rightarrow> cgState \<Rightarrow> cgState \<Rightarrow> bool"
  for cg :: ConsumerGrp and k :: topicPartition where
  w_acquire:
    "workers s k = Some w \<Longrightarrow> w_pc w = WSem \<Longrightarrow> int (semUsed s) < cg_maxWorkers cg \<Longrightarrow>
     worker_step cg k s ((set_worker s k (w\<lparr>w_pc := WLoop\<rparr>))\<lparr>semUsed := Suc (semUsed s)\<rparr>)"
| w_handle:
    "workers s k = Some w \<Longrightarrow> w_pc w = WLoop \<Longrightarrow> w_todo w \<noteq> [] \<Longrightarrow> \<not> ctxDone s \<Longrightarrow>
     worker_step cg k s (set_worker s k (w\<lparr>w_pc := WHandling\<rparr>))"
| w_break:
    "workers s k = Some w \<Longrightarrow> w_pc w = WLoop \<Longrightarrow> w_todo w = [] \<or> ctxDone s \<Longrightarrow>
     worker_step cg k s (set_worker s k (w\<lparr>w_pc := WEnd\<rparr>))"
| w_return:
    "workers s k = Some w \<Longrightarrow> w_pc w = WHandling \<Longrightarrow> w_todo w = r # rs \<Longrightarrow>
     worker_step cg k s ((set_worker s k (w\<lparr>w_todo := rs, w_processed := w_processed w @ [r],
       w_pc := (if int (length (w_processed w @ [r])) \<ge> cg_commitBatchSize cg \<or> rs = []
                then WEnqueue else WLoop)\<rparr>))\<lparr>handled := handled s @ [r]\<rparr>)"
| w_enqueue:
    "workers s k = Some w \<Longrightarrow> w_pc w = WEnqueue \<Longrightarrow>
     enqueueCommit cg s (ctxDone s) k (w_processed w) ch = Some s' \<Longrightarrow>
     worker_step cg k s (set_worker s' k (w\<lparr>w_processed := [], w_pc := WLoop\<rparr>))"
| w_end:
    "workers s k = Some w \<Longrightarrow> w_pc w = WEnd \<Longrightarrow> w_processed w = [] \<Longrightarrow>
     worker_step cg k s (finish_worker s k w)"
| w_flush:
    "workers s k = Some w \<Longrightarrow> w_pc w = WEnd \<Longrightarrow> w_processed w \<noteq> [] \<Longrightarrow>
     worker_step cg k s (set_worker s k (w\<lparr>w_pc := WFlush\<rparr>))"
| w_flushed:
    "workers s k = Some w \<Longrightarrow> w_pc w = WFlush \<Longrightarrow>
     enqueueCommit cg s True k (w_processed w) ch = Some s' \<Longrightarrow>
     worker_step cg k s (finish_worker s' k w)"

text \<open>The steps of \<open>run\<close>, \<open>processFetchedRecords\<close>, \<open>onPartitionsRevoked\<close> and \<open>shutdown\<close>.\<close>

inductive poll_step :: "ConsumerGrp \<Rightarrow> cgState \<Rightarrow> cgState \<Rightarrow> bool" for cg :: ConsumerGrp where
  p_stop: "poll s = PCheck \<Longrightarrow> ctxDone s \<Longrightarrow> poll_step cg s (s\<lparr>poll := PStop\<rparr>)"
| p_poll: "poll s = PCheck \<Longrightarrow> \<not> ctxDone s \<Longrightarrow> poll_step cg s (s\<lparr>poll := PPoll\<rparr>)"
| p_closed: "poll s = PPoll \<Longrightarrow> poll_step cg s (s\<lparr>poll := PStop\<rparr>)"
| p_error:
    "poll s = PPoll \<Longrightarrow>
     poll_step cg s (s\<lparr>poll := PAllow, fetched := fetched s @ rs, skipped := skipped s @ rs\<rparr>)"
| p_empty: "poll s = PPoll \<Longrightarrow> poll_step cg s (s\<lparr>poll := PAllow\<rparr>)"
| p_records:
    "poll s = PPoll \<Longrightarrow> rs \<noteq> [] \<Longrightarrow> int (length rs) \<le> cg_maxPollRecords cg \<Longrightarrow>
     poll_step cg s (s\<lparr>poll := PWork, fetched := fetched s @ rs, workers := spawn rs\<rparr>)"
| p_joined:
    "poll s = PWork \<Longrightarrow> \<forall>w \<in> ran (workers s). w_pc w = WDone \<Longrightarrow>
     poll_step cg s (s\<lparr>poll := PAllow, workers := Map.empty\<rparr>)"
| p_allowed: "poll s = PAllow \<Longrightarrow> poll_step cg s (s\<lparr>poll := PCheck\<rparr>)"
| p_revoke:
    "poll s = PAllow \<Longrightarrow> \<not> closing s \<Longrightarrow> int (length (commitCh s)) < cg_commitChanCap cg \<Longrightarrow>
     poll_step cg s (s\<lparr>poll := PFlush (barriers s), barriers := Suc (barriers s),
       commitCh := commitCh s @ [\<lparr>t_sync = Some (barriers s), t_key = \<lparr>tp_topic = '''', tp_partition = 0\<rparr>, t_records = []\<rparr>]\<rparr>)"
| p_flushed: "poll s = PFlush n \<Longrightarrow> n \<in> synced s \<Longrightarrow> poll_step cg s (s\<lparr>poll := PCheck\<rparr>)"
| p_flush_timeout: "poll s = PFlush n \<Longrightarrow> poll_step cg s (s\<lparr>poll := PCheck\<rparr>)"
| p_shutdown:
    "poll s = PStop \<Longrightarrow> \<forall>w \<in> ran (workers s). w_pc w = WDone \<Longrightarrow>
     poll_step cg s (s\<lparr>poll := PDrain, closing := True, chanClosed := True\<rparr>)"
| p_drained: "poll s = PDrain \<Longrightarrow> committer s = CExited \<Longrightarrow> poll_step cg s (s\<lparr>poll := PExit True\<rparr>)"
| p_drain_timeout: "poll s = PDrain \<Longrightarrow> poll_step cg s (s\<lparr>poll := PExit False\<rparr>)"

text \<open>The steps of \<open>commitWorker\<close>. A commit meets any environment that sees the context cancelled
  only if it is.\<close>

inductive commit_step :: "ConsumerGrp \<Rightarrow> cgState \<Rightarrow> cgState \<Rightarrow> bool" for cg :: ConsumerGrp where
  c_barrier:
    "committer s = CIdle \<Longrightarrow> commitCh s = t # ts \<Longrightarrow> t_sync t = Some n \<Longrightarrow>
     commit_step cg s (s\<lparr>commitCh := ts, synced := insert n (synced s)\<rparr>)"
| c_take:
    "committer s = CIdle \<Longrightarrow> commitCh s = t # ts \<Longrightarrow> t_sync t = None \<Longrightarrow>
     commit_step cg s (s\<lparr>commitCh := ts, committer := CBusy t\<rparr>)"
| c_commit:
    "committer s = CBusy t \<Longrightarrow> Int63n_ok env \<Longrightarrow> (\<exists>a. ctx_Done env a) \<longrightarrow> ctxDone s \<Longrightarrow>
     commit_step cg s (s\<lparr>committer := CIdle,
       committed := committed s @
         (if cr_outcome (commitWithRetry enabled (cg_commitMaxRetry cg) env m (t_records t)) = Committed
          then t_records t else [])\<rparr>)"
| c_exit:
    "committer s = CIdle \<Longrightarrow> commitCh s = [] \<Longrightarrow> chanClosed s \<Longrightarrow>
     commit_step cg s (s\<lparr>committer := CExited\<rparr>)"

text \<open>A step of the group; \<open>Close\<close> cancels the context.\<close>

inductive cg_step :: "ConsumerGrp \<Rightarrow> cgState \<Rightarrow> cgState \<Rightarrow> bool" for cg :: ConsumerGrp where
  g_worker: "worker_step cg k s s' \<Longrightarrow> cg_step cg s s'"
| g_poll: "poll_step cg s s' \<Longrightarrow> cg_step cg s s'"
| g_commit: "commit_step cg s s' \<Longrightarrow> cg_step cg s s'"
| g_cancel: "\<not> ctxDone s \<Longrightarrow> cg_step cg s (s\<lparr>ctxDone := True\<rparr>)"

abbreviation cg_reach :: "ConsumerGrp \<Rightarrow> cgState \<Rightarrow> bool" where
  "cg_reach cg s \<equiv> (cg_step cg)\<^sup>*\<^sup>* cg_start s"

section \<open>Invariants\<close>

lemmas cg_defs = set_worker_def finish_worker_def enqueueCommit_def

definition todo_of :: "cgState \<Rightarrow> topicPartition \<Rightarrow> kgo_Record list" where
  "todo_of s k = (case workers s k of None \<Rightarrow> [] | Some w \<Rightarrow> w_todo w)"

definition processed_of :: "cgState \<Rightarrow> topicPartition \<Rightarrow> kgo_Record list" where
  "processed_of s k = (case workers s k of None \<Rightarrow> [] | Some w \<Rightarrow> w_processed w)"

definition busy_records :: "cgState \<Rightarrow> kgo_Record list" where
  "busy_records s = (case committer s of CBusy t \<Rightarrow> t_records t | _ \<Rightarrow> [])"

text \<open>Everything committed, being committed or waiting in the channel, in order.\<close>

definition pending :: "cgState \<Rightarrow> kgo_Record list" where
  "pending s = committed s @ busy_records s @ concat (map t_records (commitCh s))"

text \<open>Control: workers exist only while a fetch is being processed, the channel is closed only by
  the shutdown, and a worker leaves records behind only if the context is done.\<close>

definition worker_ok :: "cgState \<Rightarrow> topicPartition \<Rightarrow> partWorker \<Rightarrow> bool" where
  "worker_ok s k w \<longleftrightarrow> (\<forall>r \<in> set (w_todo w) \<union> set (w_processed w). part_of r = k)
    \<and> (w_pc w = WHandling \<longrightarrow> w_todo w \<noteq> [])
    \<and> (w_pc w \<in> {WEnd, WFlush, WDone} \<and> w_todo w \<noteq> [] \<longrightarrow> ctxDone s)
    \<and> (w_pc w = WDone \<longrightarrow> w_processed w = [])"

definition control_inv :: "cgState \<Rightarrow> bool" where
  "control_inv s \<longleftrightarrow> (poll s \<noteq> PWork \<longrightarrow> workers s = Map.empty)
    \<and> (\<forall>k w. workers s k = Some w \<longrightarrow> worker_ok s k w)
    \<and> (closing s = chanClosed s)
    \<and> (closing s \<longleftrightarrow> poll s = PDrain \<or> (\<exists>g. poll s = PExit g))
    \<and> (committer s = CExited \<longrightarrow> chanClosed s \<and> commitCh s = [])
    \<and> finite (dom (workers s))"

text \<open>What a worker's step may change.\<close>

lemma enqueue_Some:
  "enqueueCommit cg s d k rs ch = Some s' \<Longrightarrow> s' = s \<or>
    \<not> closing s \<and> int (length (commitCh s)) < cg_commitChanCap cg \<and>
    s' = s\<lparr>commitCh := commitCh s @ [\<lparr>t_sync = None, t_key = k, t_records = rs\<rparr>]\<rparr>"
  unfolding enqueueCommit_def by (cases ch; cases "rs = [] \<or> closing s") (simp_all split: if_splits)

lemma enqueue_cases:
  assumes "enqueueCommit cg s d k rs ch = Some s'"
  obtains (kept) "s' = s"
  | (sent) "\<not> closing s" "int (length (commitCh s)) < cg_commitChanCap cg"
    "s' = s\<lparr>commitCh := commitCh s @ [\<lparr>t_sync = None, t_key = k, t_records = rs\<rparr>]\<rparr>"
  using enqueue_Some [OF assms] by blast

lemma worker_frame:
  "worker_step cg k s s' \<Longrightarrow>
    poll s' = poll s \<and> ctxDone s' = ctxDone s \<and> closing s' = closing s
    \<and> chanClosed s' = chanClosed s \<and> committer s' = committer s \<and> fetched s' = fetched s
    \<and> skipped s' = skipped s \<and> committed s' = committed s \<and> barriers s' = barriers s
    \<and> synced s' = synced s"
  by (induction rule: worker_step.induct)
    (auto simp: set_worker_def finish_worker_def elim!: enqueue_cases)

lemma worker_chan:
  "worker_step cg k s s' \<Longrightarrow> commitCh s' = commitCh s \<or> \<not> closing s \<and>
     commitCh s' = commitCh s @ [\<lparr>t_sync = None, t_key = k, t_records = processed_of s k\<rparr>]"
  by (induction rule: worker_step.induct)
    (auto simp: set_worker_def finish_worker_def processed_of_def elim!: enqueue_cases)

lemma worker_workers:
  "worker_step cg k s s' \<Longrightarrow>
    workers s k \<noteq> None \<and> workers s' = (workers s)(k \<mapsto> the (workers s' k))"
  by (induction rule: worker_step.induct)
    (auto simp: set_worker_def finish_worker_def elim!: enqueue_cases)

lemma worker_keeps_ok:
  "worker_step cg k s s' \<Longrightarrow> worker_ok s k (the (workers s k)) \<Longrightarrow> worker_ok s' k (the (workers s' k))"
  by (induction rule: worker_step.induct)
    (auto simp: set_worker_def finish_worker_def worker_ok_def elim!: enqueue_cases)

lemma control_worker:
  assumes "worker_step cg k s s'" "control_inv s"
  shows "control_inv s'"
proof -
  obtain w w' where w: "workers s k = Some w" "workers s' = (workers s)(k \<mapsto> w')"
    using worker_workers [OF assms(1)] by blast
  note f = worker_frame [OF assms(1)] worker_chan [OF assms(1)]
  have "worker_ok s' k' x = worker_ok s k' x" for k' x
    using f by (simp add: worker_ok_def)
  then show ?thesis
    using assms(2) w f worker_keeps_ok [OF assms(1)] unfolding control_inv_def by auto
qed

lemma spawn_ok: "spawn rs k = Some w \<Longrightarrow> w_pc w = WSem \<and> w_processed w = [] \<and> w_todo w = of_part k rs"
  by (auto simp: spawn_def groupBy_of_part split: if_splits)

lemma spawn_finite: "finite (dom (spawn rs))"
  using groupBy_finite [of rs] by (simp add: spawn_def dom_def)

lemma control_poll: "poll_step cg s s' \<Longrightarrow> control_inv s \<Longrightarrow> control_inv s'"
  by (induction rule: poll_step.induct)
    (auto simp: control_inv_def worker_ok_def spawn_finite dest: spawn_ok)

lemma control_commit: "commit_step cg s s' \<Longrightarrow> control_inv s \<Longrightarrow> control_inv s'"
  by (induction rule: commit_step.induct) (auto simp: control_inv_def worker_ok_def)

lemma control_step: "cg_step cg s s' \<Longrightarrow> control_inv s \<Longrightarrow> control_inv s'"
  by (induction rule: cg_step.induct)
    (auto dest: control_worker control_poll control_commit, auto simp: control_inv_def worker_ok_def)

lemma control_start: "control_inv cg_start"
  by (simp add: control_inv_def cg_start_def)

text \<open>A property that every step keeps in states with the control invariant holds wherever the
  group can get.\<close>

lemma cg_reach_control: "cg_reach cg s \<Longrightarrow> control_inv s"
  by (induction rule: rtranclp_induct) (auto intro: control_start control_step)

lemma cg_reach_inv:
  assumes "cg_reach cg s" "P cg_start"
    and "\<And>s s'. cg_step cg s s' \<Longrightarrow> control_inv s \<Longrightarrow> P s \<Longrightarrow> P s'"
  shows "P s"
  using assms(1)
proof (induction rule: rtranclp_induct)
  case (step y z)
  then show ?case using assms(3) cg_reach_control [OF step(1)] by blast
qed (rule assms(2))

subsection \<open>Order of handling and committing\<close>

definition order_inv :: "cgState \<Rightarrow> bool" where
  "order_inv s \<longleftrightarrow> (\<forall>k. subseq (of_part k (pending s) @ processed_of s k) (of_part k (handled s)))"

lemma enqueue_pending:
  "enqueueCommit cg s d k rs ch = Some s' \<Longrightarrow>
    (pending s' = pending s @ rs \<or> pending s' = pending s)
    \<and> workers s' = workers s \<and> handled s' = handled s"
  by (auto simp: enqueueCommit_def pending_def busy_records_def split: if_splits choice.splits)

text \<open>A worker's step handles its next record, or takes its processed records away (into the
  channel or not), or changes none of them.\<close>

lemma processed_of_upd [simp]:
  "processed_of (s\<lparr>workers := (workers s')(k \<mapsto> w)\<rparr>) k' =
    (if k' = k then w_processed w else case workers s' k' of None \<Rightarrow> [] | Some w \<Rightarrow> w_processed w)"
  by (simp add: processed_of_def)

lemma worker_effect:
  "worker_step cg k s s' \<Longrightarrow>
    (\<forall>k'. k' \<noteq> k \<longrightarrow> processed_of s' k' = processed_of s k' \<and> todo_of s' k' = todo_of s k') \<and>
    (pending s' = pending s \<and> handled s' = handled s \<and> processed_of s' k = processed_of s k
        \<and> todo_of s' k = todo_of s k
     \<or> pending s' = pending s \<and> (\<exists>r. todo_of s k = r # todo_of s' k \<and> handled s' = handled s @ [r]
        \<and> processed_of s' k = processed_of s k @ [r])
     \<or> pending s' \<in> {pending s, pending s @ processed_of s k} \<and> handled s' = handled s
        \<and> processed_of s' k = [] \<and> todo_of s' k = todo_of s k)"
  by (induction rule: worker_step.induct)
    (auto simp: set_worker_def finish_worker_def processed_of_def todo_of_def pending_def
      busy_records_def elim!: enqueue_cases)

lemma control_parts:
  assumes "control_inv s"
  shows "\<forall>r \<in> set (todo_of s k). part_of r = k" "\<forall>r \<in> set (processed_of s k). part_of r = k"
proof -
  have "worker_ok s k w" if "workers s k = Some w" for w
    using assms that by (simp add: control_inv_def)
  then show "\<forall>r \<in> set (todo_of s k). part_of r = k" "\<forall>r \<in> set (processed_of s k). part_of r = k"
    by (cases "workers s k"; auto simp: worker_ok_def todo_of_def processed_of_def)+
qed

lemma subseq_skip: "subseq (xs @ zs) (xs @ ys @ zs)" "subseq xs (xs @ ys)"
  using list_emb_append2 [of "(=)" "[]" "[]" ys] subseq_append' [of xs "[]" ys]
  by (simp_all add: subseq_append' subseq_drop_many)

text \<open>Records may leave the pipeline anywhere.\<close>

lemma order_shrink:
  assumes "order_inv s" "handled s' = handled s"
    "\<And>k. subseq (of_part k (pending s') @ processed_of s' k) (of_part k (pending s) @ processed_of s k)"
  shows "order_inv s'"
  using assms unfolding order_inv_def by (metis subseq_order.trans)

lemma order_worker:
  assumes "worker_step cg k s s'" "control_inv s" "order_inv s"
  shows "order_inv s'"
  unfolding order_inv_def
proof
  fix k'
  let ?P = "processed_of s k"
  have old: "subseq (of_part k' (pending s) @ processed_of s k') (of_part k' (handled s))"
    using assms(3) by (simp add: order_inv_def)
  have P: "of_part k' ?P = (if k' = k then ?P else [])"
    using control_parts(2) [OF assms(2)] by (auto intro: of_part_all of_part_none)
  note eff = worker_effect [OF assms(1)]
  have rest: "k' \<noteq> k \<Longrightarrow> processed_of s' k' = processed_of s k'" using eff by blast
  from eff show "subseq (of_part k' (pending s') @ processed_of s' k') (of_part k' (handled s'))"
  proof (elim conjE disjE)
    assume "pending s' = pending s" "handled s' = handled s" "processed_of s' k = ?P"
    then show ?thesis using old rest by (cases "k' = k") auto
  next
    assume a: "pending s' = pending s" "\<exists>r. todo_of s k = r # todo_of s' k
      \<and> handled s' = handled s @ [r] \<and> processed_of s' k = ?P @ [r]"
    then obtain r where r: "todo_of s k = r # todo_of s' k" "handled s' = handled s @ [r]"
      "processed_of s' k = ?P @ [r]" by blast
    then have "part_of r = k" using control_parts(1) [OF assms(2), of k] by simp
    then show ?thesis
      using old rest a(1) r
      by (cases "k' = k") (auto simp: of_part_def simp flip: append_assoc intro: list_emb_append_mono)
  next
    assume a: "pending s' \<in> {pending s, pending s @ ?P}" "handled s' = handled s" "processed_of s' k = []"
    then show ?thesis
      using old rest P by (cases "k' = k") (auto intro: subseq_order.trans [OF subseq_skip(2)])
  qed
qed

lemma order_poll: "poll_step cg s s' \<Longrightarrow> control_inv s \<Longrightarrow> order_inv s \<Longrightarrow> order_inv s'"
proof (induction rule: poll_step.induct)
  case (p_records s rs)
  then have "workers s = Map.empty" by (simp add: control_inv_def)
  moreover have "processed_of (s\<lparr>poll := PWork, fetched := fetched s @ rs, workers := spawn rs\<rparr>) k = []" for k
    by (auto simp: processed_of_def dest: spawn_ok split: option.split)
  ultimately show ?case
    using p_records by (simp add: order_inv_def pending_def busy_records_def processed_of_def)
next
  case (p_joined s)
  then have "processed_of s k = []" for k
    by (auto simp: control_inv_def worker_ok_def processed_of_def ran_def split: option.split)
  then show ?case
    using p_joined by (simp add: order_inv_def pending_def busy_records_def processed_of_def)
qed (auto simp: order_inv_def pending_def busy_records_def processed_of_def)

lemma order_commit: "commit_step cg s s' \<Longrightarrow> order_inv s \<Longrightarrow> order_inv s'"
proof (induction rule: commit_step.induct)
  case (c_barrier s t ts n)
  then show ?case
    by (intro order_shrink [OF c_barrier(4)])
      (simp_all add: pending_def busy_records_def processed_of_def subseq_skip)
next
  case (c_commit s t env enabled m)
  then show ?case
    by (intro order_shrink [OF c_commit(4)])
      (simp_all add: pending_def busy_records_def processed_of_def subseq_skip)
qed (auto simp: order_inv_def pending_def busy_records_def processed_of_def)

lemma order_step: "cg_step cg s s' \<Longrightarrow> control_inv s \<Longrightarrow> order_inv s \<Longrightarrow> order_inv s'"
  by (induction rule: cg_step.induct)
    (auto dest: order_worker order_poll order_commit,
     simp add: order_inv_def pending_def busy_records_def processed_of_def)

lemma order_reach: "cg_reach cg s \<Longrightarrow> order_inv s"
  by (erule cg_reach_inv [OF _ _ order_step])
    (simp_all add: order_inv_def cg_start_def pending_def busy_records_def processed_of_def)

subsection \<open>Nothing fetched is passed over\<close>

definition stopped :: "cgState \<Rightarrow> bool" where
  "stopped s \<longleftrightarrow> poll s = PStop \<or> poll s = PDrain \<or> (\<exists>g. poll s = PExit g)"

definition following :: "cgState \<Rightarrow> bool" where
  "following s \<longleftrightarrow> poll s = PPoll \<or> poll s = PWork \<or> \<not> ctxDone s \<and> \<not> stopped s"

definition fetch_inv :: "cgState \<Rightarrow> bool" where
  "fetch_inv s \<longleftrightarrow> skipped s = [] \<longrightarrow> (\<forall>k. prefix (of_part k (handled s)) (of_part k (fetched s))
    \<and> (following s \<longrightarrow> of_part k (handled s) @ todo_of s k = of_part k (fetched s)))"

lemma fetch_worker:
  assumes "worker_step cg k s s'" "control_inv s" "fetch_inv s"
  shows "fetch_inv s'"
proof -
  note f = worker_frame [OF assms(1)] and eff = worker_effect [OF assms(1)]
  have "poll s = PWork"
    using worker_workers [OF assms(1)] assms(2) by (auto simp: control_inv_def)
  then have fol: "following s" "following s'" using f by (simp_all add: following_def)
  have "of_part k' (handled s') @ todo_of s' k' = of_part k' (fetched s')" if "skipped s' = []" for k'
  proof -
    have old: "of_part k' (handled s) @ todo_of s k' = of_part k' (fetched s)"
      using assms(3) that fol f by (simp add: fetch_inv_def)
    show ?thesis
    proof (cases "handled s' = handled s")
      case True
      then have "todo_of s' k' = todo_of s k'" using eff by (cases "k' = k") auto
      then show ?thesis using old f True by simp
    next
      case False
      then obtain r where r: "todo_of s k = r # todo_of s' k" "handled s' = handled s @ [r]"
        using eff by blast
      then have "part_of r = k" using control_parts(1) [OF assms(2), of k] by simp
      then show ?thesis using old f r eff by (cases "k' = k") (auto simp: of_part_def)
    qed
  qed
  then show ?thesis unfolding fetch_inv_def by (metis prefixI)
qed

lemma spawn_todo: "(case spawn rs k of None \<Rightarrow> [] | Some w \<Rightarrow> w_todo w) = of_part k rs"
  by (simp add: spawn_def groupBy_of_part)

lemma fetch_poll: "poll_step cg s s' \<Longrightarrow> control_inv s \<Longrightarrow> fetch_inv s \<Longrightarrow> fetch_inv s'"
proof (induction rule: poll_step.induct)
  case (p_records s rs)
  then have "workers s = Map.empty" by (simp add: control_inv_def)
  then show ?case
    using p_records by (auto simp: fetch_inv_def following_def todo_of_def spawn_todo)
next
  case (p_joined s)
  have "todo_of s k = []" if "\<not> ctxDone s" for k
    using p_joined(2,3) that
    by (cases "workers s k") (auto simp: control_inv_def worker_ok_def todo_of_def ran_def)
  then show ?case
    using p_joined by (auto simp: fetch_inv_def following_def stopped_def todo_of_def)
qed (auto simp: fetch_inv_def following_def stopped_def todo_of_def control_inv_def)

lemma fetch_commit: "commit_step cg s s' \<Longrightarrow> fetch_inv s \<Longrightarrow> fetch_inv s'"
  by (induction rule: commit_step.induct)
    (simp_all add: fetch_inv_def following_def stopped_def todo_of_def)

lemma fetch_step: "cg_step cg s s' \<Longrightarrow> control_inv s \<Longrightarrow> fetch_inv s \<Longrightarrow> fetch_inv s'"
  by (induction rule: cg_step.induct)
    (auto dest: fetch_worker fetch_poll fetch_commit,
     auto simp: fetch_inv_def following_def stopped_def todo_of_def)

lemma fetch_reach: "cg_reach cg s \<Longrightarrow> fetch_inv s"
  by (erule cg_reach_inv [OF _ _ fetch_step]) (simp_all add: fetch_inv_def cg_start_def todo_of_def)

text \<open>C13: At-least-once delivery. Wherever the group is, interleaving its goroutines, cancellation,
  rebalances, time-outs and commit failures in any way: in every partition the records handled are
  a prefix of the records fetched, as long as no fetch was thrown away because of an error, and the
  records committed are among the records handled, in the same order. So an offset is committed
  only after the handler has returned for every earlier record of the partition.\<close>

theorem consumer_at_least_once:
  assumes "cg_reach cg s" "skipped s = []"
  shows "prefix (of_part k (handled s)) (of_part k (fetched s))
    \<and> subseq (of_part k (committed s)) (of_part k (handled s))"
proof
  show "prefix (of_part k (handled s)) (of_part k (fetched s))"
    using fetch_reach [OF assms(1)] assms(2) by (simp add: fetch_inv_def)
  have "subseq (of_part k (committed s)) (of_part k (pending s) @ processed_of s k)"
    by (simp add: pending_def subseq_skip)
  then show "subseq (of_part k (committed s)) (of_part k (handled s))"
    using order_reach [OF assms(1)] unfolding order_inv_def by (meson subseq_order.trans)
qed

subsection \<open>Runs\<close>

text \<open>A worker with one record, with room in the semaphore and in the channel, handles the record
  and hands it to the commit worker.\<close>

lemma run_worker:
  assumes "workers s k = Some \<lparr>w_pc = WSem, w_todo = [r], w_processed = []\<rparr>"
    and "\<not> ctxDone s" "\<not> closing s" "int (semUsed s) < cg_maxWorkers cg"
    and "int (length (commitCh s)) < cg_commitChanCap cg"
  shows "(cg_step cg)\<^sup>*\<^sup>* s (s\<lparr>workers := (workers s)(k \<mapsto> \<lparr>w_pc = WDone, w_todo = [], w_processed = []\<rparr>),
    handled := handled s @ [r],
    commitCh := commitCh s @ [\<lparr>t_sync = None, t_key = k, t_records = [r]\<rparr>]\<rparr>)"
proof -
  let ?W = "\<lambda>pc todo proc. \<lparr>w_pc = pc, w_todo = todo, w_processed = proc\<rparr>"
  let ?at = "\<lambda>pc todo proc. s\<lparr>workers := (workers s)(k \<mapsto> ?W pc todo proc),
    semUsed := Suc (semUsed s)\<rparr>"
  let ?h = "\<lambda>t. t\<lparr>handled := handled s @ [r]\<rparr>"
  let ?c = "\<lambda>t. t\<lparr>commitCh := commitCh s @ [\<lparr>t_sync = None, t_key = k, t_records = [r]\<rparr>]\<rparr>"
  have "worker_step cg k s (?at WLoop [r] [])"
    using w_acquire [OF assms(1) _ assms(4)] by (cases s) (simp add: set_worker_def)
  moreover have "worker_step cg k (?at WLoop [r] []) (?at WHandling [r] [])"
    using w_handle [of "?at WLoop [r] []" k "?W WLoop [r] []"] assms(2) by (cases s) (simp add: set_worker_def)
  moreover have "worker_step cg k (?at WHandling [r] []) (?h (?at WEnqueue [] [r]))"
    using w_return [of "?at WHandling [r] []" k "?W WHandling [r] []"] by (cases s) (simp add: set_worker_def)
  moreover have "worker_step cg k (?h (?at WEnqueue [] [r])) (?c (?h (?at WLoop [] [])))"
    using w_enqueue [of "?h (?at WEnqueue [] [r])" k "?W WEnqueue [] [r]" cg ChooseSend] assms(3,5)
    by (cases s) (simp add: set_worker_def enqueueCommit_def)
  moreover have "worker_step cg k (?c (?h (?at WLoop [] []))) (?c (?h (?at WEnd [] [])))"
    using w_break [of "?c (?h (?at WLoop [] []))" k "?W WLoop [] []"] by (cases s) (simp add: set_worker_def)
  moreover have "worker_step cg k (?c (?h (?at WEnd [] [])))
      ((?c (?h (?at WDone [] [])))\<lparr>semUsed := semUsed s\<rparr>)"
    using w_end [of "?c (?h (?at WEnd [] []))" k "?W WEnd [] []"] by (cases s) (simp add: set_worker_def finish_worker_def)
  ultimately have "(cg_step cg)\<^sup>*\<^sup>* s ((?c (?h (?at WDone [] [])))\<lparr>semUsed := semUsed s\<rparr>)"
    by (meson g_worker converse_rtranclp_into_rtranclp rtranclp.rtrancl_refl)
  then show ?thesis by (cases s) simp
qed

text \<open>An idle commit worker whose commits succeed commits the next batch.\<close>

lemma run_commit:
  assumes "committer s = CIdle" "commitCh s = t # ts" "t_sync t = None" "t_records t \<noteq> []"
    and "0 \<le> cg_commitMaxRetry cg"
  shows "(cg_step cg)\<^sup>*\<^sup>* s (s\<lparr>commitCh := ts, committed := committed s @ t_records t\<rparr>)"
proof -
  define env where "env = \<lparr>CommitRecords = (\<lambda>a. True), Int63n = (\<lambda>a n. 0), ctx_Done = (\<lambda>a. False)\<rparr>"
  let ?m = "\<lparr>m_success = 0, m_retries = 0, m_failures = 0, m_consecutive = 0\<rparr>"
  let ?s = "s\<lparr>commitCh := ts, committer := CBusy t\<rparr>"
  have "cr_outcome (commitWithRetry True (cg_commitMaxRetry cg) env ?m (t_records t)) = Committed"
    using assms(4,5) by (auto simp: commitWithRetry_loop commit_loop_outcome env_def intro: exI [of _ 0])
  then have "commit_step cg ?s (?s\<lparr>committer := CIdle, committed := committed s @ t_records t\<rparr>)"
    using c_commit [of ?s t env cg True ?m] by (simp add: env_def Int63n_ok_def)
  moreover have "commit_step cg s ?s" using assms by (intro c_take) auto
  ultimately have "(cg_step cg)\<^sup>*\<^sup>* s (?s\<lparr>committer := CIdle, committed := committed s @ t_records t\<rparr>)"
    by (meson g_commit converse_rtranclp_into_rtranclp rtranclp.rtrancl_refl)
  then show ?thesis using assms(1) by (cases s) simp
qed

text \<open>A group between two fetches with nothing in flight, and with room for a worker and a task.\<close>

definition quiet :: "ConsumerGrp \<Rightarrow> cgState \<Rightarrow> bool" where
  "quiet cg s \<longleftrightarrow> workers s = Map.empty \<and> \<not> ctxDone s \<and> \<not> closing s \<and> commitCh s = [] \<and> semUsed s = 0
    \<and> committer s = CIdle \<and> cg_maxWorkers cg > 0 \<and> cg_commitChanCap cg > 0 \<and> cg_commitMaxRetry cg > 0
    \<and> cg_maxPollRecords cg > 0"

text \<open>From there one record is fetched, handled and committed.\<close>

lemma run_one_record:
  assumes "quiet cg s" "poll s = PPoll"
  shows "(cg_step cg)\<^sup>*\<^sup>* s (s\<lparr>poll := PAllow, fetched := fetched s @ [r], handled := handled s @ [r],
    committed := committed s @ [r]\<rparr>)"
proof -
  let ?k = "part_of r"
  let ?w = "\<lambda>pc rs. \<lparr>w_pc = pc, w_todo = rs, w_processed = []\<rparr>"
  let ?s = "\<lambda>w. s\<lparr>poll := PWork, fetched := fetched s @ [r], workers := [?k \<mapsto> w]\<rparr>"
  let ?h = "\<lambda>t. t\<lparr>handled := handled s @ [r],
    commitCh := [\<lparr>t_sync = None, t_key = ?k, t_records = [r]\<rparr>]\<rparr>"
  have "spawn [r] = [?k \<mapsto> ?w WSem [r]]"
    by (rule ext) (simp add: spawn_def groupBy_of_part of_part_def)
  then have "poll_step cg s (?s (?w WSem [r]))"
    using p_records [of s "[r]" cg] assms by (cases s) (simp add: quiet_def)
  moreover have "(cg_step cg)\<^sup>*\<^sup>* (?s (?w WSem [r])) (?h (?s (?w WDone [])))"
    using run_worker [of "?s (?w WSem [r])" ?k r cg] assms(1) by (cases s) (simp add: quiet_def)
  moreover have "poll_step cg (?h (?s (?w WDone []))) (?h (s\<lparr>poll := PAllow, fetched := fetched s @ [r]\<rparr>))"
    using p_joined [of "?h (?s (?w WDone []))" cg] assms by (cases s) (simp add: quiet_def)
  moreover have "(cg_step cg)\<^sup>*\<^sup>* (?h (s\<lparr>poll := PAllow, fetched := fetched s @ [r]\<rparr>))
      (s\<lparr>poll := PAllow, fetched := fetched s @ [r], handled := handled s @ [r], committed := committed s @ [r]\<rparr>)"
    using run_commit [of "?h (s\<lparr>poll := PAllow, fetched := fetched s @ [r]\<rparr>)"
        "\<lparr>t_sync = None, t_key = ?k, t_records = [r]\<rparr>" "[]" cg] assms(1)
    by (cases s) (simp add: quiet_def)
  ultimately show ?thesis
    by (meson g_poll r_into_rtranclp rtranclp_trans)
qed

definition demo_group :: ConsumerGrp where
  "demo_group = \<lparr>cg_group = ''g'', cg_topic = ''t'', cg_maxWorkers = 2, cg_maxPollRecords = 100,
    cg_commitBatchSize = 500, cg_commitChanCap = 500, cg_commitMaxRetry = 3,
    cg_commitTimeout = 10 * Second, cg_commitBlockWarn = 5 * Second, cg_revokeFlushTO = 8 * Second,
    cg_shutdownTO = 30 * Second, cg_fetchErrBackoff = Second\<rparr>"

lemma quiet_start: "quiet demo_group (cg_start\<lparr>poll := PPoll\<rparr>)"
  by (simp add: quiet_def cg_start_def demo_group_def)

lemma run_poll: "cg_reach cg (cg_start\<lparr>poll := PPoll\<rparr>)"
  by (intro r_into_rtranclp g_poll p_poll) (simp_all add: cg_start_def)

lemma demo_run:
  "cg_reach demo_group (cg_start\<lparr>poll := PAllow, fetched := [r], handled := [r], committed := [r]\<rparr>)"
  using run_poll [of demo_group] run_one_record [OF quiet_start, of r]
  by (auto simp: cg_start_def elim: rtranclp_trans)

theorem consumer_at_least_once_witness:
  "\<exists>s. cg_reach demo_group s \<and> committed s = [demo_record 0]
    \<and> subseq (of_part (part_of (demo_record 0)) (committed s)) (of_part (part_of (demo_record 0)) (handled s))"
  using consumer_at_least_once [OF demo_run [of "demo_record 0"], of "part_of (demo_record 0)"]
    demo_run [of "demo_record 0"]
  by (intro exI [of _ "cg_start\<lparr>poll := PAllow, fetched := [demo_record 0], handled := [demo_record 0],
      committed := [demo_record 0]\<rparr>"]) (simp add: cg_start_def)

text \<open>C39: A fetch that reports an error for one partition is thrown away as a whole, although the client
  has moved past its records: there is a run in which a record is fetched together with an error and never
  handled, the next record of the same partition is handled, and the group commits past the
  record it lost.\<close>

theorem consumer_error_loses_records:
  "\<exists>s. cg_reach demo_group s \<and> fetched s = [demo_record 0, demo_record 1]
    \<and> handled s = [demo_record 1] \<and> committed s = [demo_record 1]
    \<and> part_of (demo_record 0) = part_of (demo_record 1) \<and> poll s = PAllow"
proof -
  let ?s = "\<lambda>p. cg_start\<lparr>poll := p, fetched := [demo_record 0], skipped := [demo_record 0]\<rparr>"
  have "poll_step demo_group (cg_start\<lparr>poll := PPoll\<rparr>) (?s PAllow)"
    using p_error [of "cg_start\<lparr>poll := PPoll\<rparr>" demo_group "[demo_record 0]"]
    by (simp add: cg_start_def)
  moreover have "poll_step demo_group (?s PAllow) (?s PCheck)"
    using p_allowed [of "?s PAllow" demo_group] by (simp add: cg_start_def)
  moreover have "poll_step demo_group (?s PCheck) (?s PPoll)"
    using p_poll [of "?s PCheck" demo_group] by (simp add: cg_start_def)
  moreover have "quiet demo_group (?s PPoll)"
    using quiet_start by (simp add: quiet_def)
  then have "(cg_step demo_group)\<^sup>*\<^sup>* (?s PPoll) (cg_start\<lparr>poll := PAllow, fetched := [demo_record 0, demo_record 1],
      skipped := [demo_record 0], handled := [demo_record 1], committed := [demo_record 1]\<rparr>)"
    using run_one_record [of demo_group "?s PPoll" "demo_record 1"] by (simp add: cg_start_def)
  ultimately have "cg_reach demo_group (cg_start\<lparr>poll := PAllow, fetched := [demo_record 0, demo_record 1],
      skipped := [demo_record 0], handled := [demo_record 1], committed := [demo_record 1]\<rparr>)"
    using run_poll [of demo_group] by (meson g_poll r_into_rtranclp rtranclp_trans)
  then show ?thesis
    by (intro exI conjI, assumption) (simp_all add: part_of_def demo_record_def)
qed

subsection \<open>Flush barriers\<close>

definition flush_inv :: "cgState \<Rightarrow> bool" where
  "flush_inv s \<longleftrightarrow> (\<forall>t \<in> set (commitCh s). \<forall>m. t_sync t = Some m \<longrightarrow> m < barriers s)
    \<and> (\<forall>m \<in> synced s. m < barriers s)
    \<and> (\<forall>n. poll s = PFlush n \<longrightarrow> (if n \<in> synced s then commitCh s = [] \<and> (\<forall>t. committer s \<noteq> CBusy t)
        else \<exists>ts t. commitCh s = ts @ [t] \<and> t_sync t = Some n \<and> (\<forall>u \<in> set ts. t_sync u \<noteq> Some n)))"

lemma flush_worker:
  assumes "worker_step cg k s s'" "control_inv s" "flush_inv s"
  shows "flush_inv s'"
proof -
  have "poll s = PWork"
    using worker_workers [OF assms(1)] assms(2) by (auto simp: control_inv_def)
  then show ?thesis
    using worker_frame [OF assms(1)] worker_chan [OF assms(1)] assms(3) by (auto simp: flush_inv_def)
qed

lemma flush_poll: "poll_step cg s s' \<Longrightarrow> flush_inv s \<Longrightarrow> flush_inv s'"
proof (induction rule: poll_step.induct)
  case (p_revoke s)
  then show ?case by (auto simp: flush_inv_def less_Suc_eq)
qed (simp_all add: flush_inv_def)

lemma flush_commit: "commit_step cg s s' \<Longrightarrow> flush_inv s \<Longrightarrow> flush_inv s'"
proof (induction rule: commit_step.induct)
  case (c_barrier s t ts n)
  then show ?case by (auto simp: flush_inv_def append_eq_Cons_conv Cons_eq_append_conv split: if_splits)
next
  case (c_take s t ts)
  then show ?case by (auto simp: flush_inv_def Cons_eq_append_conv split: if_splits)
qed (auto simp: flush_inv_def split: if_splits)

lemma flush_reach: "cg_reach cg s \<Longrightarrow> flush_inv s"
proof (erule cg_reach_inv)
  show "flush_inv cg_start" by (simp add: flush_inv_def cg_start_def)
next
  fix s s' assume "cg_step cg s s'" "control_inv s" "flush_inv s"
  then show "flush_inv s'"
    by (induction rule: cg_step.induct)
      (auto dest: flush_worker flush_poll flush_commit, simp add: flush_inv_def)
qed

text \<open>C21: When the wait of \<open>onPartitionsRevoked\<close> ends because its barrier was reached, and not by its
  time-out, nothing is left to commit: no worker is running, the commit channel is empty and the commit
  worker is idle, so every batch handed over before the revocation has been committed or given
  up on.\<close>

theorem revoke_flush_complete:
  assumes "cg_reach cg s" "poll s = PFlush n" "n \<in> synced s"
  shows "workers s = Map.empty \<and> commitCh s = [] \<and> committer s = CIdle"
proof -
  have c: "control_inv s" and f: "flush_inv s"
    using cg_reach_control [OF assms(1)] flush_reach [OF assms(1)] .
  then have "commitCh s = []" "\<forall>t. committer s \<noteq> CBusy t"
    using assms(2,3) by (auto simp: flush_inv_def)
  then show ?thesis
    using c assms(2) by (cases "committer s") (auto simp: control_inv_def)
qed

theorem revoke_flush_complete_witness:
  "\<exists>s. cg_reach demo_group s \<and> poll s = PFlush 0 \<and> 0 \<in> synced s \<and> commitCh s = []"
proof -
  let ?b = "\<lparr>t_sync = Some 0, t_key = \<lparr>tp_topic = '''', tp_partition = 0\<rparr>, t_records = []\<rparr>"
  let ?f = "cg_start\<lparr>poll := PFlush 0, barriers := 1, synced := {0}\<rparr>"
  have "poll_step demo_group (cg_start\<lparr>poll := PPoll\<rparr>) (cg_start\<lparr>poll := PAllow\<rparr>)"
    using p_empty [of "cg_start\<lparr>poll := PPoll\<rparr>" demo_group] by (simp add: cg_start_def)
  moreover have "poll_step demo_group (cg_start\<lparr>poll := PAllow\<rparr>)
      (cg_start\<lparr>poll := PFlush 0, barriers := 1, commitCh := [?b]\<rparr>)"
    using p_revoke [of "cg_start\<lparr>poll := PAllow\<rparr>" demo_group] by (simp add: cg_start_def demo_group_def)
  moreover have "commit_step demo_group (cg_start\<lparr>poll := PFlush 0, barriers := 1, commitCh := [?b]\<rparr>) ?f"
    using c_barrier [of "cg_start\<lparr>poll := PFlush 0, barriers := 1, commitCh := [?b]\<rparr>" ?b "[]" 0]
    by (simp add: cg_start_def)
  ultimately have "cg_reach demo_group ?f"
    using run_poll [of demo_group] by (meson g_poll g_commit r_into_rtranclp rtranclp_trans)
  then show ?thesis
    using revoke_flush_complete [of demo_group ?f 0] by (intro exI [of _ ?f]) (simp add: cg_start_def)
qed

subsection \<open>The semaphore\<close>

definition holding :: "cgState \<Rightarrow> topicPartition set" where
  "holding s = {k. \<exists>w. workers s k = Some w \<and> w_pc w \<notin> {WSem, WDone}}"

definition slots_inv :: "ConsumerGrp \<Rightarrow> cgState \<Rightarrow> bool" where
  "slots_inv cg s \<longleftrightarrow> semUsed s = card (holding s) \<and> semUsed s \<le> nat (cg_maxWorkers cg)"

lemma holding_finite: "control_inv s \<Longrightarrow> finite (holding s)"
  by (rule finite_subset [of _ "dom (workers s)"]) (auto simp: holding_def control_inv_def)

lemma worker_slots:
  "worker_step cg k s s' \<Longrightarrow>
    k \<notin> holding s \<and> holding s' = insert k (holding s) \<and> semUsed s' = Suc (semUsed s)
      \<and> int (semUsed s) < cg_maxWorkers cg
    \<or> holding s' = holding s \<and> semUsed s' = semUsed s
    \<or> k \<in> holding s \<and> holding s' = holding s - {k} \<and> semUsed s' = semUsed s - 1"
  by (induction rule: worker_step.induct)
    (auto simp: holding_def set_worker_def finish_worker_def split: if_splits elim!: enqueue_cases)

lemma slots_worker:
  assumes "worker_step cg k s s'" "control_inv s" "slots_inv cg s"
  shows "slots_inv cg s'"
proof -
  note fin = holding_finite [OF assms(2)]
  show ?thesis
    using worker_slots [OF assms(1)]
  proof (elim disjE conjE)
    assume "k \<notin> holding s" "holding s' = insert k (holding s)" "semUsed s' = Suc (semUsed s)"
      "int (semUsed s) < cg_maxWorkers cg"
    then show ?thesis using assms(3) fin by (simp add: slots_inv_def nat_le_iff)
  next
    assume "k \<in> holding s" "holding s' = holding s - {k}" "semUsed s' = semUsed s - 1"
    moreover have "semUsed s - 1 \<le> nat (cg_maxWorkers cg)" "semUsed s = card (holding s)"
      using assms(3) unfolding slots_inv_def by linarith+
    ultimately show ?thesis using fin by (simp add: slots_inv_def)
  qed (use assms(3) in \<open>simp add: slots_inv_def\<close>)
qed

lemma slots_reach: "cg_reach cg s \<Longrightarrow> slots_inv cg s"
proof (erule cg_reach_inv)
  show "slots_inv cg cg_start" by (simp add: slots_inv_def cg_start_def holding_def)
next
  fix s s' assume "cg_step cg s s'" "control_inv s" "slots_inv cg s"
  then show "slots_inv cg s'"
  proof (induction rule: cg_step.induct)
    case (g_poll s s')
    then show ?case
    proof (induction rule: poll_step.induct)
      case (p_records s rs)
      then have "holding s = {}" by (simp add: control_inv_def holding_def)
      moreover have "holding (s\<lparr>poll := PWork, fetched := fetched s @ rs, workers := spawn rs\<rparr>) = {}"
        by (auto simp: holding_def dest: spawn_ok)
      ultimately show ?case using p_records by (simp add: slots_inv_def)
    next
      case (p_joined s)
      then have "holding s = {}" by (auto simp: holding_def ran_def)
      moreover have "holding (s\<lparr>poll := PAllow, workers := Map.empty\<rparr>) = {}" by (simp add: holding_def)
      ultimately show ?case using p_joined by (simp add: slots_inv_def)
    qed (simp_all add: slots_inv_def holding_def)
  next
    case (g_commit s s')
    then show ?case by (induction rule: commit_step.induct) (simp_all add: slots_inv_def holding_def)
  qed (auto dest: slots_worker, simp add: slots_inv_def holding_def)
qed

text \<open>At no time more partitions are inside the handler, or anywhere between taking and giving back a slot,
  than the group has workers.\<close>

theorem consumer_worker_bound:
  assumes "cg_reach cg s"
  shows "card {k. \<exists>w. workers s k = Some w \<and> w_pc w = WHandling} \<le> nat (cg_maxWorkers cg)"
proof -
  have "card {k. \<exists>w. workers s k = Some w \<and> w_pc w = WHandling} \<le> card (holding s)"
    by (rule card_mono [OF holding_finite [OF cg_reach_control [OF assms]]]) (auto simp: holding_def)
  then show ?thesis
    using slots_reach [OF assms] by (simp add: slots_inv_def)
qed

theorem consumer_worker_bound_witness:
  "card {k. \<exists>w. workers (cg_start\<lparr>poll := PPoll\<rparr>) k = Some w \<and> w_pc w = WHandling} \<le> 2"
  using consumer_worker_bound [OF run_poll [of demo_group]] by (simp add: demo_group_def)

subsection \<open>Shutdown\<close>

definition poll_rank :: "poll_pc \<Rightarrow> nat" where
  "poll_rank p = (case p of PPoll \<Rightarrow> 7 | PWork \<Rightarrow> 6 | PAllow \<Rightarrow> 5 | PFlush _ \<Rightarrow> 4 | PCheck \<Rightarrow> 3
     | PStop \<Rightarrow> 2 | PDrain \<Rightarrow> 1 | PExit _ \<Rightarrow> 0)"

definition worker_weight :: "partWorker \<Rightarrow> nat" where
  "worker_weight w = 10 * length (w_todo w) +
    (case w_pc w of WSem \<Rightarrow> 9 | WLoop \<Rightarrow> 8 | WHandling \<Rightarrow> 7 | WEnqueue \<Rightarrow> 12 | WEnd \<Rightarrow> 6 | WFlush \<Rightarrow> 5 | WDone \<Rightarrow> 0)"

definition committer_weight :: "committer \<Rightarrow> nat" where
  "committer_weight c = (case c of CBusy _ \<Rightarrow> 2 | CIdle \<Rightarrow> 1 | CExited \<Rightarrow> 0)"

definition cg_load :: "cgState \<Rightarrow> nat" where
  "cg_load s = (\<Sum>k \<in> dom (workers s). worker_weight (the (workers s k)))
    + 2 * length (commitCh s) + committer_weight (committer s)"

definition cg_less :: "(cgState \<times> cgState) set" where
  "cg_less = inv_image (less_than <*lex*> less_than) (\<lambda>s. (poll_rank (poll s), cg_load s))"

lemma wf_cg_less: "wf cg_less"
  by (simp add: cg_less_def wf_inv_image wf_lex_prod)

text \<open>After cancellation every step makes the state smaller.\<close>

lemma worker_lighter:
  "worker_step cg k s s' \<Longrightarrow>
    worker_weight (the (workers s' k)) + 2 * length (commitCh s')
      < worker_weight (the (workers s k)) + 2 * length (commitCh s)"
  by (induction rule: worker_step.induct)
    (auto simp: worker_weight_def set_worker_def finish_worker_def elim!: enqueue_cases)

lemma worker_less:
  assumes "worker_step cg k s s'" "control_inv s"
  shows "(s', s) \<in> cg_less"
proof -
  let ?D = "dom (workers s)" and ?W = "\<lambda>s k. worker_weight (the (workers s k))"
  obtain w' where k: "k \<in> ?D" and upd: "workers s' = (workers s)(k \<mapsto> w')" and fin: "finite ?D"
    using worker_workers [OF assms(1)] assms(2) by (auto simp: control_inv_def)
  have dom: "dom (workers s') = ?D" using k by (auto simp: upd)
  have "sum (?W s') (?D - {k}) = sum (?W s) (?D - {k})"
    by (rule sum.cong) (simp_all add: upd)
  moreover have "sum (?W t) ?D = ?W t k + sum (?W t) (?D - {k})" for t
    using fin k by (rule sum.remove)
  from this [of s] this [of s'] have "sum (?W s) ?D = ?W s k + sum (?W s) (?D - {k})"
    "sum (?W s') ?D = ?W s' k + sum (?W s') (?D - {k})" .
  moreover have "committer_weight (committer s') = committer_weight (committer s)"
    using worker_frame [OF assms(1)] by simp
  ultimately have "cg_load s' < cg_load s"
    using worker_lighter [OF assms(1)] unfolding cg_load_def dom by linarith
  then show ?thesis
    using worker_frame [OF assms(1)] by (simp add: cg_less_def)
qed

lemma cg_step_less:
  "cg_step cg s s' \<Longrightarrow> control_inv s \<Longrightarrow> ctxDone s \<Longrightarrow> (s', s) \<in> cg_less"
proof (induction rule: cg_step.induct)
  case (g_poll s s')
  then show ?case
    by (induction rule: poll_step.induct) (simp_all add: cg_less_def poll_rank_def)
next
  case (g_commit s s')
  then show ?case
    by (induction rule: commit_step.induct) (simp_all add: cg_less_def cg_load_def committer_weight_def)
qed (auto intro: worker_less)

text \<open>After cancellation a worker that holds a slot can go on.\<close>

lemma holder_steps:
  assumes "workers s k = Some w" "w_pc w \<notin> {WSem, WDone}" "worker_ok s k w" "ctxDone s"
  shows "\<exists>s'. worker_step cg k s s'"
proof (cases "w_pc w")
  case WHandling
  then obtain r rs where "w_todo w = r # rs"
    using assms(3) by (cases "w_todo w") (auto simp: worker_ok_def)
  then show ?thesis using w_return [OF assms(1) WHandling] by blast
next
  case WEnqueue
  have "enqueueCommit cg s (ctxDone s) k (w_processed w) ChooseDone = Some s"
    using assms(4) by (simp add: enqueueCommit_def)
  then show ?thesis using w_enqueue [OF assms(1) WEnqueue] by blast
next
  case WEnd
  then show ?thesis using w_end [OF assms(1) WEnd] w_flush [OF assms(1) WEnd] by blast
next
  case WFlush
  have "enqueueCommit cg s True k (w_processed w) ChooseDone = Some s"
    by (simp add: enqueueCommit_def)
  then show ?thesis using w_flushed [OF assms(1) WFlush] by blast
qed (use assms w_break [OF assms(1)] in auto)

lemma work_steps:
  assumes "control_inv s" "slots_inv cg s" "ctxDone s" "0 < cg_maxWorkers cg" "poll s = PWork"
  shows "\<exists>s'. cg_step cg s s'"
proof (cases "\<forall>w \<in> ran (workers s). w_pc w = WDone")
  case True
  then show ?thesis using p_joined [OF assms(5)] g_poll by blast
next
  case False
  then obtain k w where w: "workers s k = Some w" "w_pc w \<noteq> WDone" by (auto simp: ran_def)
  show ?thesis
  proof (cases "holding s = {}")
    case True
    then have "w_pc w = WSem" using w by (auto simp: holding_def)
    moreover have "int (semUsed s) < cg_maxWorkers cg" using assms(2,4) True by (simp add: slots_inv_def)
    ultimately show ?thesis using w_acquire [OF w(1)] g_worker by blast
  next
    case False
    then obtain k w where "workers s k = Some w" "w_pc w \<notin> {WSem, WDone}" by (auto simp: holding_def)
    then show ?thesis
      using holder_steps assms(1,3) g_worker unfolding control_inv_def by blast
  qed
qed

lemma commit_steps:
  assumes "committer s \<noteq> CExited" "committer s = CIdle \<and> commitCh s = [] \<longrightarrow> chanClosed s"
  shows "\<exists>s'. cg_step cg s s'"
proof (cases "committer s")
  case (CBusy t)
  have "Int63n_ok \<lparr>CommitRecords = (\<lambda>a. True), Int63n = (\<lambda>a n. 0), ctx_Done = (\<lambda>a. False)\<rparr>"
    by (simp add: Int63n_ok_def)
  then show ?thesis using c_commit [OF CBusy] g_commit by fastforce
next
  case CIdle
  show ?thesis
  proof (cases "commitCh s")
    case Nil
    then show ?thesis using CIdle assms(2) c_exit [OF CIdle Nil] g_commit by blast
  next
    case (Cons t ts)
    then show ?thesis
      using c_barrier [OF CIdle Cons] c_take [OF CIdle Cons] g_commit by (cases "t_sync t") blast+
  qed
qed (use assms(1) in simp)

text \<open>So a cancelled group stops only when it is done.\<close>

definition cg_finished :: "cgState \<Rightarrow> bool" where
  "cg_finished s \<longleftrightarrow> (\<exists>g. poll s = PExit g) \<and> workers s = Map.empty \<and> commitCh s = [] \<and> committer s = CExited"

lemma cancelled_steps:
  assumes "control_inv s" "slots_inv cg s" "ctxDone s" "0 < cg_maxWorkers cg" "\<not> cg_finished s"
  shows "\<exists>s'. cg_step cg s s'"
proof (cases "poll s")
  case PWork
  then show ?thesis using work_steps assms by blast
next
  case PStop
  then have "workers s = Map.empty" using assms(1) by (simp add: control_inv_def)
  then show ?thesis using p_shutdown [OF PStop] g_poll by fastforce
next
  case (PExit g)
  then have "workers s = Map.empty" "chanClosed s" "committer s = CExited \<longrightarrow> commitCh s = []"
    using assms(1) unfolding control_inv_def by (simp, blast, simp)
  then have "committer s \<noteq> CExited" "chanClosed s"
    using assms(5) PExit unfolding cg_finished_def by blast+
  then show ?thesis using commit_steps by blast
qed (use assms(3) in \<open>blast intro: g_poll p_stop p_empty p_allowed p_flush_timeout p_drain_timeout\<close>)+

lemma ctxDone_kept: "cg_step cg s s' \<Longrightarrow> ctxDone s \<Longrightarrow> ctxDone s'"
proof (induction rule: cg_step.induct)
  case (g_poll s s')
  then show ?case by (induction rule: poll_step.induct) simp_all
next
  case (g_commit s s')
  then show ?case by (induction rule: commit_step.induct) simp_all
qed (auto dest: worker_frame)

text \<open>Without infinite runs, and at rest only when finished.\<close>

lemma cancelled_terminates:
  assumes "cg_reach cg s" "ctxDone s" "0 < cg_maxWorkers cg"
  shows "(\<nexists>f. f 0 = s \<and> (\<forall>i. cg_step cg (f i) (f (Suc i))))
    \<and> (\<forall>s'. (cg_step cg)\<^sup>*\<^sup>* s s' \<and> (\<nexists>s''. cg_step cg s' s'') \<longrightarrow> cg_finished s')"
proof (intro conjI allI impI notI)
  assume "\<exists>f. f 0 = s \<and> (\<forall>i. cg_step cg (f i) (f (Suc i)))"
  then obtain f where f: "f 0 = s" "\<And>i. cg_step cg (f i) (f (Suc i))" by blast
  have "cg_reach cg (f i) \<and> ctxDone (f i)" for i
    using assms f by (induction i) (auto intro: rtranclp.rtrancl_into_rtrancl ctxDone_kept)
  then have "(f (Suc i), f i) \<in> cg_less" for i
    using cg_step_less [OF f(2)] cg_reach_control by blast
  then show False using wf_cg_less unfolding wf_iff_no_infinite_down_chain by blast
next
  fix s' assume s': "(cg_step cg)\<^sup>*\<^sup>* s s' \<and> (\<nexists>s''. cg_step cg s' s'')"
  then have "(cg_step cg)\<^sup>*\<^sup>* s s'" ..
  then have "ctxDone s'" by (induction rule: rtranclp_induct) (auto intro: assms(2) ctxDone_kept)
  moreover have "cg_reach cg s'" using assms(1) s' by (meson rtranclp_trans)
  ultimately show "cg_finished s'"
    using cancelled_steps [OF cg_reach_control slots_reach] assms(3) s' by blast
qed

end
