(* ===== verification/Kafka_Subscribe.thy ===== *)
theory Kafka_Subscribe
  imports Kafka_Consumer
begin

text \<open>
  The consumer object that owns the groups, \<^verbatim>\<open>pkg/kafka/consumer.go\<close> and the initialisers of
  \<^verbatim>\<open>pkg/kafka/config.go\<close>: subscribing a topic builds the group's settings from the configuration
  and from the partition count the cluster reports, creates a client and starts the group; closing
  cancels every group. Each subscription carries the state of its running group
  (\<open>Kafka_Consumer\<close>). Arguments stand for the client library: \<open>NewClient\<close> builds a client from
  options, \<open>ListTopics\<close> asks a client for the metadata of a topic (an error and the number of
  partitions per topic).
\<close>

section \<open>Partition count\<close>

datatype 'e count_error =
    MetadataClient 'e | ListTopicsFailed 'e | TopicNotFound string | TopicMetadata string 'e
  | ZeroPartitions string

definition fetchTopicPartitionCount ::
  "('cert kgo_opt list \<Rightarrow> 'e + 'cl) \<Rightarrow> ('cl \<Rightarrow> string \<Rightarrow> 'e + (string \<rightharpoonup> 'e option \<times> nat)) \<Rightarrow>
   string list \<Rightarrow> string \<Rightarrow> string \<Rightarrow> 'e count_error + nat" where
  "fetchTopicPartitionCount NewClient ListTopics brokers topic clientID =
    (case NewClient [kgo_SeedBrokers brokers, kgo_ClientID clientID] of
       Inl e \<Rightarrow> Inl (MetadataClient e)
     | Inr cl \<Rightarrow> (case ListTopics cl topic of
         Inl e \<Rightarrow> Inl (ListTopicsFailed e)
       | Inr topicDetails \<Rightarrow> (case topicDetails topic of
           None \<Rightarrow> Inl (TopicNotFound topic)
         | Some (Some e, _) \<Rightarrow> Inl (TopicMetadata topic e)
         | Some (None, n) \<Rightarrow> if n = 0 then Inl (ZeroPartitions topic) else Inr n)))"

section \<open>The consumer\<close>

record ('cl, 'h) subscription =
  sub_grp :: ConsumerGrp
  sub_handler :: "'h option"
  sub_client :: "'cl option"
  sub_state :: cgState

text \<open>\<open>co_cancels\<close> names, in order, the groups whose cancel functions are kept.\<close>

record ('cl, 'h) Consumer =
  co_config :: "ConsumerConfig option"
  co_consumerGrps :: "string \<rightharpoonup> ('cl, 'h) subscription"
  co_cancels :: "string list"

definition NewConsumer :: "ConsumerConfig option \<Rightarrow> ('cl, 'h) Consumer outcome" where
  "NewConsumer cfg = (case cfg of None \<Rightarrow> ProcessExit | Some c \<Rightarrow>
     if c_Brokers c = [] then ProcessExit
     else Returned \<lparr>co_config = Some c, co_consumerGrps = Map.empty, co_cancels = []\<rparr>)"

definition chainCancel :: "('cl, 'h) Consumer \<Rightarrow> string \<Rightarrow> ('cl, 'h) Consumer" where
  "chainCancel c grp = c\<lparr>co_cancels := co_cancels c @ [grp]\<rparr>"

text \<open>The group \<open>subscribe\<close> builds.\<close>

definition new_group ::
  "ConsumerConfig \<Rightarrow> ConsumerTopicConfig \<Rightarrow> string \<Rightarrow> int \<Rightarrow> ConsumerGrp" where
  "new_group cfg tc topicName nworkers =
    \<lparr>cg_group = ct_GroupID tc, cg_topic = topicName, cg_maxWorkers = nworkers,
     cg_maxPollRecords = MaxPollRecordsOrDefault cfg,
     cg_commitBatchSize = intOr (ct_CommitBatchSize tc) 500,
     cg_commitChanCap = intOr (ct_CommitChanCap tc) 500,
     cg_commitMaxRetry = intOr (ct_CommitMaxRetry tc) 3,
     cg_commitTimeout = msToDur (ct_CommitTimeoutMs tc) (10 * Second),
     cg_commitBlockWarn = msToDur (ct_CommitBlockWarnMs tc) (5 * Second),
     cg_revokeFlushTO = msToDur (ct_RevokeFlushTimeoutMs tc) (8 * Second),
     cg_shutdownTO = msToDur (ct_ShutdownTimeoutMs tc) (30 * Second),
     cg_fetchErrBackoff = msToDur (ct_FetchErrorBackoffMs tc) Second\<rparr>"

text \<open>\<open>start\<close>: a fresh group with its goroutines running.\<close>

definition start_group :: "ConsumerGrp \<Rightarrow> 'h option \<Rightarrow> 'cl \<Rightarrow> ('cl, 'h) subscription" where
  "start_group cg handler client =
    \<lparr>sub_grp = cg, sub_handler = handler, sub_client = Some client, sub_state = cg_start\<rparr>"

text \<open>A consumer made by the deprecated \<open>NewConsumerGrp\<close> has no configuration; subscribing on it
  dereferences a nil pointer.\<close>

datatype 'e subscribe_error = NilConfig | CreateKafkaClient string 'e

definition subscribe ::
  "(rune \<Rightarrow> rune) \<Rightarrow> ('cert kgo_opt list \<Rightarrow> 'e + 'cl) \<Rightarrow>
   ('cl \<Rightarrow> string \<Rightarrow> 'e + (string \<rightharpoonup> 'e option \<times> nat)) \<Rightarrow>
   ('cl, 'h) Consumer \<Rightarrow> string \<Rightarrow> 'h option \<Rightarrow> 'e subscribe_error + ('cl, 'h) Consumer" where
  "subscribe ulow NewClient ListTopics c topicName handler =
    (case co_config c of None \<Rightarrow> Inl NilConfig | Some cfg \<Rightarrow> (let
      lower = ToLower ulow topicName;
      tc = EffectiveTopicConsumerConfig cfg lower;
      groupID = ct_GroupID tc;
      nworkers = intOr (ct_MaxWorkers tc) 1;
      nworkers = (case fetchTopicPartitionCount NewClient ListTopics (c_Brokers cfg) topicName
                        (c_ClientID cfg @ ''-metadata'') of
        Inl e \<Rightarrow> nworkers
      | Inr pc \<Rightarrow> if pc > 0 then int pc + 1 else nworkers)
    in if co_consumerGrps c lower \<noteq> None then Inr c else
      let cg = new_group cfg tc topicName nworkers in
      (case NewClient (buildConsumerOpts cfg tc topicName groupID) of
         Inl e \<Rightarrow> Inl (CreateKafkaClient topicName e)
       | Inr client \<Rightarrow>
         Inr ((chainCancel c lower)
           \<lparr>co_consumerGrps := (co_consumerGrps c)(lower \<mapsto> start_group cg handler client)\<rparr>))))"

definition SubscribeTopic ::
  "(rune \<Rightarrow> rune) \<Rightarrow> ('cert kgo_opt list \<Rightarrow> 'e + 'cl) \<Rightarrow>
   ('cl \<Rightarrow> string \<Rightarrow> 'e + (string \<rightharpoonup> 'e option \<times> nat)) \<Rightarrow>
   ('cl, 'h) Consumer \<Rightarrow> string \<Rightarrow> 'h option \<Rightarrow> 'e subscribe_error + ('cl, 'h) Consumer" where
  "SubscribeTopic = subscribe"

definition SubscribeTopicSharedGroup ::
  "(rune \<Rightarrow> rune) \<Rightarrow> ('cert kgo_opt list \<Rightarrow> 'e + 'cl) \<Rightarrow>
   ('cl \<Rightarrow> string \<Rightarrow> 'e + (string \<rightharpoonup> 'e option \<times> nat)) \<Rightarrow>
   ('cl, 'h) Consumer \<Rightarrow> string \<Rightarrow> 'h option \<Rightarrow> 'e subscribe_error + ('cl, 'h) Consumer" where
  "SubscribeTopicSharedGroup = subscribe"

definition NewConsumerGrp :: "string list \<Rightarrow> string \<Rightarrow> ('cl, 'h) Consumer" where
  "NewConsumerGrp kafkaAddr groupId = \<lparr>co_config = None,
    co_consumerGrps = [''default'' \<mapsto> \<lparr>sub_grp = \<lparr>cg_group = groupId, cg_topic = '''', cg_maxWorkers = 1,
        cg_maxPollRecords = 0, cg_commitBatchSize = 0, cg_commitChanCap = 0, cg_commitMaxRetry = 0,
        cg_commitTimeout = 0, cg_commitBlockWarn = 0, cg_revokeFlushTO = 0, cg_shutdownTO = 0,
        cg_fetchErrBackoff = 0\<rparr>, sub_handler = None, sub_client = None, sub_state = cg_start\<rparr>],
    co_cancels = [''default'']\<rparr>"

definition SetSafeHandler :: "('cl, 'h) subscription \<Rightarrow> 'h option \<Rightarrow> ('cl, 'h) subscription" where
  "SetSafeHandler sub handler = sub\<lparr>sub_handler := handler\<rparr>"

definition SetConsumerGrp :: "('cl, 'h) Consumer \<Rightarrow> 'h option \<Rightarrow> ('cl, 'h) Consumer" where
  "SetConsumerGrp c handler = (case co_consumerGrps c ''default'' of
     Some grp \<Rightarrow> c\<lparr>co_consumerGrps := (co_consumerGrps c)(''default'' \<mapsto> SetSafeHandler grp handler)\<rparr>
   | None \<Rightarrow> c)"

text \<open>\<open>Close\<close> up to its wait: every kept cancel function is called.\<close>

definition cancel_group :: "('cl, 'h) subscription \<Rightarrow> ('cl, 'h) subscription" where
  "cancel_group sub = sub\<lparr>sub_state := (sub_state sub)\<lparr>ctxDone := True\<rparr>\<rparr>"

definition Consumer_Close :: "('cl, 'h) Consumer \<Rightarrow> ('cl, 'h) Consumer" where
  "Consumer_Close c = c\<lparr>co_consumerGrps := foldl
     (\<lambda>grps g. grps(g := map_option cancel_group (grps g))) (co_consumerGrps c) (co_cancels c)\<rparr>"

section \<open>Initialisation\<close>

text \<open>The configuration and the global \<open>KafkaConsumer\<close>; the consumer is returned.\<close>

definition InitConsumer ::
  "('cl, 'h) Consumer option \<Rightarrow> ConsumerConfig \<Rightarrow> ('cl, 'h) Consumer option outcome" where
  "InitConsumer KafkaConsumer k = (case KafkaConsumer of Some c \<Rightarrow> Returned (Some c) | None \<Rightarrow>
     if c_Brokers k \<noteq> [] then
       (case NewConsumer (Some k) of ProcessExit \<Rightarrow> ProcessExit | Returned c \<Rightarrow> Returned (Some c))
     else Returned None)"

definition TopicPlayerBeatTimeLimitUsage :: string where
  "TopicPlayerBeatTimeLimitUsage = ''PLAYER_BEAT_TIMELIMIT_USAGE''"

datatype 'e init_error = ConsumerNotInitialized | SubscribeFailed string "'e subscribe_error"

definition InitTimeUsageConsumer ::
  "(rune \<Rightarrow> rune) \<Rightarrow> ('cert kgo_opt list \<Rightarrow> 'e + 'cl) \<Rightarrow>
   ('cl \<Rightarrow> string \<Rightarrow> 'e + (string \<rightharpoonup> 'e option \<times> nat)) \<Rightarrow>
   ('cl, 'h) Consumer option \<Rightarrow> ConsumerConfig \<Rightarrow> 'h option \<Rightarrow>
   ('e init_error + ('cl, 'h) Consumer) outcome" where
  "InitTimeUsageConsumer ulow NewClient ListTopics KafkaConsumer k handler =
    (case InitConsumer KafkaConsumer k of ProcessExit \<Rightarrow> ProcessExit | Returned r \<Rightarrow> Returned
      (case r of None \<Rightarrow> Inl ConsumerNotInitialized | Some c \<Rightarrow>
        (case SubscribeTopicSharedGroup ulow NewClient ListTopics c TopicPlayerBeatTimeLimitUsage handler of
           Inl e \<Rightarrow> Inl (SubscribeFailed TopicPlayerBeatTimeLimitUsage e) | Inr c' \<Rightarrow> Inr c')))"

section \<open>Well-formed consumers\<close>

text \<open>Every number a group works with is positive.\<close>

definition cg_wf :: "ConsumerGrp \<Rightarrow> bool" where
  "cg_wf cg \<longleftrightarrow> 0 < cg_maxWorkers cg \<and> 0 < cg_maxPollRecords cg \<and> 0 < cg_commitBatchSize cg
    \<and> 0 < cg_commitChanCap cg \<and> 0 < cg_commitMaxRetry cg \<and> 0 < cg_commitTimeout cg
    \<and> 0 < cg_commitBlockWarn cg \<and> 0 < cg_revokeFlushTO cg \<and> 0 < cg_shutdownTO cg
    \<and> 0 < cg_fetchErrBackoff cg"

text \<open>The configured times fit a duration; nothing is asked of their sign.\<close>

definition topic_ms_ok :: "ConsumerTopicConfig \<Rightarrow> bool" where
  "topic_ms_ok tc \<longleftrightarrow> ms_ok (ct_CommitTimeoutMs tc) \<and> ms_ok (ct_CommitBlockWarnMs tc)
    \<and> ms_ok (ct_RevokeFlushTimeoutMs tc) \<and> ms_ok (ct_ShutdownTimeoutMs tc)
    \<and> ms_ok (ct_FetchErrorBackoffMs tc)"

definition config_ms_ok :: "ConsumerConfig \<Rightarrow> bool" where
  "config_ms_ok cfg \<longleftrightarrow> ms_ok (c_CommitTimeoutMs cfg) \<and> ms_ok (c_RevokeFlushTimeoutMs cfg)
    \<and> ms_ok (c_ShutdownTimeoutMs cfg)
    \<and> (\<forall>t ov. c_Topics cfg t = Some (Some ov) \<longrightarrow> topic_ms_ok ov)"

lemma ms_ok_0: "ms_ok 0"
  by (simp add: ms_ok_def)

lemma effective_ms_ok: "config_ms_ok cfg \<Longrightarrow> topic_ms_ok (EffectiveTopicConsumerConfig cfg t)"
  by (auto simp: config_ms_ok_def topic_ms_ok_def EffectiveTopicConsumerConfig_def Let_def intOr_def
      ms_ok_0 split: option.split)

lemma new_group_wf: "0 < nworkers \<Longrightarrow> topic_ms_ok tc \<Longrightarrow> cg_wf (new_group cfg tc topic nworkers)"
  by (simp add: cg_wf_def new_group_def topic_ms_ok_def intOr_pos msToDur_pos MaxPollRecordsOrDefault_def)

text \<open>Every subscription has a well-formed group whose state the group can reach, and its cancel
  function is kept.\<close>

definition consumer_wf :: "('cl, 'h) Consumer \<Rightarrow> bool" where
  "consumer_wf c \<longleftrightarrow> (\<forall>cfg. co_config c = Some cfg \<longrightarrow> config_ms_ok cfg)
    \<and> (\<forall>t sub. co_consumerGrps c t = Some sub \<longrightarrow> cg_wf (sub_grp sub)
        \<and> cg_reach (sub_grp sub) (sub_state sub) \<and> t \<in> set (co_cancels c))"

text \<open>The three outcomes of \<open>subscribe\<close> on a configured consumer.\<close>

definition group_workers ::
  "('cert kgo_opt list \<Rightarrow> 'e + 'cl) \<Rightarrow> ('cl \<Rightarrow> string \<Rightarrow> 'e + (string \<rightharpoonup> 'e option \<times> nat)) \<Rightarrow>
   ConsumerConfig \<Rightarrow> ConsumerTopicConfig \<Rightarrow> string \<Rightarrow> int" where
  "group_workers NewClient ListTopics cfg tc topicName =
    (case fetchTopicPartitionCount NewClient ListTopics (c_Brokers cfg) topicName
            (c_ClientID cfg @ ''-metadata'') of
       Inl e \<Rightarrow> intOr (ct_MaxWorkers tc) 1 | Inr pc \<Rightarrow> int pc + 1)"

lemma fetchTopicPartitionCount_pos:
  "fetchTopicPartitionCount nc lt brokers topic cid = Inr pc \<Longrightarrow> 0 < pc"
  by (auto simp: fetchTopicPartitionCount_def split: sum.splits option.splits prod.splits if_splits)

lemma subscribe_eq:
  assumes "co_config c = Some cfg"
  shows "subscribe ulow nc lt c topic h = (let
      t = ToLower ulow topic; tc = EffectiveTopicConsumerConfig cfg t
    in if co_consumerGrps c t \<noteq> None then Inr c else
       case nc (buildConsumerOpts cfg tc topic (ct_GroupID tc)) of
         Inl e \<Rightarrow> Inl (CreateKafkaClient topic e)
       | Inr client \<Rightarrow> Inr (c\<lparr>co_cancels := co_cancels c @ [t], co_consumerGrps :=
           (co_consumerGrps c)(t \<mapsto> start_group
             (new_group cfg tc topic (group_workers nc lt cfg tc topic)) h client)\<rparr>))"
  using assms fetchTopicPartitionCount_pos [of nc lt]
  by (auto simp: subscribe_def Let_def chainCancel_def group_workers_def split: sum.split)

lemma group_workers_pos: "0 < group_workers nc lt cfg tc topic"
  by (auto simp: group_workers_def intOr_pos split: sum.split)

text \<open>Subscribing keeps the consumer well-formed: whatever the configuration holds (zero and negative
  numbers included, only times beyond the range of a duration excepted) and whatever the cluster
  answers, every group is built with at least one worker, a positive batch size, channel capacity
  and retry bound, and positive time-outs; it is started in the initial state of its state machine
  and can be cancelled.\<close>

theorem subscribe_wf:
  assumes "consumer_wf c" "subscribe ulow NewClient ListTopics c topic handler = Inr c'"
  shows "consumer_wf c'"
proof -
  obtain cfg where cfg: "co_config c = Some cfg"
    using assms(2) by (auto simp: subscribe_def split: option.splits)
  let ?t = "ToLower ulow topic"
  let ?tc = "EffectiveTopicConsumerConfig cfg ?t"
  let ?g = "new_group cfg ?tc topic (group_workers NewClient ListTopics cfg ?tc topic)"
  have g: "cg_wf ?g"
    using assms(1) cfg by (intro new_group_wf group_workers_pos effective_ms_ok) (simp add: consumer_wf_def)
  consider "c' = c" | client where "c' = c\<lparr>co_cancels := co_cancels c @ [?t],
      co_consumerGrps := (co_consumerGrps c)(?t \<mapsto> start_group ?g handler client)\<rparr>"
    using assms(2) unfolding subscribe_eq [OF cfg] by (auto simp: Let_def split: if_splits sum.splits)
  then show ?thesis
    using assms(1) g by cases (auto simp: consumer_wf_def start_group_def)
qed

definition demo_consumer_config :: ConsumerConfig where
  "demo_consumer_config = \<lparr>c_Topics = Map.empty, c_ClientID = ''c'', c_GroupID = ''g'',
    c_AutoOffsetReset = ''oldest'', c_Brokers = [''b''], c_DefaultTopics = [], c_MaxPollRecords = - 1,
    c_FetchMaxBytes = 0, c_FetchMaxPartitionBytes = 0, c_FetchMinBytes = 0, c_FetchMaxWaitMs = 0,
    c_SessionTimeoutMs = 0, c_HeartbeatIntervalMs = 0, c_RebalanceTimeoutMs = 0,
    c_CommitTimeoutMs = - 5, c_ShutdownTimeoutMs = 2000, c_RevokeFlushTimeoutMs = 0, c_MaxWorkers = 32\<rparr>"

definition demo_consumer :: "(unit, unit) Consumer" where
  "demo_consumer = \<lparr>co_config = Some demo_consumer_config, co_consumerGrps = Map.empty, co_cancels = []\<rparr>"

abbreviation demo_subscribe :: "(unit, unit) Consumer \<Rightarrow> unit subscribe_error + (unit, unit) Consumer" where
  "demo_subscribe c \<equiv> subscribe id (\<lambda>opts :: unit kgo_opt list. Inr ()) (\<lambda>cl t. Inr [t \<mapsto> (None, 3)]) c
     TopicPlayerBeatTimeLimitUsage (Some ())"

lemma demo_consumer_wf: "consumer_wf demo_consumer"
  by (simp add: consumer_wf_def demo_consumer_def config_ms_ok_def demo_consumer_config_def ms_ok_def)

lemma demo_consumer_config: "co_config demo_consumer = Some demo_consumer_config"
  by (simp add: demo_consumer_def)

lemma demo_subscribe_ok: "\<exists>c'. demo_subscribe demo_consumer = Inr c' \<and> co_consumerGrps c' \<noteq> Map.empty"
  unfolding subscribe_eq [OF demo_consumer_config] by (simp add: Let_def demo_consumer_def)

theorem subscribe_wf_witness: "\<exists>c'. demo_subscribe demo_consumer = Inr c' \<and> consumer_wf c'"
  using demo_subscribe_ok subscribe_wf [OF demo_consumer_wf, of id "\<lambda>opts :: unit kgo_opt list. Inr ()"]
  by blast

text \<open>Which end of a partition a new group starts from: the topic's setting if there is one, else the
  global one, decides, and only the two words for the beginning select the beginning.\<close>

lemma effective_offset:
  "offsetResetToKgo (ct_AutoOffsetReset (EffectiveTopicConsumerConfig cfg t)) = AtStart \<longleftrightarrow>
    (case c_Topics cfg t of
       Some (Some ov) \<Rightarrow> strOr (ct_AutoOffsetReset ov) (c_AutoOffsetReset cfg) | _ \<Rightarrow> c_AutoOffsetReset cfg)
      \<in> {''oldest'', ''earliest''}"
  by (auto simp: EffectiveTopicConsumerConfig_def Let_def strOr_def offsetReset_start
      simp del: insert_iff split: option.split)

text \<open>Subscribing a topic twice changes nothing.\<close>

lemma subscribe_twice:
  assumes "subscribe ulow nc lt c topic h = Inr c'"
  shows "subscribe ulow nc' lt' c' topic h' = Inr c'"
proof -
  obtain cfg where cfg: "co_config c = Some cfg"
    using assms by (auto simp: subscribe_def split: option.splits)
  then have "co_consumerGrps c' (ToLower ulow topic) \<noteq> None \<and> co_config c' = Some cfg"
    using assms unfolding subscribe_eq [OF cfg] by (auto simp: Let_def split: if_splits sum.splits)
  then show ?thesis by (auto simp: subscribe_eq [of c' cfg] Let_def)
qed

section \<open>Closing\<close>

lemma foldl_cancel:
  "foldl (\<lambda>grps g. grps(g := map_option f (grps g))) m gs t =
    map_option (f ^^ length (filter (\<lambda>g. g = t) gs)) (m t)"
  by (induction gs arbitrary: m) (auto simp: option.map_comp comp_def funpow_swap1 option.map_id)

lemma cancel_group_idem [simp]: "cancel_group (cancel_group s) = cancel_group s"
  by (simp add: cancel_group_def)

lemma cancel_funpow: "0 < n \<Longrightarrow> (cancel_group ^^ n) s = cancel_group s"
proof (induction n)
  case (Suc n)
  then show ?case by (cases n) auto
qed simp

lemma Close_cancels:
  assumes "consumer_wf c"
  shows "co_consumerGrps (Consumer_Close c) t = map_option cancel_group (co_consumerGrps c t)"
proof (cases "co_consumerGrps c t")
  case (Some sub)
  then have "t \<in> set (co_cancels c)" using assms by (simp add: consumer_wf_def)
  then have "0 < length (filter (\<lambda>g. g = t) (co_cancels c))" by (auto simp: filter_empty_conv)
  then show ?thesis using Some by (simp add: Consumer_Close_def foldl_cancel cancel_funpow)
qed (simp add: Consumer_Close_def foldl_cancel)

lemma cancel_reach:
  assumes "cg_reach cg s"
  shows "cg_reach cg (s\<lparr>ctxDone := True\<rparr>)"
proof (cases "ctxDone s")
  case True
  then have "s\<lparr>ctxDone := True\<rparr> = s" by (cases s) simp
  then show ?thesis using assms by simp
next
  case False
  then show ?thesis using assms g_cancel rtranclp.rtrancl_into_rtrancl [of "cg_step cg"] by blast
qed

text \<open>C20: Closing a well-formed consumer stops every group: each subscription is cancelled, and from the
  state it was in, whatever the order of its goroutines and provided handlers and commit calls
  return, the group has no infinite run and comes to rest only with the poll loop returned, every
  worker gone, and the commit worker exited with an empty channel.\<close>

theorem Close_stops_groups:
  assumes "consumer_wf c" "co_consumerGrps c t = Some sub"
  shows "\<exists>sub'. co_consumerGrps (Consumer_Close c) t = Some sub' \<and> sub_grp sub' = sub_grp sub
    \<and> sub_state sub' = (sub_state sub)\<lparr>ctxDone := True\<rparr>
    \<and> (\<nexists>f. f 0 = sub_state sub' \<and> (\<forall>i. cg_step (sub_grp sub) (f i) (f (Suc i))))
    \<and> (\<forall>s. (cg_step (sub_grp sub))\<^sup>*\<^sup>* (sub_state sub') s \<and> (\<nexists>s'. cg_step (sub_grp sub) s s')
        \<longrightarrow> cg_finished s)"
proof -
  let ?s = "(sub_state sub)\<lparr>ctxDone := True\<rparr>"
  have "cg_reach (sub_grp sub) ?s" "0 < cg_maxWorkers (sub_grp sub)"
    using assms by (auto simp: consumer_wf_def cg_wf_def intro: cancel_reach)
  then have "(\<nexists>f. f 0 = ?s \<and> (\<forall>i. cg_step (sub_grp sub) (f i) (f (Suc i))))
    \<and> (\<forall>s. (cg_step (sub_grp sub))\<^sup>*\<^sup>* ?s s \<and> (\<nexists>s'. cg_step (sub_grp sub) s s') \<longrightarrow> cg_finished s)"
    by (intro cancelled_terminates) simp_all
  then show ?thesis
    using assms(2) by (simp add: Close_cancels [OF assms(1)] cancel_group_def)
qed

theorem Close_stops_groups_witness:
  "\<exists>c t sub. demo_subscribe demo_consumer = Inr c \<and> co_consumerGrps (Consumer_Close c) t = Some sub
    \<and> ctxDone (sub_state sub)"
proof -
  obtain c where c: "demo_subscribe demo_consumer = Inr c" "co_consumerGrps c \<noteq> Map.empty"
    using demo_subscribe_ok by blast
  then obtain t sub where "co_consumerGrps c t = Some sub" by (meson not_None_eq ext)
  moreover have "consumer_wf c"
    using c(1) demo_consumer_wf unfolding subscribe_eq [OF demo_consumer_config]
    by (auto simp: consumer_wf_def Let_def start_group_def demo_consumer_def
        intro!: new_group_wf group_workers_pos effective_ms_ok split: if_splits)
  ultimately show ?thesis
    using Close_stops_groups [of c t sub] c(1) by fastforce
qed

end
