(* ===== verification/Http_Clients.thy ===== *)
theory Http_Clients
  imports Kafka_Config
begin

text \<open>
  The clients of the neighbouring services, \<^verbatim>\<open>internal/client/{uss,mcs,wps}\<close>: one attempt of a
  request, the retry loop around it, the operations built on it, and the error types the callers
  are given. The network is an argument (\<open>http_env\<close>): whether a request can be built, what the
  transport answers at each attempt, and whether the caller's context ends a wait. Decoding of the
  JSON bodies is an argument too. Go errors are trees (\<open>go_error\<close>), because \<^verbatim>\<open>%w\<close> wraps and a type
  switch looks only at the outermost value.
\<close>

section \<open>Errors, requests, responses\<close>

datatype 'e go_error =
    HTTPError string int
  | LibError 'e
  | TextError string
  | WrapError string "'e go_error" string

text \<open>An error wrapped by \<^verbatim>\<open>fmt.Errorf\<close> with the text before it and behind it.\<close>

abbreviation wrapf :: "string \<Rightarrow> 'e go_error \<Rightarrow> 'e go_error" where
  "wrapf msg e \<equiv> WrapError msg e []"

record http_request =
  rq_Method :: string
  rq_URL :: string
  rq_Header :: "(string \<times> string) list"
  rq_Body :: string

text \<open>A response body is the bytes that can be read and the error, if any, that follows them.\<close>

record 'e http_response =
  rs_StatusCode :: int
  rs_data :: string
  rs_err :: "'e option"

record 'e http_env =
  he_NewRequest :: "string \<Rightarrow> 'e option"
  he_Do :: "nat \<Rightarrow> http_request \<Rightarrow> 'e + 'e http_response"
  he_Done :: "nat \<Rightarrow> 'e option"

definition maxResponseSize :: nat where
  "maxResponseSize = 1024 * 100"

definition StatusOK :: int where
  "StatusOK = 200"

text \<open>\<open>io.ReadAll(io.LimitReader(body, n))\<close>.\<close>

definition ReadLimited :: "nat \<Rightarrow> 'e http_response \<Rightarrow> 'e + string" where
  "ReadLimited n resp = (if n \<le> length (rs_data resp) then Inr (take n (rs_data resp))
     else case rs_err resp of Some e \<Rightarrow> Inl e | None \<Rightarrow> Inr (rs_data resp))"

definition uss_readBody :: "'e http_response \<Rightarrow> 'e go_error + string" where
  "uss_readBody resp =
    (if rs_StatusCode resp \<noteq> StatusOK
     then Inl (TextError (''unexpected status code: '' @ Itoa (rs_StatusCode resp)))
     else case ReadLimited maxResponseSize resp of
       Inl e \<Rightarrow> Inl (wrapf ''failed to read response body: '' (LibError e))
     | Inr data \<Rightarrow> Inr data)"

definition wps_readBody :: "'e http_response \<Rightarrow> 'e go_error + string" where
  "wps_readBody resp =
    (if rs_StatusCode resp \<noteq> StatusOK
     then Inl (HTTPError (''unexpected status code: '' @ Itoa (rs_StatusCode resp)) (rs_StatusCode resp))
     else case ReadLimited maxResponseSize resp of
       Inl e \<Rightarrow> Inl (wrapf ''failed to read response body: '' (LibError e))
     | Inr data \<Rightarrow> Inr data)"

text \<open>The snippet of at most 512 bytes is kept also when reading it fails.\<close>

definition mcs_readBody :: "'e http_response \<Rightarrow> 'e go_error + string" where
  "mcs_readBody resp =
    (if rs_StatusCode resp \<noteq> StatusOK
     then Inl (TextError (''status '' @ Itoa (rs_StatusCode resp) @ '': '' @
       TrimSpace (take 512 (rs_data resp))))
     else case ReadLimited maxResponseSize resp of
       Inl e \<Rightarrow> Inl (wrapf ''read body failed: '' (LibError e))
     | Inr data \<Rightarrow> Inr data)"

section \<open>One attempt\<close>

definition doGet :: "'e http_env \<Rightarrow> nat \<Rightarrow> string \<Rightarrow> 'e go_error + string" where
  "doGet env n rawURL = (case he_NewRequest env rawURL of
     Some e \<Rightarrow> Inl (wrapf ''failed to build request: '' (LibError e))
   | None \<Rightarrow> (case he_Do env n \<lparr>rq_Method = ''GET'', rq_URL = rawURL,
        rq_Header = [(''Accept'', ''application/json'')], rq_Body = ''''\<rparr> of
       Inl e \<Rightarrow> Inl (wrapf ''request failed: '' (LibError e))
     | Inr resp \<Rightarrow> uss_readBody resp))"

definition doPutBytes :: "'e http_env \<Rightarrow> nat \<Rightarrow> string \<Rightarrow> string \<Rightarrow> 'e go_error + string" where
  "doPutBytes env n rawURL body = (case he_NewRequest env rawURL of
     Some e \<Rightarrow> Inl (wrapf ''failed to build request: '' (LibError e))
   | None \<Rightarrow> (case he_Do env n \<lparr>rq_Method = ''PUT'', rq_URL = rawURL,
        rq_Header = [(''Content-Type'', ''application/json''), (''Accept'', ''application/json'')],
        rq_Body = body\<rparr> of
       Inl e \<Rightarrow> Inl (wrapf ''request failed: '' (LibError e))
     | Inr resp \<Rightarrow> uss_readBody resp))"

definition wps_doGet ::
  "'e http_env \<Rightarrow> nat \<Rightarrow> string \<Rightarrow> (string \<times> string) list \<Rightarrow> 'e go_error + string" where
  "wps_doGet env n rawURL headers = (case he_NewRequest env rawURL of
     Some e \<Rightarrow> Inl (wrapf ''failed to build request: '' (LibError e))
   | None \<Rightarrow> (case he_Do env n \<lparr>rq_Method = ''GET'', rq_URL = rawURL,
        rq_Header = (''Accept'', ''application/json'') # headers, rq_Body = ''''\<rparr> of
       Inl e \<Rightarrow> Inl (wrapf ''request failed: '' (LibError e))
     | Inr resp \<Rightarrow> wps_readBody resp))"

definition execute :: "'e http_env \<Rightarrow> nat \<Rightarrow> http_request \<Rightarrow> 'e go_error + string" where
  "execute env n req = (case he_Do env n req of
     Inl e \<Rightarrow> Inl (wrapf ''http do failed: '' (LibError e)) | Inr resp \<Rightarrow> mcs_readBody resp)"

section \<open>The retry loop\<close>

text \<open>\<open>lastErr\<close> wrapped, or nothing to wrap if there was no attempt.\<close>

definition all_failed :: "int \<Rightarrow> 'e go_error option \<Rightarrow> 'e go_error" where
  "all_failed maxRetries lastErr = (let msg = ''all '' @ Itoa maxRetries @ '' attempts failed: '' in
     case lastErr of Some e \<Rightarrow> wrapf msg e | None \<Rightarrow> TextError (msg @ ''%!w(<nil>)''))"

function retry_loop ::
  "string \<Rightarrow> int \<Rightarrow> (nat \<Rightarrow> 'e option) \<Rightarrow> (nat \<Rightarrow> 'e go_error + string) \<Rightarrow> nat \<Rightarrow> 'e go_error option \<Rightarrow>
   nat \<times> ('e go_error + string)" where
  "retry_loop cancelMsg maxRetries Done fn attempt lastErr =
    (if int attempt > maxRetries then (attempt - 1, Inl (all_failed maxRetries lastErr)) else
     case fn attempt of
       Inr body \<Rightarrow> (attempt, Inr body)
     | Inl err \<Rightarrow>
         if int attempt < maxRetries then
           (case Done attempt of
              Some e \<Rightarrow> (attempt, Inl (wrapf cancelMsg (LibError e)))
            | None \<Rightarrow> retry_loop cancelMsg maxRetries Done fn (Suc attempt) (Some err))
         else retry_loop cancelMsg maxRetries Done fn (Suc attempt) (Some err))"
  by pat_completeness auto
termination
  by (relation "measure (\<lambda>(cancelMsg, maxRetries, Done, fn, attempt, lastErr). nat (maxRetries + 1 - int attempt))") auto

declare retry_loop.simps [simp del]

text \<open>The result with the number of attempts made.\<close>

definition doWithRetry ::
  "int \<Rightarrow> 'e http_env \<Rightarrow> (nat \<Rightarrow> 'e go_error + string) \<Rightarrow> nat \<times> ('e go_error + string)" where
  "doWithRetry maxRetries env fn =
    retry_loop ''context cancelled, aborting retries: '' maxRetries (he_Done env) fn 1 None"

text \<open>The wps client has a copy of the loop.\<close>

definition wps_doWithRetry ::
  "int \<Rightarrow> 'e http_env \<Rightarrow> (nat \<Rightarrow> 'e go_error + string) \<Rightarrow> nat \<times> ('e go_error + string)" where
  "wps_doWithRetry maxRetries env fn =
    retry_loop ''context cancelled, aborting retries: '' maxRetries (he_Done env) fn 1 None"

lemma wps_doWithRetry [simp]: "wps_doWithRetry = doWithRetry"
  by (simp add: fun_eq_iff wps_doWithRetry_def doWithRetry_def)

text \<open>The loop of the mcs client builds the request anew for each attempt and gives up at once if
  that fails.\<close>

function mcs_retry_loop ::
  "int \<Rightarrow> 'e http_env \<Rightarrow> (nat \<Rightarrow> 'e + http_request) \<Rightarrow> nat \<Rightarrow> 'e go_error option \<Rightarrow>
   nat \<times> ('e go_error + string)" where
  "mcs_retry_loop maxRetries env build attempt lastErr =
    (if int attempt > maxRetries then (attempt - 1, Inl (all_failed maxRetries lastErr)) else
     case build attempt of
       Inl e \<Rightarrow> (attempt, Inl (wrapf ''build request failed: '' (LibError e)))
     | Inr req \<Rightarrow>
       (case execute env attempt req of
          Inr body \<Rightarrow> (attempt, Inr body)
        | Inl err \<Rightarrow>
          if int attempt < maxRetries then
            (case he_Done env attempt of
               Some e \<Rightarrow> (attempt, Inl (wrapf ''context cancelled during retry: '' (LibError e)))
             | None \<Rightarrow> mcs_retry_loop maxRetries env build (Suc attempt) (Some err))
          else mcs_retry_loop maxRetries env build (Suc attempt) (Some err)))"
  by pat_completeness auto
termination
  by (relation "measure (\<lambda>(maxRetries, env, build, attempt, lastErr). nat (maxRetries + 1 - int attempt))") auto

declare mcs_retry_loop.simps [simp del]

definition mcs_doWithRetry ::
  "int \<Rightarrow> 'e http_env \<Rightarrow> (nat \<Rightarrow> 'e + http_request) \<Rightarrow> nat \<times> ('e go_error + string)" where
  "mcs_doWithRetry maxRetries env build = mcs_retry_loop maxRetries env build 1 None"

section \<open>Clients\<close>

record http_Transport =
  tr_MaxIdleConns :: int
  tr_MaxConnsPerHost :: int
  tr_MaxIdleConnsPerHost :: int
  tr_IdleConnTimeout :: int
  tr_TLSHandshakeTimeout :: int
  tr_DisableKeepAlives :: bool
  tr_DisableCompression :: bool
  tr_ExpectContinueTimeout :: int
  tr_ReadBufferSize :: int
  tr_WriteBufferSize :: int
  tr_ForceAttemptHTTP2 :: bool

record Client =
  cl_httpClient :: http_Transport
  cl_baseURL :: string
  cl_basePath :: string
  cl_maxRetries :: int
  cl_retryDelay :: int
  cl_singleReqTimeout :: int

definition DefaultTLSHandshakeTimeout :: int where
  "DefaultTLSHandshakeTimeout = 5 * Second"

definition DefaultRetryDelay :: int where
  "DefaultRetryDelay = 700 * Millisecond"

definition DefaultSingleReqTimeout :: int where
  "DefaultSingleReqTimeout = 5 * Second"

text \<open>Each package has one client: the arguments of later calls are ignored.\<close>

definition uss_NewClient :: "Client option \<Rightarrow> string \<Rightarrow> string \<Rightarrow> Client" where
  "uss_NewClient globalClient host basePath = (case globalClient of Some c \<Rightarrow> c | None \<Rightarrow>
     \<lparr>cl_httpClient = \<lparr>tr_MaxIdleConns = 50, tr_MaxConnsPerHost = 100, tr_MaxIdleConnsPerHost = 30,
        tr_IdleConnTimeout = 30 * Second, tr_TLSHandshakeTimeout = DefaultTLSHandshakeTimeout,
        tr_DisableKeepAlives = False, tr_DisableCompression = False, tr_ExpectContinueTimeout = Second,
        tr_ReadBufferSize = 16 * 1024, tr_WriteBufferSize = 16 * 1024, tr_ForceAttemptHTTP2 = True\<rparr>,
      cl_baseURL = host, cl_basePath = basePath, cl_maxRetries = 3,
      cl_retryDelay = DefaultRetryDelay, cl_singleReqTimeout = DefaultSingleReqTimeout\<rparr>)"

definition wps_NewClient :: "Client option \<Rightarrow> string \<Rightarrow> string \<Rightarrow> Client" where
  "wps_NewClient globalClient host basePath = (case globalClient of Some c \<Rightarrow> c | None \<Rightarrow>
     \<lparr>cl_httpClient = \<lparr>tr_MaxIdleConns = 50, tr_MaxConnsPerHost = 100, tr_MaxIdleConnsPerHost = 30,
        tr_IdleConnTimeout = 30 * Second, tr_TLSHandshakeTimeout = DefaultTLSHandshakeTimeout,
        tr_DisableKeepAlives = True, tr_DisableCompression = True, tr_ExpectContinueTimeout = Second,
        tr_ReadBufferSize = 32 * 1024, tr_WriteBufferSize = 16 * 1024, tr_ForceAttemptHTTP2 = True\<rparr>,
      cl_baseURL = host, cl_basePath = basePath, cl_maxRetries = 3,
      cl_retryDelay = DefaultRetryDelay, cl_singleReqTimeout = DefaultSingleReqTimeout\<rparr>)"

definition mcs_NewClient :: "Client option \<Rightarrow> string \<Rightarrow> string \<Rightarrow> Client" where
  "mcs_NewClient globalClient host basePath = (case globalClient of Some c \<Rightarrow> c | None \<Rightarrow>
     \<lparr>cl_httpClient = \<lparr>tr_MaxIdleConns = 50, tr_MaxConnsPerHost = 100, tr_MaxIdleConnsPerHost = 30,
        tr_IdleConnTimeout = 30 * Second, tr_TLSHandshakeTimeout = DefaultTLSHandshakeTimeout,
        tr_DisableKeepAlives = True, tr_DisableCompression = True, tr_ExpectContinueTimeout = Second,
        tr_ReadBufferSize = 32 * 1024, tr_WriteBufferSize = 16 * 1024, tr_ForceAttemptHTTP2 = True\<rparr>,
      cl_baseURL = host, cl_basePath = basePath, cl_maxRetries = 3,
      cl_retryDelay = DefaultRetryDelay, cl_singleReqTimeout = DefaultSingleReqTimeout\<rparr>)"

definition doGetWithRetry :: "Client \<Rightarrow> 'e http_env \<Rightarrow> string \<Rightarrow> nat \<times> ('e go_error + string)" where
  "doGetWithRetry c env rawURL = doWithRetry (cl_maxRetries c) env (\<lambda>n. doGet env n rawURL)"

text \<open>The payload is marshalled once, before the loop.\<close>

definition doPutWithRetry ::
  "Client \<Rightarrow> 'e http_env \<Rightarrow> string \<Rightarrow> 'e + string \<Rightarrow> nat \<times> ('e go_error + string)" where
  "doPutWithRetry c env rawURL payload = (case payload of
     Inl e \<Rightarrow> (0, Inl (wrapf ''failed to marshal payload: '' (LibError e)))
   | Inr b \<Rightarrow> doWithRetry (cl_maxRetries c) env (\<lambda>n. doPutBytes env n rawURL b))"

definition wps_doGetWithRetry ::
  "Client \<Rightarrow> 'e http_env \<Rightarrow> string \<Rightarrow> (string \<times> string) list \<Rightarrow> nat \<times> ('e go_error + string)" where
  "wps_doGetWithRetry c env rawURL headers =
    wps_doWithRetry (cl_maxRetries c) env (\<lambda>n. wps_doGet env n rawURL headers)"

subsection \<open>Query strings\<close>

definition query_unreserved :: "char \<Rightarrow> bool" where
  "query_unreserved c \<longleftrightarrow> (let b = of_char c :: nat in
     97 \<le> b \<and> b \<le> 122 \<or> 65 \<le> b \<and> b \<le> 90 \<or> 48 \<le> b \<and> b \<le> 57 \<or> c \<in> {CHR ''-'', CHR ''_'', CHR ''.'', CHR ''~''})"

definition upperhex :: "nat \<Rightarrow> char" where
  "upperhex d = (if d < 10 then char_of (48 + d) else char_of (55 + d))"

definition escape_byte :: "char \<Rightarrow> string" where
  "escape_byte c = (if query_unreserved c then [c] else if c = CHR '' '' then ''+''
     else [CHR ''%'', upperhex (of_char c div 16), upperhex (of_char c mod 16)])"

definition QueryEscape :: "string \<Rightarrow> string" where
  "QueryEscape s = concat (map escape_byte s)"

subsection \<open>Operations\<close>

text \<open>The failure of decoding a body, with the body.\<close>

definition deserialization_failed :: "'e \<Rightarrow> string \<Rightarrow> 'e go_error" where
  "deserialization_failed e body =
    WrapError ''deserialization failed: '' (LibError e) ('', raw response: '' @ body)"

definition customer_url :: "Client \<Rightarrow> string \<Rightarrow> bool \<Rightarrow> string" where
  "customer_url c customerName force =
    cl_baseURL c @ ''/'' @ cl_basePath c @ ''customer?customerName='' @ customerName @ ''&force=''
      @ (if force then ''true'' else ''false'')"

definition GetCustomer ::
  "(string \<Rightarrow> 'e + 'info) \<Rightarrow> Client \<Rightarrow> 'e http_env \<Rightarrow> string \<Rightarrow> bool \<Rightarrow> 'e go_error + 'info" where
  "GetCustomer Unmarshal c env customerName force =
    (case snd (doGetWithRetry c env (customer_url c customerName force)) of
      Inl err \<Rightarrow> Inl (wrapf ''USSClient request failed: '' err)
    | Inr body \<Rightarrow> (case Unmarshal body of
        Inl e \<Rightarrow> Inl (deserialization_failed e body) | Inr result \<Rightarrow> Inr result))"

definition GeneratePasswordResetToken ::
  "(string \<Rightarrow> string \<Rightarrow> 'e + string) \<Rightarrow> (string \<Rightarrow> 'e + 'resp) \<Rightarrow> Client \<Rightarrow> 'e http_env \<Rightarrow>
   string \<Rightarrow> string \<Rightarrow> 'e go_error + 'resp" where
  "GeneratePasswordResetToken Marshal Unmarshal c env customerName merchantCode =
    (case snd (doPutWithRetry c env
        (cl_baseURL c @ ''/'' @ cl_basePath c @ ''password/reset-generate'') (Marshal customerName merchantCode)) of
      Inl err \<Rightarrow> Inl (wrapf ''GeneratePasswordResetToken request failed: '' err)
    | Inr body \<Rightarrow> (case Unmarshal body of
        Inl e \<Rightarrow> Inl (deserialization_failed e body) | Inr result \<Rightarrow> Inr result))"

record CustomerProfileConditionResp =
  cp_Total :: int
  cp_TotalPages :: int
  cp_Success :: bool

definition player_count_url :: "Client \<Rightarrow> string \<Rightarrow> string" where
  "player_count_url c merchantCode =
    cl_baseURL c @ ''/'' @ cl_basePath c @ ''customer/profile/condition/plain?merchantCode=''
      @ QueryEscape merchantCode @ ''&page=1&size=1&pageable=true''"

definition GetRegisteredPlayerCount ::
  "(string \<Rightarrow> 'e + CustomerProfileConditionResp) \<Rightarrow> Client \<Rightarrow> 'e http_env \<Rightarrow> string \<Rightarrow>
   'e go_error + int" where
  "GetRegisteredPlayerCount Unmarshal c env merchantCode =
    (case snd (doGetWithRetry c env (player_count_url c merchantCode)) of
      Inl err \<Rightarrow> Inl (wrapf ''USSClient GetRegisteredPlayerCount request failed: '' err)
    | Inr body \<Rightarrow> (case Unmarshal body of
        Inl e \<Rightarrow> Inl (deserialization_failed e body)
      | Inr result \<Rightarrow> if \<not> cp_Success result
          then Inl (TextError (''USSClient GetRegisteredPlayerCount business failed for merchant '' @ merchantCode))
          else Inr (cp_Total result)))"

text \<open>Of a customer's record the next operation reads the registration date (a null date is a zero
  time) and the merchant code.\<close>

record 'time CustomerInfo =
  ci_RegDate :: 'time
  ci_MerchantCode :: string
  ci_Success :: bool

definition GetCustomerByID ::
  "(string \<Rightarrow> 'e + 'time CustomerInfo) \<Rightarrow> Client \<Rightarrow> 'e http_env \<Rightarrow> int \<Rightarrow>
   'e go_error + 'time \<times> string" where
  "GetCustomerByID Unmarshal c env customerID = (let
      rawURL = cl_baseURL c @ ''/'' @ cl_basePath c @ ''customer?customerId='' @ Itoa customerID @ ''&force=false''
    in case snd (doGetWithRetry c env rawURL) of
      Inl err \<Rightarrow> Inl (wrapf ''USSClient GetCustomerByID request failed: '' err)
    | Inr body \<Rightarrow> (case Unmarshal body of
        Inl e \<Rightarrow> Inl (deserialization_failed e body)
      | Inr result \<Rightarrow> if \<not> ci_Success result
          then Inl (TextError (''USSClient GetCustomerByID business failed for customerID='' @ Itoa customerID))
          else Inr (ci_RegDate result, ci_MerchantCode result)))"

definition GetCustomerPersonalInfo ::
  "(string \<Rightarrow> 'e + 'value \<times> bool) \<Rightarrow> Client \<Rightarrow> 'e http_env \<Rightarrow> int \<Rightarrow> 'e go_error + 'value" where
  "GetCustomerPersonalInfo Unmarshal c env customerID = (let
      url = cl_baseURL c @ ''/'' @ cl_basePath c @ ''customer/personal-info?customerId='' @ Itoa customerID
    in case snd (doGetWithRetry c env url) of
      Inl err \<Rightarrow> Inl (wrapf ''USSClient request failed: '' err)
    | Inr body \<Rightarrow> (case Unmarshal body of
        Inl e \<Rightarrow> Inl (deserialization_failed e body) | Inr result \<Rightarrow> Inr (fst result)))"

definition GetResetPasswordStatus ::
  "(string \<Rightarrow> 'e + 'status) \<Rightarrow> Client \<Rightarrow> 'e http_env \<Rightarrow> string \<Rightarrow> 'e go_error + 'status" where
  "GetResetPasswordStatus Unmarshal c env merchantCode =
    (case snd (wps_doGetWithRetry c env
        (cl_baseURL c @ ''/'' @ cl_basePath c @ ''members/reset-password-status'') [(''Merchant'', merchantCode)]) of
      Inl err \<Rightarrow> Inl (wrapf ''GetResetPasswordStatus request failed: '' err)
    | Inr body \<Rightarrow> (case Unmarshal body of
        Inl e \<Rightarrow> Inl (deserialization_failed e body) | Inr result \<Rightarrow> Inr result))"

record PlayerHeaders =
  ph_CustomerID :: string
  ph_CustomerName :: string
  ph_Merchant :: string
  ph_CustomerIP :: string

definition player_headers :: "PlayerHeaders \<Rightarrow> (string \<times> string) list" where
  "player_headers p = [(''Content-Type'', ''application/json''), (''Accept'', ''application/json''),
    (''CustomerId'', ph_CustomerID p), (''CustomerName'', ph_CustomerName p),
    (''Merchant'', ph_Merchant p), (''CustomerIP'', ph_CustomerIP p)]"

definition playerPost ::
  "Client \<Rightarrow> 'e http_env \<Rightarrow> PlayerHeaders \<Rightarrow> string \<Rightarrow> string \<Rightarrow> nat \<times> ('e go_error + string)" where
  "playerPost c env headers rawURL bodyBytes = mcs_doWithRetry (cl_maxRetries c) env (\<lambda>n.
     case he_NewRequest env rawURL of
       Some e \<Rightarrow> Inl e
     | None \<Rightarrow> Inr \<lparr>rq_Method = ''POST'', rq_URL = rawURL, rq_Header = player_headers headers,
         rq_Body = bodyBytes\<rparr>)"

record GetRegisterIPResp =
  ri_Message :: string
  ri_ErrorCode :: string
  ri_RegisterIP :: string
  ri_Success :: bool

text \<open>Every failure is the empty address.\<close>

definition GetRegisterIP ::
  "(string \<Rightarrow> 'e + GetRegisterIPResp) \<Rightarrow> Client \<Rightarrow> 'e http_env \<Rightarrow> int \<Rightarrow> string" where
  "GetRegisterIP Unmarshal c env customerID = (let
      rawURL = cl_baseURL c @ ''/'' @ cl_basePath c @ ''register/getRegisterIp?customerId='' @ Itoa customerID
    in case snd (mcs_doWithRetry (cl_maxRetries c) env (\<lambda>n. case he_NewRequest env rawURL of
          Some e \<Rightarrow> Inl e
        | None \<Rightarrow> Inr \<lparr>rq_Method = ''GET'', rq_URL = rawURL,
            rq_Header = [(''Accept'', ''application/json'')], rq_Body = ''''\<rparr>)) of
      Inl err \<Rightarrow> ''''
    | Inr respBody \<Rightarrow> (case Unmarshal respBody of
        Inl e \<Rightarrow> '''' | Inr result \<Rightarrow> if \<not> ri_Success result then '''' else ri_RegisterIP result))"

definition VerifyPlayerInfo ::
  "('req \<Rightarrow> 'e + string) \<Rightarrow> (string \<Rightarrow> 'e + 'resp) \<Rightarrow> Client \<Rightarrow> 'e http_env \<Rightarrow> PlayerHeaders \<Rightarrow> 'req \<Rightarrow>
   'e go_error + 'resp" where
  "VerifyPlayerInfo Marshal Unmarshal c env headers request = (case Marshal request of
     Inl e \<Rightarrow> Inl (wrapf ''verifyPlayerInfo: marshal failed: '' (LibError e))
   | Inr reqBodyBytes \<Rightarrow>
     (case snd (playerPost c env headers
         (cl_baseURL c @ ''/'' @ cl_basePath c @ ''player/verifyPlayerInfo'') reqBodyBytes) of
        Inl err \<Rightarrow> Inl (wrapf ''verifyPlayerInfo: '' err)
      | Inr respBody \<Rightarrow> (case Unmarshal respBody of
          Inl e \<Rightarrow> Inl (WrapError ''verifyPlayerInfo: unmarshal failed: '' (LibError e) ('', raw='' @ respBody))
        | Inr result \<Rightarrow> Inr result)))"

subsection \<open>What a caller can ask of an error\<close>

definition IsHTTPError :: "'e go_error option \<Rightarrow> bool" where
  "IsHTTPError err = (case err of Some (HTTPError body code) \<Rightarrow> True | _ \<Rightarrow> False)"

definition isProfileNotFoundBody :: "string \<Rightarrow> bool" where
  "isProfileNotFoundBody body =
    (if body = '''' then False
     else if Contains body ''uss-ae.profile.data_not_found'' then True
     else Contains body ''profile.data_not_found'')"

definition IsProfileNotFound :: "'e go_error option \<Rightarrow> bool" where
  "IsProfileNotFound err =
    (case err of Some (HTTPError body code) \<Rightarrow> isProfileNotFoundBody body | _ \<Rightarrow> False)"

section \<open>Retries\<close>

lemma retry_loop_attempts:
  "1 \<le> attempt \<Longrightarrow> int attempt \<le> mx \<Longrightarrow>
    attempt \<le> fst (retry_loop msg mx Done fn attempt lastErr)
    \<and> int (fst (retry_loop msg mx Done fn attempt lastErr)) \<le> mx"
proof (induction msg mx Done fn attempt lastErr rule: retry_loop.induct)
  case (1 msg mx Done fn attempt lastErr)
  show ?case
  proof (cases "\<exists>err. fn attempt = Inl err \<and> int attempt < mx \<and> Done attempt = None")
    case True
    then show ?thesis
      using 1 by (subst (1 2) retry_loop.simps) (auto simp: le_Suc_eq dest: Suc_leD)
  next
    case False
    then show ?thesis
      using "1.prems"
      by (subst (1 2) retry_loop.simps)
        (auto simp: retry_loop.simps [of _ _ _ _ "Suc attempt"] split: sum.split option.split)
  qed
qed

lemma retry_loop_result:
  "1 \<le> attempt \<Longrightarrow> int attempt \<le> mx \<Longrightarrow>
    (snd (retry_loop msg mx Done fn attempt lastErr) = Inr b \<longleftrightarrow>
      (\<exists>k \<ge> attempt. int k \<le> mx \<and> fn k = Inr b \<and>
        (\<forall>j. attempt \<le> j \<and> j < k \<longrightarrow> isl (fn j) \<and> Done j = None)))"
proof (induction msg mx Done fn attempt lastErr rule: retry_loop.induct)
  case (1 msg mx Done fn attempt lastErr)
  show ?case
  proof (cases "\<exists>err. fn attempt = Inl err \<and> int attempt < mx \<and> Done attempt = None")
    case True
    then obtain err where e: "fn attempt = Inl err" "int attempt < mx" "Done attempt = None" by blast
    then have "retry_loop msg mx Done fn attempt lastErr = retry_loop msg mx Done fn (Suc attempt) (Some err)"
      by (subst retry_loop.simps) simp
    moreover have "(\<exists>k \<ge> Suc attempt. int k \<le> mx \<and> fn k = Inr b \<and>
        (\<forall>j. Suc attempt \<le> j \<and> j < k \<longrightarrow> isl (fn j) \<and> Done j = None)) \<longleftrightarrow>
      (\<exists>k \<ge> attempt. int k \<le> mx \<and> fn k = Inr b \<and>
        (\<forall>j. attempt \<le> j \<and> j < k \<longrightarrow> isl (fn j) \<and> Done j = None))"
      using e(1,3) by (metis Inl_Inr_False Suc_leD Suc_leI isl_def le_eq_less_or_eq)
    ultimately show ?thesis
      using "1.IH" "1.prems" e by auto
  next
    case False
    have "k = attempt" if "attempt \<le> k" "int k \<le> mx" "\<forall>j. attempt \<le> j \<and> j < k \<longrightarrow> isl (fn j) \<and> Done j = None" for k
      using that False by (cases "k = attempt") (auto simp: isl_def)
    then have "(\<exists>k \<ge> attempt. int k \<le> mx \<and> fn k = Inr b \<and>
        (\<forall>j. attempt \<le> j \<and> j < k \<longrightarrow> isl (fn j) \<and> Done j = None)) \<longleftrightarrow> fn attempt = Inr b"
      using "1.prems" by auto
    then show ?thesis
      using False "1.prems"
      by (subst retry_loop.simps)
        (auto simp: retry_loop.simps [of _ _ _ _ "Suc attempt"] split: sum.split option.split)
  qed
qed

text \<open>C34: The retry loop makes at least one and at most \<open>maxRetries\<close> attempts, and it returns a body exactly
  when that body is the first success: every earlier attempt failed, and none of the waits between
  them was cut off by the caller's context.\<close>

theorem doWithRetry_first_success:
  assumes "0 < maxRetries"
  shows "1 \<le> fst (doWithRetry maxRetries env fn) \<and> int (fst (doWithRetry maxRetries env fn)) \<le> maxRetries
    \<and> (snd (doWithRetry maxRetries env fn) = Inr body \<longleftrightarrow>
        (\<exists>k \<ge> 1. int k \<le> maxRetries \<and> fn k = Inr body \<and>
          (\<forall>j. 1 \<le> j \<and> j < k \<longrightarrow> isl (fn j) \<and> he_Done env j = None)))"
proof -
  have "(1 :: nat) \<le> 1" "int 1 \<le> maxRetries" using assms by simp_all
  then show ?thesis
    unfolding doWithRetry_def by (intro conjI retry_loop_attempts [THEN conjunct1]
      retry_loop_attempts [THEN conjunct2] retry_loop_result)
qed

definition demo_http :: "unit http_env" where
  "demo_http = \<lparr>he_NewRequest = (\<lambda>url. None),
    he_Do = (\<lambda>n req. if n < 3 then Inr \<lparr>rs_StatusCode = 404, rs_data = ''no'', rs_err = None\<rparr>
      else Inr \<lparr>rs_StatusCode = 200, rs_data = ''ok'', rs_err = None\<rparr>),
    he_Done = (\<lambda>n. None)\<rparr>"

theorem doWithRetry_first_success_witness:
  "snd (doWithRetry 3 demo_http (\<lambda>n. doGet demo_http n ''http://h/'')) = Inr ''ok''"
proof -
  let ?fn = "\<lambda>n. doGet demo_http n ''http://h/''"
  have "?fn 3 = Inr ''ok''" "\<forall>j < 3. isl (?fn j)"
    by (simp_all add: doGet_def demo_http_def uss_readBody_def StatusOK_def ReadLimited_def maxResponseSize_def)
  then show ?thesis
    using doWithRetry_first_success [of 3 demo_http ?fn "''ok''"]
    by (auto simp: demo_http_def intro: exI [of _ 3])
qed

section \<open>Errors seen by the callers\<close>

text \<open>The operations hand out wrapped errors and texts only.\<close>

definition outer_http :: "'e go_error + 'a \<Rightarrow> bool" where
  "outer_http r = (case r of Inl err \<Rightarrow> IsHTTPError (Some err) \<or> IsProfileNotFound (Some err) | Inr _ \<Rightarrow> False)"

lemma outer_http_simps [simp]:
  "outer_http (Inr x) = False" "outer_http (Inl (WrapError a e b)) = False"
  "outer_http (Inl (TextError t)) = False" "outer_http (Inl (deserialization_failed e' s)) = False"
  by (simp_all add: outer_http_def IsHTTPError_def IsProfileNotFound_def deserialization_failed_def)

text \<open>No operation of the uss and wps clients ever returns an error for which \<open>IsHTTPError\<close> or
  \<open>IsProfileNotFound\<close> holds, whatever the services answer: the errors of a status other than 200
  are wrapped by the retry loop and again by the operation, and the predicates look only at the
  outermost value.\<close>

theorem client_errors_opaque:
  "(GetResetPasswordStatus dec1 c env m = Inl err \<longrightarrow> \<not> IsHTTPError (Some err)) \<and>
   (GetCustomer dec2 c env name force = Inl err \<longrightarrow> \<not> IsHTTPError (Some err) \<and> \<not> IsProfileNotFound (Some err)) \<and>
   (GetCustomerByID dec3 c env i = Inl err \<longrightarrow> \<not> IsHTTPError (Some err) \<and> \<not> IsProfileNotFound (Some err)) \<and>
   (GetCustomerPersonalInfo dec4 c env i = Inl err \<longrightarrow> \<not> IsHTTPError (Some err) \<and> \<not> IsProfileNotFound (Some err)) \<and>
   (GetRegisteredPlayerCount dec5 c env m = Inl err \<longrightarrow> \<not> IsHTTPError (Some err) \<and> \<not> IsProfileNotFound (Some err)) \<and>
   (GeneratePasswordResetToken mar dec6 c env name m = Inl err \<longrightarrow>
      \<not> IsHTTPError (Some err) \<and> \<not> IsProfileNotFound (Some err))"
proof -
  have "\<not> outer_http (GetResetPasswordStatus dec1 c env m)" "\<not> outer_http (GetCustomer dec2 c env name force)"
    "\<not> outer_http (GetCustomerByID dec3 c env i)" "\<not> outer_http (GetCustomerPersonalInfo dec4 c env i)"
    "\<not> outer_http (GetRegisteredPlayerCount dec5 c env m)"
    "\<not> outer_http (GeneratePasswordResetToken mar dec6 c env name m)"
    by (simp_all add: GetResetPasswordStatus_def GetCustomer_def GetCustomerByID_def
        GetCustomerPersonalInfo_def GetRegisteredPlayerCount_def GeneratePasswordResetToken_def Let_def
        split: sum.split)
  then show ?thesis by (auto simp: outer_http_def)
qed

text \<open>A service that always answers 404.\<close>

definition gone :: "unit http_env" where
  "gone = \<lparr>he_NewRequest = (\<lambda>url. None),
    he_Do = (\<lambda>n req. Inr \<lparr>rs_StatusCode = 404, rs_data = ''profile.data_not_found'', rs_err = None\<rparr>),
    he_Done = (\<lambda>n. None)\<rparr>"

lemma retry_all_fail:
  assumes "0 < mx" "\<And>n. fn n = Inl e" "\<And>n. he_Done env n = None"
  shows "snd (doWithRetry mx env fn) = Inl (wrapf (''all '' @ Itoa mx @ '' attempts failed: '') e)"
proof -
  have "1 \<le> attempt \<Longrightarrow> int attempt \<le> mx \<Longrightarrow> snd (retry_loop msg mx (he_Done env) fn attempt l) =
      Inl (wrapf (''all '' @ Itoa mx @ '' attempts failed: '') e)" for msg attempt l
  proof (induction "nat (mx - int attempt)" arbitrary: attempt l)
    case 0
    then show ?case
      using assms(2) by (simp add: retry_loop.simps [of _ _ _ _ attempt] retry_loop.simps [of _ _ _ _ "Suc attempt"]
        all_failed_def)
  next
    case (Suc d)
    then have "snd (retry_loop msg mx (he_Done env) fn (Suc attempt) (Some e)) =
        Inl (wrapf (''all '' @ Itoa mx @ '' attempts failed: '') e)"
      by (intro Suc(1)) linarith+
    then show ?case
      using Suc(2) assms(2,3) by (subst retry_loop.simps) (simp, linarith)
  qed
  then show ?thesis using assms(1) by (simp add: doWithRetry_def)
qed

theorem client_errors_opaque_witness:
  "\<exists>err. GetResetPasswordStatus (\<lambda>s. Inr ()) (wps_NewClient None ''h'' ''p/'') gone ''m'' = Inl err
    \<and> \<not> IsHTTPError (Some err)"
proof -
  have "wps_doGet gone n url hs = Inl (HTTPError (''unexpected status code: '' @ Itoa 404) 404)" for n url hs
    by (simp add: wps_doGet_def gone_def wps_readBody_def StatusOK_def)
  then have "\<exists>err. GetResetPasswordStatus (\<lambda>s. Inr ()) (wps_NewClient None ''h'' ''p/'') gone ''m'' = Inl err"
    by (simp add: GetResetPasswordStatus_def wps_doGetWithRetry_def retry_all_fail wps_NewClient_def gone_def)
  then show ?thesis
    using client_errors_opaque [of "\<lambda>s. Inr ()" "wps_NewClient None ''h'' ''p/''" gone "''m''"] by blast
qed

section \<open>Query strings\<close>

definition unhex :: "char \<Rightarrow> nat option" where
  "unhex c = (let b = of_char c :: nat in
     if 48 \<le> b \<and> b \<le> 57 then Some (b - 48) else if 65 \<le> b \<and> b \<le> 70 then Some (b - 55)
     else if 97 \<le> b \<and> b \<le> 102 then Some (b - 87) else None)"

text \<open>What a server reads out of an escaped value.\<close>

fun QueryUnescape :: "string \<Rightarrow> string option" where
  "QueryUnescape [] = Some []"
| "QueryUnescape (c # cs) =
    (if c = CHR ''%'' then
       (case cs of h # l # rest' \<Rightarrow>
          (case (unhex h, unhex l) of
             (Some a, Some b) \<Rightarrow> map_option ((#) (char_of (16 * a + b))) (QueryUnescape rest')
           | _ \<Rightarrow> None)
        | _ \<Rightarrow> None)
     else map_option ((#) (if c = CHR ''+'' then CHR '' '' else c)) (QueryUnescape cs))"

lemma upperhex_props:
  assumes "d < 16"
  shows "unhex (upperhex d) = Some d" "query_unreserved (upperhex d)"
proof -
  have "d \<in> {0, 1, 2, 3, 4, 5, 6, 7, 8, 9, 10, 11, 12, 13, 14, 15}" using assms by (simp, presburger)
  then show "unhex (upperhex d) = Some d" "query_unreserved (upperhex d)"
    by (auto simp: unhex_def upperhex_def query_unreserved_def Let_def)
qed

lemma nibbles: "of_char c div 16 < (16 :: nat)" "of_char c mod 16 < (16 :: nat)"
proof -
  have "(of_char c :: nat) < 256" by (rule nat_of_char_less_256)
  then show "of_char c div 16 < (16 :: nat)" "of_char c mod 16 < (16 :: nat)"
    by (auto intro: less_mult_imp_div_less)
qed

lemma QueryUnescape_byte:
  "QueryUnescape (escape_byte c @ s) = map_option ((#) c) (QueryUnescape s)"
proof (cases "query_unreserved c")
  case True
  then have "c \<noteq> CHR ''%''" "c \<noteq> CHR ''+''" by (auto simp: query_unreserved_def)
  then show ?thesis using True by (simp add: escape_byte_def)
next
  case False
  have "char_of (16 * (of_char c div 16) + of_char c mod (16 :: nat)) = c"
    by (metis char_of_char mult_div_mod_eq)
  then show ?thesis
    using False by (simp add: escape_byte_def upperhex_props nibbles)
qed

lemma QueryUnescape_escape: "QueryUnescape (QueryEscape s) = Some s"
  by (induction s) (simp_all add: QueryEscape_def QueryUnescape_byte)

lemma QueryEscape_chars: "x \<in> set (QueryEscape s) \<Longrightarrow> query_unreserved x \<or> x = CHR ''+'' \<or> x = CHR ''%''"
proof -
  assume "x \<in> set (QueryEscape s)"
  then obtain c where c: "x \<in> set (escape_byte c)" by (auto simp: QueryEscape_def)
  then show ?thesis
    using c by (auto simp: escape_byte_def upperhex_props nibbles split: if_splits)
qed

text \<open>Whatever the merchant code is, the request for a player count carries it as the value of one
  parameter: the escaped value holds no character with a meaning in a query string, and decoding
  it gives the merchant code back.\<close>

theorem player_count_query:
  "\<exists>q. player_count_url c merchantCode = cl_baseURL c @ ''/'' @ cl_basePath c
      @ ''customer/profile/condition/plain?merchantCode='' @ q @ ''&page=1&size=1&pageable=true''
    \<and> set q \<inter> set ''&=?#/; '' = {} \<and> QueryUnescape q = Some merchantCode"
proof -
  have "\<not> query_unreserved x \<and> x \<noteq> CHR ''+'' \<and> x \<noteq> CHR ''%''" if "x \<in> set ''&=?#/; ''" for x
    using that by (auto simp: query_unreserved_def)
  then have "set (QueryEscape merchantCode) \<inter> set ''&=?#/; '' = {}"
    using QueryEscape_chars by blast
  then show ?thesis
    by (intro exI [of _ "QueryEscape merchantCode"]) (simp add: player_count_url_def QueryUnescape_escape)
qed

end
