(* ===== verification/Null_Values.thy ===== *)
theory Null_Values
  imports Go_Strings
begin

text \<open>
  The nullable fields of the uss client's records, \<^verbatim>\<open>internal/client/uss/model.go\<close>: each type reads a
  JSON token or null and writes it back. The decoder and encoder of the JSON library for numbers
  and strings, and the parser and printer of times, are arguments; a zero time is \<open>None\<close>.
\<close>

section \<open>The types\<close>

record NullString =
  ns_Val :: string
  ns_Valid :: bool

definition is_null_text :: "(rune \<Rightarrow> rune) \<Rightarrow> string \<Rightarrow> bool" where
  "is_null_text ulow s \<longleftrightarrow> ToLower ulow s = ''null''"

definition NullString_UnmarshalJSON :: "(rune \<Rightarrow> rune) \<Rightarrow> string \<Rightarrow> NullString" where
  "NullString_UnmarshalJSON ulow b = (let str = Trim b (CHR 0x22) in
     if is_null_text ulow str \<or> str = '''' then \<lparr>ns_Val = '''', ns_Valid = False\<rparr>
     else \<lparr>ns_Val = str, ns_Valid = True\<rparr>)"

definition NullString_MarshalJSON :: "(string \<Rightarrow> string) \<Rightarrow> NullString \<Rightarrow> string" where
  "NullString_MarshalJSON enc s = (if \<not> ns_Valid s then ''null'' else enc (ns_Val s))"

definition NullString_String :: "NullString \<Rightarrow> string" where
  "NullString_String s = ns_Val s"

record 'v NullValue =
  nv_Val :: 'v
  nv_Valid :: bool

text \<open>\<open>NullInt32\<close>, \<open>NullInt\<close> and \<open>NullBool\<close> differ in the value they keep for null.\<close>

definition Null_UnmarshalJSON ::
  "'v \<Rightarrow> (rune \<Rightarrow> rune) \<Rightarrow> (string \<Rightarrow> 'e + 'v) \<Rightarrow> string \<Rightarrow> 'e + 'v NullValue" where
  "Null_UnmarshalJSON none ulow dec b =
    (if is_null_text ulow b then Inr \<lparr>nv_Val = none, nv_Valid = False\<rparr>
     else bind_res (dec b) (\<lambda>v. Inr \<lparr>nv_Val = v, nv_Valid = True\<rparr>))"

definition NullInt32_UnmarshalJSON ::
  "(rune \<Rightarrow> rune) \<Rightarrow> (string \<Rightarrow> 'e + int) \<Rightarrow> string \<Rightarrow> 'e + int NullValue" where
  "NullInt32_UnmarshalJSON = Null_UnmarshalJSON (- 1)"

definition NullBool_UnmarshalJSON ::
  "(rune \<Rightarrow> rune) \<Rightarrow> (string \<Rightarrow> 'e + bool) \<Rightarrow> string \<Rightarrow> 'e + bool NullValue" where
  "NullBool_UnmarshalJSON = Null_UnmarshalJSON False"

definition NullInt_UnmarshalJSON ::
  "(rune \<Rightarrow> rune) \<Rightarrow> (string \<Rightarrow> 'e + int) \<Rightarrow> string \<Rightarrow> 'e + int NullValue" where
  "NullInt_UnmarshalJSON = Null_UnmarshalJSON 0"

definition NullInt32_MarshalJSON :: "int NullValue \<Rightarrow> string" where
  "NullInt32_MarshalJSON n = (if \<not> nv_Valid n then ''null'' else Itoa (nv_Val n))"

definition NullBool_MarshalJSON :: "bool NullValue \<Rightarrow> string" where
  "NullBool_MarshalJSON n =
    (if \<not> nv_Valid n then ''null'' else if nv_Val n then ''true'' else ''false'')"

definition NullInt_MarshalJSON :: "int NullValue \<Rightarrow> string" where
  "NullInt_MarshalJSON n = (if \<not> nv_Valid n then ''null'' else Itoa (nv_Val n))"

type_synonym 'time FlexTime = "'time option"

definition FlexTime_UnmarshalJSON ::
  "(rune \<Rightarrow> rune) \<Rightarrow> (string \<Rightarrow> 'e + 'time) \<Rightarrow> string \<Rightarrow> 'e + 'time FlexTime" where
  "FlexTime_UnmarshalJSON ulow parse b = (let s = Trim b (CHR 0x22) in
     if is_null_text ulow s \<or> s = '''' then Inr None
     else bind_res (parse s) (\<lambda>t. Inr (Some t)))"

definition FlexTime_MarshalJSON :: "(string \<Rightarrow> string) \<Rightarrow> ('time \<Rightarrow> string) \<Rightarrow> 'time FlexTime \<Rightarrow> string" where
  "FlexTime_MarshalJSON enc format t = (case t of None \<Rightarrow> ''null'' | Some t \<Rightarrow> enc (format t))"

definition FormatDate :: "('time \<Rightarrow> string) \<Rightarrow> 'time FlexTime \<Rightarrow> string" where
  "FormatDate format t = (case t of None \<Rightarrow> '''' | Some t \<Rightarrow> format t)"

section \<open>Round trips\<close>

text \<open>The decoder fills the fields it finds into the struct it is given.\<close>

record CustomerAdditionalInfo =
  ca_PermanentAddress :: NullString
  ca_PlaceOfBirth :: NullString
  ca_Nationality :: NullString
  ca_Region :: NullString
  ca_Kakao :: NullString
  ca_Google :: NullString
  ca_CustomerID :: "int NullValue"
  ca_UsState :: "int NullValue"
  ca_EmailVerification :: bool

definition zero_additional_info :: CustomerAdditionalInfo where
  "zero_additional_info = (let z = \<lparr>ns_Val = [], ns_Valid = False\<rparr>; n = \<lparr>nv_Val = 0, nv_Valid = False\<rparr> in
     \<lparr>ca_PermanentAddress = z, ca_PlaceOfBirth = z, ca_Nationality = z, ca_Region = z, ca_Kakao = z,
      ca_Google = z, ca_CustomerID = n, ca_UsState = n, ca_EmailVerification = False\<rparr>)"

definition CustomerAdditionalInfo_UnmarshalJSON ::
  "(string \<Rightarrow> CustomerAdditionalInfo \<Rightarrow> 'e + CustomerAdditionalInfo) \<Rightarrow> CustomerAdditionalInfo \<Rightarrow> string \<Rightarrow>
   'e + CustomerAdditionalInfo" where
  "CustomerAdditionalInfo_UnmarshalJSON dec c b =
    (if b = ''null'' then Inr (c\<lparr>ca_UsState := \<lparr>nv_Val = - 1, nv_Valid = False\<rparr>\<rparr>)
     else dec b (zero_additional_info\<lparr>ca_UsState := \<lparr>nv_Val = - 1, nv_Valid = False\<rparr>\<rparr>))"

text \<open>A decoder that leaves an absent field alone never lets \<open>UsState\<close> be the zero value of an invalid
  number.\<close>

lemma UsState_default:
  assumes "\<And>b i i'. dec b i = Inr i' \<Longrightarrow> ca_UsState i' = ca_UsState i \<or> nv_Valid (ca_UsState i') \<or> nv_Val (ca_UsState i') = - 1"
    and "CustomerAdditionalInfo_UnmarshalJSON dec c b = Inr c'"
  shows "nv_Valid (ca_UsState c') \<or> nv_Val (ca_UsState c') = - 1"
  using assms by (fastforce simp: CustomerAdditionalInfo_UnmarshalJSON_def split: if_splits)

text \<open>Text that the JSON encoder only puts between quotes: ASCII without quotes, backslashes,
  control characters and the characters it escapes for HTML.\<close>

definition json_plain :: "string \<Rightarrow> bool" where
  "json_plain s \<longleftrightarrow> ascii s \<and> (\<forall>c \<in> set s. (32 :: nat) \<le> of_char c \<and> c \<notin> {CHR 0x22, CHR 0x5C, CHR ''<'', CHR ''>'', CHR ''&''})"

definition quoted :: "string \<Rightarrow> string" where
  "quoted s = CHR 0x22 # s @ [CHR 0x22]"

lemma Trim_quoted: "CHR 0x22 \<notin> set s \<Longrightarrow> Trim (quoted s) (CHR 0x22) = s"
proof (cases s)
  case (Cons a l)
  assume no: "CHR 0x22 \<notin> set s"
  then have "dropWhile (\<lambda>x. x = CHR 0x22) (quoted s) = s @ [CHR 0x22]"
    by (auto simp: quoted_def Cons)
  moreover have "dropWhile (\<lambda>x. x = CHR 0x22) (rev s) = rev s"
    using no Cons hd_rev [of s] last_in_set [of s] by (metis (full_types) dropWhile_eq_self_iff list.distinct(1))
  ultimately show ?thesis by (simp add: Trim_def)
qed (simp add: Trim_def quoted_def)

text \<open>Writing a valid nullable string of plain text and reading it back gives the string back exactly if it is
  neither empty nor the word null in any mixture of cases; those two come back as null.\<close>

theorem NullString_roundtrip:
  assumes "json_plain v" "\<And>s. json_plain s \<Longrightarrow> enc s = quoted s"
  shows "NullString_UnmarshalJSON ulow (NullString_MarshalJSON enc \<lparr>ns_Val = v, ns_Valid = True\<rparr>) =
    (if v = '''' \<or> ToLower ulow v = ''null'' then \<lparr>ns_Val = '''', ns_Valid = False\<rparr>
     else \<lparr>ns_Val = v, ns_Valid = True\<rparr>)"
proof -
  have "Trim (quoted v) (CHR 0x22) = v" using assms(1) by (intro Trim_quoted) (auto simp: json_plain_def)
  then show ?thesis
    using assms by (simp add: NullString_UnmarshalJSON_def NullString_MarshalJSON_def is_null_text_def)
qed

theorem NullString_roundtrip_witness:
  "NullString_UnmarshalJSON id (NullString_MarshalJSON quoted \<lparr>ns_Val = ''Null'', ns_Valid = True\<rparr>)
    = \<lparr>ns_Val = '''', ns_Valid = False\<rparr>"
proof -
  have "ToLower id ''Null'' = ''null''" by code_simp
  moreover have "json_plain ''Null''" by (simp add: json_plain_def)
  ultimately show ?thesis using NullString_roundtrip [of "''Null''" quoted id] by simp
qed

lemma NullInt_roundtrip:
  assumes "\<And>i. dec (Itoa i) = Inr i" "\<not> is_null_text ulow (Itoa (nv_Val n))"
    and "is_null_text ulow ''null''" "nv_Valid n"
  shows "NullInt_UnmarshalJSON ulow dec (NullInt_MarshalJSON n) = Inr n"
  using assms by (cases n) (simp add: NullInt_UnmarshalJSON_def NullInt_MarshalJSON_def Null_UnmarshalJSON_def)

end
