(* ===== verification/Merchant_Rule.thy ===== *)
theory Merchant_Rule
  imports Go_Prelude
begin

text \<open>
  The merchant rule record, \<^verbatim>\<open>internal/model/merchant_rule.go\<close>: two columns hold JSON that is parsed on
  first use and cached in the record. Methods with a pointer receiver return the record they leave
  behind. A Go map that may be nil is an option of a map, and a pointer stored in a map an option;
  the JSON library (\<open>UnmarshalString\<close>, \<open>MarshalString\<close>) is an argument, with \<open>Inr None\<close> for the
  nil map of a JSON null.
\<close>

section \<open>Records\<close>

record Question =
  q_FieldID :: string
  q_FieldName :: string
  q_FieldAttribute :: string
  q_FieldType :: string
  q_Accuracy :: string
  q_Score :: int
  q_Valid :: bool

type_synonym question_map = "string \<rightharpoonup> Question option"

record QuestionInfo =
  qi_FieldID :: string
  qi_FieldName :: string
  qi_FieldAttribute :: string
  qi_FieldType :: string

record FieldIdTranslation =
  ft_FieldID :: string
  ft_FieldTranslation :: string

type_synonym FieldTranslationsMap = "string \<rightharpoonup> FieldIdTranslation list"

record MerchantRule =
  mr_parsedQuestions :: "question_map option"
  mr_parsedTranslations :: "FieldTranslationsMap option"
  mr_BindingType :: string
  mr_MerchantCode :: string
  mr_Operator :: string
  mr_Questions :: string
  mr_FieldTranslations :: string
  mr_ID :: int
  mr_EmptyScore :: int
  mr_AccountRetryLimit :: int
  mr_IPRetryLimit :: int
  mr_PassingScore :: int
  mr_LockHour :: int
  mr_IsDefault :: int

record MerchantRuleConfig =
  mc_parsedQuestions :: "question_map option"
  mc_MerchantCode :: string
  mc_BindingType :: string
  mc_Questions :: string
  mc_FieldTranslations :: string
  mc_EmptyScore :: int
  mc_PassingScore :: int

datatype 'e questions_error =
  QuestionsEmpty | UnmarshalQuestions 'e | MarshalQuestionsFailed 'e | ForMerchant "'e questions_error" string

section \<open>Questions\<close>

definition parseQuestionsJSON ::
  "(string \<Rightarrow> 'e + question_map option) \<Rightarrow> string \<Rightarrow> 'e questions_error + question_map option" where
  "parseQuestionsJSON UnmarshalString raw =
    (if raw = '''' then Inl QuestionsEmpty
     else case UnmarshalString raw of Inl e \<Rightarrow> Inl (UnmarshalQuestions e) | Inr result \<Rightarrow> Inr result)"

definition ParseQuestions ::
  "(string \<Rightarrow> 'e + question_map option) \<Rightarrow> MerchantRule \<Rightarrow>
   'e questions_error + question_map option \<times> MerchantRule" where
  "ParseQuestions UnmarshalString m = (case mr_parsedQuestions m of
     Some q \<Rightarrow> Inr (Some q, m)
   | None \<Rightarrow> bind_res (parseQuestionsJSON UnmarshalString (mr_Questions m))
       (\<lambda>q. Inr (q, m\<lparr>mr_parsedQuestions := q\<rparr>)))"

text \<open>The entries of a map that may be nil.\<close>

definition entries_of :: "('k \<rightharpoonup> 'v) option \<Rightarrow> 'k \<rightharpoonup> 'v" where
  "entries_of m = (case m of None \<Rightarrow> Map.empty | Some m \<Rightarrow> m)"

definition ParseValidQuestions ::
  "(string \<Rightarrow> 'e + question_map option) \<Rightarrow> MerchantRule \<Rightarrow>
   'e questions_error + question_map \<times> MerchantRule" where
  "ParseValidQuestions UnmarshalString m = bind_res (ParseQuestions UnmarshalString m)
    (\<lambda>(all, m). Inr (\<lambda>k. case entries_of all k of
       Some (Some q) \<Rightarrow> if q_Valid q then Some (Some q) else None | _ \<Rightarrow> None, m))"

definition question_info :: "Question \<Rightarrow> QuestionInfo" where
  "question_info q = \<lparr>qi_FieldID = q_FieldID q, qi_FieldName = q_FieldName q,
     qi_FieldAttribute = q_FieldAttribute q, qi_FieldType = q_FieldType q\<rparr>"

text \<open>The loop over the map, given the order in which the entries are visited.\<close>

fun collect_infos :: "(string \<times> Question option) list \<Rightarrow> QuestionInfo list" where
  "collect_infos [] = []"
| "collect_infos ((k, None) # kvs) = collect_infos kvs"
| "collect_infos ((k, Some q) # kvs) =
    (if \<not> q_Valid q \<or> q_FieldID q = '''' then collect_infos kvs
     else question_info q # collect_infos kvs)"

text \<open>Go visits a map in any order.\<close>

definition visits :: "('k \<times> 'v) list \<Rightarrow> ('k \<rightharpoonup> 'v) \<Rightarrow> bool" where
  "visits kvs m \<longleftrightarrow> distinct (map fst kvs) \<and> map_of kvs = m"

text \<open>\<open>slices.SortFunc\<close> is not stable: a result is any sorted rearrangement.\<close>

definition sorted_by_id :: "QuestionInfo list \<Rightarrow> QuestionInfo list \<Rightarrow> bool" where
  "sorted_by_id xs out \<longleftrightarrow> mset out = mset xs \<and> sorted (map qi_FieldID out)"

definition GetValidQuestionInfos ::
  "(string \<Rightarrow> 'e + question_map option) \<Rightarrow> MerchantRule \<Rightarrow>
   'e questions_error + QuestionInfo list \<times> MerchantRule \<Rightarrow> bool" where
  "GetValidQuestionInfos UnmarshalString m res = (case ParseQuestions UnmarshalString m of
     Inl e \<Rightarrow> res = Inl e
   | Inr (all, m') \<Rightarrow> (\<exists>kvs out. visits kvs (entries_of all) \<and> sorted_by_id (collect_infos kvs) out
       \<and> res = Inr (out, m')))"

definition MarshalQuestions ::
  "(question_map \<Rightarrow> 'e + string) \<Rightarrow> MerchantRule \<Rightarrow> question_map \<Rightarrow> 'e questions_error + MerchantRule" where
  "MarshalQuestions MarshalString m questions = (case MarshalString questions of
     Inl e \<Rightarrow> Inl (MarshalQuestionsFailed e) | Inr b \<Rightarrow> Inr (m\<lparr>mr_Questions := b\<rparr>))"

definition cfg_ParseQuestions ::
  "(string \<Rightarrow> 'e + question_map option) \<Rightarrow> MerchantRuleConfig \<Rightarrow>
   'e questions_error + question_map option \<times> MerchantRuleConfig" where
  "cfg_ParseQuestions UnmarshalString c = (case mc_parsedQuestions c of
     Some q \<Rightarrow> Inr (Some q, c)
   | None \<Rightarrow> (case parseQuestionsJSON UnmarshalString (mc_Questions c) of
       Inl e \<Rightarrow> Inl (ForMerchant e (mc_MerchantCode c))
     | Inr q \<Rightarrow> Inr (q, c\<lparr>mc_parsedQuestions := q\<rparr>)))"

section \<open>Translations\<close>

definition ParseFieldTranslationsMap ::
  "(string \<Rightarrow> 'e + FieldTranslationsMap option) \<Rightarrow> MerchantRule \<Rightarrow>
   FieldTranslationsMap option \<times> MerchantRule" where
  "ParseFieldTranslationsMap UnmarshalString m = (case mr_parsedTranslations m of
     Some t \<Rightarrow> (Some t, m)
   | None \<Rightarrow> (let
       result = (if mr_FieldTranslations m = '''' \<or> mr_FieldTranslations m = ''{}'' then Some Map.empty
         else case UnmarshalString (mr_FieldTranslations m) of Inl e \<Rightarrow> Some Map.empty | Inr t \<Rightarrow> t)
     in (result, m\<lparr>mr_parsedTranslations := result\<rparr>)))"

definition GetTranslationsByLanguage ::
  "(string \<Rightarrow> 'e + FieldTranslationsMap option) \<Rightarrow> MerchantRule \<Rightarrow> string \<Rightarrow>
   (string \<rightharpoonup> string) \<times> MerchantRule" where
  "GetTranslationsByLanguage UnmarshalString m language = (let
      (all, m) = ParseFieldTranslationsMap UnmarshalString m;
      list = (case entries_of all language of
        Some l \<Rightarrow> l
      | None \<Rightarrow> (case entries_of all ''EN'' of Some l \<Rightarrow> l | None \<Rightarrow> []))
    in (foldl (\<lambda>r item. r(ft_FieldID item \<mapsto> ft_FieldTranslation item)) Map.empty list, m))"

section \<open>Properties\<close>

lemma collect_infos_set:
  "set (collect_infos kvs) =
    {question_info q | k q. (k, Some q) \<in> set kvs \<and> q_Valid q \<and> q_FieldID q \<noteq> ''''}"
proof (induction kvs)
  case (Cons kv kvs)
  obtain k v where kv: "kv = (k, v)" by (cases kv)
  show ?case by (cases v) (use Cons kv in \<open>auto split: if_splits\<close>)
qed simp

text \<open>No two valid questions of a map share a field id.\<close>

definition unique_ids :: "question_map \<Rightarrow> bool" where
  "unique_ids m \<longleftrightarrow> (\<forall>k1 k2 q1 q2. m k1 = Some (Some q1) \<and> m k2 = Some (Some q2) \<and> q_Valid q1 \<and> q_Valid q2
     \<and> q_FieldID q1 = q_FieldID q2 \<and> q_FieldID q1 \<noteq> '''' \<longrightarrow> k1 = k2)"

lemma unique_ids_tail:
  assumes "distinct (map fst ((k, v) # kvs))" "unique_ids (map_of ((k, v) # kvs))"
  shows "unique_ids (map_of kvs)"
proof -
  have k: "map_of kvs k' \<noteq> None \<Longrightarrow> k' \<noteq> k" for k'
    using assms(1) by (auto simp: map_of_eq_None_iff)
  show ?thesis
    unfolding unique_ids_def
    using assms(2) k unfolding unique_ids_def
    by (metis fun_upd_other map_of.simps(2) fst_conv option.distinct(1))
qed

lemma collect_infos_ids:
  "distinct (map fst kvs) \<Longrightarrow> unique_ids (map_of kvs) \<Longrightarrow> distinct (map qi_FieldID (collect_infos kvs))"
proof (induction kvs rule: collect_infos.induct)
  case (2 k kvs)
  have "unique_ids (map_of kvs)" using unique_ids_tail 2(2,3) .
  then show ?case using 2 by simp
next
  case (3 k q kvs)
  have k: "map_of kvs k' \<noteq> None \<Longrightarrow> k' \<noteq> k" for k'
    using 3(3) by (auto simp: map_of_eq_None_iff)
  have u: "unique_ids (map_of kvs)" using unique_ids_tail 3(3,4) .
  have "q_FieldID q \<notin> qi_FieldID ` set (collect_infos kvs)" if "q_Valid q" "q_FieldID q \<noteq> ''''"
  proof
    assume "q_FieldID q \<in> qi_FieldID ` set (collect_infos kvs)"
    then obtain k' q' where q': "(k', Some q') \<in> set kvs" "q_Valid q'" "q_FieldID q' = q_FieldID q"
      by (auto simp: collect_infos_set question_info_def)
    then have "map_of kvs k' = Some (Some q')" using 3(3) by simp
    then show False
      using 3(4) that q' k [of k'] unfolding unique_ids_def
      by (metis fun_upd_other fun_upd_same map_of.simps(2) fst_conv snd_conv option.distinct(1))
  qed
  then show ?case using 3 u by (auto simp: question_info_def)
qed simp

lemma visits_set: "visits kvs m \<Longrightarrow> (k, v) \<in> set kvs \<longleftrightarrow> m k = Some v"
  by (auto simp: visits_def)

text \<open>The public question list does not depend on the order in which Go visits the map of
  questions, nor on how the sort treats equal elements, as long as the field ids of the valid questions are unique: any two
  runs give the same list, sorted by field id, and it holds exactly the valid questions that have
  an id.\<close>

theorem GetValidQuestionInfos_deterministic:
  assumes "ParseQuestions um m = Inr (all, m')" "unique_ids (entries_of all)"
    and "GetValidQuestionInfos um m (Inr (out, m1))" "GetValidQuestionInfos um m (Inr (out', m2))"
  shows "out = out' \<and> sorted (map qi_FieldID out) \<and> set out =
    {question_info q | k q. entries_of all k = Some (Some q) \<and> q_Valid q \<and> q_FieldID q \<noteq> ''''}"
proof -
  obtain kvs kvs' where v: "visits kvs (entries_of all)" "visits kvs' (entries_of all)"
    and s: "sorted_by_id (collect_infos kvs) out" "sorted_by_id (collect_infos kvs') out'"
    using assms(1,3,4) by (auto simp: GetValidQuestionInfos_def)
  let ?S = "{question_info q | k q. entries_of all k = Some (Some q) \<and> q_Valid q \<and> q_FieldID q \<noteq> ''''}"
  have c: "set (collect_infos kvs) = ?S" "set (collect_infos kvs') = ?S"
    by (simp_all add: collect_infos_set visits_set [OF v(1)] visits_set [OF v(2)])
  have d: "distinct (map qi_FieldID (collect_infos kvs))" "distinct (map qi_FieldID (collect_infos kvs'))"
    using collect_infos_ids v assms(2) by (auto simp: visits_def)
  have strict: "sorted_wrt (\<lambda>a b. qi_FieldID a < qi_FieldID b) o1"
    if "sorted_by_id xs o1" "distinct (map qi_FieldID xs)" for xs o1
  proof -
    have "distinct (map qi_FieldID o1)" "sorted (map qi_FieldID o1)"
      using that unfolding sorted_by_id_def by (metis mset_map mset_eq_imp_distinct_iff, blast)
    then have "sorted_wrt (<) (map qi_FieldID o1)" by (simp add: strict_sorted_iff)
    then show ?thesis by (simp add: sorted_wrt_map)
  qed
  have "set out = ?S" "set out' = ?S"
    using s c unfolding sorted_by_id_def by (metis mset_eq_setD)+
  then show ?thesis
    using strict_key_unique [OF strict [OF s(1) d(1)] strict [OF s(2) d(2)]] s(1)
    by (simp add: sorted_by_id_def)
qed

definition demo_question :: "string \<Rightarrow> Question" where
  "demo_question f = \<lparr>q_FieldID = f, q_FieldName = '''', q_FieldAttribute = '''', q_FieldType = '''',
    q_Accuracy = '''', q_Score = 10, q_Valid = True\<rparr>"

definition demo_rule :: MerchantRule where
  "demo_rule = \<lparr>mr_parsedQuestions = None, mr_parsedTranslations = None, mr_BindingType = '''',
    mr_MerchantCode = ''m'', mr_Operator = '''', mr_Questions = ''q'', mr_FieldTranslations = '''', mr_ID = 1,
    mr_EmptyScore = 0, mr_AccountRetryLimit = 0, mr_IPRetryLimit = 0, mr_PassingScore = 0,
    mr_LockHour = 0, mr_IsDefault = 0\<rparr>"

definition demo_um :: "string \<Rightarrow> unit + question_map option" where
  "demo_um s = Inr (Some [''b'' \<mapsto> Some (demo_question ''b''), ''a'' \<mapsto> Some (demo_question ''a'')])"

lemma demo_infos:
  "GetValidQuestionInfos demo_um demo_rule
    (Inr ([question_info (demo_question ''a''), question_info (demo_question ''b'')],
      snd (projr (ParseQuestions demo_um demo_rule))))"
  by (simp add: GetValidQuestionInfos_def ParseQuestions_def parseQuestionsJSON_def demo_rule_def demo_um_def
      entries_of_def, rule exI [of _ "[(''a'', Some (demo_question ''a'')), (''b'', Some (demo_question ''b''))]"])
    (auto simp: visits_def sorted_by_id_def demo_question_def question_info_def less_eq_char_def)

theorem GetValidQuestionInfos_deterministic_witness:
  "\<forall>out m'. GetValidQuestionInfos demo_um demo_rule (Inr (out, m')) \<longrightarrow>
    out = [question_info (demo_question ''a''), question_info (demo_question ''b'')]"
proof (intro allI impI)
  fix out m'
  assume o: "GetValidQuestionInfos demo_um demo_rule (Inr (out, m'))"
  have p: "ParseQuestions demo_um demo_rule = Inr (projr (demo_um ''q''), demo_rule\<lparr>mr_parsedQuestions := projr (demo_um ''q'')\<rparr>)"
    by (simp add: ParseQuestions_def parseQuestionsJSON_def demo_rule_def demo_um_def)
  have "unique_ids (entries_of (projr (demo_um ''q'')))"
    by (auto simp: unique_ids_def demo_um_def entries_of_def demo_question_def split: if_splits)
  then show "out = [question_info (demo_question ''a''), question_info (demo_question ''b'')]"
    using GetValidQuestionInfos_deterministic [OF p _ o demo_infos] by blast
qed

text \<open>Questions written with \<open>MarshalQuestions\<close> are the ones \<open>ParseQuestions\<close> returns only on a record that
  has not parsed its questions before: once they are cached, the old questions are returned whatever
  has been written since.\<close>

theorem MarshalQuestions_stale_cache:
  assumes "MarshalQuestions ms m qs = Inr m2" "ms qs = Inr b" "b \<noteq> ''''" "um b = Inr (Some qs)"
  shows "ParseQuestions um m2 = Inr (case mr_parsedQuestions m of
      None \<Rightarrow> (Some qs, m2\<lparr>mr_parsedQuestions := Some qs\<rparr>) | Some old \<Rightarrow> (Some old, m2))"
  using assms by (auto simp: MarshalQuestions_def ParseQuestions_def parseQuestionsJSON_def split: option.split)

theorem MarshalQuestions_stale_cache_witness:
  "ParseQuestions (\<lambda>s. Inr (Some Map.empty) :: unit + question_map option)
     (demo_rule\<lparr>mr_parsedQuestions := Some [''a'' \<mapsto> None], mr_Questions := ''{}''\<rparr>) =
   Inr (Some [''a'' \<mapsto> None], demo_rule\<lparr>mr_parsedQuestions := Some [''a'' \<mapsto> None], mr_Questions := ''{}''\<rparr>)"
  using MarshalQuestions_stale_cache [of "\<lambda>q. Inr ''{}''" "demo_rule\<lparr>mr_parsedQuestions := Some [''a'' \<mapsto> None]\<rparr>"
      Map.empty _ "''{}''" "\<lambda>s. Inr (Some Map.empty) :: unit + question_map option", OF _ refl]
  by (simp add: MarshalQuestions_def demo_rule_def)

text \<open>The translations of a language, of English if the language is missing, else none.\<close>

lemma GetTranslations_fallback:
  assumes "mr_parsedTranslations m = Some all" "all language = None" "all ''EN'' = Some l"
  shows "fst (GetTranslationsByLanguage um m language) = fst (GetTranslationsByLanguage um m ''EN'')"
  using assms by (simp add: GetTranslationsByLanguage_def ParseFieldTranslationsMap_def entries_of_def)

text \<open>The parsed translations are nil for a column that holds a JSON null.\<close>

lemma ParseFieldTranslationsMap_nil:
  "mr_parsedTranslations m = None \<Longrightarrow> mr_FieldTranslations m = ''null'' \<Longrightarrow> um ''null'' = Inr None \<Longrightarrow>
    fst (ParseFieldTranslationsMap um m) = None"
  by (simp add: ParseFieldTranslationsMap_def)

end
