(* ===== verification/Db_Tx.thy ===== *)
theory Db_Tx
  imports Go_Prelude
begin

text \<open>
  Transactions, \<^verbatim>\<open>internal/infra/tx.go\<close>. A transaction carries the statements issued on it and its
  status; the driver's answers to begin, commit and rollback are arguments. The body \<open>fn\<close> gets the
  deadline of its context and the transaction, may issue statements on it or even end it, and
  returns a value, an error or a panic. The deferred function of \<open>WithTx\<close> is the last stage of the
  definition, as Go runs it.

  The context of the transaction may be done (timeout or cancelled caller) before the deferred
  function has committed. Package \<^verbatim>\<open>database/sql\<close> then rolls the transaction back in a goroutine of its
  own, before the deferred function looks at it or after (\<open>dr_Swept\<close>).
\<close>

section \<open>Transactions\<close>

datatype tx_status = TxOpen | TxCommitted | TxRolledBack | TxUnknown

record 's Tx =
  tx_status :: tx_status
  tx_work :: "'s list"

text \<open>The driver's answers; \<open>None\<close> is no error. \<open>dr_CtxDone\<close> is the error of the context if it is done when
  the deferred function runs.\<close>

record 'e driver =
  dr_Begin :: "'e option"
  dr_Commit :: "'e option"
  dr_Rollback :: "'e option"
  dr_CtxDone :: "'e option"
  dr_Swept :: bool

datatype 'e tx_error =
    NilDB | NilFn | BeginTx 'e | FnError 'e | CommitTx "'e tx_error" | DriverError 'e | ErrTxDone
  | RollbackFailed "'e tx_error" "'e tx_error"

datatype ('a, 'e, 'p) fn_outcome = FnOk 'a | FnErr 'e | FnPanic 'p

text \<open>\<open>Commit\<close> and \<open>Rollback\<close> of package \<^verbatim>\<open>database/sql\<close>: a transaction that has ended answers
  \<open>ErrTxDone\<close>. A failed commit leaves the outcome open.\<close>

definition tx_Rollback :: "'e driver \<Rightarrow> 's Tx \<Rightarrow> 'e tx_error option \<times> 's Tx" where
  "tx_Rollback dr tx = (if tx_status tx \<noteq> TxOpen then (Some ErrTxDone, tx) else
     case dr_Rollback dr of
       None \<Rightarrow> (None, tx\<lparr>tx_status := TxRolledBack\<rparr>)
     | Some e \<Rightarrow> (Some (DriverError e), tx\<lparr>tx_status := TxUnknown\<rparr>))"

text \<open>\<open>Commit\<close> first looks at the context; the transaction it then refuses is rolled back by the
  goroutine that waits for the context.\<close>

definition tx_Commit :: "'e driver \<Rightarrow> 's Tx \<Rightarrow> 'e tx_error option \<times> 's Tx" where
  "tx_Commit dr tx = (if tx_status tx \<noteq> TxOpen then (Some ErrTxDone, tx) else
     case dr_CtxDone dr of
       Some e \<Rightarrow> (Some (DriverError e), snd (tx_Rollback dr tx))
     | None \<Rightarrow> (case dr_Commit dr of
         None \<Rightarrow> (None, tx\<lparr>tx_status := TxCommitted\<rparr>)
       | Some e \<Rightarrow> (Some (DriverError e), tx\<lparr>tx_status := TxUnknown\<rparr>)))"

text \<open>That goroutine, when it runs before the deferred function.\<close>

definition tx_awaitDone :: "'e driver \<Rightarrow> 's Tx \<Rightarrow> 's Tx" where
  "tx_awaitDone dr tx = (if dr_CtxDone dr \<noteq> None \<and> dr_Swept dr then snd (tx_Rollback dr tx) else tx)"

definition rollbackQuietly :: "'e driver \<Rightarrow> 's Tx \<Rightarrow> 'e tx_error option \<times> 's Tx" where
  "rollbackQuietly dr tx = (case tx_Rollback dr tx of (rbErr, tx') \<Rightarrow>
     (if rbErr \<noteq> None \<and> rbErr \<noteq> Some ErrTxDone then rbErr else None, tx'))"

section \<open>WithTx\<close>

text \<open>The result is the value (\<open>None\<close> for the zero value) with the error, or the panic that goes
  on.\<close>

datatype ('a, 'e, 'p) tx_outcome = TxReturn "'a option" "'e tx_error option" | TxPanic 'p

text \<open>The deferred function.\<close>

definition tx_defer ::
  "'e driver \<Rightarrow> 's Tx \<Rightarrow> ('a, 'e, 'p) fn_outcome \<Rightarrow> ('a, 'e, 'p) tx_outcome \<times> 's Tx" where
  "tx_defer dr tx r = (case r of
     FnPanic p \<Rightarrow> (TxPanic p, snd (rollbackQuietly dr tx))
   | FnErr e \<Rightarrow> (case rollbackQuietly dr tx of
       (Some rbErr, tx') \<Rightarrow> (TxReturn None (Some (RollbackFailed (FnError e) rbErr)), tx')
     | (None, tx') \<Rightarrow> (TxReturn None (Some (FnError e)), tx'))
   | FnOk v \<Rightarrow> (case tx_Commit dr tx of
       (Some cErr, tx') \<Rightarrow> (TxReturn None (Some (CommitTx cErr)), tx')
     | (None, tx') \<Rightarrow> (TxReturn (Some v) None, tx')))"

text \<open>The whole of \<open>WithTx\<close>; the second component is the transaction as it is left, if one was begun.
  \<open>fn\<close> is \<open>None\<close> for a nil function.\<close>

definition WithTx ::
  "bool \<Rightarrow> int \<Rightarrow> 'e driver \<Rightarrow>
   (int option \<Rightarrow> 's Tx \<Rightarrow> ('a, 'e, 'p) fn_outcome \<times> 's Tx) option \<Rightarrow>
   ('a, 'e, 'p) tx_outcome \<times> 's Tx option" where
  "WithTx db_nil txTimeout dr fn =
    (if db_nil then (TxReturn None (Some NilDB), None) else
     case fn of None \<Rightarrow> (TxReturn None (Some NilFn), None) | Some fn \<Rightarrow>
       (case dr_Begin dr of
          Some e \<Rightarrow> (TxReturn None (Some (BeginTx e)), None)
        | None \<Rightarrow>
          let (r, tx) = fn (if txTimeout > 0 then Some txTimeout else None)
                \<lparr>tx_status = TxOpen, tx_work = []\<rparr>;
              (out, tx') = tx_defer dr (tx_awaitDone dr tx) r
          in (out, Some tx')))"

text \<open>\<open>Tx\<close>, the form without a result.\<close>

definition Tx_write ::
  "bool \<Rightarrow> int \<Rightarrow> 'e driver \<Rightarrow>
   (int option \<Rightarrow> 's Tx \<Rightarrow> (unit, 'e, 'p) fn_outcome \<times> 's Tx) option \<Rightarrow>
   ('e tx_error option + 'p) \<times> 's Tx option" where
  "Tx_write db_nil txTimeout dr fn = (case WithTx db_nil txTimeout dr fn of
     (TxReturn _ err, tx) \<Rightarrow> (Inl err, tx) | (TxPanic p, tx) \<Rightarrow> (Inr p, tx))"

section \<open>The contract\<close>

text \<open>C27: What \<open>WithTx\<close> does, for every body, driver and context. Without a database, a body or a
  successful begin it returns an error, no value and begins nothing. Otherwise the body has run on
  the transaction, with the timeout as its deadline if that is positive, and no transaction is left
  open. It returns without an error exactly if the body returned a value and left the transaction
  open, the context is not done and the driver confirmed the commit; the value is then the body's,
  and the transaction is committed. If the body fails, its error is returned, with the rollback's
  attached if that failed; if it panics, the panic goes on. In both cases, and if the context is
  done, a transaction that the body left open is rolled back (unless the driver fails to, which
  leaves its fate unknown) and never committed. If the commit fails, its error is returned and the
  fate of the transaction is unknown. A transaction that the body ended itself stays as it is, and a
  body that then returns a value gets an error.\<close>

theorem WithTx_contract:
  fixes fn :: "(int option \<Rightarrow> 's Tx \<Rightarrow> ('a, 'e, 'p) fn_outcome \<times> 's Tx) option"
  assumes "WithTx db_nil txTimeout dr fn = (out, began)"
  shows "(began = None \<longleftrightarrow> db_nil \<or> fn = None \<or> dr_Begin dr \<noteq> None)
    \<and> (began = None \<longrightarrow> (\<exists>e. out = TxReturn None (Some e)))
    \<and> (\<forall>tx'. began = Some tx' \<longrightarrow> (\<exists>r tx. the fn (if txTimeout > 0 then Some txTimeout else None)
            \<lparr>tx_status = TxOpen, tx_work = []\<rparr> = (r, tx)
        \<and> tx_work tx' = tx_work tx \<and> tx_status tx' \<noteq> TxOpen
        \<and> (\<forall>v. out = TxReturn v None \<longleftrightarrow> (\<exists>x. v = Some x \<and> r = FnOk x \<and> tx_status tx = TxOpen
              \<and> dr_CtxDone dr = None \<and> dr_Commit dr = None))
        \<and> (tx_status tx = TxOpen \<longrightarrow> (tx_status tx' = TxCommitted \<longleftrightarrow> (\<exists>v. out = TxReturn v None)))
        \<and> (\<forall>v e. out = TxReturn v (Some e) \<longrightarrow> v = None)
        \<and> (\<forall>p. out = TxPanic p \<longleftrightarrow> r = FnPanic p)
        \<and> (\<forall>e. r = FnErr e \<longrightarrow> out = TxReturn None (Some (FnError e))
            \<or> (\<exists>rb. dr_Rollback dr = Some rb \<and> out = TxReturn None (Some (RollbackFailed (FnError e) (DriverError rb)))))
        \<and> (tx_status tx = TxOpen \<and> ((\<forall>x. r \<noteq> FnOk x) \<or> dr_CtxDone dr \<noteq> None) \<longrightarrow>
            tx_status tx' = (if dr_Rollback dr = None then TxRolledBack else TxUnknown))
        \<and> (\<forall>x c. r = FnOk x \<and> tx_status tx = TxOpen \<and> dr_CtxDone dr = None \<and> dr_Commit dr = Some c \<longrightarrow>
            out = TxReturn None (Some (CommitTx (DriverError c))) \<and> tx_status tx' = TxUnknown)
        \<and> (tx_status tx \<noteq> TxOpen \<longrightarrow> tx_status tx' = tx_status tx
            \<and> (\<forall>x. r = FnOk x \<longrightarrow> out = TxReturn None (Some (CommitTx ErrTxDone))))))"
proof (cases "db_nil \<or> fn = None \<or> dr_Begin dr \<noteq> None")
  case True
  then have "began = None \<and> (\<exists>e. out = TxReturn None (Some e))"
    using assms by (cases db_nil; cases fn; cases "dr_Begin dr") (auto simp: WithTx_def)
  with True show ?thesis by simp
next
  case False
  then obtain f where f: "fn = Some f" by (cases fn) auto
  obtain r tx where b: "f (if txTimeout > 0 then Some txTimeout else None) \<lparr>tx_status = TxOpen, tx_work = []\<rparr> = (r, tx)"
    by fastforce
  obtain out' tx' where d: "tx_defer dr (tx_awaitDone dr tx) r = (out', tx')" by fastforce
  have w: "out = out'" "began = Some tx'" using assms False f b d by (auto simp: WithTx_def)
  note sem = tx_defer_def rollbackQuietly_def tx_Rollback_def tx_Commit_def tx_awaitDone_def
  show ?thesis
    unfolding w f option.sel b using False d
    by (cases r; cases "tx_status tx = TxOpen"; cases "dr_CtxDone dr"; cases "dr_Commit dr"; cases "dr_Rollback dr")
      (auto simp: sem split: if_splits)
qed

theorem WithTx_contract_witness:
  "\<exists>tx'. WithTx False 0 \<lparr>dr_Begin = None, dr_Commit = None, dr_Rollback = None, dr_CtxDone = Some (), dr_Swept = False\<rparr>
      (Some (\<lambda>d tx. (FnOk 7 :: (int, unit, unit) fn_outcome, tx\<lparr>tx_work := [''insert'']\<rparr>)))
      = (TxReturn None (Some (CommitTx (DriverError ()))), Some tx') \<and> tx_status tx' = TxRolledBack"
proof -
  let ?dr = "\<lparr>dr_Begin = None, dr_Commit = None, dr_Rollback = None, dr_CtxDone = Some (), dr_Swept = False\<rparr>"
  let ?fn = "Some (\<lambda>d tx. (FnOk 7 :: (int, unit, unit) fn_outcome, tx\<lparr>tx_work := [''insert'']\<rparr>))"
  obtain tx' where w: "WithTx False 0 ?dr ?fn = (TxReturn None (Some (CommitTx (DriverError ()))), Some tx')"
    by (simp add: WithTx_def tx_defer_def tx_Commit_def tx_awaitDone_def)
  from WithTx_contract [OF w] have "tx_status tx' = TxRolledBack" by auto
  with w show ?thesis by blast
qed

text \<open>A body that ends the transaction itself gets an error, although its work may be committed.\<close>

lemma WithTx_body_commits:
  assumes "dr_Begin dr = None" "dr_Commit dr = None" "dr_CtxDone dr = None"
  shows "\<exists>tx'. WithTx False t dr (Some (\<lambda>d tx. (FnOk v, snd (tx_Commit dr tx)))) =
    (TxReturn None (Some (CommitTx ErrTxDone)), Some tx') \<and> tx_status tx' = TxCommitted"
  using assms by (simp add: WithTx_def tx_defer_def tx_Commit_def tx_awaitDone_def)

end
