(* ===== verification/Sql_Null.thy ===== *)
theory Sql_Null
  imports Go_Value Go_Float
begin

text \<open>
  Conversions between nullable database columns and plain values, \<^verbatim>\<open>pkg/conv/db_field.go\<close>. A \<open>sql.NullT\<close> is
  a value with a flag; the value of an invalid one is kept, as in Go, though no conversion looks at
  it. A point in time is an abstract type with its zero, and \<open>Time.Format\<close> is an argument.

  Shown: writing a value and reading it back gives the value, for every type; but the constructors store
  the zero value as NULL, so that it reads back as the caller's default.
\<close>

record 'a Null =
  nl_Val :: 'a
  nl_Valid :: bool

text \<open>The common shape: the value of a valid column, else a default.\<close>

definition valid_or :: "'a \<Rightarrow> 'a Null \<Rightarrow> 'a" where
  "valid_or d n = (if nl_Valid n then nl_Val n else d)"

section \<open>Unwrapping\<close>

definition conv_String :: "string Null \<Rightarrow> string" where
  "conv_String ns = valid_or '''' ns"

definition conv_Int64 :: "64 word Null \<Rightarrow> 64 word" where
  "conv_Int64 ni = valid_or 0 ni"

text \<open>\<open>int\<close> has 64 bits.\<close>

definition conv_Int :: "64 word Null \<Rightarrow> 64 word" where
  "conv_Int ni = valid_or 0 ni"

definition conv_Time :: "'t \<Rightarrow> 't Null \<Rightarrow> 't" where
  "conv_Time zero_time nt = valid_or zero_time nt"

definition conv_Float64 :: "float64 Null \<Rightarrow> float64" where
  "conv_Float64 nf = valid_or (Fin False 0 0) nf"

definition conv_Bool :: "bool Null \<Rightarrow> bool" where
  "conv_Bool nb = valid_or False nb"

datatype pb_value = PbNull | PbString string

definition PBString :: "string Null \<Rightarrow> pb_value" where
  "PBString ns = (if nl_Valid ns \<and> nl_Val ns \<noteq> '''' then PbString (nl_Val ns) else PbNull)"

section \<open>Defaults\<close>

definition conv_NullString :: "string Null \<Rightarrow> string \<Rightarrow> string" where
  "conv_NullString ns defaultVal = valid_or defaultVal ns"

definition NullStringToString :: "string Null \<Rightarrow> string" where
  "NullStringToString ns = valid_or '''' ns"

definition conv_NullInt64 :: "64 word Null \<Rightarrow> 64 word \<Rightarrow> 64 word" where
  "conv_NullInt64 ni defaultVal = valid_or defaultVal ni"

definition conv_NullInt32 :: "32 word Null \<Rightarrow> 32 word \<Rightarrow> 32 word" where
  "conv_NullInt32 ni defaultVal = valid_or defaultVal ni"

definition conv_NullInt16 :: "16 word Null \<Rightarrow> 16 word \<Rightarrow> 16 word" where
  "conv_NullInt16 ni defaultVal = valid_or defaultVal ni"

definition conv_NullBool :: "bool Null \<Rightarrow> bool \<Rightarrow> bool" where
  "conv_NullBool nb defaultVal = valid_or defaultVal nb"

definition conv_NullTime :: "'t Null \<Rightarrow> 't \<Rightarrow> 't" where
  "conv_NullTime nt defaultTime = valid_or defaultTime nt"

section \<open>Wrapping\<close>

definition conv_StringPtr :: "string option \<Rightarrow> string Null" where
  "conv_StringPtr s = (case s of None \<Rightarrow> \<lparr>nl_Val = '''', nl_Valid = False\<rparr> | Some t \<Rightarrow> \<lparr>nl_Val = t, nl_Valid = True\<rparr>)"

definition NewNullString :: "string \<Rightarrow> string Null" where
  "NewNullString s = \<lparr>nl_Val = s, nl_Valid = (s \<noteq> '''')\<rparr>"

definition NewNullInt64 :: "64 word \<Rightarrow> 64 word Null" where
  "NewNullInt64 i = \<lparr>nl_Val = i, nl_Valid = (i \<noteq> 0)\<rparr>"

definition NewNullInt32 :: "32 word \<Rightarrow> 32 word Null" where
  "NewNullInt32 i = \<lparr>nl_Val = i, nl_Valid = (i \<noteq> 0)\<rparr>"

definition NewNullInt16 :: "16 word \<Rightarrow> 16 word Null" where
  "NewNullInt16 i = \<lparr>nl_Val = i, nl_Valid = (i \<noteq> 0)\<rparr>"

definition NewNullBool :: "bool \<Rightarrow> bool Null" where
  "NewNullBool b = \<lparr>nl_Val = b, nl_Valid = True\<rparr>"

text \<open>\<open>IsZero\<close> compares with the zero time.\<close>

definition NewNullTime :: "('t \<Rightarrow> bool) \<Rightarrow> 't \<Rightarrow> 't Null" where
  "NewNullTime IsZero t = \<lparr>nl_Val = t, nl_Valid = (\<not> IsZero t)\<rparr>"

section \<open>Formatting\<close>

definition default_layout :: string where
  "default_layout = ''2006-01-02 15:04:05''"

definition FormatNullTime :: "('t \<Rightarrow> string \<Rightarrow> string) \<Rightarrow> 't Null \<Rightarrow> string \<Rightarrow> string" where
  "FormatNullTime Format nt layout =
    (let inlayout = (if length layout > 0 then layout else default_layout) in
     if nl_Valid nt then Format (nl_Val nt) inlayout else '''')"

definition FromNullTime :: "('t \<Rightarrow> string \<Rightarrow> string) \<Rightarrow> 't Null \<Rightarrow> string" where
  "FromNullTime Format nt = (if nl_Valid nt then Format (nl_Val nt) default_layout else '''')"

section \<open>Reading back\<close>

lemmas null_defs = valid_or_def conv_String_def conv_Int64_def conv_Int_def conv_Time_def conv_Bool_def
  conv_NullString_def NullStringToString_def conv_NullInt64_def conv_NullInt32_def conv_NullInt16_def
  conv_NullBool_def conv_NullTime_def conv_StringPtr_def NewNullString_def NewNullInt64_def
  NewNullInt32_def NewNullInt16_def NewNullBool_def NewNullTime_def PBString_def FormatNullTime_def
  FromNullTime_def Let_def

text \<open>A value written through a constructor is read back by the unwrapping function of its type, and by the
  function with a default unless it is the zero value, which the constructors (but not those for
  booleans and pointers) turn into NULL: then the default is read.\<close>

theorem null_columns_roundtrip:
  fixes i :: "64 word" and j :: "32 word" and k :: "16 word" and t :: 't
  assumes "\<And>t. IsZero t \<longleftrightarrow> t = (zero_time :: 't)"
  shows "conv_String (NewNullString s) = s \<and> NullStringToString (NewNullString s) = s
    \<and> conv_Int64 (NewNullInt64 i) = i \<and> conv_Int (NewNullInt64 i) = i
    \<and> conv_Bool (NewNullBool b) = b \<and> conv_NullBool (NewNullBool b) b' = b
    \<and> conv_Time zero_time (NewNullTime IsZero t) = t
    \<and> conv_NullString (NewNullString s) s' = (if s = '''' then s' else s)
    \<and> conv_NullInt64 (NewNullInt64 i) i' = (if i = 0 then i' else i)
    \<and> conv_NullInt32 (NewNullInt32 j) j' = (if j = 0 then j' else j)
    \<and> conv_NullInt16 (NewNullInt16 k) k' = (if k = 0 then k' else k)
    \<and> conv_NullTime (NewNullTime IsZero t) t' = (if t = zero_time then t' else t)
    \<and> conv_NullString (conv_StringPtr (Some s)) s' = s \<and> conv_NullString (conv_StringPtr None) s' = s'"
  using assms by (simp add: null_defs)

text \<open>The two formatting functions agree on the default layout.\<close>

lemma FromNullTime_default: "FromNullTime Format nt = FormatNullTime Format nt ''''"
  by (simp add: null_defs)

text \<open>The protobuf form does not tell NULL from the empty text.\<close>

lemma PBString_null_iff: "PBString ns = PbNull \<longleftrightarrow> conv_String ns = ''''"
  by (auto simp: null_defs)

end
