(* ===== verification/Go_Duration.thy ===== *)
theory Go_Duration
  imports Go_Prelude Go_Unicode
begin

text \<open>
  \<open>time.Duration\<close> as an integer of nanoseconds: \<open>Round\<close> and \<open>String\<close> of package \<^verbatim>\<open>time\<close>. Shown: rounding moves a
  duration by at most half the unit.
\<close>

abbreviation Microsecond :: int where "Microsecond \<equiv> 1000"
abbreviation Millisecond :: int where "Millisecond \<equiv> 1000000"
abbreviation Second :: int where "Second \<equiv> 1000000000"

definition minDuration :: int where "minDuration = - (2 ^ 63)"
definition maxDuration :: int where "maxDuration = 2 ^ 63 - 1"

text \<open>The remainder of Go has the sign of the dividend.\<close>

definition go_rem :: "int \<Rightarrow> int \<Rightarrow> int" where
  "go_rem a b = sgn a * (\<bar>a\<bar> mod \<bar>b\<bar>)"

definition Duration_Round :: "int \<Rightarrow> int \<Rightarrow> int" where
  "Duration_Round d m =
    (if m \<le> 0 then d
     else let r = go_rem d m in
       if d < 0 then let r = - r in
         if 2 * r < m then wrap64 (d + r)
         else let d1 = wrap64 (wrap64 (d - m) + r) in if d1 < d then d1 else minDuration
       else if 2 * r < m then d - r
         else let d1 = wrap64 (wrap64 (d + m) - r) in if d1 > d then d1 else maxDuration)"

text \<open>\<open>fmtFrac\<close>: the last \<open>prec\<close> digits as a fraction without trailing zeros, nothing if it is zero.\<close>

definition pad_digits :: "nat \<Rightarrow> int \<Rightarrow> string" where
  "pad_digits prec v = (let ds = Itoa v in replicate (prec - length ds) CHR ''0'' @ ds)"

definition fmtFrac :: "int \<Rightarrow> nat \<Rightarrow> string" where
  "fmtFrac v prec = (let ds = rev (dropWhile (\<lambda>c. c = CHR ''0'') (rev (pad_digits prec (v mod 10 ^ prec))))
     in if v mod 10 ^ prec = 0 then [] else CHR ''.'' # ds)"

definition fmt_unit :: "int \<Rightarrow> nat \<Rightarrow> string \<Rightarrow> string" where
  "fmt_unit u prec unit_name = Itoa (u div 10 ^ prec) @ fmtFrac u prec @ unit_name"

definition Duration_String :: "int \<Rightarrow> string" where
  "Duration_String d =
    (let u = \<bar>d\<bar> in
     (if d < 0 then ''-'' else []) @
     (if u = 0 then ''0s''
      else if u < Microsecond then fmt_unit u 0 ''ns''
      else if u < Millisecond then fmt_unit u 3 (string_of_runes [0xB5] @ ''s'')
      else if u < Second then fmt_unit u 6 ''ms''
      else let secs = u div 10 ^ 9; mins = secs div 60; hours = mins div 60 in
        (if hours > 0 then Itoa hours @ ''h'' else []) @
        (if mins > 0 then Itoa (mins mod 60) @ ''m'' else []) @
        Itoa (secs mod 60) @ fmtFrac u 9 @ ''s''))"

lemma go_rem_eq: "0 < b \<Longrightarrow> go_rem a b = (if 0 \<le> a then a mod b else - ((- a) mod b))"
  by (auto simp: go_rem_def sgn_if)

theorem Duration_Round_near:
  assumes "0 < m" "\<bar>d\<bar> + 2 * m < 2 ^ 63"
  shows "m dvd Duration_Round d m \<and> 2 * \<bar>Duration_Round d m - d\<bar> \<le> m"
proof -
  let ?r = "\<bar>d\<bar> mod m"
  have r: "0 \<le> ?r" "?r < m" using assms(1) by simp_all
  have dv: "m dvd \<bar>d\<bar> - ?r" by (simp add: minus_mod_eq_mult_div)
  show ?thesis
  proof (cases "d < 0")
    case True
    then have rem: "go_rem d m = - ?r" by (simp add: go_rem_eq [OF assms(1)])
    have w: "wrap64 (d + ?r) = d + ?r" "wrap64 (d - m) = d - m" "wrap64 (d - m + ?r) = d - m + ?r"
      using True assms r by (auto simp: in_int64_def intro!: wrap64_id)
    have "d + ?r = - (\<bar>d\<bar> - ?r)" using True by simp
    then have dr: "m dvd d + ?r" using dv by (metis dvd_minus_iff)
    have e: "Duration_Round d m = (if 2 * ?r < m then d + ?r else d - m + ?r)"
      using True assms(1) r w by (simp add: Duration_Round_def Let_def rem)
    have "m dvd d - m + ?r" using dvd_diff [OF dr dvd_refl] by (simp add: algebra_simps)
    then show ?thesis using dr r unfolding e by auto
  next
    case False
    then have rem: "go_rem d m = ?r" by (simp add: go_rem_eq [OF assms(1)])
    have w: "wrap64 (d + m) = d + m" "wrap64 (d + m - ?r) = d + m - ?r"
      using False assms r by (auto simp: in_int64_def intro!: wrap64_id)
    have dr: "m dvd d - ?r" using dv False by simp
    have e: "Duration_Round d m = (if 2 * ?r < m then d - ?r else d + m - ?r)"
      using False assms(1) r w by (simp add: Duration_Round_def Let_def rem)
    have "m dvd d + m - ?r" using dvd_add [OF dr dvd_refl] by (simp add: algebra_simps)
    then show ?thesis using dr r unfolding e by auto
  qed
qed

lemma Duration_String_examples:
  "Duration_String 0 = ''0s''" "Duration_String (-1500000) = ''-1.5ms''" "Duration_String 5025000000000 = ''1h23m45s''"
  "Duration_String 2300000000 = ''2.3s''" "Duration_String 61001000000 = ''1m1.001s''"
  by code_simp+

end
