(* ===== verification/Report_Text.thy ===== *)
theory Report_Text
  imports Complex_Main Router Go_Duration
begin

text \<open>
  The two texts with rounded decimals: the report of a batch, \<open>Stats.Report\<close> of
  \<^verbatim>\<open>pkg/engine/statistics.go\<close>, and the metrics page, \<open>RuleHandler.Metrics\<close> of
  \<^verbatim>\<open>internal/handler/handler.go\<close>. \<open>FormatFixed\<close> is the verb \<^verbatim>\<open>%.nf\<close>, which rounds the exact binary value
  half to even.

  Shown: \<open>FormatFixed\<close> prints the nearest decimal; the gauges of the metrics page of a server are the number
  of rules that the list shows as enabled, the number of versions, no request in flight and 200 slots.
\<close>

section \<open>Fixed-point decimals\<close>

text \<open>The digits of the rounded value, in units of \<open>10^-n\<close>.\<close>

definition fixed_units :: "nat \<Rightarrow> int \<Rightarrow> int \<Rightarrow> int" where
  "fixed_units n m e = (if 0 \<le> e then m * 2 ^ nat e * 10 ^ n else round_half_even (m * 10 ^ n) (2 ^ nat (- e)))"

fun FormatFixed :: "nat \<Rightarrow> float64 \<Rightarrow> string" where
  "FormatFixed n NaN = ''NaN''"
| "FormatFixed n (Inf s) = (if s then ''-Inf'' else ''+Inf'')"
| "FormatFixed n (Fin s m e) = (let u = fixed_units n m e in
     (if s then ''-'' else []) @ Itoa (u div 10 ^ n) @ ''.'' @ pad_digits n (u mod 10 ^ n))"

section \<open>The report of a batch\<close>

abbreviation newline :: string where "newline \<equiv> [CHR 0x0A]"

definition Report :: "(float64 \<Rightarrow> int) \<Rightarrow> Stats \<Rightarrow> string" where
  "Report oor s =
     ''Worker='' @ Itoa (Workers s) @ newline @
     ''Total User='' @ comma (Users s) @ newline @
     ''Rule='' @ comma (Rules s) @ newline @
     ''Hit='' @ comma (Hits s) @ newline @
     ''Eval='' @ comma (Evaluations s) @ newline @
     ''Elapsed='' @ Duration_String (Duration_Round (Elapsed s) Millisecond) @ newline @
     ''TPS='' @ comma (trunc64 oor (TPS s)) @ newline @
     ''QPS='' @ comma (trunc64 oor (QPS s)) @ newline @
     ''Latency='' @ FormatFixed 3 (AvgLatencyMs s) @ ''ms'' @ newline @
     ''HitRate='' @ FormatFixed 4 (f64_mul (HitRate s) (float64_of_int 100)) @ ''%'' @ newline"

section \<open>The metrics page\<close>

definition metric_head :: "string \<Rightarrow> string \<Rightarrow> string" where
  "metric_head name help = ''# HELP '' @ name @ '' '' @ help @ newline @ ''# TYPE '' @ name @ '' gauge'' @ newline"

definition quote_mark :: string where
  "quote_mark = [CHR 0x22]"

definition quantile_line :: "string \<Rightarrow> float64 \<Rightarrow> string" where
  "quantile_line q p = ''rule_engine_match_latency_ms{quantile='' @ quote_mark @ q @ quote_mark @ ''} '' @ FormatFixed 3 p @ newline"

definition metrics_text :: "int \<Rightarrow> int \<Rightarrow> int \<Rightarrow> int \<Rightarrow> float64 \<times> float64 \<times> float64 \<times> nat \<Rightarrow> string" where
  "metrics_text nrules nversions inflight capacity percentiles = (case percentiles of (p50, p90, p99, n) \<Rightarrow>
     metric_head ''rule_engine_rules'' ''Number of active compiled rules.'' @ ''rule_engine_rules '' @ Itoa nrules @ newline @
     metric_head ''rule_engine_versions'' ''Number of published rule-set versions.'' @ ''rule_engine_versions '' @ Itoa nversions @ newline @
     metric_head ''rule_engine_inflight'' ''Users currently being judged.'' @ ''rule_engine_inflight '' @ Itoa inflight @ newline @
     metric_head ''rule_engine_max_concurrency'' ''Max concurrent users.'' @ ''rule_engine_max_concurrency '' @ Itoa capacity @ newline @
     metric_head ''rule_engine_match_latency_ms'' ''Online /match latency percentiles (recent window).'' @
     quantile_line ''0.5'' p50 @ quantile_line ''0.9'' p90 @ quantile_line ''0.99'' p99 @
     ''rule_engine_match_latency_samples '' @ Itoa (int n) @ newline)"

definition Metrics :: "(float64 \<Rightarrow> int) \<Rightarrow> ('e, 'c, 'q) RuleHandler \<Rightarrow> string" where
  "Metrics oor h = metrics_text (int (svc_RuleCount (svc h))) (int (VersionCount (svc h)))
     (int (InFlight (sem h))) (int (Cap (sem h))) (Percentiles oor (lat h))"

section \<open>Rounding\<close>

text \<open>The number a float stands for.\<close>

definition fin_real :: "int \<Rightarrow> int \<Rightarrow> real" where
  "fin_real m e = real_of_int m * 2 powi e"

lemma half_even_near: "0 < b \<Longrightarrow> 2 * \<bar>round_half_even a b * b - a\<bar> \<le> b"
proof -
  assume b: "0 < b"
  define d r where "d = a div b" and "r = a mod b"
  have r: "0 \<le> r" "r < b" using b by (simp_all add: r_def)
  have a: "a = d * b + r" by (simp add: d_def r_def)
  have "round_half_even a b = d \<and> 2 * r \<le> b \<or> round_half_even a b = d + 1 \<and> b \<le> 2 * r"
    by (auto simp: round_half_even_def Let_def d_def r_def)
  then have "round_half_even a b * b - a = - r \<and> 2 * r \<le> b \<or> round_half_even a b * b - a = b - r \<and> b \<le> 2 * r"
    by (auto simp: a algebra_simps)
  then show ?thesis using r by auto
qed

text \<open>The printed decimal is the nearest one: a finite non-negative mantissa prints as its sign, the whole
  part, a point and exactly \<open>n\<close> digits, of a number of units that differs from the value by at most
  half a unit.\<close>

theorem FormatFixed_nearest:
  assumes "0 \<le> m"
  shows "\<exists>u \<ge> 0. FormatFixed n (Fin s m e) = (if s then ''-'' else []) @ Itoa (u div 10 ^ n) @ ''.'' @ pad_digits n (u mod 10 ^ n)
    \<and> \<bar>real_of_int u - fin_real m e * 10 ^ n\<bar> \<le> 1 / 2"
proof -
  let ?u = "fixed_units n m e"
  have "\<bar>real_of_int ?u - fin_real m e * 10 ^ n\<bar> \<le> 1 / 2 \<and> 0 \<le> ?u"
  proof (cases "0 \<le> e")
    case True
    then have "fin_real m e * 10 ^ n = real_of_int ?u"
      by (simp add: fixed_units_def fin_real_def power_int_def)
    then show ?thesis using True assms by (simp add: fixed_units_def)
  next
    case False
    let ?b = "2 ^ nat (- e) :: int"
    have u: "?u = round_half_even (m * 10 ^ n) ?b" using False by (simp add: fixed_units_def)
    have "2 * \<bar>?u * ?b - m * 10 ^ n\<bar> \<le> ?b" unfolding u by (rule half_even_near) simp
    then have "real_of_int (2 * \<bar>?u * ?b - m * 10 ^ n\<bar>) \<le> real_of_int ?b" by (rule of_int_le_iff [THEN iffD2])
    then have "2 * \<bar>real_of_int ?u * real_of_int ?b - m * 10 ^ n\<bar> \<le> real_of_int ?b" by simp
    moreover have "real_of_int m = fin_real m e * real_of_int ?b"
      using False by (simp add: fin_real_def power_int_def field_simps)
    ultimately have "2 * \<bar>(real_of_int ?u - fin_real m e * 10 ^ n) * real_of_int ?b\<bar> \<le> real_of_int ?b"
      by (simp add: algebra_simps)
    then have "(2 * \<bar>real_of_int ?u - fin_real m e * 10 ^ n\<bar>) * real_of_int ?b \<le> 1 * real_of_int ?b"
      by (simp add: abs_mult)
    moreover have "0 < real_of_int ?b" by simp
    ultimately have "2 * \<bar>real_of_int ?u - fin_real m e * 10 ^ n\<bar> \<le> 1" by (rule mult_right_le_imp_le)
    then have "\<bar>real_of_int ?u - fin_real m e * 10 ^ n\<bar> \<le> 1 / 2" by simp
    moreover have "0 \<le> round_half_even (m * 10 ^ n) ?b"
      using assms by (auto simp: round_half_even_def Let_def pos_imp_zdiv_nonneg_iff)
    ultimately show ?thesis using u by simp
  qed
  then show ?thesis by (intro exI [of _ ?u]) (simp add: Let_def)
qed

text \<open>The sample of the project's documentation.\<close>

lemma Report_sample:
  "Report (\<lambda>_. 0) \<lparr>PerRule = [], Users = 10000, Rules = 10000, Workers = 32, Evaluations = 100000000, Hits = 356128,
     Elapsed = 4200000000\<rparr> =
   ''Worker=32'' @ newline @ ''Total User=10,000'' @ newline @ ''Rule=10,000'' @ newline @ ''Hit=356,128'' @ newline @
   ''Eval=100,000,000'' @ newline @ ''Elapsed=4.2s'' @ newline @ ''TPS=23,809,523'' @ newline @ ''QPS=2,380'' @ newline @
   ''Latency=0.420ms'' @ newline @ ''HitRate=0.3561%'' @ newline"
  by code_simp

section \<open>The page of a server\<close>

lemma rule_count_enabled:
  assumes "mgr_inv m"
  shows "RuleCount (eng m) = length (filter rEnabled (Manager_List m))"
proof -
  have "RuleCount (eng m) = length (Snapshot (cache (eng m)))"
    by (simp add: RuleCount_def cache_Len_def Snapshot_def)
  also have "\<dots> = size (filter_mset rEnabled (mset (sort_key rule_prio (Manager_List m))))"
    unfolding snapshot_programs [OF assms] length_map by (simp only: mset_filter [symmetric] size_mset)
  also have "\<dots> = size (filter_mset rEnabled (mset (Manager_List m)))" by simp
  finally show ?thesis by (simp only: mset_filter [symmetric] size_mset)
qed

text \<open>What the metrics page shows of a server that has answered any requests: the rules that the list shows as
  enabled, the published versions, no request in flight (the page itself aside) and the 200 slots.\<close>

theorem Metrics_of_server:
  assumes "server_reach b pm dc err_text gomaxprocs h"
  shows "Metrics oor h = metrics_text (int (length (filter rEnabled (h_RuleList h)))) (int (length (h_VersionList h)))
    0 200 (Percentiles oor (lat h))"
proof -
  have "mgr_inv (com_Manager (svc h))" "sem h = NewSemaphore (int MaxConcurrentUsers)"
    using server_reach_inv [OF assms] mgr_reach_inv by blast+
  then show ?thesis
    by (simp add: Metrics_def svc_RuleCount_def rule_count_enabled h_RuleList_def svc_List_def VersionCount_def h_VersionList_def
        svc_Versions_def InFlight_def Cap_def NewSemaphore_def MaxConcurrentUsers_def)
qed

end
