(* ===== verification/Log_Output.thy ===== *)
theory Log_Output
  imports Go_Strings Go_Value Go_Float Go_Duration
begin

text \<open>
  Logging, \<^verbatim>\<open>pkg/logs\<close>: the line an entry is encoded as (\<^verbatim>\<open>encoder.go\<close>), the entry points with their context
  fields (\<^verbatim>\<open>logs.go\<close>), and the two global loggers with their buffers from creation to \<open>Close\<close>
  (\<^verbatim>\<open>logger.go\<close>, \<^verbatim>\<open>writer.go\<close>). The formatting of \<open>fmt\<close>, the text of a time and of a \<open>float32\<close>, and the
  moments at which a buffer spills (it is full, or its timer fires) are arguments; zap's buffered
  writer keeps what is written in order and hands it on when it is synchronised or stopped.

  Shown: the lines of both logs reach their output complete and in order, at the latest with \<open>Close\<close>,
  after which nothing is written; \<open>trimmedFile\<close> keeps the last two segments of a path; an unsigned
  64-bit field above the signed range is printed negative.
\<close>

section \<open>encoder.go\<close>

datatype log_level = DebugLevel | InfoLevel | WarnLevel | ErrorLevel | DPanicLevel | PanicLevel | FatalLevel

fun CapitalString :: "log_level \<Rightarrow> string" where
  "CapitalString DebugLevel = ''DEBUG''"
| "CapitalString InfoLevel = ''INFO''"
| "CapitalString WarnLevel = ''WARN''"
| "CapitalString ErrorLevel = ''ERROR''"
| "CapitalString DPanicLevel = ''DPANIC''"
| "CapitalString PanicLevel = ''PANIC''"
| "CapitalString FatalLevel = ''FATAL''"

fun level_num :: "log_level \<Rightarrow> int" where
  "level_num DebugLevel = -1"
| "level_num InfoLevel = 0"
| "level_num WarnLevel = 1"
| "level_num ErrorLevel = 2"
| "level_num DPanicLevel = 3"
| "level_num PanicLevel = 4"
| "level_num FatalLevel = 5"

definition levelPadding :: "(string \<times> string) list" where
  "levelPadding = [(''DEBUG'', ''DEBUG''), (''INFO'', ''INFO ''), (''WARN'', ''WARN ''), (''ERROR'', ''ERROR''),
     (''DPANIC'', ''DPANIC''), (''PANIC'', ''PANIC''), (''FATAL'', ''FATAL'')]"

text \<open>
  A zap field. Integers of every width, durations and booleans are kept in one signed 64-bit
  number, so an unsigned one arrives reinterpreted; a value without text is a nil interface.
\<close>

datatype field_value =
    SkipField
  | StringField string
  | IntegerField "64 word"
  | Float32Field float64
  | Float64Field float64
  | BoolField "64 word"
  | DurationField "64 word"
  | StringerField "string option"
  | OtherField "string option"

record zap_field =
  zf_Key :: string
  zf_Value :: field_value

definition field_text :: "(float64 \<Rightarrow> string) \<Rightarrow> field_value \<Rightarrow> string" where
  "field_text float32_text v = (case v of
     SkipField \<Rightarrow> []
   | StringField s \<Rightarrow> s
   | IntegerField i \<Rightarrow> Itoa (sint i)
   | Float32Field f \<Rightarrow> float32_text f
   | Float64Field f \<Rightarrow> FormatFloat f
   | BoolField i \<Rightarrow> FormatBool (i \<noteq> 0)
   | DurationField i \<Rightarrow> Duration_String (sint i)
   | StringerField s \<Rightarrow> (case s of None \<Rightarrow> [] | Some t \<Rightarrow> t)
   | OtherField s \<Rightarrow> (case s of None \<Rightarrow> [] | Some t \<Rightarrow> t))"

text \<open>The loop, with the flag \<open>first\<close>.\<close>

fun encodeFields_loop :: "(float64 \<Rightarrow> string) \<Rightarrow> bool \<Rightarrow> zap_field list \<Rightarrow> string" where
  "encodeFields_loop t first [] = []"
| "encodeFields_loop t first (f # fs) =
    (if zf_Value f = SkipField then encodeFields_loop t first fs
     else (if first then [] else '', '') @ zf_Key f @ ''='' @ field_text t (zf_Value f) @ encodeFields_loop t False fs)"

definition encodeFields :: "(float64 \<Rightarrow> string) \<Rightarrow> zap_field list \<Rightarrow> string" where
  "encodeFields t fs = encodeFields_loop t True fs"

text \<open>\<open>strings.LastIndexByte\<close>.\<close>

definition LastIndexByte :: "string \<Rightarrow> char \<Rightarrow> int" where
  "LastIndexByte s c = int (length (dropWhile (\<lambda>x. x \<noteq> c) (rev s))) - 1"

definition trimmedFile :: "string \<Rightarrow> string" where
  "trimmedFile p = (let i = LastIndexByte p CHR ''/'' in
     if i < 0 then p
     else let i2 = LastIndexByte (take (nat i) p) CHR ''/'' in
       if i2 < 0 then p else drop (nat (i2 + 1)) p)"

record log_entry =
  le_Time :: string
  le_Level :: log_level
  le_File :: string
  le_Line :: int
  le_Message :: string
  le_Stack :: string

definition EncodeEntry :: "(float64 \<Rightarrow> string) \<Rightarrow> string \<Rightarrow> log_entry \<Rightarrow> zap_field list \<Rightarrow> string" where
  "EncodeEntry t serviceName ent fs =
    ''['' @ le_Time ent @ ''] ['' @ serviceName @ ''] ['' @
    (let levelStr = CapitalString (le_Level ent) in case map_of levelPadding levelStr of
       Some padded \<Rightarrow> padded
     | None \<Rightarrow> levelStr @ replicate (5 - length levelStr) CHR '' '') @
    ''] ['' @ trimmedFile (le_File ent) @ '':'' @ Itoa (le_Line ent) @ ''] - '' @ le_Message ent @
    (if length fs > 0 then '' | '' @ encodeFields t fs else []) @
    (if le_Stack ent \<noteq> [] then [CHR 0x0A] @ ''Stack trace:'' @ [CHR 0x0A] @ le_Stack ent else []) @ [CHR 0x0A]"

section \<open>logs.go: the message\<close>

text \<open>The values of a context that are strings.\<close>

type_synonym log_ctx = "string \<Rightarrow> string option"

definition appendContextFields :: "zap_field list \<Rightarrow> log_ctx \<Rightarrow> zap_field list" where
  "appendContextFields fs ctx =
    (let fs = (case ctx ''user_id'' of Some v \<Rightarrow> if v \<noteq> '''' then fs @ [\<lparr>zf_Key = ''user_id'', zf_Value = StringField v\<rparr>] else fs | None \<Rightarrow> fs)
     in case ctx ''trace_id'' of Some v \<Rightarrow> if v \<noteq> '''' then fs @ [\<lparr>zf_Key = ''trace_id'', zf_Value = StringField v\<rparr>] else fs | None \<Rightarrow> fs)"

datatype 'v log_arg = ArgField zap_field | ArgVal 'v

fun arg_fields :: "'v log_arg list \<Rightarrow> zap_field list" where
  "arg_fields [] = []"
| "arg_fields (ArgField f # as) = f # arg_fields as"
| "arg_fields (ArgVal v # as) = arg_fields as"

fun arg_vals :: "'v log_arg list \<Rightarrow> 'v list" where
  "arg_vals [] = []"
| "arg_vals (ArgField f # as) = arg_vals as"
| "arg_vals (ArgVal v # as) = v # arg_vals as"

definition formatMsg :: "(string \<Rightarrow> 'v list \<Rightarrow> string) \<Rightarrow> string \<Rightarrow> 'v log_arg list \<Rightarrow> string \<times> zap_field list" where
  "formatMsg Sprintf msg a =
    (if a = [] then (msg, [])
     else if arg_fields a = [] then (Sprintf msg (arg_vals a), [])
     else (Sprintf msg (arg_vals a), arg_fields a))"

text \<open>What is handed to the logger: message and fields.\<close>

definition log_payload :: "(string \<Rightarrow> 'v list \<Rightarrow> string) \<Rightarrow> log_ctx \<Rightarrow> string \<Rightarrow> 'v log_arg list \<Rightarrow> string \<times> zap_field list" where
  "log_payload Sprintf ctx msg a =
    (if a = [] then (msg, appendContextFields [] ctx)
     else let fs = appendContextFields [] ctx; (msg, extra) = formatMsg Sprintf msg a in (msg, fs @ extra))"

section \<open>logger.go and writer.go: creation\<close>

record log_Config =
  cf_Path :: string
  cf_PathBehavior :: string
  cf_Mode :: string
  cf_Level :: string
  cf_Name :: string
  cf_ServiceName :: string
  cf_KeepDays :: int
  cf_MaxSize :: int
  cf_MaxBackups :: int
  cf_BufferSize :: int
  cf_BufferFlushInterval :: int
  cf_Compress :: bool

record lumberjack =
  lj_Filename :: string
  lj_MaxSize :: int
  lj_MaxBackups :: int
  lj_MaxAge :: int
  lj_Compress :: bool

datatype log_target = Stdout | RotatingFile lumberjack

definition defaultInt :: "int \<Rightarrow> int \<Rightarrow> int" where
  "defaultInt val d = (if val \<le> 0 then d else val)"

definition newLumberjack :: "string \<Rightarrow> log_Config \<Rightarrow> lumberjack" where
  "newLumberjack filename cfg = \<lparr>lj_Filename = filename, lj_MaxSize = defaultInt (cf_MaxSize cfg) 500,
     lj_MaxBackups = defaultInt (cf_MaxBackups cfg) 7, lj_MaxAge = defaultInt (cf_KeepDays cfg) 5, lj_Compress = cf_Compress cfg\<rparr>"

text \<open>\<open>os.MkdirAll\<close> succeeds or fails; \<open>filepath.Join\<close> is an argument.\<close>

definition ensureLogDir :: "(string \<Rightarrow> bool) \<Rightarrow> string \<Rightarrow> bool" where
  "ensureLogDir MkdirAll d = (if d = '''' then False else MkdirAll d)"

definition getFileWriter :: "(string \<Rightarrow> bool) \<Rightarrow> (string \<Rightarrow> string \<Rightarrow> string) \<Rightarrow> log_Config \<Rightarrow> log_target list \<times> lumberjack option" where
  "getFileWriter MkdirAll JoinPath cfg =
    (if \<not> ensureLogDir MkdirAll (cf_Path cfg) then ([Stdout], None)
     else let lumber = newLumberjack (JoinPath (cf_Path cfg) (cf_Name cfg @ ''.log'')) cfg
       in ([RotatingFile lumber, Stdout], Some lumber))"

definition getBehaviorFileWriter ::
  "(string \<Rightarrow> bool) \<Rightarrow> (string \<Rightarrow> string \<Rightarrow> string) \<Rightarrow> log_Config \<Rightarrow> (log_target list \<times> lumberjack) option" where
  "getBehaviorFileWriter MkdirAll JoinPath cfg =
    (if cf_PathBehavior cfg = '''' \<or> \<not> ensureLogDir MkdirAll (cf_PathBehavior cfg) then None
     else let lumber = newLumberjack (JoinPath (cf_PathBehavior cfg) (cf_Name cfg @ ''-behavior.log'')) cfg
       in Some ([RotatingFile lumber], lumber))"

text \<open>The size of the buffer in bytes and the interval of its timer.\<close>

definition newBufferedWriteSyncer :: "log_Config \<Rightarrow> int \<times> int" where
  "newBufferedWriteSyncer cfg =
    (let size = wrap64 (wrap64 (cf_BufferSize cfg * 1024) * 1024); size = (if size \<le> 0 then 256 * 1024 else size);
       interval = wrap64 (cf_BufferFlushInterval cfg * Millisecond); interval = (if interval \<le> 0 then 5 * Second else interval)
     in (size, interval))"

definition parseLevel :: "(rune \<Rightarrow> rune) \<Rightarrow> string \<Rightarrow> log_level" where
  "parseLevel ulow level = (let l = ToLower ulow level in
     if l = ''debug'' then DebugLevel else if l = ''warn'' then WarnLevel
     else if l = ''error'' then ErrorLevel else InfoLevel)"

record Logger =
  lg_Targets :: "log_target list"
  lg_Lumber :: "lumberjack option"
  lg_Buffer :: "int \<times> int"
  lg_Level :: log_level
  lg_Service :: string

definition initBehaviorLogger ::
  "(rune \<Rightarrow> rune) \<Rightarrow> (string \<Rightarrow> bool) \<Rightarrow> (string \<Rightarrow> string \<Rightarrow> string) \<Rightarrow> log_Config \<Rightarrow> Logger option" where
  "initBehaviorLogger ulow MkdirAll JoinPath cfg =
    (if cf_PathBehavior cfg = '''' then None
     else case getBehaviorFileWriter MkdirAll JoinPath cfg of
       None \<Rightarrow> None
     | Some (targets, lumber) \<Rightarrow> Some \<lparr>lg_Targets = targets, lg_Lumber = Some lumber, lg_Buffer = newBufferedWriteSyncer cfg,
         lg_Level = parseLevel ulow (cf_Level cfg), lg_Service = cf_ServiceName cfg\<rparr>)"

text \<open>The main and the behaviour logger.\<close>

definition createLogger ::
  "(rune \<Rightarrow> rune) \<Rightarrow> (string \<Rightarrow> bool) \<Rightarrow> (string \<Rightarrow> string \<Rightarrow> string) \<Rightarrow> log_Config \<Rightarrow> Logger \<times> Logger option" where
  "createLogger ulow MkdirAll JoinPath cfg =
    (let (targets, lumber) = (if ToLower ulow (cf_Mode cfg) = ''file'' then getFileWriter MkdirAll JoinPath cfg else ([Stdout], None))
     in (\<lparr>lg_Targets = targets, lg_Lumber = lumber, lg_Buffer = newBufferedWriteSyncer cfg,
          lg_Level = parseLevel ulow (cf_Level cfg), lg_Service = cf_ServiceName cfg\<rparr>,
         initBehaviorLogger ulow MkdirAll JoinPath cfg))"

section \<open>The global loggers\<close>

text \<open>Each logger writes into a buffer before its output; both outlive the logger.\<close>

record log_channel =
  ch_Logger :: "Logger option"
  ch_Out :: string
  ch_Buf :: string

record log_state =
  gMain :: log_channel
  gBehavior :: log_channel

definition NewLogger :: "Logger \<times> Logger option \<Rightarrow> log_state" where
  "NewLogger ls = \<lparr>gMain = \<lparr>ch_Logger = Some (fst ls), ch_Out = [], ch_Buf = []\<rparr>,
     gBehavior = \<lparr>ch_Logger = snd ls, ch_Out = [], ch_Buf = []\<rparr>\<rparr>"

text \<open>The buffer hands its first \<open>n\<close> bytes on.\<close>

definition ch_spill :: "nat \<Rightarrow> log_channel \<Rightarrow> log_channel" where
  "ch_spill n c = c\<lparr>ch_Out := ch_Out c @ take n (ch_Buf c), ch_Buf := drop n (ch_Buf c)\<rparr>"

definition ch_sync :: "log_channel \<Rightarrow> log_channel" where
  "ch_sync c = ch_spill (length (ch_Buf c)) c"

text \<open>What a logger writes of an entry: nothing below its level.\<close>

definition log_line :: "(float64 \<Rightarrow> string) \<Rightarrow> Logger \<Rightarrow> log_entry \<Rightarrow> zap_field list \<Rightarrow> string" where
  "log_line t l ent fs = (if level_num (lg_Level l) \<le> level_num (le_Level ent) then EncodeEntry t (lg_Service l) ent fs else [])"

definition ch_write :: "(float64 \<Rightarrow> string) \<Rightarrow> nat \<Rightarrow> log_entry \<Rightarrow> zap_field list \<Rightarrow> log_channel \<Rightarrow> log_channel" where
  "ch_write t n ent fs c = (case ch_Logger c of
     None \<Rightarrow> c
   | Some l \<Rightarrow> ch_spill n (c\<lparr>ch_Buf := ch_Buf c @ log_line t l ent fs\<rparr>))"

text \<open>A call: level, context, message, arguments, time and caller; \<open>writeLog\<close> and \<open>behaviorLog\<close> know
  only some of the levels.\<close>

record 'v log_call =
  lc_Level :: log_level
  lc_Ctx :: log_ctx
  lc_Msg :: string
  lc_Args :: "'v log_arg list"
  lc_Time :: string
  lc_File :: string
  lc_Line :: int

definition call_entry :: "'v log_call \<Rightarrow> string \<Rightarrow> log_entry" where
  "call_entry c msg = \<lparr>le_Time = lc_Time c, le_Level = lc_Level c, le_File = lc_File c, le_Line = lc_Line c,
     le_Message = msg, le_Stack = []\<rparr>"

definition writeLog ::
  "(float64 \<Rightarrow> string) \<Rightarrow> (string \<Rightarrow> 'v list \<Rightarrow> string) \<Rightarrow> nat \<Rightarrow> 'v log_call \<Rightarrow> log_channel \<Rightarrow> log_channel" where
  "writeLog t Sprintf n c ch = (case ch_Logger ch of None \<Rightarrow> ch | Some l \<Rightarrow>
     (case log_payload Sprintf (lc_Ctx c) (lc_Msg c) (lc_Args c) of (msg, fs) \<Rightarrow>
        if lc_Level c \<in> {DebugLevel, InfoLevel, WarnLevel, ErrorLevel} then ch_write t n (call_entry c msg) fs ch else ch))"

definition behaviorLog :: "(float64 \<Rightarrow> string) \<Rightarrow> nat \<Rightarrow> 'v log_call \<Rightarrow> log_channel \<Rightarrow> log_channel" where
  "behaviorLog t n c ch = (case ch_Logger ch of None \<Rightarrow> ch | Some l \<Rightarrow>
     if lc_Level c \<in> {InfoLevel, WarnLevel, ErrorLevel} then ch_write t n (call_entry c (lc_Msg c)) [] ch else ch)"

definition Flush :: "log_state \<Rightarrow> log_state" where
  "Flush st = \<lparr>gMain = (case ch_Logger (gMain st) of None \<Rightarrow> gMain st | Some l \<Rightarrow> ch_sync (gMain st)),
     gBehavior = (case ch_Logger (gBehavior st) of None \<Rightarrow> gBehavior st | Some l \<Rightarrow> ch_sync (gBehavior st))\<rparr>"

definition ch_close :: "log_channel \<Rightarrow> log_channel" where
  "ch_close c = (case ch_Logger c of None \<Rightarrow> c | Some l \<Rightarrow> (ch_sync c)\<lparr>ch_Logger := None\<rparr>)"

definition Logs_Close :: "log_state \<Rightarrow> log_state" where
  "Logs_Close st = \<lparr>gMain = ch_close (gMain st), gBehavior = ch_close (gBehavior st)\<rparr>"

text \<open>The calls of the process and the timers of the buffers, in any order.\<close>

datatype 'v log_op =
    LogOp nat "'v log_call"
  | BehaviorOp nat "'v log_call"
  | TimerOp nat nat
  | FlushOp
  | CloseOp

definition run_log :: "(float64 \<Rightarrow> string) \<Rightarrow> (string \<Rightarrow> 'v list \<Rightarrow> string) \<Rightarrow> 'v log_op \<Rightarrow> log_state \<Rightarrow> log_state" where
  "run_log t Sprintf op st = (case op of
     LogOp n c \<Rightarrow> st\<lparr>gMain := writeLog t Sprintf n c (gMain st)\<rparr>
   | BehaviorOp n c \<Rightarrow> st\<lparr>gBehavior := behaviorLog t n c (gBehavior st)\<rparr>
   | TimerOp n k \<Rightarrow> st\<lparr>gMain := ch_spill n (gMain st), gBehavior := ch_spill k (gBehavior st)\<rparr>
   | FlushOp \<Rightarrow> Flush st
   | CloseOp \<Rightarrow> Logs_Close st)"

section \<open>Nothing is lost\<close>

text \<open>What the loggers owe for an operation.\<close>

definition main_due :: "(float64 \<Rightarrow> string) \<Rightarrow> (string \<Rightarrow> 'v list \<Rightarrow> string) \<Rightarrow> Logger \<Rightarrow> 'v log_op \<Rightarrow> string" where
  "main_due t Sprintf l op = (case op of
     LogOp n c \<Rightarrow> (if lc_Level c \<in> {DebugLevel, InfoLevel, WarnLevel, ErrorLevel} then
       (case log_payload Sprintf (lc_Ctx c) (lc_Msg c) (lc_Args c) of (msg, fs) \<Rightarrow> log_line t l (call_entry c msg) fs) else [])
   | _ \<Rightarrow> [])"

definition behavior_due :: "(float64 \<Rightarrow> string) \<Rightarrow> Logger option \<Rightarrow> 'v log_op \<Rightarrow> string" where
  "behavior_due t bl op = (case op of
     BehaviorOp n c \<Rightarrow> (case bl of None \<Rightarrow> [] | Some l \<Rightarrow>
       if lc_Level c \<in> {InfoLevel, WarnLevel, ErrorLevel} then log_line t l (call_entry c (lc_Msg c)) [] else [])
   | _ \<Rightarrow> [])"

lemma ch_spill_content [simp]:
  "ch_Out (ch_spill n c) @ ch_Buf (ch_spill n c) = ch_Out c @ ch_Buf c" "ch_Logger (ch_spill n c) = ch_Logger c"
  by (simp_all add: ch_spill_def)

lemma ch_sync_simps [simp]: "ch_Out (ch_sync c) = ch_Out c @ ch_Buf c" "ch_Buf (ch_sync c) = []" "ch_Logger (ch_sync c) = ch_Logger c"
  by (simp_all add: ch_sync_def ch_spill_def)

lemma ch_write_content:
  "ch_Logger c = Some l \<Longrightarrow> ch_Out (ch_write t n ent fs c) @ ch_Buf (ch_write t n ent fs c) = ch_Out c @ ch_Buf c @ log_line t l ent fs
    \<and> ch_Logger (ch_write t n ent fs c) = Some l"
  by (simp add: ch_write_def)

lemma run_log_content:
  assumes "op \<noteq> CloseOp" "ch_Logger (gMain st) = Some l" "ch_Logger (gBehavior st) = bl"
  shows "ch_Logger (gMain (run_log t Sprintf op st)) = Some l \<and> ch_Logger (gBehavior (run_log t Sprintf op st)) = bl
    \<and> ch_Out (gMain (run_log t Sprintf op st)) @ ch_Buf (gMain (run_log t Sprintf op st)) =
        ch_Out (gMain st) @ ch_Buf (gMain st) @ main_due t Sprintf l op
    \<and> ch_Out (gBehavior (run_log t Sprintf op st)) @ ch_Buf (gBehavior (run_log t Sprintf op st)) =
        ch_Out (gBehavior st) @ ch_Buf (gBehavior st) @ behavior_due t bl op"
proof (cases op)
  case (LogOp n c)
  then show ?thesis using assms ch_write_content [OF assms(2)]
    by (simp add: run_log_def writeLog_def main_due_def behavior_due_def split: prod.split)
next
  case (BehaviorOp n c)
  then show ?thesis using assms ch_write_content
    by (auto simp: run_log_def behaviorLog_def main_due_def behavior_due_def split: option.split)
qed (use assms in \<open>auto simp: run_log_def Flush_def main_due_def behavior_due_def split: option.split\<close>)

lemma run_logs_content:
  assumes "CloseOp \<notin> set ops" "ch_Logger (gMain st) = Some l" "ch_Logger (gBehavior st) = bl"
  shows "ch_Logger (gMain (fold (run_log t Sprintf) ops st)) = Some l \<and> ch_Logger (gBehavior (fold (run_log t Sprintf) ops st)) = bl
    \<and> ch_Out (gMain (fold (run_log t Sprintf) ops st)) @ ch_Buf (gMain (fold (run_log t Sprintf) ops st)) =
        ch_Out (gMain st) @ ch_Buf (gMain st) @ concat (map (main_due t Sprintf l) ops)
    \<and> ch_Out (gBehavior (fold (run_log t Sprintf) ops st)) @ ch_Buf (gBehavior (fold (run_log t Sprintf) ops st)) =
        ch_Out (gBehavior st) @ ch_Buf (gBehavior st) @ concat (map (behavior_due t bl) ops)"
  using assms
proof (induction ops arbitrary: st)
  case (Cons op ops)
  then have op: "op \<noteq> CloseOp" "CloseOp \<notin> set ops" by auto
  note r = run_log_content [OF op(1) Cons.prems(2,3), of t Sprintf]
  show ?case using Cons.IH [OF op(2), of "run_log t Sprintf op st"] r by (simp flip: append_assoc)
qed simp

lemma run_log_closed:
  assumes "ch_Logger (gMain st) = None" "ch_Logger (gBehavior st) = None" "ch_Buf (gMain st) = []" "ch_Buf (gBehavior st) = []"
  shows "run_log t Sprintf op st = st"
  using assms by (cases op) (simp_all add: run_log_def writeLog_def behaviorLog_def Flush_def Logs_Close_def ch_close_def ch_spill_def)

lemma run_logs_closed:
  "ch_Logger (gMain st) = None \<Longrightarrow> ch_Logger (gBehavior st) = None \<Longrightarrow> ch_Buf (gMain st) = [] \<Longrightarrow> ch_Buf (gBehavior st) = [] \<Longrightarrow>
    fold (run_log t Sprintf) ops st = st"
  by (induction ops) (simp_all add: run_log_closed)

text \<open>C29: No log line is lost or torn apart: whatever the calls, flushes and timers before \<open>Close\<close> and whatever comes
  after it, both outputs end up holding exactly the lines of the calls made before, each at or above
  the level of its logger, complete and in order, and the buffers are empty; calls after \<open>Close\<close> write
  nothing, and closing again changes nothing.\<close>

theorem logs_complete:
  assumes "CloseOp \<notin> set ops"
  shows "let st = fold (run_log t Sprintf) (ops @ CloseOp # later) (NewLogger (main, behavior)) in
    ch_Out (gMain st) = concat (map (main_due t Sprintf main) ops) \<and> ch_Buf (gMain st) = []
    \<and> ch_Out (gBehavior st) = concat (map (behavior_due t behavior) ops) \<and> ch_Buf (gBehavior st) = []"
proof -
  let ?s0 = "NewLogger (main, behavior)"
  let ?s1 = "fold (run_log t Sprintf) ops ?s0"
  let ?s2 = "run_log t Sprintf CloseOp ?s1"
  have n: "ch_Logger (gMain ?s0) = Some main" "ch_Logger (gBehavior ?s0) = behavior"
      "ch_Out (gMain ?s0) = []" "ch_Buf (gMain ?s0) = []" "ch_Out (gBehavior ?s0) = []" "ch_Buf (gBehavior ?s0) = []"
    by (simp_all add: NewLogger_def)
  note c = run_logs_content [OF assms n(1,2), of t Sprintf]
  have idle: "behavior = None \<Longrightarrow> ch_Out (gBehavior ?s1) @ ch_Buf (gBehavior ?s1) = []"
    using c n by (auto simp: behavior_due_def split: log_op.split)
  have s2: "ch_Logger (gMain ?s2) = None" "ch_Logger (gBehavior ?s2) = None" "ch_Buf (gMain ?s2) = []" "ch_Buf (gBehavior ?s2) = []"
      "ch_Out (gMain ?s2) = concat (map (main_due t Sprintf main) ops)"
      "ch_Out (gBehavior ?s2) = concat (map (behavior_due t behavior) ops)"
    using c n idle by (auto simp: run_log_def Logs_Close_def ch_close_def split: option.split)
  have "fold (run_log t Sprintf) later ?s2 = ?s2" by (rule run_logs_closed [OF s2(1-4)])
  then show ?thesis using s2 by simp
qed

theorem logs_complete_witness:
  "let l = \<lparr>lg_Targets = [Stdout], lg_Lumber = None, lg_Buffer = (1, 1), lg_Level = InfoLevel, lg_Service = ''api''\<rparr>;
     c = (\<lambda>level msg. \<lparr>lc_Level = level, lc_Ctx = Map.empty, lc_Msg = msg, lc_Args = [], lc_Time = ''10:00'', lc_File = ''/a/b/c.go'', lc_Line = 7\<rparr>)
   in ch_Out (gMain (fold (run_log (\<lambda>_. []) (\<lambda>s (vs :: unit list). s)) ([LogOp 3 (c DebugLevel ''no''), LogOp 9 (c WarnLevel ''yes'')] @ CloseOp #
        [LogOp 0 (c ErrorLevel ''late'')]) (NewLogger (l, None)))) =
     ''[10:00] [api] [WARN ] [b/c.go:7] - yes'' @ [CHR 0x0A]"
proof -
  let ?l = "\<lparr>lg_Targets = [Stdout], lg_Lumber = None, lg_Buffer = (1, 1), lg_Level = InfoLevel, lg_Service = ''api''\<rparr>"
  let ?c = "\<lambda>level msg. \<lparr>lc_Level = level, lc_Ctx = Map.empty, lc_Msg = msg, lc_Args = [] :: unit log_arg list, lc_Time = ''10:00'', lc_File = ''/a/b/c.go'', lc_Line = 7\<rparr>"
  let ?ops = "[LogOp 3 (?c DebugLevel ''no''), LogOp 9 (?c WarnLevel ''yes'')]"
  have "CloseOp \<notin> set ?ops" by simp
  note logs_complete [OF this, of "\<lambda>_. []" "\<lambda>s vs. s" "[LogOp 0 (?c ErrorLevel ''late'')]" ?l None, unfolded Let_def]
  moreover have "concat (map (main_due (\<lambda>_. []) (\<lambda>s vs. s) ?l) ?ops) = ''[10:00] [api] [WARN ] [b/c.go:7] - yes'' @ [CHR 0x0A]"
    by code_simp
  ultimately show ?thesis unfolding Let_def by simp
qed

section \<open>Files and numbers in a line\<close>

lemma LastIndexByte_absent: "c \<notin> set s \<Longrightarrow> LastIndexByte s c = -1"
proof -
  assume "c \<notin> set s"
  then have "dropWhile (\<lambda>x. x \<noteq> c) (rev s) = []" by (auto simp: dropWhile_eq_Nil_conv)
  then show ?thesis by (simp add: LastIndexByte_def)
qed

lemma LastIndexByte_last: "c \<notin> set b \<Longrightarrow> LastIndexByte (a @ c # b) c = int (length a)"
proof -
  assume "c \<notin> set b"
  then have "dropWhile (\<lambda>x. x \<noteq> c) (rev b @ c # rev a) = c # rev a" by (subst dropWhile_append2) auto
  then show ?thesis by (simp add: LastIndexByte_def)
qed

lemma Split_absent: "c \<notin> set b \<Longrightarrow> Split b c = [b]"
  by (induction b) auto

text \<open>The file of a log line is the last two segments of the path of the caller, and the whole path when it has no
  more than two.\<close>

theorem trimmedFile_segments:
  "trimmedFile p = (let segs = Split p CHR ''/'' in
     if length segs \<le> 2 then p else segs ! (length segs - 2) @ ''/'' @ last segs)"
proof (cases "CHR ''/'' \<in> set p")
  case False
  then show ?thesis by (simp add: trimmedFile_def LastIndexByte_absent Split_absent)
next
  case True
  then obtain a b where p: "p = a @ CHR ''/'' # b" "CHR ''/'' \<notin> set b" by (meson split_list_last)
  show ?thesis
  proof (cases "CHR ''/'' \<in> set a")
    case False
    then show ?thesis using p
      by (simp add: trimmedFile_def LastIndexByte_last LastIndexByte_absent Split_append Split_absent)
  next
    case True
    then obtain c d where a: "a = c @ CHR ''/'' # d" "CHR ''/'' \<notin> set d" by (meson split_list_last)
    have "Split p CHR ''/'' = Split c CHR ''/'' @ [d, b]" using p a by (simp add: Split_append Split_absent)
    moreover have "trimmedFile p = d @ ''/'' @ b"
      using LastIndexByte_last [OF p(2), of a] LastIndexByte_last [OF a(2), of c]
      by (simp add: trimmedFile_def p(1)) (simp add: a(1) nat_add_distrib)
    moreover have "0 < length (Split c CHR ''/'')" by simp
    ultimately show ?thesis by (simp add: Let_def nth_append del: length_greater_0_conv)
  qed
qed

text \<open>An unsigned 64-bit field outside the signed range is printed as a negative number.\<close>

theorem uint64_field_negative:
  fixes w :: "64 word"
  assumes "2 ^ 63 \<le> uint w"
  shows "field_text t (IntegerField w) = CHR ''-'' # Itoa (2 ^ 64 - uint w)"
proof -
  have u: "uint w = sint w mod 2 ^ 64" using uint_sint [of w] by (simp add: take_bit_eq_mod)
  have r: "- (2 ^ 63) \<le> sint w" "sint w < 2 ^ 63" using sint_ge [of w] sint_lt [of w] by simp_all
  have "sint w < 0"
  proof (rule ccontr)
    assume "\<not> sint w < 0"
    then have "sint w mod 2 ^ 64 = sint w" using r by (intro mod_pos_pos_trivial) auto
    then show False using u r assms by simp
  qed
  then have "sint w mod 2 ^ 64 = sint w + 2 ^ 64"
    using r mod_pos_pos_trivial [of "sint w + 2 ^ 64" "2 ^ 64"] by simp
  then have s: "sint w = uint w - 2 ^ 64" using u by simp
  have "uint w < 2 ^ 64" using uint_lt2p [of w] by simp
  then show ?thesis by (simp add: field_text_def s Itoa_def)
qed

section \<open>Fatal errors and panics\<close>

text \<open>How the process or the goroutine ends after the message.\<close>

datatype log_end = Exited int | PanickedWith string

definition log_error :: "(float64 \<Rightarrow> string) \<Rightarrow> (string \<Rightarrow> 'v list \<Rightarrow> string) \<Rightarrow> nat \<Rightarrow> 'v log_call \<Rightarrow> log_state \<Rightarrow> log_state" where
  "log_error t Sprintf n c st = st\<lparr>gMain := writeLog t Sprintf n (c\<lparr>lc_Level := ErrorLevel\<rparr>) (gMain st)\<rparr>"

definition log_Fatal where
  "log_Fatal t Sprintf n c st = (Exited 1, Flush (log_error t Sprintf n c st))"

text \<open>\<open>Fatalf\<close> and \<open>Panicf\<close> format first, and log the text without arguments; the \<open>ln\<close> variants use \<open>Sprintln\<close>.\<close>

definition log_Fatalf where
  "log_Fatalf t Sprintf n format vs c st =
    (Exited 1, Flush (log_error t Sprintf n (c\<lparr>lc_Msg := Sprintf format vs, lc_Args := []\<rparr>) st))"

definition log_Fatalln where
  "log_Fatalln t Sprintf Sprintln n vs c st =
    (Exited 1, Flush (log_error t Sprintf n (c\<lparr>lc_Msg := Sprintln vs, lc_Args := []\<rparr>) st))"

definition doPanic :: "string \<Rightarrow> log_state \<Rightarrow> log_end \<times> log_state" where
  "doPanic msg st = (PanickedWith msg, Flush st)"

definition log_Panic where
  "log_Panic t Sprintf n c st = doPanic (lc_Msg c) (log_error t Sprintf n c st)"

definition log_Panicf where
  "log_Panicf t Sprintf n format vs c st =
    (let msg = Sprintf format vs in doPanic msg (log_error t Sprintf n (c\<lparr>lc_Msg := msg, lc_Args := []\<rparr>) st))"

definition log_Panicln where
  "log_Panicln t Sprintf Sprintln n vs c st =
    (let msg = Sprintln vs in doPanic msg (log_error t Sprintf n (c\<lparr>lc_Msg := msg, lc_Args := []\<rparr>) st))"

text \<open>The methods of a \<open>Logger\<close>, which may be nil, write to it and flush it alone.\<close>

definition logAndExit ::
  "(float64 \<Rightarrow> string) \<Rightarrow> (string \<Rightarrow> 'v list \<Rightarrow> string) \<Rightarrow> nat \<Rightarrow> int \<Rightarrow> 'v log_call \<Rightarrow> log_channel \<Rightarrow> log_end \<times> log_channel" where
  "logAndExit t Sprintf n code c ch = (Exited code,
     (if ch_Logger ch = None then ch else ch_sync (writeLog t Sprintf n (c\<lparr>lc_Level := ErrorLevel\<rparr>) ch)))"

definition logAndPanic ::
  "(float64 \<Rightarrow> string) \<Rightarrow> (string \<Rightarrow> 'v list \<Rightarrow> string) \<Rightarrow> nat \<Rightarrow> 'v log_call \<Rightarrow> log_channel \<Rightarrow> log_end \<times> log_channel" where
  "logAndPanic t Sprintf n c ch = (PanickedWith (lc_Msg c),
     (if ch_Logger ch = None then ch else ch_sync (writeLog t Sprintf n (c\<lparr>lc_Level := ErrorLevel\<rparr>) ch)))"

lemma log_error_content:
  assumes "ch_Logger (gMain st) = Some l"
  shows "ch_Out (gMain (Flush (log_error t Sprintf n c st))) =
      ch_Out (gMain st) @ ch_Buf (gMain st) @ main_due t Sprintf l (LogOp n (c\<lparr>lc_Level := ErrorLevel\<rparr>))
    \<and> ch_Buf (gMain (Flush (log_error t Sprintf n c st))) = []"
  using run_log_content [of "LogOp n (c\<lparr>lc_Level := ErrorLevel\<rparr>)" st l "ch_Logger (gBehavior st)" t Sprintf] assms
  by (simp add: run_log_def log_error_def Flush_def)

text \<open>A fatal message and the message of a panic are in the output before the process ends, after everything
  that was logged before; only \<open>Panic\<close> panics with its format and not with the text it logged.\<close>

theorem fatal_is_written:
  assumes "ch_Logger (gMain st) = Some l"
  shows "let out = ch_Out (gMain st) @ ch_Buf (gMain st);
      err = c\<lparr>lc_Level := ErrorLevel\<rparr>;
      line = (\<lambda>msg. main_due t Sprintf l (LogOp n (err\<lparr>lc_Msg := msg, lc_Args := []\<rparr>)))
    in ch_Out (gMain (snd (log_Fatal t Sprintf n c st))) = out @ main_due t Sprintf l (LogOp n err)
     \<and> ch_Out (gMain (snd (log_Fatalf t Sprintf n format vs c st))) = out @ line (Sprintf format vs)
     \<and> ch_Out (gMain (snd (log_Panic t Sprintf n c st))) = out @ main_due t Sprintf l (LogOp n err)
     \<and> ch_Out (gMain (snd (log_Panicf t Sprintf n format vs c st))) = out @ line (Sprintf format vs)
     \<and> fst (log_Panic t Sprintf n c st) = PanickedWith (lc_Msg c)
     \<and> fst (log_Panicf t Sprintf n format vs c st) = PanickedWith (Sprintf format vs)"
  using log_error_content [OF assms, of t Sprintf n]
  by (simp add: Let_def log_Fatal_def log_Fatalf_def log_Panic_def log_Panicf_def doPanic_def) (cases c, simp)

end
