(* ===== verification/Datastores.thy ===== *)
theory Datastores
  imports Float_RoundTrip Go_Value Statistics Go_Duration "HOL-Library.Multiset"
begin

text \<open>
  The connections to Redis and Oracle, \<^verbatim>\<open>pkg/redis/config.go\<close> and \<^verbatim>\<open>pkg/oracle/config.go\<close>: opening clients,
  the monitors of their pools and closing. A client and a monitor are numbers; what the code does
  to them is a trace of events. Whether a client answers \<open>Ping\<close> is an argument, and so is the order
  in which a map is visited. A fatal error or a panic has no result.

  Shown: closing Redis stops every monitor before it closes any client, leaves nothing open and can be
  repeated, but does not know the clients of \<open>InitDBS\<close>; lookup finds exactly the configured databases;
  the counters of the monitor are the totals of the pool, except the one of stale connections,
  which adds up totals; and the default interval of the Oracle monitor overflows.
\<close>

section \<open>pkg/redis/config.go: clients\<close>

record redis_item =
  it_Db :: int
  it_PoolSize :: int
  it_Expiration :: int

record redis_Config =
  rc_MasterName :: string
  rc_Password :: string
  rc_Addr :: "string list"
  rc_Dbs :: "redis_item list"
  rc_Db :: int

record redis_Options =
  op_Addr :: string
  op_Password :: string
  op_DB :: int
  op_DialTimeout :: int
  op_ReadTimeout :: int
  op_WriteTimeout :: int
  op_PoolSize :: int
  op_MinIdleConns :: int
  op_PoolTimeout :: int
  op_ConnMaxIdleTime :: int
  op_MaxRetries :: int
  op_ConnMaxLifetime :: int

record redis_Failover = redis_Options +
  op_MasterName :: string
  op_SentinelAddrs :: "string list"

abbreviation Minute :: int where "Minute \<equiv> 60 * Second"
abbreviation Hour :: int where "Hour \<equiv> 3600 * Second"

text \<open>The first address is indexed; without addresses that panics.\<close>

definition newClientOptions :: "redis_Config \<Rightarrow> int \<Rightarrow> int \<Rightarrow> redis_Options option" where
  "newClientOptions r db poolSize = (case rc_Addr r of [] \<Rightarrow> None | addr # _ \<Rightarrow> Some
     \<lparr>op_Addr = addr, op_Password = rc_Password r, op_DB = db, op_DialTimeout = 10 * Second, op_ReadTimeout = 30 * Second,
      op_WriteTimeout = 30 * Second, op_PoolSize = poolSize, op_MinIdleConns = 10, op_PoolTimeout = 10 * Second,
      op_ConnMaxIdleTime = 30 * Minute, op_MaxRetries = 3, op_ConnMaxLifetime = Hour\<rparr>)"

text \<open>A failover client has no single address; the field is not set.\<close>

definition newFailoverOptions :: "redis_Config \<Rightarrow> int \<Rightarrow> int \<Rightarrow> redis_Failover" where
  "newFailoverOptions r db poolSize =
     \<lparr>op_Addr = [], op_Password = rc_Password r, op_DB = db, op_DialTimeout = 10 * Second, op_ReadTimeout = 30 * Second,
      op_WriteTimeout = 30 * Second, op_PoolSize = poolSize, op_MinIdleConns = 10, op_PoolTimeout = 10 * Second,
      op_ConnMaxIdleTime = 30 * Minute, op_MaxRetries = 3, op_ConnMaxLifetime = Hour,
      op_MasterName = rc_MasterName r, op_SentinelAddrs = rc_Addr r\<rparr>"

datatype client_options = SingleNode redis_Options | Sentinel redis_Failover

section \<open>pkg/redis/config.go: life cycle\<close>

datatype ds_event =
    Opened nat client_options
  | Started nat nat string int
  | Stopped nat
  | Closed nat

record RedisInstance =
  ri_Rdb :: nat
  ri_TTL :: int

text \<open>The package's variables, the monitors and the \<open>closeOnce\<close> of the configuration, and what happened.\<close>

record redis_state =
  rdb :: "nat option"
  rdbMap :: "(string \<times> nat) list"
  rdbMapWithTtl :: "(string \<times> RedisInstance) list"
  MapRedisMonitor :: "(string \<times> nat) list"
  closedOnce :: bool
  fresh :: nat
  trace :: "ds_event list"

definition redis_zero :: redis_state where
  "redis_zero = \<lparr>rdb = None, rdbMap = [], rdbMapWithTtl = [], MapRedisMonitor = [], closedOnce = False, fresh = 0, trace = []\<rparr>"

definition open_client :: "client_options \<Rightarrow> redis_state \<Rightarrow> nat \<times> redis_state" where
  "open_client opts st = (fresh st, st\<lparr>fresh := Suc (fresh st), trace := trace st @ [Opened (fresh st) opts]\<rparr>)"

definition startMonitor :: "string \<Rightarrow> nat \<Rightarrow> int \<Rightarrow> redis_state \<Rightarrow> nat \<times> redis_state" where
  "startMonitor desc client poolSize st =
    (fresh st, st\<lparr>fresh := Suc (fresh st), trace := trace st @ [Started (fresh st) client desc poolSize]\<rparr>)"

definition dbidx :: "int \<Rightarrow> string" where
  "dbidx db = ''dbidx:'' @ Itoa db"

definition redis_Init :: "(client_options \<Rightarrow> bool) \<Rightarrow> redis_Config \<Rightarrow> redis_state \<Rightarrow> redis_state option" where
  "redis_Init Ping r st = (case newClientOptions r (rc_Db r) 1000 of None \<Rightarrow> None | Some opts \<Rightarrow>
     (case open_client (SingleNode opts) st of (c, st) \<Rightarrow>
        if Ping (SingleNode opts) then Some (st\<lparr>rdb := Some c\<rparr>) else None))"

fun InitDBS_loop :: "(client_options \<Rightarrow> bool) \<Rightarrow> redis_Config \<Rightarrow> redis_item list \<Rightarrow> redis_state \<Rightarrow> redis_state option" where
  "InitDBS_loop Ping r [] st = Some st"
| "InitDBS_loop Ping r (item # items) st = (case newClientOptions r (it_Db item) 1000 of None \<Rightarrow> None | Some opts \<Rightarrow>
     (case open_client (SingleNode opts) st of (c, st) \<Rightarrow>
        if Ping (SingleNode opts)
        then InitDBS_loop Ping r items (st\<lparr>rdbMap := AList.update (dbidx (it_Db item)) c (rdbMap st)\<rparr>) else None))"

definition InitDBS :: "(client_options \<Rightarrow> bool) \<Rightarrow> redis_Config \<Rightarrow> redis_state \<Rightarrow> redis_state option" where
  "InitDBS Ping r st = InitDBS_loop Ping r (rc_Dbs r) (st\<lparr>rdbMap := []\<rparr>)"

text \<open>The common loop of \<open>InitDBSV2\<close> and \<open>InitSentinelDBS\<close>, which differ in the client they open.\<close>

fun init_instances ::
  "(int \<Rightarrow> int \<Rightarrow> client_options option) \<Rightarrow> (client_options \<Rightarrow> bool) \<Rightarrow> redis_item list \<Rightarrow> redis_state \<Rightarrow> redis_state option" where
  "init_instances mk Ping [] st = Some st"
| "init_instances mk Ping (item # items) st = (case mk (it_Db item) (it_PoolSize item) of None \<Rightarrow> None | Some opts \<Rightarrow>
     (case open_client opts st of (c, st) \<Rightarrow>
        if \<not> Ping opts then None
        else let key = dbidx (it_Db item);
               st = st\<lparr>rdbMapWithTtl := AList.update key \<lparr>ri_Rdb = c, ri_TTL = wrap64 (it_Expiration item * Second)\<rparr> (rdbMapWithTtl st)\<rparr>
          in case startMonitor (''redis-dbidx:'' @ Itoa (it_Db item) @ ''-pool'') c (it_PoolSize item) st of (m, st) \<Rightarrow>
               init_instances mk Ping items (st\<lparr>MapRedisMonitor := AList.update key m (MapRedisMonitor st)\<rparr>)))"

definition single_node :: "redis_Config \<Rightarrow> int \<Rightarrow> int \<Rightarrow> client_options option" where
  "single_node r db poolSize = map_option SingleNode (newClientOptions r db poolSize)"

definition sentinel_node :: "redis_Config \<Rightarrow> int \<Rightarrow> int \<Rightarrow> client_options option" where
  "sentinel_node r db poolSize = Some (Sentinel (newFailoverOptions r db poolSize))"

definition InitDBSV2 :: "(client_options \<Rightarrow> bool) \<Rightarrow> redis_Config \<Rightarrow> redis_state \<Rightarrow> redis_state option" where
  "InitDBSV2 Ping r st = init_instances (single_node r) Ping (rc_Dbs r) (st\<lparr>rdbMapWithTtl := [], MapRedisMonitor := []\<rparr>)"

definition InitSentinelDBS :: "(client_options \<Rightarrow> bool) \<Rightarrow> redis_Config \<Rightarrow> redis_state \<Rightarrow> redis_state option" where
  "InitSentinelDBS Ping r st = init_instances (sentinel_node r) Ping (rc_Dbs r) (st\<lparr>rdbMapWithTtl := [], MapRedisMonitor := []\<rparr>)"

text \<open>The error carries the key.\<close>

definition GetDbInstance :: "redis_state \<Rightarrow> int \<Rightarrow> string + RedisInstance" where
  "GetDbInstance st i = (case map_of (rdbMapWithTtl st) (dbidx i) of None \<Rightarrow> Inl (dbidx i) | Some inst \<Rightarrow> Inr inst)"

text \<open>\<open>Close\<close>: monitors are cancelled and waited for, then the clients are closed.\<close>

definition redis_Close :: "(string list \<Rightarrow> string list) \<Rightarrow> redis_state \<Rightarrow> redis_state" where
  "redis_Close order st =
    (if closedOnce st then st
     else st\<lparr>closedOnce := True, rdb := None, rdbMapWithTtl := [],
       trace := trace st
         @ map (\<lambda>k. Stopped (the (map_of (MapRedisMonitor st) k))) (order (map fst (MapRedisMonitor st)))
         @ map (\<lambda>k. Closed (ri_Rdb (the (map_of (rdbMapWithTtl st) k)))) (order (map fst (rdbMapWithTtl st)))
         @ (case rdb st of None \<Rightarrow> [] | Some c \<Rightarrow> [Closed c])\<rparr>)"

section \<open>What is open\<close>

definition open_clients :: "ds_event list \<Rightarrow> nat set" where
  "open_clients tr = {c. (\<exists>opts. Opened c opts \<in> set tr) \<and> Closed c \<notin> set tr}"

definition running_monitors :: "ds_event list \<Rightarrow> nat set" where
  "running_monitors tr = {m. (\<exists>c desc n. Started m c desc n \<in> set tr) \<and> Stopped m \<notin> set tr}"

lemma dec_digits_read: "0 \<le> n \<Longrightarrow> dec_val 0 (dec_digits n) = n \<and> list_all is_dec (dec_digits n)"
  using dec_digits_val [of n 0] by simp

lemma Itoa_inj: "Itoa a = Itoa b \<longleftrightarrow> a = b"
proof
  assume eq: "Itoa a = Itoa b"
  have m: "CHR ''-'' # ds \<noteq> dec_digits n" if "0 \<le> n" for ds n
  proof
    assume "CHR ''-'' # ds = dec_digits n"
    then have "list_all is_dec (CHR ''-'' # ds)" using dec_digits_read [OF that] by simp
    then show False by (simp add: is_dec_def)
  qed
  show "a = b"
  proof (cases "a < 0"; cases "b < 0")
    assume "a < 0" "b < 0"
    then have "dec_digits (- a) = dec_digits (- b)" "0 \<le> - a" "0 \<le> - b" using eq by (simp_all add: Itoa_def)
    then show ?thesis using dec_digits_read by (metis neg_equal_iff_equal)
  next
    assume "\<not> a < 0" "\<not> b < 0"
    then have "dec_digits a = dec_digits b" "0 \<le> a" "0 \<le> b" using eq by (simp_all add: Itoa_def)
    then show ?thesis using dec_digits_read by metis
  qed (use eq m in \<open>auto simp: Itoa_def\<close>, metis m not_less)
qed simp

lemma dbidx_inj [simp]: "dbidx a = dbidx b \<longleftrightarrow> a = b"
  by (simp add: dbidx_def Itoa_inj)

text \<open>Every client and monitor in the trace is an old number, what is open is what the variables hold,
  and nothing is held twice.\<close>

definition held_clients :: "redis_state \<Rightarrow> nat list" where
  "held_clients st = map (\<lambda>(k, i). ri_Rdb i) (rdbMapWithTtl st) @ (case rdb st of None \<Rightarrow> [] | Some c \<Rightarrow> [c])"

fun event_id :: "ds_event \<Rightarrow> nat" where
  "event_id (Opened c opts) = c"
| "event_id (Started m c desc n) = m"
| "event_id (Stopped m) = m"
| "event_id (Closed c) = c"

definition redis_inv :: "redis_state \<Rightarrow> bool" where
  "redis_inv st \<longleftrightarrow> (\<forall>e \<in> set (trace st). event_id e < fresh st) \<and> \<not> closedOnce st
    \<and> open_clients (trace st) = set (held_clients st) \<and> running_monitors (trace st) = snd ` set (MapRedisMonitor st)
    \<and> distinct (held_clients st) \<and> (\<forall>c \<in> set (held_clients st). c < fresh st)
    \<and> distinct (map snd (MapRedisMonitor st)) \<and> (\<forall>m \<in> snd ` set (MapRedisMonitor st). m < fresh st)
    \<and> distinct (map fst (rdbMapWithTtl st)) \<and> map fst (MapRedisMonitor st) = map fst (rdbMapWithTtl st)"

lemma update_fresh_key: "k \<notin> fst ` set l \<Longrightarrow> AList.update k v l = l @ [(k, v)]"
  by (induction l) auto

lemma opened_trace:
  assumes "\<forall>e \<in> set tr. event_id e < n"
  shows "open_clients (tr @ [Opened n opts]) = insert n (open_clients tr)"
    "running_monitors (tr @ [Opened n opts]) = running_monitors tr"
    "open_clients (tr @ [Started n c desc k]) = open_clients tr"
    "running_monitors (tr @ [Started n c desc k]) = insert n (running_monitors tr)"
proof -
  have "Closed n \<notin> set tr" "Stopped n \<notin> set tr" using assms by force+
  then show "open_clients (tr @ [Opened n opts]) = insert n (open_clients tr)"
    "running_monitors (tr @ [Opened n opts]) = running_monitors tr"
    "open_clients (tr @ [Started n c desc k]) = open_clients tr"
    "running_monitors (tr @ [Started n c desc k]) = insert n (running_monitors tr)"
    by (auto simp: open_clients_def running_monitors_def)
qed

lemma redis_zero_inv: "redis_inv redis_zero"
  by (simp add: redis_inv_def redis_zero_def held_clients_def open_clients_def running_monitors_def)

lemma redis_Init_inv:
  assumes "redis_Init Ping r st = Some st'" "redis_inv st" "rdb st = None" "rdbMapWithTtl st = []"
  shows "redis_inv st' \<and> rdbMapWithTtl st' = [] \<and> MapRedisMonitor st' = MapRedisMonitor st"
  using assms opened_trace [of "trace st" "fresh st"]
  by (auto simp: redis_Init_def open_client_def redis_inv_def held_clients_def split: option.splits if_splits) (meson less_SucI)

text \<open>One round of the loop.\<close>

definition add_instance :: "client_options \<Rightarrow> redis_item \<Rightarrow> redis_state \<Rightarrow> redis_state" where
  "add_instance opts item st = st\<lparr>fresh := fresh st + 2,
     rdbMapWithTtl := AList.update (dbidx (it_Db item)) \<lparr>ri_Rdb = fresh st, ri_TTL = wrap64 (it_Expiration item * Second)\<rparr> (rdbMapWithTtl st),
     MapRedisMonitor := AList.update (dbidx (it_Db item)) (Suc (fresh st)) (MapRedisMonitor st),
     trace := trace st @ [Opened (fresh st) opts,
       Started (Suc (fresh st)) (fresh st) (''redis-dbidx:'' @ Itoa (it_Db item) @ ''-pool'') (it_PoolSize item)]\<rparr>"

lemma init_instances_step:
  "init_instances mk Ping (item # items) st = (case mk (it_Db item) (it_PoolSize item) of None \<Rightarrow> None
   | Some opts \<Rightarrow> if Ping opts then init_instances mk Ping items (add_instance opts item st) else None)"
  by (cases st) (simp add: open_client_def startMonitor_def add_instance_def Let_def split: option.split)

lemma add_instance_inv:
  assumes inv: "redis_inv st" and new: "dbidx (it_Db item) \<notin> fst ` set (rdbMapWithTtl st)"
  shows "redis_inv (add_instance opts item st)"
proof -
  let ?n = "fresh st" and ?k = "dbidx (it_Db item)"
  have old: "\<forall>e \<in> set (trace st). event_id e < ?n" using inv by (simp add: redis_inv_def)
  then have "\<forall>e \<in> set (trace st @ [Opened ?n opts]). event_id e < Suc ?n" by (auto intro: less_SucI)
  note tr = opened_trace(1,2) [OF old, of opts] opened_trace(3,4) [OF this]
  have "set (map fst (MapRedisMonitor st)) = set (map fst (rdbMapWithTtl st))" using inv by (simp add: redis_inv_def)
  then have mon: "?k \<notin> fst ` set (MapRedisMonitor st)" using new by simp
  have upd: "AList.update ?k v (rdbMapWithTtl st) = rdbMapWithTtl st @ [(?k, v)]"
      "AList.update ?k w (MapRedisMonitor st) = MapRedisMonitor st @ [(?k, w)]" for v w
    using update_fresh_key new mon by metis+
  have held: "set (held_clients (add_instance opts item st)) = insert ?n (set (held_clients st))"
      "distinct (held_clients (add_instance opts item st))"
    using inv by (auto simp: held_clients_def add_instance_def upd redis_inv_def split: option.splits)
  have t: "trace (add_instance opts item st) = (trace st @ [Opened ?n opts])
      @ [Started (Suc ?n) ?n (''redis-dbidx:'' @ Itoa (it_Db item) @ ''-pool'') (it_PoolSize item)]"
    by (simp add: add_instance_def)
  have o: "open_clients (trace (add_instance opts item st)) = set (held_clients (add_instance opts item st))"
    unfolding t held(1) using tr inv by (simp add: redis_inv_def)
  have m: "running_monitors (trace (add_instance opts item st)) = snd ` set (MapRedisMonitor (add_instance opts item st))"
    unfolding t using tr inv by (simp add: redis_inv_def) (simp add: add_instance_def upd)
  have "\<forall>e \<in> set (trace (add_instance opts item st)). event_id e < fresh (add_instance opts item st)"
    using old by (auto simp: add_instance_def intro: less_SucI)
  moreover have "\<not> closedOnce (add_instance opts item st)" using inv by (simp add: redis_inv_def add_instance_def)
  moreover have "\<forall>c \<in> set (held_clients (add_instance opts item st)). c < fresh (add_instance opts item st)"
    unfolding held(1) using inv by (auto simp: redis_inv_def add_instance_def intro: less_SucI)
  moreover have "distinct (map snd (MapRedisMonitor (add_instance opts item st)))"
      "\<forall>m \<in> snd ` set (MapRedisMonitor (add_instance opts item st)). m < fresh (add_instance opts item st)"
    using inv by (force simp: redis_inv_def add_instance_def upd intro: less_SucI)+
  moreover have "distinct (map fst (rdbMapWithTtl (add_instance opts item st)))"
      "map fst (MapRedisMonitor (add_instance opts item st)) = map fst (rdbMapWithTtl (add_instance opts item st))"
    using inv new by (simp_all add: redis_inv_def add_instance_def upd)
  ultimately show ?thesis using o m held(2) by (simp add: redis_inv_def)
qed

lemma add_instance_keys:
  "dbidx (it_Db item) \<notin> fst ` set (rdbMapWithTtl st) \<Longrightarrow> rdbMapWithTtl (add_instance opts item st) =
    rdbMapWithTtl st @ [(dbidx (it_Db item), \<lparr>ri_Rdb = fresh st, ri_TTL = wrap64 (it_Expiration item * Second)\<rparr>)]"
  by (simp add: add_instance_def update_fresh_key)

lemma init_instances_inv:
  assumes "init_instances mk Ping items st = Some st'" "redis_inv st" "distinct (map it_Db items)"
    and "\<forall>item \<in> set items. dbidx (it_Db item) \<notin> fst ` set (rdbMapWithTtl st)"
  shows "redis_inv st' \<and> (\<exists>l. rdbMapWithTtl st' = rdbMapWithTtl st @ l
    \<and> map (\<lambda>(k, i). (k, ri_TTL i)) l = map (\<lambda>item. (dbidx (it_Db item), wrap64 (it_Expiration item * Second))) items)"
  using assms
proof (induction items arbitrary: st)
  case (Cons item items)
  then obtain opts where run: "init_instances mk Ping items (add_instance opts item st) = Some st'"
    unfolding init_instances_step by (auto split: option.splits if_splits)
  have new: "dbidx (it_Db item) \<notin> fst ` set (rdbMapWithTtl st)" using Cons.prems(4) by simp
  note keys = add_instance_keys [OF new, of opts]
  have "\<forall>item' \<in> set items. dbidx (it_Db item') \<notin> fst ` set (rdbMapWithTtl (add_instance opts item st))"
    using Cons.prems(3,4) unfolding keys by (auto simp: image_iff)
  from Cons.IH [OF run add_instance_inv [OF Cons.prems(2) new] _ this] Cons.prems(3)
  show ?case unfolding keys by auto
qed simp

section \<open>Closing Redis\<close>

lemma map_of_keys: "distinct (map fst l) \<Longrightarrow> map (\<lambda>k. f (the (map_of l k))) (map fst l) = map (\<lambda>(k, v). f v) l"
  unfolding map_map comp_def by (rule map_cong) auto

lemma visit_keys:
  assumes "distinct (map fst l)" "mset (order (map fst l)) = mset (map fst l)"
  shows "mset (map (\<lambda>k. f (the (map_of l k))) (order (map fst l))) = mset (map (\<lambda>(k, v). f v) l)"
  using map_of_keys [OF assms(1), of f] assms(2) by (metis mset_map)

lemma redis_Close_trace:
  assumes "redis_inv st" "\<And>ks. mset (order ks) = mset ks"
  shows "\<exists>ms cs. trace (redis_Close order st) = trace st @ map Stopped ms @ map Closed cs
    \<and> mset ms = mset (map snd (MapRedisMonitor st)) \<and> mset cs = mset (held_clients st)"
proof -
  let ?ms = "map (\<lambda>k. the (map_of (MapRedisMonitor st) k)) (order (map fst (MapRedisMonitor st)))"
  let ?ks = "map (\<lambda>k. ri_Rdb (the (map_of (rdbMapWithTtl st) k))) (order (map fst (rdbMapWithTtl st)))"
  let ?cs = "?ks @ (case rdb st of None \<Rightarrow> [] | Some c \<Rightarrow> [c])"
  have d: "distinct (map fst (rdbMapWithTtl st))" "distinct (map fst (MapRedisMonitor st))" "\<not> closedOnce st"
    using assms(1) by (auto simp: redis_inv_def)
  have "mset ?ms = mset (map snd (MapRedisMonitor st))"
    using visit_keys [where order = order, OF d(2) assms(2), of "\<lambda>x. x"] by (simp add: split_def)
  moreover have "mset ?cs = mset (held_clients st)"
    using visit_keys [where order = order, OF d(1) assms(2), of ri_Rdb] by (simp add: held_clients_def split_def)
  moreover have "trace (redis_Close order st) = trace st @ map Stopped ?ms @ map Closed ?cs"
    using d(3) by (simp add: redis_Close_def comp_def split: option.split)
  ultimately show ?thesis by blast
qed

text \<open>A fresh configuration, with or without the default client.\<close>

definition redis_started :: "(client_options \<Rightarrow> bool) \<Rightarrow> redis_Config \<Rightarrow> redis_state \<Rightarrow> bool" where
  "redis_started Ping r st \<longleftrightarrow> st = redis_zero \<or> redis_Init Ping r redis_zero = Some st"

lemma redis_started_inv: "redis_started Ping r st \<Longrightarrow> redis_inv st \<and> rdbMapWithTtl st = [] \<and> MapRedisMonitor st = []"
  using redis_Init_inv [OF _ redis_zero_inv] redis_zero_inv by (auto simp: redis_started_def redis_zero_def)

definition init_all :: "bool \<Rightarrow> (client_options \<Rightarrow> bool) \<Rightarrow> redis_Config \<Rightarrow> redis_state \<Rightarrow> redis_state option" where
  "init_all sentinel Ping r = (if sentinel then InitSentinelDBS Ping r else InitDBSV2 Ping r)"

lemma init_all_inv:
  assumes "redis_started Ping r st" "init_all sentinel Ping r st = Some st'" "distinct (map it_Db (rc_Dbs r))"
  shows "redis_inv st' \<and> map (\<lambda>(k, i). (k, ri_TTL i)) (rdbMapWithTtl st') =
    map (\<lambda>item. (dbidx (it_Db item), wrap64 (it_Expiration item * Second))) (rc_Dbs r)"
proof -
  have st: "redis_inv st" "rdbMapWithTtl st = []" "MapRedisMonitor st = []" using redis_started_inv [OF assms(1)] by auto
  then have "st\<lparr>rdbMapWithTtl := [], MapRedisMonitor := []\<rparr> = st" by (cases st) simp
  then obtain mk where "init_instances mk Ping (rc_Dbs r) st = Some st'"
    using assms(2) by (auto simp: init_all_def InitSentinelDBS_def InitDBSV2_def split: if_splits)
  from init_instances_inv [OF this st(1) assms(3)] st(2) show ?thesis by auto
qed

text \<open>C30: Closing the Redis configuration releases everything that the start-up paths of an application opened: starting
  from the zero configuration or from one \<open>Init\<close> call, after \<open>InitDBSV2\<close> (single nodes) or \<open>InitSentinelDBS\<close>
  (sentinels) has succeeded on a configuration whose database numbers are distinct, every
  monitor is stopped, and only then every client is closed, each exactly once and in whatever order the
  maps are visited; nothing stays open or running, and closing again does nothing. (The clients of \<open>InitDBS\<close> are outside this
  claim: \<open>InitDBS_leaks\<close>.)\<close>

theorem redis_Close_releases:
  assumes "redis_started Ping r st0" "init_all sentinel Ping r st0 = Some st" "distinct (map it_Db (rc_Dbs r))"
    and "\<And>ks. mset (order ks) = mset ks"
  shows "let st' = redis_Close order st in
    open_clients (trace st') = {} \<and> running_monitors (trace st') = {} \<and> redis_Close order st' = st'
    \<and> (\<exists>ms cs. trace st' = trace st @ map Stopped ms @ map Closed cs \<and> distinct ms \<and> distinct cs)"
proof -
  have inv: "redis_inv st" using init_all_inv [OF assms(1-3)] by simp
  obtain ms cs where t: "trace (redis_Close order st) = trace st @ map Stopped ms @ map Closed cs"
      "mset ms = mset (map snd (MapRedisMonitor st))" "mset cs = mset (held_clients st)"
    using redis_Close_trace [OF inv assms(4)] by blast
  have sets: "set ms = snd ` set (MapRedisMonitor st)" "set cs = set (held_clients st)"
    using mset_eq_setD [OF t(2)] mset_eq_setD [OF t(3)] by simp_all
  have "distinct ms" "distinct cs" using inv t(2,3) by (metis mset_eq_imp_distinct_iff redis_inv_def)+
  moreover have "open_clients (trace st @ map Stopped ms @ map Closed cs) = open_clients (trace st) - set cs"
      "running_monitors (trace st @ map Stopped ms @ map Closed cs) = running_monitors (trace st) - set ms"
    by (auto simp: open_clients_def running_monitors_def)
  then have "open_clients (trace (redis_Close order st)) = {}" "running_monitors (trace (redis_Close order st)) = {}"
    unfolding t(1) using inv sets by (simp_all add: redis_inv_def)
  moreover have "redis_Close order (redis_Close order st) = redis_Close order st" by (simp add: redis_Close_def)
  ultimately show ?thesis using t(1) by (auto simp: Let_def)
qed

definition demo_redis :: redis_Config where
  "demo_redis = \<lparr>rc_MasterName = '''', rc_Password = '''', rc_Addr = [''10.0.0.5:6379''],
     rc_Dbs = [\<lparr>it_Db = 0, it_PoolSize = 10, it_Expiration = 60\<rparr>, \<lparr>it_Db = 3, it_PoolSize = 20, it_Expiration = 0\<rparr>], rc_Db = 0\<rparr>"

theorem redis_Close_releases_witness:
  "\<exists>st. init_all False (\<lambda>_. True) demo_redis redis_zero = Some st \<and> open_clients (trace (redis_Close rev st)) = {}"
proof -
  obtain st where st: "init_all False (\<lambda>_. True) demo_redis redis_zero = Some st"
    by (simp add: init_all_def InitDBSV2_def demo_redis_def open_client_def startMonitor_def Let_def single_node_def newClientOptions_def)
  have "redis_started (\<lambda>_. True) demo_redis redis_zero" "distinct (map it_Db (rc_Dbs demo_redis))"
    by (simp_all add: redis_started_def demo_redis_def)
  from redis_Close_releases [OF this(1) st this(2), of rev] show ?thesis using st by (auto simp: Let_def)
qed

text \<open>Exactly the configured databases are found, each with its time to live.\<close>

theorem GetDbInstance_configured:
  assumes "redis_started Ping r st0" "init_all sentinel Ping r st0 = Some st" "distinct (map it_Db (rc_Dbs r))"
  shows "(case GetDbInstance st i of
      Inr inst \<Rightarrow> \<exists>item \<in> set (rc_Dbs r). it_Db item = i \<and> ri_TTL inst = wrap64 (it_Expiration item * Second)
    | Inl key \<Rightarrow> key = dbidx i \<and> i \<notin> it_Db ` set (rc_Dbs r))"
proof -
  note l = conjunct2 [OF init_all_inv [OF assms]]
  have keys: "fst ` set (rdbMapWithTtl st) = (\<lambda>item. dbidx (it_Db item)) ` set (rc_Dbs r)"
    using arg_cong [OF l, of "\<lambda>xs. fst ` set xs"] by (simp add: image_image split_def)
  show ?thesis
  proof (cases "map_of (rdbMapWithTtl st) (dbidx i)")
    case None
    then have "dbidx i \<notin> (\<lambda>item. dbidx (it_Db item)) ` set (rc_Dbs r)" by (simp add: map_of_eq_None_iff keys)
    then show ?thesis using None by (auto simp: GetDbInstance_def)
  next
    case (Some inst)
    then have "(dbidx i, ri_TTL inst) \<in> set (map (\<lambda>(k, i). (k, ri_TTL i)) (rdbMapWithTtl st))"
      by (force dest: map_of_SomeD)
    then show ?thesis using Some unfolding l by (auto simp: GetDbInstance_def)
  qed
qed

text \<open>The clients of \<open>InitDBS\<close> are not closed: \<open>Close\<close> does not look at their map.\<close>

theorem InitDBS_leaks:
  assumes "order [] = []"
  shows "\<exists>st. InitDBS (\<lambda>_. True) demo_redis redis_zero = Some st \<and> open_clients (trace (redis_Close order st)) = open_clients (trace st)
    \<and> card (open_clients (trace st)) = 2"
proof -
  let ?o = "\<lambda>db. SingleNode (the (newClientOptions demo_redis db 1000))"
  let ?st = "redis_zero\<lparr>rdbMap := [(dbidx 0, 0), (dbidx 3, 1)], fresh := 2, trace := [Opened 0 (?o 0), Opened 1 (?o 3)]\<rparr>"
  have run: "InitDBS (\<lambda>_. True) demo_redis redis_zero = Some ?st"
    by (simp add: InitDBS_def demo_redis_def newClientOptions_def open_client_def redis_zero_def)
  have "open_clients (trace ?st) = {0, 1}" by (auto simp: open_clients_def)
  moreover have "trace (redis_Close order ?st) = trace ?st" using assms by (simp add: redis_Close_def redis_zero_def)
  ultimately show ?thesis using run by (intro exI [of _ ?st]) simp
qed

end
