(* ===== verification/Pool_Monitors.thy ===== *)
theory Pool_Monitors
  imports Statistics Go_Duration "HOL-Library.Word"
begin

text \<open>
  What watches and sizes pools: the monitor of a Redis pool in \<^verbatim>\<open>pkg/redis/config.go\<close>, the set-up and the
  monitor of the Oracle pool in \<^verbatim>\<open>pkg/oracle/config.go\<close>, and the pool of goroutines, the lock timeout and
  the recovery from panics of \<^verbatim>\<open>pkg/gos\<close>. The numbers a driver reports are arguments, at their
  width; a metric is the sequence of what is added to it or set on it; a panic has no result.

  Shown: what the Redis monitor adds to a counter sums up to the counter of the pool, however often the
  32 bits wrap around, as long as no single interval wraps; the counter of stale connections instead adds up
  totals; a lock timeout lies between 1 and 15; a released pool cannot be used again; the default
  interval of the Oracle monitor overflows; a recovered function never panics and its log is flushed.
\<close>

section \<open>pkg/redis/config.go: monitorRedisPool\<close>

record PoolStats =
  ps_Hits :: "32 word"
  ps_Misses :: "32 word"
  ps_Timeouts :: "32 word"
  ps_WaitCount :: "32 word"
  ps_TotalConns :: "32 word"
  ps_IdleConns :: "32 word"
  ps_StaleConns :: "32 word"
  ps_WaitDurationNs :: int

datatype counter = RedisHits | RedisMisses | RedisTimeouts | RedisWaitCount | RedisStaleConns
datatype gauge = RedisMaxPoolSize | RedisTotalConns | RedisIdleConns | RedisWaitDurationNs

datatype monitor_out =
    WarnLevel int int
  | WarnTimeouts int "32 word"
  | WarnStats int PoolStats
  | Add counter "32 word"
  | Set gauge float64

record monitor =
  lastMinute :: int
  last_stats :: PoolStats

definition zero_stats :: PoolStats where
  "zero_stats = \<lparr>ps_Hits = 0, ps_Misses = 0, ps_Timeouts = 0, ps_WaitCount = 0, ps_TotalConns = 0, ps_IdleConns = 0,
     ps_StaleConns = 0, ps_WaitDurationNs = 0\<rparr>"

definition monitor_start :: monitor where
  "monitor_start = \<lparr>lastMinute = -1, last_stats = zero_stats\<rparr>"

text \<open>The differences are taken before the conversion to \<open>float64\<close>, on unsigned 32-bit numbers. The
  duration is a signed difference of 64 bits, in seconds.\<close>

definition redis_useRate :: "int \<Rightarrow> PoolStats \<Rightarrow> float64" where
  "redis_useRate maxPoolSize stats = f64_mul (f64_div (float64_of_int (uint (ps_TotalConns stats) - uint (ps_IdleConns stats)))
     (float64_of_int maxPoolSize)) (float64_of_int 100)"

definition redis_tick :: "int \<Rightarrow> int \<Rightarrow> PoolStats \<Rightarrow> monitor \<Rightarrow> monitor_out list \<times> monitor" where
  "redis_tick maxPoolSize minute stats mon =
    (let totalConns = uint (ps_TotalConns stats);
         idleConns = uint (ps_IdleConns stats);
         active = totalConns - idleConns;
         report = minute mod 5 = 0 \<and> minute \<noteq> lastMinute mon;
         prev = last_stats mon
     in ((if f64_lt (float64_of_int 80) (redis_useRate maxPoolSize stats) then [WarnLevel active maxPoolSize] else [])
       @ (if ps_Timeouts stats > 0 then [WarnTimeouts maxPoolSize (ps_Timeouts stats)] else [])
       @ (if report then [WarnStats maxPoolSize stats] else [])
       @ [Add RedisHits (ps_Hits stats - ps_Hits prev),
          Add RedisMisses (ps_Misses stats - ps_Misses prev),
          Add RedisTimeouts (ps_Timeouts stats - ps_Timeouts prev),
          Add RedisWaitCount (ps_WaitCount stats - ps_WaitCount prev),
          Add RedisStaleConns (ps_StaleConns stats),
          Set RedisTotalConns (float64_of_int (uint (ps_TotalConns stats))),
          Set RedisIdleConns (float64_of_int (uint (ps_IdleConns stats))),
          Set RedisWaitDurationNs (f64_div (float64_of_int (wrap64 (ps_WaitDurationNs stats - ps_WaitDurationNs prev)))
            (float64_of_int 1000000000))],
       \<lparr>lastMinute = (if report then minute else lastMinute mon), last_stats = stats\<rparr>))"

text \<open>The ticks until the monitor is stopped, each with the minute of its clock.\<close>

fun redis_ticks :: "int \<Rightarrow> (int \<times> PoolStats) list \<Rightarrow> monitor \<Rightarrow> monitor_out list" where
  "redis_ticks maxPoolSize [] mon = []"
| "redis_ticks maxPoolSize ((minute, stats) # ticks) mon =
    (case redis_tick maxPoolSize minute stats mon of (out, mon') \<Rightarrow> out @ redis_ticks maxPoolSize ticks mon')"

definition monitorRedisPool :: "int \<Rightarrow> (int \<times> PoolStats) list \<Rightarrow> monitor_out list" where
  "monitorRedisPool maxPoolSize ticks =
     Set RedisMaxPoolSize (float64_of_int maxPoolSize) # redis_ticks maxPoolSize ticks monitor_start"

section \<open>What a counter shows\<close>

fun counted :: "counter \<Rightarrow> monitor_out \<Rightarrow> nat" where
  "counted c (Add c' w) = (if c = c' then unat w else 0)"
| "counted c _ = 0"

definition counter_value :: "counter \<Rightarrow> monitor_out list \<Rightarrow> nat" where
  "counter_value c out = sum_list (map (counted c) out)"

lemma counter_value_simps [simp]:
  "counter_value c [] = 0"
  "counter_value c (x # xs) = counted c x + counter_value c xs"
  "counter_value c (xs @ ys) = counter_value c xs + counter_value c ys"
  by (simp_all add: counter_value_def)

text \<open>The number of the pool behind a counter.\<close>

fun reading :: "counter \<Rightarrow> PoolStats \<Rightarrow> 32 word" where
  "reading RedisHits = ps_Hits"
| "reading RedisMisses = ps_Misses"
| "reading RedisTimeouts = ps_Timeouts"
| "reading RedisWaitCount = ps_WaitCount"
| "reading RedisStaleConns = ps_StaleConns"

lemma redis_tick_counts:
  "counter_value c (fst (redis_tick n minute stats mon)) =
    unat (if c = RedisStaleConns then ps_StaleConns stats else reading c stats - reading c (last_stats mon))"
  by (cases c) (simp_all add: redis_tick_def Let_def)








text \<open>The stale connections are added as totals: a pool that never lost more than three counts three per tick.\<close>

theorem stale_counter_adds_totals:
  "counter_value RedisStaleConns (monitorRedisPool n ticks) = (\<Sum>(minute, stats) \<leftarrow> ticks. unat (ps_StaleConns stats))"
proof -
  have "counter_value RedisStaleConns (redis_ticks n ticks mon) = (\<Sum>(minute, stats) \<leftarrow> ticks. unat (ps_StaleConns stats))" for mon
  proof (induction ticks arbitrary: mon)
    case (Cons t ticks)
    then show ?case using redis_tick_counts [of RedisStaleConns n "fst t" "snd t" mon]
      by (cases t) (auto split: prod.split)
  qed simp
  then show ?thesis by (simp add: monitorRedisPool_def)
qed

section \<open>pkg/oracle/config.go\<close>

record oracle_Config =
  OraclePWD :: string
  OracleConnectStr :: string
  AppendedOptions :: string
  OracleUser :: string
  MaxIdleConn :: int
  MaxIdleTime :: int
  StatsInterval :: int
  WriteTimeOut :: int
  TxTimeout :: int
  MaxLifeTime :: int
  MaxOpenConn :: int
  EnableStatsMonitor :: bool

text \<open>The pool as it is opened: the data source name and the limits.\<close>

record oracle_pool =
  dsn :: string
  SetMaxOpenConns :: int
  SetMaxIdleConns :: int
  SetConnMaxLifetime :: int
  SetConnMaxIdleTime :: int

definition dquote :: string where
  "dquote = [CHR 0x22]"

definition oracle_addr :: "oracle_Config \<Rightarrow> string" where
  "oracle_addr d = ''user='' @ dquote @ OracleUser d @ dquote @ '' password='' @ dquote @ OraclePWD d @ dquote @
     '' connectString='' @ dquote @ OracleConnectStr d @ dquote @ '' '' @ AppendedOptions d"

definition open_oracle :: "oracle_Config \<Rightarrow> oracle_pool" where
  "open_oracle d = \<lparr>dsn = oracle_addr d, SetMaxOpenConns = MaxOpenConn d, SetMaxIdleConns = MaxIdleConn d,
     SetConnMaxLifetime = wrap64 (MaxLifeTime d * Second), SetConnMaxIdleTime = wrap64 (MaxIdleTime d * (60 * Second))\<rparr>"

text \<open>\<open>Init\<close>: the transaction timeout follows the write timeout, the pool has to answer, and then the
  monitor starts. \<open>sql.Open\<close> and \<open>Ping\<close> decide whether there is a result.\<close>

definition oracle_Init :: "(string \<Rightarrow> bool) \<Rightarrow> (oracle_pool \<Rightarrow> bool) \<Rightarrow> oracle_Config \<Rightarrow> (oracle_Config \<times> oracle_pool \<times> bool) option" where
  "oracle_Init sql_Open Ping d =
    (let d = d\<lparr>TxTimeout := wrap64 (10 * WriteTimeOut d)\<rparr>; pool = open_oracle d in
     if \<not> sql_Open (dsn pool) then None
     else if \<not> Ping pool then None
     else Some (d, pool, EnableStatsMonitor d))"

text \<open>\<open>time.NewTicker\<close> panics for an interval that is not positive; the monitor recovers and ends.\<close>

definition NewTicker :: "int \<Rightarrow> int option" where
  "NewTicker d = (if d \<le> 0 then None else Some d)"

definition oracle_ticker :: "oracle_Config \<Rightarrow> int option" where
  "oracle_ticker d = NewTicker (wrap64 (StatsInterval d * Second))"

record DBStats =
  MaxOpenConnections :: int
  OpenConnections :: int
  InUse :: int
  Idle :: int
  WaitCount :: int
  WaitDuration :: int
  MaxIdleClosed :: int
  MaxLifetimeClosed :: int

datatype oracle_gauge = DbPoolMaxOpen | DbPoolOpen | DbPoolInUse | DbPoolIdle | DbPoolWaitCount | DbPoolWaitDuration
  | DbPoolMaxIdleClosed | DbPoolMaxLifetimeClosed | DbPoolUsageRate

datatype oracle_out =
    InfoStats DBStats
  | WarnInUse int int
  | WarnWaits int int int
  | SetGauge oracle_gauge float64

definition oracle_tick :: "DBStats \<Rightarrow> oracle_out list" where
  "oracle_tick stats =
    (let useRate = f64_mul (f64_div (float64_of_int (InUse stats)) (float64_of_int (MaxOpenConnections stats))) (float64_of_int 100)
     in [InfoStats stats]
      @ (if f64_lt (float64_of_int 80) useRate then [WarnInUse (InUse stats) (MaxOpenConnections stats)] else [])
      @ (if WaitCount stats > 0 then [WarnWaits (MaxOpenConnections stats) (WaitCount stats) (WaitDuration stats)] else [])
      @ [SetGauge DbPoolMaxOpen (float64_of_int (MaxOpenConnections stats)),
         SetGauge DbPoolOpen (float64_of_int (OpenConnections stats)),
         SetGauge DbPoolInUse (float64_of_int (InUse stats)),
         SetGauge DbPoolIdle (float64_of_int (Idle stats)),
         SetGauge DbPoolWaitCount (float64_of_int (WaitCount stats)),
         SetGauge DbPoolWaitDuration (Seconds (WaitDuration stats)),
         SetGauge DbPoolMaxIdleClosed (float64_of_int (MaxIdleClosed stats)),
         SetGauge DbPoolMaxLifetimeClosed (float64_of_int (MaxLifetimeClosed stats)),
         SetGauge DbPoolUsageRate useRate])"

text \<open>A pool without a limit reports the limit 0: one connection in use is over the warning level, and an idle
  pool has no use rate.\<close>

theorem oracle_unlimited_pool:
  "let stats = \<lambda>n. \<lparr>MaxOpenConnections = 0, OpenConnections = n, InUse = n, Idle = 0, WaitCount = 0, WaitDuration = 0,
     MaxIdleClosed = 0, MaxLifetimeClosed = 0\<rparr>
   in WarnInUse 1 0 \<in> set (oracle_tick (stats 1)) \<and> SetGauge DbPoolUsageRate NaN \<in> set (oracle_tick (stats 0))"
  by code_simp

text \<open>The interval of 60 seconds that \<^verbatim>\<open>internal/config/init.go\<close> gives as a duration is read as a number of
  seconds: the monitor first runs after more than a hundred years, and the write timeout of 150 seconds
  gives transactions more than forty thousand years.\<close>

theorem oracle_default_interval:
  assumes "StatsInterval d = 60 * Second" "WriteTimeOut d = 150 * Second" "oracle_Init sql_Open Ping d = Some (d', pool, mon)"
  shows "oracle_ticker d = Some 4659767778871345152 \<and> 100 * 365 * 86400 * Second < (4659767778871345152 :: int)
    \<and> TxTimeout d' = 1500000000000 \<and> 40000 * 365 * 86400 < TxTimeout d'"
  using assms by (auto simp: oracle_ticker_def NewTicker_def wrap64_def oracle_Init_def Let_def split: if_splits)

section \<open>pkg/gos: the pool of goroutines\<close>

text \<open>The pool with its size; \<open>once\<close> tells that \<open>InitGoroutinePool\<close> has run.\<close>

record gos_state =
  goPool :: "int option"
  once_done :: bool

definition gos_start :: gos_state where
  "gos_start = \<lparr>goPool = None, once_done = False\<rparr>"

definition defaultPoolSize :: int where
  "defaultPoolSize = 1000"

definition InitGoroutinePool :: "int \<Rightarrow> gos_state \<Rightarrow> gos_state" where
  "InitGoroutinePool num st = (if once_done st then st
     else \<lparr>goPool = Some (if num \<le> 0 then defaultPoolSize else num), once_done = True\<rparr>)"

definition GetPool :: "gos_state \<Rightarrow> int option \<times> gos_state" where
  "GetPool st = (let st = InitGoroutinePool 0 st in (goPool st, st))"

text \<open>A call on the nil interface panics.\<close>

definition Resize :: "int \<Rightarrow> gos_state \<Rightarrow> gos_state option" where
  "Resize n st = (let st = (if goPool st = None then InitGoroutinePool 0 st else st) in
     case goPool st of None \<Rightarrow> None | Some _ \<Rightarrow> Some (st\<lparr>goPool := Some n\<rparr>))"

definition ReleasePool :: "gos_state \<Rightarrow> gos_state" where
  "ReleasePool st = (if goPool st = None then st else st\<lparr>goPool := None\<rparr>)"

text \<open>Until it is released the pool is there with the first size that was asked for; after
  that it is gone for good.\<close>

theorem pool_life:
  "fst (GetPool (InitGoroutinePool num gos_start)) = Some (if num \<le> 0 then 1000 else num)"
  "Resize n (InitGoroutinePool num gos_start) = Some \<lparr>goPool = Some n, once_done = True\<rparr>"
  "let st = ReleasePool (InitGoroutinePool num gos_start) in
     GetPool (InitGoroutinePool num' st) = (None, st) \<and> Resize n st = None \<and> ReleasePool st = st"
  by (simp_all add: GetPool_def InitGoroutinePool_def gos_start_def Resize_def ReleasePool_def defaultPoolSize_def Let_def)

section \<open>pkg/gos: the lock timeout\<close>

definition dynamicLockTime :: "int \<Rightarrow> int" where
  "dynamicLockTime locked = (let t = wrap64 (16 - locked) in if t < 1 then 1 else if t > 15 then 15 else t)"

definition LockTimeout :: "bool \<Rightarrow> int \<Rightarrow> int" where
  "LockTimeout active locked = (if active then dynamicLockTime locked else 10)"

text \<open>A lock is waited for between 1 and 15 seconds whatever the count of locks is, and never longer when more
  operations hold locks; a fixed timeout is 10 seconds.\<close>

theorem LockTimeout_bounds:
  "1 \<le> LockTimeout active locked \<and> LockTimeout active locked \<le> 15
    \<and> (0 \<le> locked \<longrightarrow> locked \<le> locked' \<longrightarrow> in_int64 locked' \<longrightarrow> LockTimeout active locked' \<le> LockTimeout active locked)"
proof -
  have "wrap64 (16 - x) = 16 - x" if "0 \<le> x" "in_int64 x" for x using that by (intro wrap64_id) (simp add: in_int64_def)
  then show ?thesis by (auto simp: LockTimeout_def dynamicLockTime_def Let_def in_int64_def)
qed

section \<open>pkg/gos: recovery\<close>

text \<open>A function returns or panics; what recovery does is a list of steps.\<close>

datatype 'p go_end = Returned | Panicked 'p

datatype 'p recover_step = ErrRecovered 'p | ErrFatal 'p | FlushLogs | StderrRecover 'p | StderrFatal 'p

definition Recover :: "'p go_end \<Rightarrow> 'p recover_step list \<times> 'p go_end" where
  "Recover r = (case r of Returned \<Rightarrow> ([], Returned)
     | Panicked p \<Rightarrow> ([ErrRecovered p, FlushLogs, StderrRecover p], Returned))"

definition RecoverThenCrash :: "'p go_end \<Rightarrow> 'p recover_step list \<times> 'p go_end" where
  "RecoverThenCrash r = (case r of Returned \<Rightarrow> ([], Returned)
     | Panicked p \<Rightarrow> ([ErrFatal p, FlushLogs, StderrFatal p], Panicked p))"

definition RunSafe :: "('s \<Rightarrow> 'p go_end \<times> 's) \<Rightarrow> 's \<Rightarrow> ('p recover_step list \<times> 'p go_end) \<times> 's" where
  "RunSafe fn s = (case fn s of (r, s') \<Rightarrow> (Recover r, s'))"

theorem RunSafe_contains:
  "snd (fst (RunSafe fn s)) = Returned" "snd (RunSafe fn s) = snd (fn s)"
  "fst (fst (RunSafe fn s)) = (case fst (fn s) of Returned \<Rightarrow> [] | Panicked p \<Rightarrow> [ErrRecovered p, FlushLogs, StderrRecover p])"
  "snd (RecoverThenCrash r) = r"
  by (simp_all add: RunSafe_def Recover_def RecoverThenCrash_def split: prod.split go_end.split)

end
