(* ===== verification/App_Lifecycle.thy ===== *)
theory App_Lifecycle
  imports Datastores Pool_Monitors Go_Strings "HOL-Library.Sublist"
begin

text \<open>
  The life of the server process: configuration (\<^verbatim>\<open>internal/config\<close>), tracing (\<^verbatim>\<open>pkg/telemetry\<close>), the flight
  recorder (\<^verbatim>\<open>internal/observability\<close>), the container (\<^verbatim>\<open>internal/infra/manager.go\<close>), and
  \<^verbatim>\<open>cmd/api/main.go\<close> from \<open>newApplication\<close> to \<open>shutdownComponents\<close>. What is started and stopped
  is a trace of events; Redis and Oracle keep the states of \<open>Datastores\<close> and \<open>Pool_Monitors\<close>. The
  configuration file, the environment, and whether a service answers are arguments. A fatal error has no result.

  Shown: only three environments start; a default is used exactly where the file is silent; the components are
  shut down in the documented order, and whatever was started is stopped, unless the time for it runs out; the
  shutdown then goes on beside the end of the process. Also shown: the
  Redis client is closed twice, and an Oracle pool is closed before its monitor is stopped.
\<close>

section \<open>internal/config/init.go\<close>

datatype cfg_value = CInt int | CBool bool | CStr string | CFloat float64

datatype cfg_target = ConfigFile string | ConfigSearch string "string list"

definition sanitize :: "string \<Rightarrow> string" where
  "sanitize s = filter (\<lambda>c. c \<noteq> CHR 0x0D) (filter (\<lambda>c. c \<noteq> CHR 0x0A) s)"

definition config_env :: "(rune \<Rightarrow> rune) \<Rightarrow> string \<Rightarrow> string" where
  "config_env lower ENV = (let env = sanitize (ToLower lower ENV) in if env = '''' then ''prod'' else env)"

definition config_name :: "string \<Rightarrow> string option" where
  "config_name env =
    (if env = ''dev'' then Some ''dev.toml''
     else if env = ''sit'' then Some ''sit.toml''
     else if env = ''prod'' then Some ''prod.toml''
     else None)"

definition config_target :: "string \<Rightarrow> string \<Rightarrow> cfg_target" where
  "config_target fileName name = (if fileName \<noteq> '''' then ConfigFile fileName
     else ConfigSearch name [''.'', ''./config'', ''../config'', ''../../config''])"

text \<open>The calls of \<open>SetDefault\<close>, in order; a later one replaces an earlier one of the same key.\<close>

definition default_calls :: "(string \<times> cfg_value) list" where
  "default_calls =
    [(''env'', CStr ''pro''), (''host'', CStr ''0.0.0.0''), (''port'', CInt 18080), (''timeout'', CInt 30),
     (''bodyLimit'', CInt (10485760 * 5)), (''shutdownTimeout'', CInt 30),
     (''timeouts.quick'', CInt 5), (''timeouts.normal'', CInt 30), (''timeouts.long'', CInt 60), (''timeouts.upload'', CInt 120),
     (''oracle.max_open_conn'', CInt 1000), (''oracle.max_idle_conn'', CInt 1000), (''oracle.max_life_time'', CInt 30),
     (''oracle.max_idle_time'', CInt 30), (''oracle.enable_stats_monitor'', CBool True),
     (''oracle.stats_interval'', CInt (60 * Second)), (''oracle.read_timeout'', CInt (15 * Second)),
     (''oracle.write_timeout'', CInt (15 * Second)), (''oracle.write_timeout'', CInt (150 * Second)),
     (''telemetry.sampler'', CFloat (float64_of_int 1)), (''telemetry.batcher'', CStr ''none''),
     (''pprof.enabled'', CBool False), (''pprof.port'', CInt 6060), (''pprof.host'', CStr ''0.0.0.0''),
     (''log.mode'', CStr ''file''), (''log.env'', CStr ''pro''), (''log.level'', CStr ''info''), (''log.name'', CStr ''tcg-ace-ae''),
     (''log.serviceName'', CStr ''TCG-UCS-FE''), (''log.encoding'', CStr ''json''),
     (''log.timeFormat'', CStr ''2006-01-02 15:04:05.000''), (''log.path'', CStr ''logs''), (''log.compress'', CBool True),
     (''log.maxBackups'', CInt 10), (''log.maxSize'', CInt 500), (''log.stat'', CBool True), (''log.keepDays'', CInt 5),
     (''log.rotation'', CStr ''size''), (''log.bufferSize'', CInt 30), (''log.bufferFlushInterval'', CInt 50)]"

definition SetDefaults :: "(string \<times> cfg_value) list \<Rightarrow> (string \<rightharpoonup> cfg_value)" where
  "SetDefaults calls = foldl (\<lambda>m (k, v). m(k \<mapsto> v)) Map.empty calls"

text \<open>\<open>read\<close> is the content of the file the target leads to, if there is one.\<close>

definition config_Init ::
  "(cfg_target \<Rightarrow> (string \<rightharpoonup> cfg_value) option) \<Rightarrow> (rune \<Rightarrow> rune) \<Rightarrow> string \<Rightarrow> string \<Rightarrow> (string \<rightharpoonup> cfg_value) option" where
  "config_Init read lower ENV fileName = (case config_name (config_env lower ENV) of None \<Rightarrow> None | Some name \<Rightarrow>
     (case read (config_target fileName name) of None \<Rightarrow> None | Some file_values \<Rightarrow> Some (SetDefaults default_calls ++ file_values)))"

lemma SetDefaults_snoc: "SetDefaults (calls @ [(k, v)]) = (SetDefaults calls)(k \<mapsto> v)"
  by (simp add: SetDefaults_def)

lemma SetDefaults_last: "SetDefaults calls k = map_of (rev calls) k"
proof (induction calls rule: rev_induct)
  case (snoc x xs)
  then show ?case by (cases x) (simp add: SetDefaults_snoc)
qed (simp add: SetDefaults_def)

text \<open>The environment decides about the start even where the name of a file is given; then the values
  are those of the file, and the last default elsewhere.\<close>

theorem config_Init_values:
  "(case config_Init read lower ENV fileName of
      None \<Rightarrow> config_env lower ENV \<notin> {''dev'', ''sit'', ''prod''}
        \<or> read (config_target fileName (config_env lower ENV @ ''.toml'')) = None
    | Some values \<Rightarrow> config_env lower ENV \<in> {''dev'', ''sit'', ''prod''} \<and>
        (\<exists>file_values. read (config_target fileName (config_env lower ENV @ ''.toml'')) = Some file_values \<and>
          (\<forall>k. values k = (case file_values k of None \<Rightarrow> map_of (rev default_calls) k | Some v \<Rightarrow> Some v))))"
  by (auto simp: config_Init_def config_name_def map_add_def SetDefaults_last split: option.splits if_splits)

theorem oracle_defaults:
  "SetDefaults default_calls ''oracle.write_timeout'' = Some (CInt (150 * Second))"
  "SetDefaults default_calls ''oracle.stats_interval'' = Some (CInt (60 * Second))"
  "SetDefaults default_calls ''oracle.tx_timeout'' = None"
  by (simp_all add: SetDefaults_last default_calls_def)

section \<open>internal/config/config.go: secrets and the Redis cluster\<close>

definition secretName :: "(rune \<Rightarrow> rune) \<Rightarrow> string \<Rightarrow> string option" where
  "secretName lower envStr = (let env = ToLower lower envStr in
     if env = ''dev'' then Some ''tcg-uad/db/go-ucs-fe/dev''
     else if env = ''sit'' then Some ''tcg-uad/db/go-ucs-fe/sit''
     else if env = ''prod'' then Some ''tcg-uad/db/go-ucs-fe''
     else None)"

text \<open>The secret of a name and version stage, if the service gives one (its string may be missing), and the decoder are arguments.\<close>

definition LoadOracleConnectInfoFromAws ::
  "(string \<Rightarrow> string \<Rightarrow> string option option) \<Rightarrow> (string \<Rightarrow> 'info option) \<Rightarrow> (rune \<Rightarrow> rune) \<Rightarrow> string \<Rightarrow> 'info option" where
  "LoadOracleConnectInfoFromAws GetSecretValue Unmarshal lower envStr =
    (case secretName lower envStr of None \<Rightarrow> None | Some name \<Rightarrow>
       (case GetSecretValue name ''AWSCURRENT'' of
          None \<Rightarrow> None
        | Some None \<Rightarrow> None
        | Some (Some text) \<Rightarrow> Unmarshal text))"

record ClusterOptions =
  cl_Addrs :: "string list"
  cl_Password :: string
  cl_MaxRedirects :: int
  cl_ReadOnly :: bool
  cl_RouteByLatency :: bool
  cl_RouteRandomly :: bool
  cl_DialTimeout :: int
  cl_ReadTimeout :: int
  cl_WriteTimeout :: int
  cl_PoolSize :: int
  cl_MinIdleConns :: int
  cl_PoolTimeout :: int
  cl_MaxRetries :: int

definition InitRedisCluster :: "(ClusterOptions \<Rightarrow> bool) \<Rightarrow> redis_Config \<Rightarrow> ClusterOptions option" where
  "InitRedisCluster Ping r =
    (let opts = \<lparr>cl_Addrs = rc_Addr r, cl_Password = rc_Password r, cl_MaxRedirects = 8, cl_ReadOnly = True,
       cl_RouteByLatency = False, cl_RouteRandomly = False, cl_DialTimeout = 10 * Second, cl_ReadTimeout = 30 * Second,
       cl_WriteTimeout = 30 * Second, cl_PoolSize = 500, cl_MinIdleConns = 10, cl_PoolTimeout = 30 * Second, cl_MaxRetries = 2\<rparr>
     in if Ping opts then Some opts else None)"

section \<open>pkg/telemetry/telemetry.go\<close>

record Telemetry =
  te_tp :: bool
  te_ServerName :: string
  te_Endpoint :: string
  te_Batcher :: string
  te_Sampler :: float64
  te_Enabled :: bool

datatype telemetry_error = SamplerRange | UnsupportedBatcher string

definition Telemetry_Validate :: "Telemetry \<Rightarrow> telemetry_error option" where
  "Telemetry_Validate t =
    (if f64_lt (te_Sampler t) (float64_of_int 0) \<or> f64_lt (float64_of_int 1) (te_Sampler t) then Some SamplerRange
     else if te_Batcher t = ''otlp'' \<or> te_Batcher t = ''none'' then None
     else Some (UnsupportedBatcher (te_Batcher t)))"

text \<open>The errors of an unreachable collector are not logged.\<close>

definition silent_Handle :: "string option \<Rightarrow> string list" where
  "silent_Handle err = (case err of None \<Rightarrow> [] | Some msg \<Rightarrow>
     if Contains msg ''connection refused'' \<or> Contains msg ''dial tcp'' \<or> Contains msg ''traces export'' then []
     else [''[telemetry] exporter error: '' @ msg])"

text \<open>\<open>InitTracer\<close>: whether the exporter of the endpoint can be made is an argument. The result tells whether a
  provider is returned; the same one is kept.\<close>

definition InitTracer :: "(string \<Rightarrow> bool) \<Rightarrow> Telemetry \<Rightarrow> bool \<times> Telemetry" where
  "InitTracer exporter t = (if \<not> te_Enabled t then (False, t)
     else if \<not> exporter (te_Endpoint t) then (False, t)
     else (True, t\<lparr>te_tp := True\<rparr>))"

theorem Validate_sampler:
  "Telemetry_Validate t = Some SamplerRange \<longleftrightarrow>
     f64_lt (te_Sampler t) (float64_of_int 0) \<or> f64_lt (float64_of_int 1) (te_Sampler t)"
  "Telemetry_Validate (t\<lparr>te_Sampler := NaN, te_Batcher := ''otlp''\<rparr>) = None"
  by (simp_all add: Telemetry_Validate_def)

section \<open>internal/observability/recorder.go\<close>

record FlightRecorderConfig =
  OutputDir :: string
  MaxBytes :: "64 word"
  MinAge :: int

definition defaultConfig :: FlightRecorderConfig where
  "defaultConfig = \<lparr>OutputDir = ''/tmp/traces'', MaxBytes = 10 * 1024 * 1024, MinAge = 10 * (60 * Second)\<rparr>"

definition recorder_settings :: "FlightRecorderConfig \<Rightarrow> FlightRecorderConfig" where
  "recorder_settings cfg =
    \<lparr>OutputDir = (if OutputDir cfg = '''' then ''/tmp/traces'' else OutputDir cfg),
     MaxBytes = (if MaxBytes cfg \<le> 0 then 10 * 1024 * 1024 else MaxBytes cfg),
     MinAge = (if MinAge cfg \<le> 0 then 10 * (60 * Second) else MinAge cfg)\<rparr>"

record FlightRecorder =
  fr_cfg :: FlightRecorderConfig
  fr_stopped :: bool

text \<open>Errors of \<open>MkdirAll\<close> and of \<open>Start\<close> are arguments.\<close>

definition NewFlightRecorderWithConfig ::
  "(string \<Rightarrow> 'e option) \<Rightarrow> (FlightRecorderConfig \<Rightarrow> 'e option) \<Rightarrow> FlightRecorderConfig \<Rightarrow> 'e + FlightRecorder" where
  "NewFlightRecorderWithConfig MkdirAll Start cfg =
    (let cfg = recorder_settings cfg in
     case MkdirAll (OutputDir cfg) of Some err \<Rightarrow> Inl err | None \<Rightarrow>
       (case Start cfg of Some err \<Rightarrow> Inl err | None \<Rightarrow> Inr \<lparr>fr_cfg = cfg, fr_stopped = False\<rparr>))"

definition NewFlightRecorder :: "(string \<Rightarrow> 'e option) \<Rightarrow> (FlightRecorderConfig \<Rightarrow> 'e option) \<Rightarrow> 'e + FlightRecorder" where
  "NewFlightRecorder MkdirAll Start = NewFlightRecorderWithConfig MkdirAll Start defaultConfig"

text \<open>\<open>Stop\<close>, under a \<open>sync.Once\<close>: the result tells whether this call stopped it.\<close>

definition recorder_Stop :: "FlightRecorder \<Rightarrow> bool \<times> FlightRecorder" where
  "recorder_Stop r = (if fr_stopped r then (False, r) else (True, r\<lparr>fr_stopped := True\<rparr>))"

theorem recorder_settings_valid:
  "OutputDir (recorder_settings cfg) \<noteq> [] \<and> 0 < MaxBytes (recorder_settings cfg) \<and> 0 < MinAge (recorder_settings cfg)"
  "recorder_settings (recorder_settings cfg) = recorder_settings cfg" "recorder_settings defaultConfig = defaultConfig"
  by (auto simp: recorder_settings_def defaultConfig_def word_gt_0)

section \<open>cmd/api/main.go: starting\<close>

datatype app_event =
    LogsOpened | MetricsInit string | TracerStarted | RedisEvent ds_event | OracleOpened oracle_pool | OracleMonitorStarted
  | RulesLoaded int int | RecorderStarted | MemStatsStarted | PprofStarted string
  | FiberShutdown | PprofShutdown | RecorderStopped | MemStatsStopped | PoolReleased
  | DbxClosed | OracleMonitorStopped string | OracleClosed | TracerShutdown | LogsFlushed | LogsClosed

record app_Config =
  ac_Name :: string
  ac_ServiceName :: string
  ac_Host :: string
  ac_Port :: int
  ac_BodyLimit :: int
  ac_Timeout :: int
  ac_ShutdownTimeout :: int
  ac_Redis :: redis_Config
  ac_Telemetry :: Telemetry
  ac_Pprof :: "(string \<times> int) option"

text \<open>The process: the configuration's clients, the container's handles and what \<open>application\<close> holds.\<close>

record app =
  ap_redis :: redis_state
  ap_Rc :: "nat option"
  ap_oracle_db :: bool
  ap_oracle_monitors :: "string list"
  ap_DBX :: bool
  ap_telemetry :: Telemetry
  ap_TracerProvider :: bool
  ap_pprof :: bool
  ap_recorder :: "FlightRecorder option"
  ap_memstats :: bool
  ap_gos :: gos_state
  ap_trace :: "app_event list"

definition app_emit :: "app_event list \<Rightarrow> app \<Rightarrow> app" where
  "app_emit evs a = a\<lparr>ap_trace := ap_trace a @ evs\<rparr>"

text \<open>Redis is used where it has an address.\<close>

definition wire_redis :: "(client_options \<Rightarrow> bool) \<Rightarrow> redis_Config \<Rightarrow> redis_state option" where
  "wire_redis Ping r = (if rc_Addr r = [] then Some redis_zero else redis_Init Ping r redis_zero)"

text \<open>Whether the exporter, Redis, the rules and the flight recorder come up are arguments. A fatal error has no
  result, and an error of the rules is returned; a flight recorder that fails is only missing.\<close>

definition newApplication ::
  "(string \<Rightarrow> bool) \<Rightarrow> (client_options \<Rightarrow> bool) \<Rightarrow> 'e + (int \<times> int) \<Rightarrow> 'r + FlightRecorder \<Rightarrow> app_Config \<Rightarrow> ('e + app) option" where
  "newApplication exporter Ping load recorder cfg =
    (case InitTracer exporter (ac_Telemetry cfg) of (tp, te) \<Rightarrow>
     (case wire_redis Ping (ac_Redis cfg) of None \<Rightarrow> None | Some r \<Rightarrow>
     (case load of Inl err \<Rightarrow> Some (Inl err) | Inr (loaded, failed) \<Rightarrow>
       Some (Inr \<lparr>ap_redis = r, ap_Rc = rdb r, ap_oracle_db = False, ap_oracle_monitors = [], ap_DBX = False,
         ap_telemetry = te, ap_TracerProvider = tp, ap_pprof = False,
         ap_recorder = (case recorder of Inl err \<Rightarrow> None | Inr fr \<Rightarrow> Some fr), ap_memstats = True, ap_gos = gos_start,
         ap_trace = [LogsOpened, MetricsInit (ac_ServiceName cfg)] @ (if tp then [TracerStarted] else [])
           @ map RedisEvent (trace r) @ [RulesLoaded loaded failed]
           @ (case recorder of Inl err \<Rightarrow> [] | Inr fr \<Rightarrow> [RecorderStarted]) @ [MemStatsStarted]\<rparr>))))"

definition wire_oracle :: "(string \<Rightarrow> bool) \<Rightarrow> (oracle_pool \<Rightarrow> bool) \<Rightarrow> oracle_Config \<Rightarrow> app \<Rightarrow> app option" where
  "wire_oracle sql_Open Ping d a = (case oracle_Init sql_Open Ping d of None \<Rightarrow> None | Some (d', pool, mon) \<Rightarrow>
     Some (app_emit (OracleOpened pool # (if mon then [OracleMonitorStarted] else []))
       (a\<lparr>ap_DBX := True, ap_oracle_db := True, ap_oracle_monitors := List.insert ''oracleDB'' (ap_oracle_monitors a)\<rparr>)))"

definition JoinHostPort :: "string \<Rightarrow> string \<Rightarrow> string" where
  "JoinHostPort host port = (if CHR '':'' \<in> set host then ''['' @ host @ '']:'' @ port else host @ '':'' @ port)"

definition start_pprof :: "bool \<Rightarrow> app_Config \<Rightarrow> app \<Rightarrow> app" where
  "start_pprof child cfg a = (case ac_Pprof cfg of
     Some (host, port) \<Rightarrow> if child then a else app_emit [PprofStarted (JoinHostPort host (Itoa port))] (a\<lparr>ap_pprof := True\<rparr>)
   | None \<Rightarrow> a)"

record fiber_Config =
  fc_StrictRouting :: bool
  fc_CaseSensitive :: bool
  fc_BodyLimit :: int
  fc_ReadTimeout :: int
  fc_WriteTimeout :: int
  fc_IdleTimeout :: int
  fc_ServerHeader :: string

definition main_fiber :: "app_Config \<Rightarrow> fiber_Config" where
  "main_fiber cfg = \<lparr>fc_StrictRouting = True, fc_CaseSensitive = True, fc_BodyLimit = ac_BodyLimit cfg,
     fc_ReadTimeout = wrap64 (ac_Timeout cfg * Second), fc_WriteTimeout = wrap64 (ac_Timeout cfg * Second),
     fc_IdleTimeout = 120 * Second, fc_ServerHeader = ac_Name cfg\<rparr>"

datatype main_layer = Cors | RecoverLayer | OtelTrace | BehaviorLog

definition main_middleware :: "app_Config \<Rightarrow> main_layer list" where
  "main_middleware cfg = [Cors, RecoverLayer] @ (if te_Enabled (ac_Telemetry cfg) then [OtelTrace] else []) @ [BehaviorLog]"

definition main_addr :: "app_Config \<Rightarrow> string" where
  "main_addr cfg = JoinHostPort (ac_Host cfg) (Itoa (ac_Port cfg))"

section \<open>Stopping\<close>

definition com_Close :: "app \<Rightarrow> app" where
  "com_Close a = app_emit ((if ap_DBX a then [DbxClosed] else []) @
     (case ap_Rc a of None \<Rightarrow> [] | Some c \<Rightarrow> [RedisEvent (Closed c)])) a"

text \<open>Every monitor is cancelled and waited for, then the pool is closed.\<close>

definition oracle_Close :: "app \<Rightarrow> app" where
  "oracle_Close a = app_emit (map OracleMonitorStopped (ap_oracle_monitors a) @ (if ap_oracle_db a then [OracleClosed] else []))
     (a\<lparr>ap_oracle_db := False\<rparr>)"

definition cfg_redis_Close :: "(string list \<Rightarrow> string list) \<Rightarrow> app \<Rightarrow> app" where
  "cfg_redis_Close order a = (let r = redis_Close order (ap_redis a) in
     app_emit (map RedisEvent (drop (length (trace (ap_redis a))) (trace r))) (a\<lparr>ap_redis := r\<rparr>))"

definition telemetry_Close :: "app \<Rightarrow> app" where
  "telemetry_Close a = (if te_tp (ap_telemetry a) then app_emit [TracerShutdown] a else a)"

definition config_Close :: "(string list \<Rightarrow> string list) \<Rightarrow> app \<Rightarrow> app" where
  "config_Close order a =
    (let a = telemetry_Close (cfg_redis_Close order (oracle_Close a))
     in if ap_TracerProvider a then app_emit [TracerShutdown] a else a)"

definition recorder_stage :: "app \<Rightarrow> app" where
  "recorder_stage a = (case ap_recorder a of None \<Rightarrow> a | Some r \<Rightarrow>
     (case recorder_Stop r of (stopped, r') \<Rightarrow> app_emit (if stopped then [RecorderStopped] else []) (a\<lparr>ap_recorder := Some r'\<rparr>)))"

definition shutdownComponents :: "(string list \<Rightarrow> string list) \<Rightarrow> app \<Rightarrow> app" where
  "shutdownComponents order a =
    (let a = app_emit [FiberShutdown] a;
         a = (if ap_pprof a then app_emit [PprofShutdown] a else a);
         a = recorder_stage a;
         a = (if ap_memstats a then app_emit [MemStatsStopped] a else a);
         a = app_emit [PoolReleased] (a\<lparr>ap_gos := ReleasePool (ap_gos a)\<rparr>);
         a = com_Close a;
         a = config_Close order a
     in app_emit [LogsFlushed, LogsClosed] a)"

definition shutdownTimeout :: "app_Config \<Rightarrow> int" where
  "shutdownTimeout cfg = (if ac_ShutdownTimeout cfg > 0 then wrap64 (ac_ShutdownTimeout cfg * Second) else 30 * Second)"

text \<open>\<open>gracefulShutdown\<close> and the rest of \<open>main\<close>, as the set of the traces they can have. The components are shut
  down in a goroutine of their own. In time (\<open>None\<close>), it ends first, and then \<open>main\<close> closes the log once more. When
  the time is over after \<open>k\<close> of its events (\<open>Some k\<close>), the log is flushed and \<open>main\<close> closes it, while the
  goroutine goes on in parallel until the process ends, after any further number of events.\<close>

definition gracefulShutdown :: "(string list \<Rightarrow> string list) \<Rightarrow> nat option \<Rightarrow> app \<Rightarrow> app_event list set" where
  "gracefulShutdown order late a =
    (let evs = drop (length (ap_trace a)) (ap_trace (shutdownComponents order a))
     in (case late of
           None \<Rightarrow> {evs @ [LogsClosed]}
         | Some k \<Rightarrow> (\<Union>n \<in> {..length evs}. (@) (take k evs) ` shuffles (take n (drop k evs)) [LogsFlushed, LogsClosed])))"

section \<open>The order of shutting down\<close>

lemma app_emit_simps [simp]:
  "ap_trace (app_emit evs a) = ap_trace a @ evs" "ap_redis (app_emit evs a) = ap_redis a" "ap_Rc (app_emit evs a) = ap_Rc a"
  "ap_oracle_db (app_emit evs a) = ap_oracle_db a" "ap_oracle_monitors (app_emit evs a) = ap_oracle_monitors a"
  "ap_DBX (app_emit evs a) = ap_DBX a" "ap_telemetry (app_emit evs a) = ap_telemetry a" "ap_TracerProvider (app_emit evs a) = ap_TracerProvider a"
  "ap_pprof (app_emit evs a) = ap_pprof a" "ap_recorder (app_emit evs a) = ap_recorder a" "ap_memstats (app_emit evs a) = ap_memstats a"
  "ap_gos (app_emit evs a) = ap_gos a"
  by (simp_all add: app_emit_def)

text \<open>The stages, in the order that \<^verbatim>\<open>docs/SKELETON.md\<close> gives.\<close>

definition infra_events :: "app \<Rightarrow> app_event list" where
  "infra_events a = (if ap_DBX a then [DbxClosed] else []) @ (case ap_Rc a of None \<Rightarrow> [] | Some c \<Rightarrow> [RedisEvent (Closed c)])"

definition config_events :: "(string list \<Rightarrow> string list) \<Rightarrow> app \<Rightarrow> app_event list" where
  "config_events order a = map OracleMonitorStopped (ap_oracle_monitors a) @ (if ap_oracle_db a then [OracleClosed] else [])
     @ map RedisEvent (drop (length (trace (ap_redis a))) (trace (redis_Close order (ap_redis a))))
     @ (if te_tp (ap_telemetry a) then [TracerShutdown] else []) @ (if ap_TracerProvider a then [TracerShutdown] else [])"

definition documented_shutdown :: "(string list \<Rightarrow> string list) \<Rightarrow> app \<Rightarrow> app_event list" where
  "documented_shutdown order a =
     [FiberShutdown] @ (if ap_pprof a then [PprofShutdown] else [])
   @ (case ap_recorder a of None \<Rightarrow> [] | Some r \<Rightarrow> if fr_stopped r then [] else [RecorderStopped])
   @ (if ap_memstats a then [MemStatsStopped] else []) @ [PoolReleased]
   @ infra_events a @ config_events order a @ [LogsFlushed, LogsClosed]"

lemma shutdownComponents_trace: "ap_trace (shutdownComponents order a) = ap_trace a @ documented_shutdown order a"
proof -
  have stages: "ap_trace (recorder_stage b) = ap_trace b @ (case ap_recorder b of None \<Rightarrow> [] | Some r \<Rightarrow> if fr_stopped r then [] else [RecorderStopped])"
    "ap_redis (recorder_stage b) = ap_redis b" "ap_Rc (recorder_stage b) = ap_Rc b" "ap_oracle_db (recorder_stage b) = ap_oracle_db b"
    "ap_oracle_monitors (recorder_stage b) = ap_oracle_monitors b" "ap_DBX (recorder_stage b) = ap_DBX b"
    "ap_telemetry (recorder_stage b) = ap_telemetry b" "ap_TracerProvider (recorder_stage b) = ap_TracerProvider b"
    "ap_memstats (recorder_stage b) = ap_memstats b" for b
    by (simp_all add: recorder_stage_def recorder_Stop_def split: option.split)
  have com: "com_Close b = app_emit (infra_events b) b" for b by (simp add: com_Close_def infra_events_def)
  have config: "ap_trace (config_Close order b) = ap_trace b @ config_events order b" for b
    by (simp add: config_Close_def Let_def telemetry_Close_def cfg_redis_Close_def oracle_Close_def config_events_def)
  show ?thesis
    by (simp add: shutdownComponents_def Let_def com config documented_shutdown_def stages infra_events_def config_events_def)
qed

section \<open>What shutting down releases\<close>

lemma wire_redis_trace:
  assumes "wire_redis Ping r = Some st"
  shows "MapRedisMonitor st = []" "rdbMapWithTtl st = []" "\<not> closedOnce st"
    "(rdb st = None \<and> trace st = [] \<and> rc_Addr r = []) \<or> (\<exists>opts. rdb st = Some 0 \<and> trace st = [Opened 0 opts] \<and> rc_Addr r \<noteq> [])"
  using assms by (auto simp: wire_redis_def redis_Init_def open_client_def redis_zero_def split: if_splits option.splits)

lemma newApplication_shape:
  assumes "newApplication exporter Ping load recorder cfg = Some (Inr a)"
  obtains loaded failed where "wire_redis Ping (ac_Redis cfg) = Some (ap_redis a)" "ap_Rc a = rdb (ap_redis a)"
    "\<not> ap_oracle_db a" "ap_oracle_monitors a = []" "\<not> ap_DBX a" "\<not> ap_pprof a" "ap_memstats a"
    "InitTracer exporter (ac_Telemetry cfg) = (ap_TracerProvider a, ap_telemetry a)"
    "ap_recorder a = (case recorder of Inl err \<Rightarrow> None | Inr fr \<Rightarrow> Some fr)"
    "ap_trace a = [LogsOpened, MetricsInit (ac_ServiceName cfg)] @ (if ap_TracerProvider a then [TracerStarted] else [])
       @ map RedisEvent (trace (ap_redis a)) @ [RulesLoaded loaded failed]
       @ (case recorder of Inl err \<Rightarrow> [] | Inr fr \<Rightarrow> [RecorderStarted]) @ [MemStatsStarted]"
  using assms by (auto simp: newApplication_def split: option.splits sum.splits prod.splits)

text \<open>The start and the stop of a component.\<close>

fun released_by :: "app_event \<Rightarrow> app_event \<Rightarrow> bool" where
  "released_by TracerStarted e \<longleftrightarrow> e = TracerShutdown"
| "released_by (RedisEvent (Opened c opts)) e \<longleftrightarrow> e = RedisEvent (Closed c)"
| "released_by RecorderStarted e \<longleftrightarrow> e = RecorderStopped"
| "released_by MemStatsStarted e \<longleftrightarrow> e = MemStatsStopped"
| "released_by (PprofStarted addr) e \<longleftrightarrow> e = PprofShutdown"
| "released_by LogsOpened e \<longleftrightarrow> e = LogsClosed"
| "released_by _ e \<longleftrightarrow> True"

text \<open>The events of a trace that are not the log's.\<close>

definition component_events :: "app_event list \<Rightarrow> app_event list" where
  "component_events evs = filter (\<lambda>e. e \<notin> {LogsFlushed, LogsClosed}) evs"

lemma subseq_shuffles:
  assumes "zs \<in> shuffles xs ys"
  shows "subseq ys zs"
  using assms
proof (induction xs ys arbitrary: zs rule: shuffles.induct)
  case (3 x xs y ys)
  then consider zs' where "zs = x # zs'" "zs' \<in> shuffles xs (y # ys)" | zs' where "zs = y # zs'" "zs' \<in> shuffles (x # xs) ys"
    by auto
  then show ?case using "3.IH" by cases (auto intro: list_emb_Cons subseq_Cons')
qed auto

lemma gracefulShutdown_traces:
  assumes "tr \<in> gracefulShutdown order late a"
  defines "evs \<equiv> documented_shutdown order a"
  shows "prefix (component_events tr) (component_events evs)"
    and "case late of None \<Rightarrow> tr = evs @ [LogsClosed] | Some k \<Rightarrow> \<exists>ys. tr = take k evs @ ys \<and> subseq [LogsFlushed, LogsClosed] ys"
proof -
  have "prefix (component_events tr) (component_events evs)
    \<and> (case late of None \<Rightarrow> tr = evs @ [LogsClosed] | Some k \<Rightarrow> \<exists>ys. tr = take k evs @ ys \<and> subseq [LogsFlushed, LogsClosed] ys)"
  proof (cases late)
    case None
    then show ?thesis using assms by (simp add: gracefulShutdown_def shutdownComponents_trace component_events_def)
  next
    case (Some k)
    then obtain n ys where tr: "tr = take k evs @ ys" and ys: "ys \<in> shuffles (take n (drop k evs)) [LogsFlushed, LogsClosed]"
      using assms by (auto simp: gracefulShutdown_def shutdownComponents_trace Let_def)
    have "component_events ys \<in> shuffles (component_events (take n (drop k evs))) (component_events [LogsFlushed, LogsClosed])"
      using ys unfolding component_events_def by (metis filter_shuffles image_eqI)
    then have "component_events ys = component_events (take n (drop k evs))" by (simp add: component_events_def)
    then have "component_events tr = component_events (take (k + n) evs)" by (simp add: tr component_events_def take_add)
    moreover have "component_events evs = component_events (take (k + n) evs) @ component_events (drop (k + n) evs)"
      unfolding component_events_def by (metis append_take_drop_id filter_append)
    ultimately show ?thesis using subseq_shuffles [OF ys] Some tr by auto
  qed
  then show "prefix (component_events tr) (component_events evs)"
    "case late of None \<Rightarrow> tr = evs @ [LogsClosed] | Some k \<Rightarrow> \<exists>ys. tr = take k evs @ ys \<and> subseq [LogsFlushed, LogsClosed] ys"
    by simp_all
qed

text \<open>C28: Whatever the server has started (\<open>newApplication\<close> has succeeded), the tracer, the Redis client, the flight
  recorder, the memory statistics, the profiling server and the log, is released by \<open>shutdownComponents\<close> when it runs to its end,
  after the server has stopped taking requests, and in the documented order of the components (the maps of clients visited in any order). When that is in time, the
  process ends with everything released and the log flushed and closed after it. When the time is over after
  \<open>k\<close> events, the process ends with some beginning of that order done, nothing out of order, at least the first \<open>k\<close> events, and the log
  is flushed and then closed after those \<open>k\<close>; what the goroutine still does beside that may come before or after
  the flush and the close, and may be missing.\<close>

theorem shutdown_releases:
  assumes "newApplication exporter Ping load (NewFlightRecorder MkdirAll Start) cfg = Some (Inr a0)"
    and "a = start_pprof child cfg a0" and "\<And>ks. mset (order ks) = mset ks"
  shows "(\<exists>evs. documented_shutdown order a = FiberShutdown # evs
      \<and> ap_trace (shutdownComponents order a) = ap_trace a @ FiberShutdown # evs
      \<and> (\<forall>e \<in> set (ap_trace a). \<exists>e' \<in> set (FiberShutdown # evs). released_by e e'))
    \<and> (\<forall>tr \<in> gracefulShutdown order late a.
        prefix (component_events tr) (component_events (documented_shutdown order a))
      \<and> (case late of
           None \<Rightarrow> tr = documented_shutdown order a @ [LogsClosed]
         | Some k \<Rightarrow> \<exists>ys. tr = take k (documented_shutdown order a) @ ys \<and> subseq [LogsFlushed, LogsClosed] ys))"
proof -
  let ?rec = "NewFlightRecorder MkdirAll Start"
  obtain evs where evs: "documented_shutdown order a = FiberShutdown # evs" by (simp add: documented_shutdown_def)
  have nil: "order [] = []" using assms(3) [of "[]"] by simp
  obtain loaded failed where w: "wire_redis Ping (ac_Redis cfg) = Some (ap_redis a0)" "ap_Rc a0 = rdb (ap_redis a0)"
    and m: "ap_memstats a0" "InitTracer exporter (ac_Telemetry cfg) = (ap_TracerProvider a0, ap_telemetry a0)"
      "ap_recorder a0 = (case ?rec of Inl err \<Rightarrow> None | Inr fr \<Rightarrow> Some fr)"
    and t: "ap_trace a0 = [LogsOpened, MetricsInit (ac_ServiceName cfg)] @ (if ap_TracerProvider a0 then [TracerStarted] else [])
       @ map RedisEvent (trace (ap_redis a0)) @ [RulesLoaded loaded failed]
       @ (case ?rec of Inl err \<Rightarrow> [] | Inr fr \<Rightarrow> [RecorderStarted]) @ [MemStatsStarted]"
    by (rule newApplication_shape [OF assms(1)]) blast
  have same: "ap_redis a = ap_redis a0" "ap_Rc a = ap_Rc a0" "ap_memstats a = ap_memstats a0" "ap_recorder a = ap_recorder a0"
      "ap_TracerProvider a = ap_TracerProvider a0"
    and pp: "set (ap_trace a) \<subseteq> set (ap_trace a0) \<union> range PprofStarted" "range PprofStarted \<inter> set (ap_trace a) \<noteq> {} \<longrightarrow> ap_pprof a"
    unfolding assms(2) by (auto simp: start_pprof_def t split: option.splits prod.splits sum.splits)
  have fresh_rec: "\<not> fr_stopped fr" if "?rec = Inr fr" for fr
    using that by (auto simp: NewFlightRecorder_def NewFlightRecorderWithConfig_def Let_def split: option.splits)
  have "\<exists>e' \<in> set (documented_shutdown order a). released_by e e'" if e: "e \<in> set (ap_trace a)" for e
  proof -
    consider "e \<in> set (ap_trace a0)" | "\<exists>addr. e = PprofStarted addr" "ap_pprof a" using e pp by blast
    then show ?thesis
    proof cases
      case 1
      then show ?thesis
        using wire_redis_trace [OF w(1)] fresh_rec w(2) m same
        by (auto simp: t documented_shutdown_def infra_events_def config_events_def split: if_splits sum.splits)
    qed (auto simp: documented_shutdown_def)
  qed
  then show ?thesis using evs gracefulShutdown_traces [of _ order late a]
    by (intro conjI exI [of _ evs] ballI) (simp_all add: shutdownComponents_trace)
qed

text \<open>The container and the configuration both close the one Redis client.\<close>

theorem redis_client_closed_twice:
  assumes "newApplication exporter Ping load recorder cfg = Some (Inr a)" "rc_Addr (ac_Redis cfg) \<noteq> []" "order [] = []"
  shows "count_list (ap_trace (shutdownComponents order a)) (RedisEvent (Closed 0)) = 2"
proof -
  obtain loaded failed where w: "wire_redis Ping (ac_Redis cfg) = Some (ap_redis a)" "ap_Rc a = rdb (ap_redis a)"
    and m: "\<not> ap_oracle_db a" "ap_oracle_monitors a = []" "\<not> ap_DBX a" "\<not> ap_pprof a"
    and t: "ap_trace a = [LogsOpened, MetricsInit (ac_ServiceName cfg)] @ (if ap_TracerProvider a then [TracerStarted] else [])
       @ map RedisEvent (trace (ap_redis a)) @ [RulesLoaded loaded failed]
       @ (case recorder of Inl err \<Rightarrow> [] | Inr fr \<Rightarrow> [RecorderStarted]) @ [MemStatsStarted]"
    by (rule newApplication_shape [OF assms(1)]) blast
  obtain opts where "rdb (ap_redis a) = Some 0" "trace (ap_redis a) = [Opened 0 opts]"
    using wire_redis_trace(4) [OF w(1)] assms(2) by auto
  then show ?thesis using wire_redis_trace(1-3) [OF w(1)] w(2) m assms(3)
    by (simp add: shutdownComponents_trace t documented_shutdown_def infra_events_def config_events_def redis_Close_def
        split: sum.split option.split)
qed

text \<open>With Oracle, the container closes the pool before the configuration stops the monitor that reads it.\<close>

theorem oracle_closed_under_monitor:
  assumes "wire_oracle sql_Open Ping d a = Some a'"
  shows "\<exists>xs ys zs. documented_shutdown order a' = xs @ DbxClosed # ys @ OracleMonitorStopped ''oracleDB'' # zs"
proof -
  have "ap_DBX a'" "''oracleDB'' \<in> set (ap_oracle_monitors a')"
    using assms by (auto simp: wire_oracle_def split: option.splits prod.splits)
  moreover obtain us vs where "ap_oracle_monitors a' = us @ ''oracleDB'' # vs" using split_list calculation(2) by metis
  ultimately have "\<exists>xs ys. infra_events a' = xs @ DbxClosed # ys" "\<exists>us zs. config_events order a' = us @ OracleMonitorStopped ''oracleDB'' # zs"
    by (auto simp: infra_events_def config_events_def)
  then obtain xs ys us zs where "infra_events a' = xs @ DbxClosed # ys" "config_events order a' = us @ OracleMonitorStopped ''oracleDB'' # zs" by blast
  then have "documented_shutdown order a' = (([FiberShutdown] @ (if ap_pprof a' then [PprofShutdown] else [])
     @ (case ap_recorder a' of None \<Rightarrow> [] | Some r \<Rightarrow> if fr_stopped r then [] else [RecorderStopped])
     @ (if ap_memstats a' then [MemStatsStopped] else []) @ [PoolReleased]) @ xs) @ DbxClosed #
       (ys @ us) @ OracleMonitorStopped ''oracleDB'' # (zs @ [LogsFlushed, LogsClosed])"
    by (simp add: documented_shutdown_def)
  then show ?thesis by blast
qed

definition demo_app :: app_Config where
  "demo_app = \<lparr>ac_Name = ''rulex'', ac_ServiceName = ''TCG-UCS-FE'', ac_Host = ''0.0.0.0'', ac_Port = 18080, ac_BodyLimit = 52428800,
     ac_Timeout = 30, ac_ShutdownTimeout = 30, ac_Redis = demo_redis,
     ac_Telemetry = \<lparr>te_tp = False, te_ServerName = ''rulex'', te_Endpoint = ''collector:4318'', te_Batcher = ''otlp'',
       te_Sampler = float64_of_int 1, te_Enabled = True\<rparr>, ac_Pprof = Some (''::1'', 6060)\<rparr>"

theorem shutdown_releases_witness:
  "\<exists>a0 evs. newApplication (\<lambda>_. True) (\<lambda>_. True) (Inr (3, 0) :: unit + int \<times> int)
      (NewFlightRecorder (\<lambda>_. None) (\<lambda>_. None) :: unit + FlightRecorder) demo_app = Some (Inr a0)
    \<and> ap_trace (shutdownComponents rev (start_pprof False demo_app a0)) = ap_trace (start_pprof False demo_app a0) @ FiberShutdown # evs
    \<and> (\<forall>tr \<in> gracefulShutdown rev (Some 2) (start_pprof False demo_app a0). \<exists>ys. tr = FiberShutdown # PprofShutdown # ys)"
proof -
  let ?rec = "NewFlightRecorder (\<lambda>_. None) (\<lambda>_. None) :: unit + FlightRecorder"
  let ?new = "newApplication (\<lambda>_. True) (\<lambda>_. True) (Inr (3, 0) :: unit + int \<times> int) ?rec demo_app"
  have "wire_redis (\<lambda>_. True) (ac_Redis demo_app) \<noteq> None"
    by (simp add: wire_redis_def redis_Init_def demo_app_def demo_redis_def newClientOptions_def open_client_def)
  then obtain a0 where a0: "?new = Some (Inr a0)"
    by (cases "InitTracer (\<lambda>_. True) (ac_Telemetry demo_app)") (auto simp: newApplication_def)
  let ?a = "start_pprof False demo_app a0"
  have "ap_pprof ?a" by (simp add: start_pprof_def demo_app_def)
  then have "take 2 (documented_shutdown rev ?a) = [FiberShutdown, PprofShutdown]" by (simp add: documented_shutdown_def)
  then show ?thesis using shutdown_releases [OF a0 refl, of rev False "Some 2"] a0 by fastforce
qed

end
