(* ===== verification/Api_Docs.thy ===== *)
theory Api_Docs
  imports Router App_Lifecycle Log_Output
begin

text \<open>
  The routes beside the API: the Swagger page of \<^verbatim>\<open>internal/router/swagger.go\<close> with the host it shows, the
  metrics and probes at the root of \<^verbatim>\<open>internal/router/prometheus.go\<close>, and the choice of the requests that are
  traced, \<^verbatim>\<open>internal/middleware/trace.go\<close>. The environment, the interfaces of the machine and the
  outbound address are arguments; \<open>SplitHostPort\<close> and \<open>Atoi\<close> are those of the standard library.

  Shown: the port of a listen address is found again; the outbound address is never asked for, since the
  search for a local one always answers; and no request to the API or the Swagger page is
  excluded from the metrics.
\<close>

section \<open>net.SplitHostPort\<close>

datatype addr_error = MissingPort | TooManyColons | MissingBracket | UnexpectedOpen | UnexpectedClose

definition IndexByte :: "string \<Rightarrow> char \<Rightarrow> int" where
  "IndexByte s c = (if c \<in> set s then int (length (takeWhile (\<lambda>x. x \<noteq> c) s)) else -1)"

definition SplitHostPort :: "string \<Rightarrow> addr_error + (string \<times> string)" where
  "SplitHostPort hostport =
    (let i = LastIndexByte hostport CHR '':''; port = drop (nat (i + 1)) hostport;
         finish = (\<lambda>host j k.
           if CHR ''['' \<in> set (drop j hostport) then Inl UnexpectedOpen
           else if CHR '']'' \<in> set (drop k hostport) then Inl UnexpectedClose
           else Inr (host, port))
     in if i < 0 then Inl MissingPort
     else if hd hostport = CHR ''['' then
       (let e = IndexByte hostport CHR '']'' in
        if e < 0 then Inl MissingBracket
        else if e + 1 = int (length hostport) then Inl MissingPort
        else if e + 1 = i then finish (drop 1 (take (nat e) hostport)) 1 (nat (e + 1))
        else if hostport ! nat (e + 1) = CHR '':'' then Inl TooManyColons
        else Inl MissingPort)
     else
       (let host = take (nat i) hostport in
        if CHR '':'' \<in> set host then Inl TooManyColons else finish host 0 0))"

section \<open>internal/router/swagger.go\<close>

definition trim_colon :: "string \<Rightarrow> string" where
  "trim_colon addr = (case addr of CHR '':'' # port \<Rightarrow> port | _ \<Rightarrow> addr)"

definition portFromAddr :: "string \<Rightarrow> int" where
  "portFromAddr addr =
    (let portStr = (case SplitHostPort addr of Inr (host, port) \<Rightarrow> port | Inl err \<Rightarrow> trim_colon addr)
     in case ParseInt portStr of Some p \<Rightarrow> p | None \<Rightarrow> 8080)"

text \<open>An address of the machine: its text, and whether it is a network of the right kind.\<close>

record net_addr =
  na_IPNet :: bool
  na_Loopback :: bool
  na_To4 :: bool
  na_Text :: string

fun first_local :: "net_addr list \<Rightarrow> string" where
  "first_local [] = ''localhost''"
| "first_local (a # as) = (if na_IPNet a \<and> \<not> na_Loopback a \<and> na_To4 a then na_Text a else first_local as)"

definition getLocalIP :: "'e + net_addr list \<Rightarrow> string" where
  "getLocalIP InterfaceAddrs = (case InterfaceAddrs of Inl err \<Rightarrow> ''localhost'' | Inr addrs \<Rightarrow> first_local addrs)"

definition getOutboundIP :: "'e + string \<Rightarrow> 'e + net_addr list \<Rightarrow> string" where
  "getOutboundIP Dial InterfaceAddrs = (case Dial of Inl err \<Rightarrow> getLocalIP InterfaceAddrs | Inr ip \<Rightarrow> ip)"

definition swagger_host :: "string \<Rightarrow> 'e + string \<Rightarrow> 'e + net_addr list \<Rightarrow> string" where
  "swagger_host SWAGGER_HOST Dial InterfaceAddrs =
    (let host = SWAGGER_HOST;
         host = (if host = '''' then getLocalIP InterfaceAddrs else host)
     in if host = '''' then getOutboundIP Dial InterfaceAddrs else host)"

record swagger_info =
  sw_Host :: string
  sw_BasePath :: string
  sw_Version :: string
  sw_Schemes :: "string list"

definition registerSwagger :: "string \<Rightarrow> 'e + string \<Rightarrow> 'e + net_addr list \<Rightarrow> int \<Rightarrow> swagger_info" where
  "registerSwagger SWAGGER_HOST Dial InterfaceAddrs port =
    \<lparr>sw_Host = JoinHostPort (swagger_host SWAGGER_HOST Dial InterfaceAddrs) (Itoa port), sw_BasePath = BasePath,
     sw_Version = ''2.0'', sw_Schemes = [''http'']\<rparr>"

text \<open>What \<open>Serve\<close> shows for its listen address.\<close>

definition serve_swagger :: "string \<Rightarrow> 'e + string \<Rightarrow> 'e + net_addr list \<Rightarrow> string \<Rightarrow> swagger_info" where
  "serve_swagger SWAGGER_HOST Dial InterfaceAddrs addr = registerSwagger SWAGGER_HOST Dial InterfaceAddrs (portFromAddr addr)"

section \<open>internal/router/prometheus.go and internal/middleware/trace.go\<close>

definition RegisterPrometheus :: FiberPrometheus where
  "RegisterPrometheus = NewFiberPrometheus [''/ping'', ''/swagger'', ''/favicon.ico'', ''/metrics'', ''/monitor''] [401, 403, 404]"

text \<open>The name of the span of a request, unless its path is skipped.\<close>

definition EnableOtelTrace :: "string list \<Rightarrow> request \<Rightarrow> string option" where
  "EnableOtelTrace SkipPaths c = (if rq_path c \<in> set SkipPaths then None else Some (rq_method c @ '' '' @ rq_path c))"

section \<open>Ports and hosts\<close>

lemma digits_val_dec: "list_all is_dec ds \<Longrightarrow> digits_val ds = dec_val 0 ds"
proof -
  have "list_all is_dec ds \<Longrightarrow> foldl (\<lambda>n c. 10 * n + (of_char c - 48)) v ds = dec_val v ds" for v
    by (induction ds arbitrary: v) (simp_all add: digit_val_def is_dec_def mult.commute)
  then show "list_all is_dec ds \<Longrightarrow> digits_val ds = dec_val 0 ds" by (simp add: digits_val_def)
qed

lemma ParseInt_Itoa: "in_int64 n \<Longrightarrow> ParseInt (Itoa n) = Some n"
proof -
  assume n: "in_int64 n"
  have d: "digits_val (dec_digits m) = m" "list_all is_dec (dec_digits m)" "dec_digits m \<noteq> []" if "0 \<le> m" for m
    using dec_digits_read [OF that] by (simp_all add: digits_val_dec)
  have s: "dec_digits m \<noteq> CHR ''-'' # t" "dec_digits m \<noteq> CHR ''+'' # t" if "0 \<le> m" for m t
    using d(2) [OF that] by (auto simp: is_dec_def)
  show ?thesis
  proof (cases "n < 0")
    case True
    then have "0 \<le> - n" by simp
    from d [OF this] n True show ?thesis by (simp add: ParseInt_def Itoa_def Let_def)
  next
    case False
    then have "0 \<le> n" by simp
    then have "(case dec_digits n of CHR ''-'' # t \<Rightarrow> (True, t) | CHR ''+'' # t \<Rightarrow> (False, t) | _ \<Rightarrow> (False, dec_digits n)) = (False, dec_digits n)"
      using s by (auto split: list.splits char.splits bool.splits)
    with d [OF \<open>0 \<le> n\<close>] n False show ?thesis by (simp add: ParseInt_def Itoa_def Let_def)
  qed
qed

lemma Itoa_chars:
  assumes "c \<in> set (Itoa n)" shows "c = CHR ''-'' \<or> is_dec c"
proof (cases "n < 0")
  case True
  then have "list_all is_dec (dec_digits (- n))" using dec_digits_read [of "- n"] by simp
  then show ?thesis using assms True by (auto simp: Itoa_def list_all_iff)
next
  case False
  then have "list_all is_dec (dec_digits n)" using dec_digits_read [of n] by simp
  then show ?thesis using assms False by (auto simp: Itoa_def list_all_iff)
qed

lemma Itoa_plain [simp]: "CHR '':'' \<notin> set (Itoa n)" "CHR ''['' \<notin> set (Itoa n)" "CHR '']'' \<notin> set (Itoa n)"
  using Itoa_chars by (force simp: is_dec_def)+

text \<open>The port that the command line shows on its documentation page is the port it listens on, for every host, with
  an IPv6 address in brackets or without a host at all.\<close>

theorem portFromAddr_JoinHostPort:
  assumes "CHR ''['' \<notin> set host" "CHR '']'' \<notin> set host" "in_int64 port"
  shows "portFromAddr (JoinHostPort host (Itoa port)) = port"
proof (cases "CHR '':'' \<in> set host")
  case False
  let ?a = "host @ CHR '':'' # Itoa port"
  have "LastIndexByte ?a CHR '':'' = int (length host)" by (simp add: LastIndexByte_last)
  moreover have "hd ?a \<noteq> CHR ''[''" using assms(1) by (cases host) auto
  ultimately have "SplitHostPort ?a = Inr (host, Itoa port)"
    using False assms by (simp add: SplitHostPort_def Let_def nat_add_distrib)
  then show ?thesis using False assms(3) by (simp add: portFromAddr_def JoinHostPort_def ParseInt_Itoa)
next
  case True
  let ?a = "CHR ''['' # host @ CHR '']'' # CHR '':'' # Itoa port"
  have "LastIndexByte ((CHR ''['' # host @ [CHR '']'']) @ CHR '':'' # Itoa port) CHR '':'' = int (length (CHR ''['' # host @ [CHR '']'']))"
    by (rule LastIndexByte_last) simp
  then have i: "LastIndexByte ?a CHR '':'' = int (length host) + 2" by simp
  have "takeWhile (\<lambda>x. x \<noteq> CHR '']'') ?a = CHR ''['' # host" using assms(2) by (simp add: takeWhile_append)
  then have e: "IndexByte ?a CHR '']'' = int (length host) + 1" by (simp add: IndexByte_def)
  have d: "drop (3 + length host) ?a = Itoa port" by (simp add: numeral_3_eq_3)
  have "SplitHostPort ?a = Inr (host, Itoa port)"
    using assms d unfolding SplitHostPort_def i e by (simp add: Let_def nat_add_distrib)
  then show ?thesis using True assms(3) by (simp add: portFromAddr_def JoinHostPort_def ParseInt_Itoa)
qed

theorem portFromAddr_JoinHostPort_witness:
  "portFromAddr ''[::1]:8080'' = 8080 \<and> portFromAddr '':18080'' = 18080"
proof -
  have i: "Itoa 8080 = ''8080''" "Itoa 18080 = ''18080''" by code_simp+
  have "portFromAddr (JoinHostPort ''::1'' (Itoa 8080)) = 8080" "portFromAddr (JoinHostPort [] (Itoa 18080)) = 18080"
    by (rule portFromAddr_JoinHostPort; simp add: in_int64_def)+
  then show ?thesis by (simp add: i JoinHostPort_def)
qed

text \<open>The outbound address is dead code: the local search never returns the empty text.\<close>

theorem swagger_host_local:
  assumes "\<forall>a \<in> set (case InterfaceAddrs of Inl err \<Rightarrow> [] | Inr addrs \<Rightarrow> addrs). na_Text a \<noteq> []"
  shows "swagger_host SWAGGER_HOST Dial InterfaceAddrs =
    (if SWAGGER_HOST = '''' then getLocalIP InterfaceAddrs else SWAGGER_HOST)"
proof -
  have "first_local as \<noteq> []" if "\<forall>a \<in> set as. na_Text a \<noteq> []" for as using that by (induction as) auto
  then have "getLocalIP InterfaceAddrs \<noteq> []" using assms by (auto simp: getLocalIP_def split: sum.splits)
  then show ?thesis by (simp add: swagger_host_def Let_def)
qed

text \<open>The skip list of the metrics names whole paths at the root: nothing below the base path of the API is on it, and
  of the Swagger page only the bare path, which is not the one that is served.\<close>

theorem metrics_skip_nothing:
  "BasePath @ path \<notin> set (fp_skipPaths RegisterPrometheus)" "''/swagger/'' @ page \<notin> set (fp_skipPaths RegisterPrometheus)"
  by (auto simp: RegisterPrometheus_def NewFiberPrometheus_def BasePath_def)

end
